(* ===== verification/Prelude.thy ===== *)
theory Prelude
  imports Main "HOL-Library.Word" "HOL-Library.Multiset" "HOL-Library.Signed_Division"
begin

text \<open>
  What the components share: the names of the machine integer types, Rust's integer
  operations that are not the wrapping ones of the word type (\<open>saturating_sub\<close>,
  \<open>checked_sub\<close>, \<open>min\<close> and \<open>max\<close> come with the order), Rust's
  \<open>map_or\<close> and \<open>unwrap_or\<close>, and generic facts on words, lists and options.
\<close>

unbundle bit_operations_syntax

type_synonym u8 = "8 word"
type_synonym u32 = "32 word"
type_synonym i32 = "32 word"
type_synonym u64 = "64 word"
type_synonym usize = "64 word"

named_theorems u32_simps "reading of 32-bit operations as natural numbers"
named_theorems model_defs "unfolding of small definitions of the model"

section \<open>Options\<close>

text \<open>Rust's \<open>Option::map_or\<close> and \<open>Option::unwrap_or\<close>.\<close>

definition map_or :: "'b \<Rightarrow> ('a \<Rightarrow> 'b) \<Rightarrow> 'a option \<Rightarrow> 'b" where
  "map_or d f x = (case x of None \<Rightarrow> d | Some a \<Rightarrow> f a)"

definition unwrap_or :: "'a \<Rightarrow> 'a option \<Rightarrow> 'a" where
  "unwrap_or d x = (case x of None \<Rightarrow> d | Some a \<Rightarrow> a)"

lemma map_or_simps [simp]:
  "map_or d f None = d" "map_or d f (Some a) = f a"
  by (simp_all add: map_or_def)

lemma unwrap_or_simps [simp]:
  "unwrap_or d None = d" "unwrap_or d (Some a) = a"
  by (simp_all add: unwrap_or_def)

section \<open>Words\<close>

text \<open>Rust's \<open>saturating_sub\<close>.\<close>

definition saturating_sub :: "'a::len word \<Rightarrow> 'a word \<Rightarrow> 'a word" where
  "saturating_sub a b = (if b \<le> a then a - b else 0)"

lemma unat_min [u32_simps, simp]: "unat (min a b) = min (unat a) (unat b)"
  by (simp add: min_def word_le_nat_alt)

lemma unat_max [u32_simps, simp]: "unat (max a b) = max (unat a) (unat b)"
  by (simp add: max_def word_le_nat_alt)

lemma unat_saturating_sub [u32_simps, simp]:
  "unat (saturating_sub a b) = unat a - unat b"
  by (auto simp: saturating_sub_def word_le_nat_alt unat_sub)

lemma unat_sub_le: "b \<le> a \<Longrightarrow> unat (a - b) = unat a - unat b"
  by (simp add: unat_sub)

lemma unat_add_small:
  "unat a + unat b < 2 ^ LENGTH('a) \<Longrightarrow> unat (a + b) = unat a + unat (b :: 'a::len word)"
  by (simp add: unat_word_ariths)

lemma unat_mult_small:
  "unat a * unat b < 2 ^ LENGTH('a) \<Longrightarrow> unat (a * b) = unat a * unat (b :: 'a::len word)"
  by (simp add: unat_word_ariths)

lemma word_le_unat: "a \<le> b \<longleftrightarrow> unat a \<le> unat b" for a b :: "'a::len word"
  by (rule word_le_nat_alt)

lemma word_less_unat: "a < b \<longleftrightarrow> unat a < unat b" for a b :: "'a::len word"
  by (rule word_less_nat_alt)

lemma ucast_max: "(ucast (- 1 :: usize) :: u32) = - 1"
  by (rule bit_word_eqI) (simp add: bit_ucast_iff)

text \<open>
  Signed integers are words read in two's complement: \<open>/\<close>, which truncates, and
  \<open>min\<close> and \<open>max\<close>.
\<close>

definition sdiv_word :: "'a::len word \<Rightarrow> 'a word \<Rightarrow> 'a word" where
  "sdiv_word a b = word_of_int (sint a sdiv sint b)"

definition smin :: "'a::len word \<Rightarrow> 'a word \<Rightarrow> 'a word" where
  "smin a b = (if sint a \<le> sint b then a else b)"

definition smax :: "'a::len word \<Rightarrow> 'a word \<Rightarrow> 'a word" where
  "smax a b = (if sint b \<le> sint a then a else b)"

lemma sint_smin [simp]: "sint (smin a b) = min (sint a) (sint b)"
  by (simp add: smin_def min_def)

lemma sint_smax [simp]: "sint (smax a b) = max (sint a) (sint b)"
  by (simp add: smax_def max_def)

section \<open>Blocks\<close>

text \<open>Quotient and remainder of a number written as a block and an offset in it.\<close>

lemma block_div: "r < m \<Longrightarrow> (r + q * m) div m = q" for r m q :: nat
  by simp

lemma block_mod: "r < m \<Longrightarrow> (r + q * m) mod m = r" for r m q :: nat
  by simp

section \<open>Lists\<close>

lemma mset_swap_idx:
  "i < length xs \<Longrightarrow> j < length xs \<Longrightarrow> mset (xs[i := xs ! j, j := xs ! i]) = mset xs"
  by (rule mset_swap)

lemma nth_swap_idx:
  assumes "i < length xs" "j < length xs" "k < length xs"
  shows "xs[i := xs ! j, j := xs ! i] ! k
     = (if k = j then xs ! i else if k = i then xs ! j else xs ! k)"
  using assms by (auto simp: nth_list_update)

end
