(* ===== verification/Rounding.thy ===== *)
theory Rounding
  imports Prelude "HOL-Library.Log_Nat" Complex_Main
begin

text \<open>
  Rounding to the nearest binary floating point number, ties to even, on magnitudes. A
  magnitude is the bit pattern of a non-negative number read as a natural number; it
  increases with the value it stands for. The functions compute on natural numbers; the
  lemmas relate them to the real values: rounding keeps representable values, never
  crosses one, and is monotone. The theory F64 builds the arithmetic of Rust's \<open>f64\<close> on it.
\<close>

section \<open>Magnitudes\<close>

text \<open>
  A format is given by the number \<open>t\<close> of fraction bits and the exponent \<open>b\<close> of
  its smallest positive number, 2 to the power of minus \<open>b\<close> (52 and 1074 for
  binary64, 23 and 149 for binary32). A magnitude \<open>N\<close> stands for
  \<open>man N * 2 ^ ex N / 2 ^ b\<close>; subnormal numbers are the magnitudes below
  \<open>2 ^ t\<close>.
\<close>

definition ex :: "nat \<Rightarrow> nat \<Rightarrow> nat" where
  "ex t N = N div 2 ^ t - 1"

definition man :: "nat \<Rightarrow> nat \<Rightarrow> nat" where
  "man t N = (if N < 2 ^ t then N else 2 ^ t + N mod 2 ^ t)"

definition gval :: "nat \<Rightarrow> nat \<Rightarrow> nat \<Rightarrow> real" where
  "gval t b N = real (man t N) * 2 ^ ex t N / 2 ^ b"

definition enc :: "nat \<Rightarrow> nat \<Rightarrow> nat \<Rightarrow> nat" where
  "enc t E k = E * 2 ^ t + k"

lemma enc_ex_man: "enc t (ex t N) (man t N) = N"
proof (cases "N < 2 ^ t")
  case True
  then show ?thesis by (simp add: enc_def ex_def man_def)
next
  case False
  then have "1 \<le> N div 2 ^ t" by (simp add: Suc_le_eq div_greater_zero_iff)
  then have "(N div 2 ^ t - 1) * 2 ^ t + 2 ^ t = N div 2 ^ t * 2 ^ t"
    by (simp add: algebra_simps)
  moreover have "N div 2 ^ t * 2 ^ t + N mod 2 ^ t = N" by (rule div_mult_mod_eq)
  ultimately show ?thesis using False unfolding enc_def ex_def man_def by simp
qed

lemma man_less: "man t N < 2 ^ Suc t"
  by (auto simp: man_def)

lemma man_ge: "0 < ex t N \<Longrightarrow> 2 ^ t \<le> man t N"
  by (auto simp: man_def ex_def)

lemma gval_enc:
  assumes "k \<le> 2 ^ Suc t" "E = 0 \<or> 2 ^ t \<le> k"
  shows "gval t b (enc t E k) = real k * 2 ^ E / 2 ^ b"
proof -
  consider "k < 2 ^ t" "E = 0" | "2 ^ t \<le> k" "k < 2 ^ Suc t" | "k = 2 ^ Suc t"
    using assms by linarith
  then show ?thesis
  proof cases
    case 1
    then show ?thesis by (simp add: gval_def enc_def ex_def man_def)
  next
    case 2
    then obtain r where r: "k = 2 ^ t + r" "r < 2 ^ t"
      by (metis add.commute le_Suc_ex less_diff_conv2 mult_2 nat_add_left_cancel_less power_Suc)
    have "enc t E k = r + (E + 1) * 2 ^ t" by (simp add: enc_def r)
    then have "enc t E k div 2 ^ t = E + 1" "enc t E k mod 2 ^ t = r"
      using block_div [OF r(2)] block_mod [OF r(2)] by metis+
    moreover have "\<not> enc t E k < 2 ^ t" using 2(1) by (simp add: enc_def)
    ultimately have "ex t (enc t E k) = E" "man t (enc t E k) = k"
      unfolding ex_def man_def by (simp_all add: r(1))
    then show ?thesis by (simp add: gval_def)
  next
    case 3
    then have "enc t E k = (E + 2) * 2 ^ t" by (simp add: enc_def)
    then have "ex t (enc t E k) = Suc E" "man t (enc t E k) = 2 ^ t"
      by (simp_all add: ex_def man_def del: mult_Suc)
    then show ?thesis using 3 by (simp add: gval_def)
  qed
qed

lemma gval_Suc: "gval t b (Suc N) = gval t b N + 2 ^ ex t N / 2 ^ b"
proof -
  let ?E = "ex t N" and ?k = "man t N"
  have "enc t ?E (Suc ?k) = Suc N" using enc_ex_man [of t N] by (simp add: enc_def)
  moreover have "Suc ?k \<le> 2 ^ Suc t" using man_less [of t N] by simp
  moreover have "?E = 0 \<or> 2 ^ t \<le> Suc ?k" using man_ge [of t N] by force
  ultimately have "gval t b (Suc N) = real (Suc ?k) * 2 ^ ?E / 2 ^ b"
    using gval_enc by metis
  then show ?thesis by (simp add: gval_def field_simps)
qed

lemma gval_strict_mono: "strict_mono (gval t b)"
  by (rule strict_mono_Suc_iff [THEN iffD2]) (simp add: gval_Suc)

lemma gval_less_iff [simp]: "gval t b M < gval t b N \<longleftrightarrow> M < N"
  using gval_strict_mono by (rule strict_mono_less)

lemma gval_le_iff [simp]: "gval t b M \<le> gval t b N \<longleftrightarrow> M \<le> N"
  using gval_strict_mono by (rule strict_mono_less_eq)

lemma gval_0 [simp]: "gval t b 0 = 0"
  by (simp add: gval_def man_def)

lemma gval_nonneg [simp]: "0 \<le> gval t b N"
  by (simp add: gval_def)

section \<open>Rounding a ratio of natural numbers\<close>

text \<open>The number of binary digits, with an accumulator, for evaluation by rewriting.\<close>

fun digits_acc :: "nat \<Rightarrow> nat \<Rightarrow> nat" where
  "digits_acc n acc = (if n = 0 then acc else digits_acc (n div 2) (acc + 1))"

declare digits_acc.simps [simp del]

lemma floorlog_digits_acc: "floorlog 2 n + acc = digits_acc n acc"
  by (induction n acc rule: digits_acc.induct)
    (subst digits_acc.simps, simp add: compute_floorlog)

lemma floorlog_digits: "floorlog 2 n = digits_acc n 0"
  using floorlog_digits_acc [of n 0] by simp

text \<open>The ratio \<open>n / d\<close> divided by \<open>2 ^ e\<close>, as a ratio again.\<close>

definition scale :: "nat \<Rightarrow> nat \<Rightarrow> int \<Rightarrow> nat \<times> nat" where
  "scale n d e = (if 0 \<le> e then (n, d * 2 ^ nat e) else (n * 2 ^ nat (- e), d))"

text \<open>The nearest integer, the even one of two at the same distance.\<close>

definition rhe :: "nat \<Rightarrow> nat \<Rightarrow> nat" where
  "rhe n d = (let q = n div d; r = n mod d in
     if 2 * r < d then q else if d < 2 * r then q + 1 else if even q then q else q + 1)"

text \<open>The binary exponent of a ratio: it lies between 2 to this power and twice that.\<close>

definition ratio_exp :: "nat \<Rightarrow> nat \<Rightarrow> int" where
  "ratio_exp n d = (let L = int (floorlog 2 n) - int (floorlog 2 d) in
     case scale n d L of (n', d') \<Rightarrow> if d' \<le> n' then L else L - 1)"

definition round_exp :: "nat \<Rightarrow> nat \<Rightarrow> nat \<Rightarrow> nat \<Rightarrow> int" where
  "round_exp t b n d = max (- int b) (ratio_exp n d - int t)"

definition round_mag :: "nat \<Rightarrow> nat \<Rightarrow> nat \<Rightarrow> nat \<Rightarrow> nat" where
  "round_mag t b n d = (if n = 0 then 0 else
     let e = round_exp t b n d in
     case scale n d e of (n', d') \<Rightarrow> enc t (nat (e + int b)) (rhe n' d'))"

lemma scale_ratio:
  assumes "0 < d" "scale n d e = (n', d')"
  shows "0 < d'" "real n' / real d' = real n / real d / 2 powi e" "n' = 0 \<longleftrightarrow> n = 0"
  using assms by (auto simp: scale_def power_int_def field_simps split: if_splits)

lemma rhe_bounds:
  assumes "0 < d"
  shows "real (rhe n d) \<le> real n / real d + 1 / 2" "real n / real d - 1 / 2 \<le> real (rhe n d)"
proof -
  let ?q = "n div d" and ?r = "n mod d"
  have "n = ?q * d + ?r" by simp
  then have "real n = real ?q * real d + real ?r"
    by (metis of_nat_add of_nat_mult)
  then have *: "real n / real d = real ?q + real ?r / real d"
    using assms by (simp add: field_simps)
  have r: "0 \<le> real ?r / real d" "real ?r / real d < 1" using assms by simp_all
  have lo: "2 * ?r \<le> d \<Longrightarrow> real ?r / real d \<le> 1 / 2"
    using assms by (simp add: pos_divide_le_eq flip: of_nat_mult)
  have hi: "d \<le> 2 * ?r \<Longrightarrow> 1 / 2 \<le> real ?r / real d"
    using assms by (simp add: pos_le_divide_eq flip: of_nat_mult)
  have "rhe n d = ?q \<and> 2 * ?r \<le> d \<or> rhe n d = ?q + 1 \<and> d \<le> 2 * ?r"
    unfolding rhe_def Let_def by (cases "2 * ?r < d"; cases "d < 2 * ?r") simp_all
  then consider "real (rhe n d) = real ?q" "real ?r / real d \<le> 1 / 2"
    | "real (rhe n d) = real ?q + 1" "1 / 2 \<le> real ?r / real d"
    using lo hi by fastforce
  then show "real (rhe n d) \<le> real n / real d + 1 / 2" "real n / real d - 1 / 2 \<le> real (rhe n d)"
    unfolding * using r by (cases; linarith)+
qed

lemma two_powi_add: "(2::real) powi (i + j) = 2 powi i * 2 powi j"
  by (simp add: power_int_add)

lemma floorlog_powi:
  assumes "0 < n"
  shows "2 powi (int (floorlog 2 n) - 1) \<le> real n" "real n < 2 powi int (floorlog 2 n)"
proof -
  have b: "2 ^ (floorlog 2 n - 1) \<le> n \<and> n < 2 ^ floorlog 2 n"
    using floorlog_bounds [of n 2] assms by simp
  have "1 \<le> floorlog 2 n" using assms by (simp add: floorlog_def)
  then have "(2::real) powi (int (floorlog 2 n) - 1) = 2 ^ (floorlog 2 n - 1)"
    by (simp add: power_int_def nat_diff_distrib)
  also have "\<dots> = real (2 ^ (floorlog 2 n - 1))" by simp
  finally show "2 powi (int (floorlog 2 n) - 1) \<le> real n"
    using b by (simp only: of_nat_le_iff)
  have "real n < real (2 ^ floorlog 2 n)" using b by (simp only: of_nat_less_iff)
  then show "real n < 2 powi int (floorlog 2 n)" by (simp add: power_int_def)
qed

lemma ratio_bounds:
  fixes x y :: real
  assumes "2 powi (i - 1) \<le> x" "x < 2 powi i" "2 powi (j - 1) \<le> y" "y < 2 powi j"
  shows "2 powi (i - j - 1) \<le> x / y" "x / y < 2 powi (i - j + 1)"
proof -
  have y: "0 < y" using assms(3) by (smt (verit) zero_less_power_int)
  have "(2::real) powi (i - j - 1) * y \<le> 2 powi (i - j - 1) * 2 powi j"
    using assms(4) by (intro mult_left_mono) auto
  also have "\<dots> = 2 powi (i - 1)" by (simp flip: power_int_add)
  finally show "2 powi (i - j - 1) \<le> x / y" using assms(1) y by (simp add: pos_le_divide_eq)
  have "(2::real) powi i = 2 powi (i - j + 1) * 2 powi (j - 1)" by (simp flip: power_int_add)
  also have "\<dots> \<le> 2 powi (i - j + 1) * y" using assms(3) by (intro mult_left_mono) auto
  finally show "x / y < 2 powi (i - j + 1)" using assms(2) y by (simp add: pos_divide_less_eq)
qed

lemma ratio_exp_bounds:
  assumes "0 < n" "0 < d"
  shows "2 powi ratio_exp n d \<le> real n / real d" "real n / real d < 2 powi (ratio_exp n d + 1)"
proof -
  let ?L = "int (floorlog 2 n) - int (floorlog 2 d)"
  obtain n' d' where nd: "scale n d ?L = (n', d')" by fastforce
  note sc = scale_ratio [OF assms(2) nd]
  note lohi = ratio_bounds [OF floorlog_powi [OF assms(1)] floorlog_powi [OF assms(2)]]
  have "real n' / real d' = real n / real d / 2 powi ?L" by (rule sc(2))
  moreover have "d' \<le> n' \<longleftrightarrow> 1 \<le> real n' / real d'" using sc(1) by simp
  moreover have "1 \<le> x / 2 powi ?L \<longleftrightarrow> 2 powi ?L \<le> x" for x :: real
    by (simp add: pos_le_divide_eq)
  ultimately have mid: "d' \<le> n' \<longleftrightarrow> 2 powi ?L \<le> real n / real d" by metis
  show "2 powi ratio_exp n d \<le> real n / real d" "real n / real d < 2 powi (ratio_exp n d + 1)"
    using lohi mid nd unfolding ratio_exp_def Let_def by auto
qed

lemma block_unit:
  fixes x u :: real
  shows "x < u * 2 ^ E / 2 ^ b \<longleftrightarrow> x * 2 ^ b / 2 ^ E < u"
    "u * 2 ^ E / 2 ^ b \<le> x \<longleftrightarrow> u \<le> x * 2 ^ b / 2 ^ E"
    "u * 2 ^ E / 2 ^ b < x \<longleftrightarrow> u < x * 2 ^ b / 2 ^ E"
  by (auto simp: field_simps)

text \<open>
  The result of rounding, described: a block index and a count in the block, the count
  within one half of the scaled ratio.
\<close>

lemma round_mag_cases:
  assumes "0 < n" "0 < d"
  obtains E k where
    "round_mag t b n d = enc t E k" "k \<le> 2 ^ Suc t" "E = 0 \<or> 2 ^ t \<le> k"
    "real k \<le> real n / real d * 2 ^ b / 2 ^ E + 1 / 2"
    "real n / real d * 2 ^ b / 2 ^ E - 1 / 2 \<le> real k"
    "real n / real d * 2 ^ b / 2 ^ E < 2 ^ Suc t"
    "E = 0 \<or> 2 ^ t \<le> real n / real d * 2 ^ b / 2 ^ E"
    "int E = round_exp t b n d + int b"
proof -
  let ?e = "round_exp t b n d" and ?r = "ratio_exp n d"
  let ?E = "nat (?e + int b)"
  let ?x = "real n / real d"
  obtain n' d' where nd: "scale n d ?e = (n', d')" by fastforce
  note sc = scale_ratio [OF assms(2) nd]
  let ?k = "rhe n' d'"
  have E: "int ?E = ?e + int b" by (simp add: round_exp_def)
  have "(2::real) powi ?e = 2 powi (int ?E - int b)" using E by simp
  also have "\<dots> = 2 ^ ?E / 2 ^ b" by (subst power_int_diff) (simp_all del: of_nat_nat int_nat_eq)
  finally have q: "real n' / real d' = ?x * 2 ^ b / 2 ^ ?E" using sc(2) by simp
  have xr: "2 powi ?r \<le> ?x" "?x < 2 powi (?r + 1)" using ratio_exp_bounds [OF assms] .
  have "?r + 1 \<le> ?e + int (Suc t)" by (simp add: round_exp_def)
  then have "?x < 2 powi (?e + int (Suc t))"
    by (rule less_le_trans [OF xr(2) power_int_increasing]) simp
  then have "?x < 2 ^ Suc t * 2 powi ?e"
    by (simp only: two_powi_add power_int_of_nat mult.commute)
  then have hi: "?x / 2 powi ?e < 2 ^ Suc t" by (subst pos_divide_less_eq) simp_all
  have lo: "?E = 0 \<or> 2 ^ t \<le> ?x / 2 powi ?e"
  proof (cases "?e = ?r - int t")
    case True
    then have "2 powi (?e + int t) \<le> ?x" using xr(1) by simp
    then have "2 ^ t * 2 powi ?e \<le> ?x" by (simp only: two_powi_add power_int_of_nat mult.commute)
    then have "2 ^ t \<le> ?x / 2 powi ?e" by (subst pos_le_divide_eq) simp_all
    then show ?thesis by simp
  next
    case False
    then show ?thesis by (simp add: round_exp_def)
  qed
  have k: "real ?k \<le> ?x / 2 powi ?e + 1 / 2" "?x / 2 powi ?e - 1 / 2 \<le> real ?k"
    using rhe_bounds [OF sc(1), of n'] sc(2) by simp_all
  have "real ?k < real (2 ^ Suc t) + 1" using k(1) hi by simp
  then have k1: "?k \<le> 2 ^ Suc t" by (metis less_Suc_eq_le of_nat_Suc of_nat_less_iff add.commute)
  have k2: "?E = 0 \<or> 2 ^ t \<le> ?k"
  proof (cases "?E = 0")
    case False
    then have "real (2 ^ t) < real ?k + 1" using lo k(2) by simp
    then show ?thesis by (metis less_Suc_eq_le of_nat_Suc of_nat_less_iff add.commute)
  qed simp
  have "round_mag t b n d = enc t ?E ?k" using assms nd by (simp add: round_mag_def Let_def)
  then show thesis
    using that k1 k2 k hi lo E q sc(2) by metis
qed

text \<open>Rounding never crosses a representable magnitude.\<close>

lemma round_mag_ge:
  assumes "0 < d" "gval t b M \<le> real n / real d"
  shows "M \<le> round_mag t b n d"
proof (cases "n = 0")
  case True
  then have "gval t b M \<le> gval t b 0" using assms(2) by simp
  then show ?thesis unfolding gval_le_iff by simp
next
  case False
  then have "0 < n" by simp
  then show ?thesis
  proof (rule round_mag_cases [OF _ assms(1), of n t b])
    fix E k
    let ?y = "real n / real d * 2 ^ b / 2 ^ E"
    assume N: "round_mag t b n d = enc t E k" and k: "k \<le> 2 ^ Suc t" "E = 0 \<or> 2 ^ t \<le> k"
      and lo: "?y - 1 / 2 \<le> real k" and hi: "?y < 2 ^ Suc t"
    have "M < enc t E k + 1"
    proof (cases "k = 2 ^ Suc t")
      case True
      then have "real n / real d < gval t b (enc t E k)"
        using hi unfolding gval_enc [OF k] block_unit [of _ _ E b] by simp
      then have "M < enc t E k" using assms(2) gval_less_iff by (metis order.strict_trans1)
      then show ?thesis by simp
    next
      case False
      then have "gval t b (enc t E (Suc k)) = real (Suc k) * 2 ^ E / 2 ^ b"
        using k by (intro gval_enc) auto
      moreover have "?y < real (Suc k)" using lo by simp
      ultimately have "real n / real d < gval t b (enc t E (Suc k))"
        by (simp only: block_unit [of _ _ E b])
      then have "M < enc t E (Suc k)" using assms(2) gval_less_iff by (metis order.strict_trans1)
      then show ?thesis by (simp add: enc_def)
    qed
    then show ?thesis using N by simp
  qed
qed

lemma round_mag_le:
  assumes "0 < d" "real n / real d \<le> gval t b M"
  shows "round_mag t b n d \<le> M"
proof (cases "n = 0")
  case True
  then show ?thesis by (simp add: round_mag_def)
next
  case False
  then have "0 < n" by simp
  then show ?thesis
  proof (rule round_mag_cases [OF _ assms(1), of n t b])
    fix E k
    let ?y = "real n / real d * 2 ^ b / 2 ^ E"
    assume N: "round_mag t b n d = enc t E k" and k: "k \<le> 2 ^ Suc t" "E = 0 \<or> 2 ^ t \<le> k"
      and hi: "real k \<le> ?y + 1 / 2" and lo: "E = 0 \<or> 2 ^ t \<le> ?y"
    consider "k = 0" "E = 0" | "E \<noteq> 0" "k = 2 ^ t" | "0 < k" "E = 0 \<or> 2 ^ t \<le> k - 1"
      using k(2) by (cases "E = 0"; cases "k = 2 ^ t"; force)
    then have "enc t E k \<le> M"
    proof cases
      case 1
      then show ?thesis by (simp add: enc_def)
    next
      case 2
      then have "real k \<le> ?y" using lo by simp
      then have "gval t b (enc t E k) \<le> real n / real d"
        unfolding gval_enc [OF k] by (rule block_unit(2) [THEN iffD2])
      then show ?thesis using assms(2) gval_le_iff by (metis order_trans)
    next
      case 3
      have "gval t b (enc t E (k - 1)) = real (k - 1) * 2 ^ E / 2 ^ b"
        using k(1) 3 by (intro gval_enc) auto
      moreover have "real (k - 1) < ?y" using hi 3 by (simp add: of_nat_diff)
      ultimately have "gval t b (enc t E (k - 1)) < real n / real d"
        using block_unit(3) [of "real (k - 1)" E b] by simp
      then have "enc t E (k - 1) < M" using assms(2) gval_less_iff by (metis less_le_trans)
      then show ?thesis using 3 by (simp add: enc_def)
    qed
    then show ?thesis using N by simp
  qed
qed

text \<open>Representable values are kept, and rounding is monotone.\<close>

lemma round_mag_exact:
  assumes "0 < d" "real n / real d = gval t b M"
  shows "round_mag t b n d = M"
  using round_mag_ge [of d t b M n] round_mag_le [of d n t b M] assms by simp

lemma rhe_mono:
  assumes "0 < d" "0 < d'" "n * d' \<le> n' * d"
  shows "rhe n d \<le> rhe n' d'"
proof -
  let ?q = "n div d" and ?r = "n mod d" and ?q' = "n' div d'" and ?r' = "n' mod d'"
  have n: "n = ?q * d + ?r" "n' = ?q' * d' + ?r'" by simp_all
  have r: "?r < d" "?r' < d'" using assms by simp_all
  have "?q \<le> ?q'"
  proof (rule ccontr)
    assume "\<not> ?q \<le> ?q'"
    then have "?q' + 1 \<le> ?q" by simp
    then have "(?q' + 1) * d * d' \<le> ?q * d * d'" by (intro mult_le_mono) auto
    also have "\<dots> \<le> n * d'" by simp
    also have "\<dots> \<le> n' * d" by (rule assms(3))
    finally have "((?q' + 1) * d') * d \<le> n' * d" by (simp only: ac_simps)
    then have "(?q' + 1) * d' \<le> n'" using assms(1) by simp
    then show False using n(2) r(2) by (simp add: add.commute)
  qed
  note qq = this
  show ?thesis
  proof (cases "?q = ?q'")
    case True
    have "?q * d * d' + ?r * d' \<le> ?q * d * d' + ?r' * d"
      using assms(3) n True by (metis add_mult_distrib mult.commute mult.left_commute)
    then have le: "?r * d' \<le> ?r' * d" by simp
    have "d \<le> 2 * ?r \<Longrightarrow> d * d' \<le> (2 * ?r') * d" "d < 2 * ?r \<Longrightarrow> d * d' < (2 * ?r') * d"
    proof -
      have le2: "(2 * ?r) * d' \<le> (2 * ?r') * d" using le by simp
      show "d * d' \<le> (2 * ?r') * d" if "d \<le> 2 * ?r"
        using mult_le_mono1 [OF that, of d'] le2 by (rule order_trans)
      show "d * d' < (2 * ?r') * d" if "d < 2 * ?r"
        using mult_strict_right_mono [OF that assms(2)] le2 by (rule less_le_trans)
    qed
    then have "d \<le> 2 * ?r \<Longrightarrow> d' \<le> 2 * ?r'" "d < 2 * ?r \<Longrightarrow> d' < 2 * ?r'"
      using assms(1) by (simp_all add: mult.commute [of d])
    then show ?thesis using True unfolding rhe_def Let_def by (auto simp: not_less)
  next
    case False
    then show ?thesis using qq unfolding rhe_def Let_def by (auto simp: not_less)
  qed
qed

lemma round_exp_mono:
  assumes "0 < n" "0 < d" "0 < n'" "0 < d'" "real n / real d \<le> real n' / real d'"
  shows "round_exp t b n d \<le> round_exp t b n' d'"
proof -
  have "2 powi ratio_exp n d \<le> real n / real d" by (rule ratio_exp_bounds) fact+
  also have "\<dots> < 2 powi (ratio_exp n' d' + 1)"
    using ratio_exp_bounds(2) [OF assms(3,4)] assms(5) by (rule order.strict_trans1 [rotated])
  finally have "\<not> ratio_exp n' d' + 1 \<le> ratio_exp n d"
    using power_int_increasing [of "ratio_exp n' d' + 1" "ratio_exp n d" "2::real"] by auto
  then show ?thesis by (simp add: round_exp_def)
qed

lemma round_mag_mono:
  assumes "0 < d" "0 < d'" "real n / real d \<le> real n' / real d'"
  shows "round_mag t b n d \<le> round_mag t b n' d'"
proof (cases "n = 0 \<or> n' = 0")
  case True
  then show ?thesis using assms by (auto simp: round_mag_def divide_le_0_iff)
next
  case False
  then have n: "0 < n" "0 < n'" by simp_all
  let ?N = "round_mag t b n d" and ?N' = "round_mag t b n' d'"
  let ?e = "round_exp t b n d" and ?e' = "round_exp t b n' d'"
  show ?thesis
  proof (cases "?e = ?e'")
    case True
    obtain m c where mc: "scale n d ?e = (m, c)" by fastforce
    obtain m' c' where mc': "scale n' d' ?e = (m', c')" by fastforce
    note sc = scale_ratio [OF assms(1) mc] and sc' = scale_ratio [OF assms(2) mc']
    have "real m / real c \<le> real m' / real c'"
      unfolding sc(2) sc'(2) using assms(3) by (intro divide_right_mono) simp_all
    then have "real (m * c') \<le> real (m' * c)"
      using sc(1) sc'(1) by (simp add: field_simps)
    then have "rhe m c \<le> rhe m' c'" by (intro rhe_mono sc sc') (simp only: of_nat_le_iff)
    then show ?thesis using n mc mc' True
      by (simp add: round_mag_def Let_def enc_def)
  next
    case False
    show ?thesis
    proof (rule round_mag_cases [OF n(1) assms(1), of t b],
        rule round_mag_cases [OF n(2) assms(2), of t b])
      fix E k E' k'
      assume N: "?N = enc t E k" and k: "k \<le> 2 ^ Suc t" and E: "int E = ?e + int b"
        and N': "?N' = enc t E' k'" and k': "E' = 0 \<or> 2 ^ t \<le> k'" and E': "int E' = ?e' + int b"
      have "?e \<le> ?e'" using n assms by (intro round_exp_mono)
      then have EE: "E < E'" using False E E' by linarith
      then have "enc t E k \<le> E * 2 ^ t + 2 * 2 ^ t" using k by (simp add: enc_def)
      also have "\<dots> = (E + 1) * 2 ^ t + 2 ^ t" by (simp add: algebra_simps)
      also have "\<dots> \<le> enc t E' k'"
        unfolding enc_def using EE k' by (intro add_mono mult_le_mono) auto
      finally show "?N \<le> ?N'" using N N' by simp
    qed
  qed
qed

end
