(* ===== verification/F64.thy ===== *)
theory F64
  imports Rounding
begin

text \<open>
  Rust's \<open>f64\<close>, the IEEE 754 binary64 numbers, bit for bit. A value is its 64-bit pattern;
  an operation decodes the operands to integers, computes exactly and rounds once. All of
  it computes. Comparisons are integer comparisons of \<open>key\<close>. The lemmas state what the
  operations guarantee on finite operands: \<open>rounds_to x r\<close> says that \<open>x\<close> is the
  correctly rounded \<open>r\<close>, and from it come exactness, bounds and monotonicity.

  Rust leaves the sign and the payload of a NaN that an operation returns unspecified; the
  model returns one fixed NaN there, and no property depends on which.
\<close>

section \<open>Bit patterns\<close>

datatype f64 = F64 (to_bits: u64)

definition inf_mag :: nat where
  "inf_mag = 9218868437227405312"

text \<open>\<open>is_sign_negative\<close>, and the magnitude bits.\<close>

definition sgn_bit :: "f64 \<Rightarrow> bool" where
  "sgn_bit x \<longleftrightarrow> 9223372036854775808 \<le> unat (to_bits x)"

definition magn :: "f64 \<Rightarrow> nat" where
  "magn x = unat (to_bits x) mod 9223372036854775808"

definition mk :: "bool \<Rightarrow> nat \<Rightarrow> f64" where
  "mk s m = F64 (word_of_nat ((if s then 9223372036854775808 else 0) + m))"

definition is_nan :: "f64 \<Rightarrow> bool" where
  "is_nan x \<longleftrightarrow> inf_mag < magn x"

definition is_inf :: "f64 \<Rightarrow> bool" where
  "is_inf x \<longleftrightarrow> magn x = inf_mag"

definition is_fin :: "f64 \<Rightarrow> bool" where
  "is_fin x \<longleftrightarrow> magn x < inf_mag"

definition f64_nan :: f64 where
  "f64_nan = mk False 9221120237041090560"

definition f64_infinity :: f64 where
  "f64_infinity = mk False inf_mag"

definition f64_max :: f64 where
  "f64_max = mk False (inf_mag - 1)"

lemma magn_less: "magn x < 9223372036854775808"
  by (simp add: magn_def)

lemma unat_mk:
  "m < 9223372036854775808 \<Longrightarrow>
    unat (to_bits (mk s m)) = (if s then 9223372036854775808 else 0) + m"
  unfolding mk_def f64.sel unat_of_nat by simp

lemma magn_mk [simp]: "m < 9223372036854775808 \<Longrightarrow> magn (mk s m) = m"
  by (simp add: magn_def unat_mk)

lemma sgn_mk [simp]: "m < 9223372036854775808 \<Longrightarrow> sgn_bit (mk s m) = s"
  by (simp add: sgn_bit_def unat_mk)

lemma unat_bits_less: "unat (to_bits x) < 18446744073709551616"
  using unsigned_less [where ?'a = nat, of "to_bits x"] by simp

lemma unat_bits: "unat (to_bits x) = (if sgn_bit x then 9223372036854775808 else 0) + magn x"
proof (cases "sgn_bit x")
  case True
  then have "unat (to_bits x) div 9223372036854775808 = 1"
    using unat_bits_less [of x] by (simp add: sgn_bit_def div_nat_eqI)
  then show ?thesis using True div_mult_mod_eq [of "unat (to_bits x)" 9223372036854775808]
    by (simp add: magn_def)
qed (simp add: sgn_bit_def magn_def)

lemma mk_sgn_magn [simp]: "mk (sgn_bit x) (magn x) = x"
proof -
  have "mk (sgn_bit x) (magn x) = F64 (word_of_nat (unat (to_bits x)))"
    by (simp only: mk_def unat_bits)
  then show ?thesis by simp
qed

lemma f64_eqI:
  assumes "sgn_bit x = sgn_bit y" "magn x = magn y"
  shows "x = y"
proof -
  have "x = mk (sgn_bit x) (magn x)" by (rule mk_sgn_magn [symmetric])
  also have "\<dots> = mk (sgn_bit y) (magn y)" by (simp only: assms)
  also have "\<dots> = y" by (rule mk_sgn_magn)
  finally show ?thesis .
qed

lemma class_cases: "is_nan x \<or> is_inf x \<or> is_fin x"
  by (auto simp: is_nan_def is_inf_def is_fin_def)

lemma fin_not [simp]: "is_fin x \<Longrightarrow> \<not> is_nan x" "is_fin x \<Longrightarrow> \<not> is_inf x"
  "is_inf x \<Longrightarrow> \<not> is_nan x"
  by (auto simp: is_nan_def is_inf_def is_fin_def)

section \<open>Order\<close>

text \<open>
  The key orders the values that are not NaN as the numbers they stand for; both zeros have
  key 0. The order of \<open>total_cmp\<close> separates the zeros and puts the NaNs at the ends.
\<close>

definition key :: "f64 \<Rightarrow> int" where
  "key x = (if sgn_bit x then - int (magn x) else int (magn x))"

definition tkey :: "f64 \<Rightarrow> int" where
  "tkey x = (if sgn_bit x then - int (magn x) - 1 else int (magn x))"

instantiation f64 :: ord
begin

definition less_f64 :: "f64 \<Rightarrow> f64 \<Rightarrow> bool" where
  "x < y \<longleftrightarrow> \<not> is_nan x \<and> \<not> is_nan y \<and> key x < key y"

definition less_eq_f64 :: "f64 \<Rightarrow> f64 \<Rightarrow> bool" where
  "x \<le> y \<longleftrightarrow> \<not> is_nan x \<and> \<not> is_nan y \<and> key x \<le> key y"

instance ..

end

text \<open>The \<open>==\<close> of \<open>f64\<close>.\<close>

definition feq :: "f64 \<Rightarrow> f64 \<Rightarrow> bool" where
  "feq x y \<longleftrightarrow> \<not> is_nan x \<and> \<not> is_nan y \<and> key x = key y"

lemma tkey_inj: "tkey x = tkey y \<longleftrightarrow> x = y"
  by (auto simp: tkey_def split: if_splits intro: f64_eqI)

section \<open>Values\<close>

text \<open>
  The real number of a pattern. An infinity counts as 2 to the power 1024, the next number
  of the format, which is the value that rounding compares with.
\<close>

definition fval :: "f64 \<Rightarrow> real" where
  "fval x = (if sgn_bit x then - gval 52 1074 (magn x) else gval 52 1074 (magn x))"

lemma fval_le_key: "fval x \<le> fval y \<longleftrightarrow> key x \<le> key y"
proof -
  have neg: "- gval 52 1074 m \<le> gval 52 1074 n" for m n
    using gval_nonneg [of 52 1074 m] gval_nonneg [of 52 1074 n] by linarith
  have pos: "gval 52 1074 m \<le> - gval 52 1074 n \<longleftrightarrow> m = 0 \<and> n = 0" for m n
    using gval_nonneg [of 52 1074 m] gval_nonneg [of 52 1074 n]
      gval_le_iff [of 52 1074 m 0] gval_le_iff [of 52 1074 n 0] by auto
  show ?thesis unfolding fval_def key_def
    by (cases "sgn_bit x"; cases "sgn_bit y") (simp_all add: neg pos, arith)
qed

lemma fval_less_key: "fval x < fval y \<longleftrightarrow> key x < key y"
  using fval_le_key [of y x] by linarith

lemma fval_eq_key: "fval x = fval y \<longleftrightarrow> key x = key y"
  using fval_le_key [of x y] fval_le_key [of y x] by linarith

lemma key_zero_iff: "key x = 0 \<longleftrightarrow> magn x = 0"
  by (simp add: key_def)

lemma fval_zero_iff: "fval x = 0 \<longleftrightarrow> magn x = 0"
proof -
  have "gval 52 1074 (magn x) = gval 52 1074 0 \<longleftrightarrow> magn x = 0"
    using gval_le_iff [of 52 1074 "magn x" 0] gval_nonneg [of 52 1074 "magn x"] by fastforce
  then show ?thesis by (simp add: fval_def)
qed

section \<open>Rounding\<close>

definition round_ratio :: "bool \<Rightarrow> nat \<Rightarrow> nat \<Rightarrow> f64" where
  "round_ratio s n d = mk s (min inf_mag (round_mag 52 1074 n d))"

definition signed :: "bool \<Rightarrow> real \<Rightarrow> real" where
  "signed s r = (if s then - r else r)"

text \<open>\<open>x\<close> is not NaN and compares equal to the correctly rounded \<open>r\<close>.\<close>

definition rounds_to :: "f64 \<Rightarrow> real \<Rightarrow> bool" where
  "rounds_to x r \<longleftrightarrow> \<not> is_nan x \<and>
    (\<exists>s n d. 0 < d \<and> r = signed s (real n / real d) \<and> key x = key (round_ratio s n d))"

lemma round_ratio_sgn [simp]: "sgn_bit (round_ratio s n d) = s"
  and round_ratio_magn: "magn (round_ratio s n d) = min inf_mag (round_mag 52 1074 n d)"
  by (simp_all add: round_ratio_def inf_mag_def)

lemma round_ratio_not_nan [simp]: "\<not> is_nan (round_ratio s n d)"
  by (simp add: is_nan_def round_ratio_magn)

lemma rounds_to_ratio: "0 < d \<Longrightarrow> rounds_to (round_ratio s n d) (signed s (real n / real d))"
  unfolding rounds_to_def by auto

lemma rounds_to_not_nan: "rounds_to x r \<Longrightarrow> \<not> is_nan x"
  by (simp add: rounds_to_def)

lemma round_ratio_sandwich:
  assumes "0 < d" "\<not> is_nan y"
  shows "fval y \<le> signed s (real n / real d) \<Longrightarrow> key y \<le> key (round_ratio s n d)"
    and "signed s (real n / real d) \<le> fval y \<Longrightarrow> key (round_ratio s n d) \<le> key y"
proof -
  let ?m = "magn y" and ?N = "round_mag 52 1074 n d"
  have m: "?m \<le> inf_mag" using assms(2) by (simp add: is_nan_def)
  have x: "0 \<le> real n / real d" by simp
  note g = gval_nonneg [of 52 1074 ?m]
  note lo = round_mag_ge [OF assms(1), of 52 1074 ?m n]
  note hi = round_mag_le [OF assms(1), of n 52 1074 ?m]
  have z: "gval 52 1074 ?m \<le> 0 \<longleftrightarrow> ?m = 0" using gval_le_iff [of 52 1074 ?m 0] by simp
  show "key y \<le> key (round_ratio s n d)" if a: "fval y \<le> signed s (real n / real d)"
  proof (cases s; cases "sgn_bit y")
    assume s: "s" "\<not> sgn_bit y"
    then have "gval 52 1074 ?m \<le> - (real n / real d)"
      using a by (simp add: fval_def signed_def)
    then have "gval 52 1074 ?m \<le> 0" "real n / real d \<le> gval 52 1074 ?m"
      using x g by linarith+
    then show ?thesis using s z hi by (simp add: key_def round_ratio_magn)
  next
    assume s: "s" "sgn_bit y"
    then have "real n / real d \<le> gval 52 1074 ?m" using a by (simp add: fval_def signed_def)
    then show ?thesis using s hi by (simp add: key_def round_ratio_magn)
  next
    assume s: "\<not> s" "\<not> sgn_bit y"
    then have "gval 52 1074 ?m \<le> real n / real d" using a by (simp add: fval_def signed_def)
    then show ?thesis using s lo m by (simp add: key_def round_ratio_magn)
  next
    assume "\<not> s" "sgn_bit y"
    then show ?thesis by (simp add: key_def)
  qed
  show "key (round_ratio s n d) \<le> key y" if a: "signed s (real n / real d) \<le> fval y"
  proof (cases s; cases "sgn_bit y")
    assume s: "\<not> s" "sgn_bit y"
    then have "real n / real d \<le> - gval 52 1074 ?m"
      using a by (simp add: fval_def signed_def)
    then have "gval 52 1074 ?m \<le> 0" "real n / real d \<le> gval 52 1074 ?m"
      using x g by linarith+
    then show ?thesis using s z hi by (simp add: key_def round_ratio_magn)
  next
    assume s: "\<not> s" "\<not> sgn_bit y"
    then have "real n / real d \<le> gval 52 1074 ?m" using a by (simp add: fval_def signed_def)
    then show ?thesis using s hi by (simp add: key_def round_ratio_magn)
  next
    assume s: "s" "sgn_bit y"
    then have "gval 52 1074 ?m \<le> real n / real d" using a by (simp add: fval_def signed_def)
    then show ?thesis using s lo m by (simp add: key_def round_ratio_magn)
  next
    assume "s" "\<not> sgn_bit y"
    then show ?thesis by (simp add: key_def)
  qed
qed

lemma rounds_to_ge: "rounds_to x r \<Longrightarrow> \<not> is_nan y \<Longrightarrow> fval y \<le> r \<Longrightarrow> fval y \<le> fval x"
  using round_ratio_sandwich(1) unfolding fval_le_key by (auto simp: rounds_to_def)

lemma rounds_to_le: "rounds_to x r \<Longrightarrow> \<not> is_nan y \<Longrightarrow> r \<le> fval y \<Longrightarrow> fval x \<le> fval y"
  using round_ratio_sandwich(2) unfolding fval_le_key by (auto simp: rounds_to_def)

lemma rounds_to_exact: "rounds_to x (fval y) \<Longrightarrow> \<not> is_nan y \<Longrightarrow> fval x = fval y"
  using rounds_to_ge [of x "fval y" y] rounds_to_le [of x "fval y" y] by simp

lemma rounds_to_mono:
  assumes "rounds_to x r" "rounds_to y q" "r \<le> q"
  shows "fval x \<le> fval y"
proof -
  obtain s n d s' n' d' where
    d: "0 < d" "0 < d'" and r: "r = signed s (real n / real d)" "q = signed s' (real n' / real d')"
    and k: "key x = key (round_ratio s n d)" "key y = key (round_ratio s' n' d')"
    using assms(1,2) by (auto simp: rounds_to_def)
  let ?x = "real n / real d" and ?x' = "real n' / real d'"
  have nn: "0 \<le> ?x" "0 \<le> ?x'" by simp_all
  have m: "?x \<le> ?x' \<Longrightarrow> magn (round_ratio s n d) \<le> magn (round_ratio s' n' d')"
    "?x' \<le> ?x \<Longrightarrow> magn (round_ratio s' n' d') \<le> magn (round_ratio s n d)"
    using round_mag_mono d by (simp_all add: round_ratio_magn min_le_iff_disj)
  have z: "?x = 0 \<Longrightarrow> magn (round_ratio s n d) = 0" "?x' = 0 \<Longrightarrow> magn (round_ratio s' n' d') = 0"
    using d by (simp_all add: round_ratio_magn round_mag_def)
  have "key (round_ratio s n d) \<le> key (round_ratio s' n' d')"
  proof (cases s; cases s')
    assume "s" "s'"
    then show ?thesis using assms(3) m(2) r by (simp add: signed_def key_def)
  next
    assume "s" "\<not> s'"
    then show ?thesis by (simp add: key_def)
  next
    assume s: "\<not> s" "s'"
    then have "?x \<le> - ?x'" using assms(3) r by (simp add: signed_def)
    then have "?x = 0" "?x' = 0" using nn by linarith+
    then show ?thesis using z s by (simp add: key_def)
  next
    assume "\<not> s" "\<not> s'"
    then show ?thesis using assms(3) m(1) r by (simp add: signed_def key_def)
  qed
  then show ?thesis unfolding fval_le_key k .
qed

section \<open>Arithmetic\<close>

text \<open>
  A finite pattern stands for \<open>fman x * 2 ^ fex x / 2 ^ 1074\<close>, with its sign.
  \<open>dyad n i c\<close> is \<open>n * 2 ^ i / 2 ^ c\<close> as a ratio of natural numbers.
\<close>

definition fman :: "f64 \<Rightarrow> nat" where
  "fman x = man 52 (magn x)"

definition fex :: "f64 \<Rightarrow> nat" where
  "fex x = ex 52 (magn x)"

definition fint :: "f64 \<Rightarrow> int" where
  "fint x = (if sgn_bit x then - int (fman x) else int (fman x))"

definition dyad :: "nat \<Rightarrow> nat \<Rightarrow> nat \<Rightarrow> nat \<times> nat" where
  "dyad n i c = (if c \<le> i then (n * 2 ^ (i - c), 1) else (n, 2 ^ (c - i)))"

definition round_dyad :: "bool \<Rightarrow> nat \<Rightarrow> nat \<Rightarrow> nat \<Rightarrow> f64" where
  "round_dyad s n i c = (case dyad n i c of (n', d') \<Rightarrow> round_ratio s n' d')"

definition fneg :: "f64 \<Rightarrow> f64" where
  "fneg x = mk (\<not> sgn_bit x) (magn x)"

definition fabs :: "f64 \<Rightarrow> f64" where
  "fabs x = mk False (magn x)"

definition fzero :: "bool \<Rightarrow> f64" where
  "fzero s = mk s 0"

definition finf :: "bool \<Rightarrow> f64" where
  "finf s = mk s inf_mag"

definition fadd :: "f64 \<Rightarrow> f64 \<Rightarrow> f64" where
  "fadd a b =
    (if is_nan a \<or> is_nan b \<or> is_inf a \<and> is_inf b \<and> sgn_bit a \<noteq> sgn_bit b then f64_nan
     else if is_inf a then a
     else if is_inf b then b
     else let e = min (fex a) (fex b);
              s = fint a * 2 ^ (fex a - e) + fint b * 2 ^ (fex b - e)
          in if s = 0 then fzero (sgn_bit a \<and> sgn_bit b)
             else round_dyad (s < 0) (nat \<bar>s\<bar>) e 1074)"

definition fmul :: "f64 \<Rightarrow> f64 \<Rightarrow> f64" where
  "fmul a b = (let s = (sgn_bit a \<noteq> sgn_bit b) in
     if is_nan a \<or> is_nan b \<or> is_inf a \<and> magn b = 0 \<or> magn a = 0 \<and> is_inf b then f64_nan
     else if is_inf a \<or> is_inf b then finf s
     else round_dyad s (fman a * fman b) (fex a + fex b) 2148)"

definition fdiv :: "f64 \<Rightarrow> f64 \<Rightarrow> f64" where
  "fdiv a b = (let s = (sgn_bit a \<noteq> sgn_bit b) in
     if is_nan a \<or> is_nan b \<or> is_inf a \<and> is_inf b \<or> magn a = 0 \<and> magn b = 0 then f64_nan
     else if is_inf a \<or> magn b = 0 then finf s
     else if is_inf b then fzero s
     else if fex b \<le> fex a then round_ratio s (fman a * 2 ^ (fex a - fex b)) (fman b)
     else round_ratio s (fman a) (fman b * 2 ^ (fex b - fex a)))"

instantiation f64 :: "{plus, minus, uminus, times, abs}"
begin

definition plus_f64 :: "f64 \<Rightarrow> f64 \<Rightarrow> f64" where "a + b = fadd a b"

definition uminus_f64 :: "f64 \<Rightarrow> f64" where "- a = fneg a"

definition minus_f64 :: "f64 \<Rightarrow> f64 \<Rightarrow> f64" where "a - b = fadd a (fneg b)"

definition times_f64 :: "f64 \<Rightarrow> f64 \<Rightarrow> f64" where "a * b = fmul a b"

definition abs_f64 :: "f64 \<Rightarrow> f64" where "\<bar>a\<bar> = fabs a"

instance ..

end

instantiation f64 :: inverse
begin

definition divide_f64 :: "f64 \<Rightarrow> f64 \<Rightarrow> f64" where "a div b = fdiv a b"

definition inverse_f64 :: "f64 \<Rightarrow> f64" where "inverse a = fdiv (round_ratio False 1 1) a"

instance ..

end

lemma fval_man_ex: "fval x = real_of_int (fint x) * 2 ^ fex x / 2 ^ 1074"
  by (simp add: fval_def fint_def fman_def fex_def gval_def)

lemma dyad_ratio:
  assumes "dyad n i c = (n', d')"
  shows "0 < d'" "real n' / real d' = real n * 2 ^ i / 2 ^ c"
proof -
  have "(2::real) ^ i = 2 ^ (i - c) * 2 ^ c" if "c \<le> i" using that by (simp flip: power_add)
  moreover have "(2::real) ^ c = 2 ^ (c - i) * 2 ^ i" if "\<not> c \<le> i" using that by (simp flip: power_add)
  ultimately show "0 < d'" "real n' / real d' = real n * 2 ^ i / 2 ^ c"
    using assms by (auto simp: dyad_def split: if_splits)
qed

lemma round_dyad_rounds: "rounds_to (round_dyad s n i c) (signed s (real n * 2 ^ i / 2 ^ c))"
proof -
  obtain n' d' where d: "dyad n i c = (n', d')" by fastforce
  show ?thesis using rounds_to_ratio [OF dyad_ratio(1) [OF d], of s n']
    by (simp add: round_dyad_def d dyad_ratio(2) [OF d])
qed

lemma magn_fneg [simp]: "magn (fneg x) = magn x" and sgn_fneg [simp]: "sgn_bit (fneg x) = (\<not> sgn_bit x)"
  using magn_less [of x] by (simp_all add: fneg_def)

lemma magn_fabs [simp]: "magn (fabs x) = magn x" and sgn_fabs [simp]: "\<not> sgn_bit (fabs x)"
  using magn_less [of x] by (simp_all add: fabs_def)

lemma magn_fzero [simp]: "magn (fzero s) = 0" and magn_finf [simp]: "magn (finf s) = inf_mag"
  by (simp_all add: fzero_def finf_def inf_mag_def)

lemma fval_fneg [simp]: "fval (fneg x) = - fval x"
  by (simp add: fval_def)

lemma fval_fabs [simp]: "fval (fabs x) = \<bar>fval x\<bar>"
  by (simp add: fval_def)

lemma fval_fzero [simp]: "fval (fzero s) = 0"
  by (simp add: fval_def)

lemma class_fneg [simp]: "is_fin (fneg x) = is_fin x" "is_nan (fneg x) = is_nan x"
    "is_inf (fneg x) = is_inf x"
  and class_fabs [simp]: "is_fin (fabs x) = is_fin x" "is_nan (fabs x) = is_nan x"
    "is_inf (fabs x) = is_inf x"
  and class_fzero [simp]: "is_fin (fzero s)" "\<not> is_nan (fzero s)"
  by (simp_all add: is_fin_def is_nan_def is_inf_def) (simp add: inf_mag_def)

lemma rounds_to_0: "magn x = 0 \<Longrightarrow> rounds_to x 0"
proof -
  assume m: "magn x = 0"
  have "key x = key (round_ratio False 0 1)"
    using m by (simp add: key_def round_ratio_magn round_mag_def)
  moreover have "0 = signed False (real 0 / real 1)" by (simp add: signed_def)
  moreover have "\<not> is_nan x" using m by (simp add: is_nan_def)
  ultimately show ?thesis unfolding rounds_to_def using zero_less_one by metis
qed

lemma signed_nat_abs: "signed (s < 0) (real (nat \<bar>s\<bar>)) = real_of_int s"
  by (cases "s < 0") (simp_all add: signed_def of_nat_nat)

lemma signed_mult_right: "signed s (r * x / y) = signed s r * x / y"
  by (simp add: signed_def)

theorem fadd_rounds:
  assumes "is_fin a" "is_fin b"
  shows "rounds_to (a + b) (fval a + fval b)"
proof -
  let ?e = "min (fex a) (fex b)"
  let ?s = "fint a * 2 ^ (fex a - ?e) + fint b * 2 ^ (fex b - ?e)"
  have p: "(2::real) ^ fex a = 2 ^ (fex a - ?e) * 2 ^ ?e" "(2::real) ^ fex b = 2 ^ (fex b - ?e) * 2 ^ ?e"
    by (simp_all flip: power_add)
  have v: "fval a + fval b = real_of_int ?s * 2 ^ ?e / 2 ^ 1074"
    unfolding fval_man_ex p by (simp add: field_simps)
  have sum: "a + b = (if ?s = 0 then fzero (sgn_bit a \<and> sgn_bit b)
      else round_dyad (?s < 0) (nat \<bar>?s\<bar>) ?e 1074)"
    using assms by (simp add: plus_f64_def fadd_def Let_def)
  show ?thesis
  proof (cases "?s = 0")
    case True
    then show ?thesis unfolding sum v by (simp add: rounds_to_0)
  next
    case False
    have eq: "fval a + fval b = signed (?s < 0) (real (nat \<bar>?s\<bar>) * 2 ^ ?e / 2 ^ 1074)"
      unfolding v signed_mult_right signed_nat_abs ..
    show ?thesis unfolding sum eq if_not_P [OF False] by (rule round_dyad_rounds)
  qed
qed

theorem fsub_rounds:
  assumes "is_fin a" "is_fin b"
  shows "rounds_to (a - b) (fval a - fval b)"
  using fadd_rounds [of a "fneg b"] assms by (simp add: minus_f64_def plus_f64_def)

theorem fmul_rounds:
  assumes "is_fin a" "is_fin b"
  shows "rounds_to (a * b) (fval a * fval b)"
proof -
  let ?s = "sgn_bit a \<noteq> sgn_bit b"
  have "a * b = round_dyad ?s (fman a * fman b) (fex a + fex b) 2148"
    using assms by (simp add: times_f64_def fmul_def)
  moreover have "fval a * fval b = signed ?s (real (fman a * fman b) * 2 ^ (fex a + fex b) / 2 ^ 2148)"
    unfolding fval_man_ex signed_def fint_def by (auto simp: power_add) 
  ultimately show ?thesis using round_dyad_rounds [of ?s "fman a * fman b" "fex a + fex b" 2148] by simp
qed

theorem fdiv_rounds:
  assumes "is_fin a" "is_fin b" "fval b \<noteq> 0"
  shows "rounds_to (a / b) (fval a / fval b)"
proof -
  let ?s = "sgn_bit a \<noteq> sgn_bit b"
  have b: "0 < fman b" using assms(3) by (simp add: fval_man_ex fint_def split: if_splits)
  have m: "magn b \<noteq> 0" using assms(3) by (simp add: fval_zero_iff)
  have v: "fval a / fval b = signed ?s (real (fman a) * 2 ^ fex a / (real (fman b) * 2 ^ fex b))"
    unfolding fval_man_ex signed_def fint_def by auto
  show ?thesis
  proof (cases "fex b \<le> fex a")
    case True
    then have "a / b = round_ratio ?s (fman a * 2 ^ (fex a - fex b)) (fman b)"
      using assms m by (simp add: divide_f64_def fdiv_def)
    moreover have "(2::real) ^ fex a = 2 ^ (fex a - fex b) * 2 ^ fex b" using True by (simp flip: power_add)
    then have "fval a / fval b = signed ?s (real (fman a * 2 ^ (fex a - fex b)) / real (fman b))"
      unfolding v by simp
    ultimately show ?thesis using rounds_to_ratio b by metis
  next
    case False
    then have "a / b = round_ratio ?s (fman a) (fman b * 2 ^ (fex b - fex a))"
      using assms m by (simp add: divide_f64_def fdiv_def)
    moreover have "(2::real) ^ fex b = 2 ^ (fex b - fex a) * 2 ^ fex a" using False by (simp flip: power_add)
    then have "fval a / fval b = signed ?s (real (fman a) / real (fman b * 2 ^ (fex b - fex a)))"
      unfolding v by simp
    moreover have "0 < fman b * 2 ^ (fex b - fex a)" using b by simp
    ultimately show ?thesis using rounds_to_ratio by metis
  qed
qed

section \<open>Conversions, literals and the other operations\<close>

text \<open>
  \<open>f64_of_nat\<close> is the conversion of an unsigned integer (\<open>f64::from(u32)\<close>, \<open>n as f64\<close>),
  \<open>f64_of_int\<close> that of a signed one. A decimal literal of the source is the rounded
  ratio \<open>lit n d\<close>, for example \<open>lit 9 10\<close> for 0.9.
\<close>

definition f64_of_nat :: "nat \<Rightarrow> f64" where
  "f64_of_nat n = round_ratio False n 1"

definition f64_of_int :: "int \<Rightarrow> f64" where
  "f64_of_int i = round_ratio (i < 0) (nat \<bar>i\<bar>) 1"

definition f64_of_u32 :: "u32 \<Rightarrow> f64" where
  "f64_of_u32 w = f64_of_nat (unat w)"

definition lit :: "nat \<Rightarrow> nat \<Rightarrow> f64" where
  "lit n d = round_ratio False n d"

text \<open>The integer part of a finite value, without its sign, and whether a fraction remains.\<close>

definition ipart :: "f64 \<Rightarrow> nat" where
  "ipart x = (if 1074 \<le> fex x then fman x * 2 ^ (fex x - 1074) else fman x div 2 ^ (1074 - fex x))"

definition has_frac :: "f64 \<Rightarrow> bool" where
  "has_frac x \<longleftrightarrow> fex x < 1074 \<and> fman x mod 2 ^ (1074 - fex x) \<noteq> 0"

definition ffloor :: "f64 \<Rightarrow> f64" where
  "ffloor x = (if \<not> is_fin x then x
     else round_ratio (sgn_bit x) (ipart x + (if sgn_bit x \<and> has_frac x then 1 else 0)) 1)"

definition fceil :: "f64 \<Rightarrow> f64" where
  "fceil x = (if \<not> is_fin x then x
     else round_ratio (sgn_bit x) (ipart x + (if \<not> sgn_bit x \<and> has_frac x then 1 else 0)) 1)"

text \<open>The saturating cast \<open>x as u32\<close>: 0 for NaN and negative values.\<close>

definition as_u32 :: "f64 \<Rightarrow> u32" where
  "as_u32 x = (if is_nan x \<or> sgn_bit x then 0 else if is_inf x then 4294967295
     else word_of_nat (min 4294967295 (ipart x)))"

text \<open>\<open>f64::min\<close> and \<open>f64::max\<close> return the other operand where one is NaN.\<close>

definition fmin :: "f64 \<Rightarrow> f64 \<Rightarrow> f64" where
  "fmin x y = (if is_nan x then y else if is_nan y then x else if x < y then x else y)"

definition fmax :: "f64 \<Rightarrow> f64 \<Rightarrow> f64" where
  "fmax x y = (if is_nan x then y else if is_nan y then x else if y < x then x else y)"

text \<open>\<open>f64::clamp\<close>; it keeps NaN.\<close>

definition fclamp :: "f64 \<Rightarrow> f64 \<Rightarrow> f64 \<Rightarrow> f64" where
  "fclamp x lo hi = (if x < lo then lo else if hi < x then hi else x)"

lemma gval_grid:
  assumes "n < 2 ^ 53" "k \<le> 1000"
  shows "\<exists>M < inf_mag. gval 52 1074 M = real n / 2 ^ k"
proof (cases "n = 0")
  case True
  then show ?thesis by (intro exI [of _ 0]) (simp add: inf_mag_def)
next
  case False
  define l where "l = floorlog 2 n - 1"
  have "floorlog 2 n = Suc l" using False by (simp add: floorlog_def l_def)
  then have b: "2 ^ l \<le> n" "n < 2 ^ Suc l"
    using False floorlog_bounds [of n 2] by (simp_all add: l_def)
  have l: "l \<le> 52"
  proof (rule ccontr)
    assume "\<not> l \<le> 52"
    then have "(2::nat) ^ 53 \<le> 2 ^ l" by (intro power_increasing) auto
    then show False using b assms(1) by linarith
  qed
  define m E where "m = n * 2 ^ (52 - l)" and "E = l + 1022 - k"
  have "(2::nat) ^ 52 = 2 ^ l * 2 ^ (52 - l)" "(2::nat) ^ Suc 52 = 2 ^ Suc l * 2 ^ (52 - l)"
    using l by (simp_all flip: power_add)
  then have m: "2 ^ 52 \<le> m" "m < 2 ^ Suc 52"
    unfolding m_def using b by (simp_all only: mult_le_mono1) simp
  have "gval 52 1074 (enc 52 E m) = real m * 2 ^ E / 2 ^ 1074"
    using m by (intro gval_enc) auto
  also have "\<dots> = real n * (2 ^ (52 - l) * 2 ^ E) / 2 ^ 1074" by (simp add: m_def)
  also have "(2::real) ^ (52 - l) * 2 ^ E = 2 ^ (1074 - k)"
    unfolding power_add [symmetric] using l assms(2) by (simp add: E_def)
  also have "(2::real) ^ 1074 = 2 ^ (1074 - k) * 2 ^ k"
    unfolding power_add [symmetric] using assms(2) by simp
  finally have "gval 52 1074 (enc 52 E m) = real n / 2 ^ k" by simp
  moreover have "enc 52 E m < inf_mag"
    using l m(2) by (simp add: enc_def inf_mag_def E_def)
  ultimately show ?thesis by blast
qed

lemma gval_of_nat: "n < 2 ^ 53 \<Longrightarrow> \<exists>M < inf_mag. gval 52 1074 M = real n"
  using gval_grid [of n 0] by simp

lemma round_ratio_of_nat:
  assumes "n < 2 ^ 53"
  shows "fval (round_ratio s n 1) = signed s (real n)" "is_fin (round_ratio s n 1)"
proof -
  obtain M where M: "M < inf_mag" "gval 52 1074 M = real n" using gval_of_nat [OF assms] by blast
  then have "round_mag 52 1074 n 1 = M" by (intro round_mag_exact) simp_all
  then have m: "magn (round_ratio s n 1) = M" using M(1) by (simp add: round_ratio_magn)
  show "fval (round_ratio s n 1) = signed s (real n)" "is_fin (round_ratio s n 1)"
    unfolding fval_def signed_def is_fin_def round_ratio_sgn m using M by simp_all
qed

lemma f64_of_nat_exact:
  assumes "n < 2 ^ 53"
  shows "fval (f64_of_nat n) = real n" "is_fin (f64_of_nat n)"
  using round_ratio_of_nat [OF assms, of False] by (simp_all add: f64_of_nat_def signed_def)

lemma f64_of_u32_exact [simp]: "fval (f64_of_u32 w) = real (unat w)" "is_fin (f64_of_u32 w)"
proof -
  have "unat w < 4294967296" using unsigned_less [where ?'a = nat, of w] by simp
  then have "unat w < 2 ^ 53" by simp
  then show "fval (f64_of_u32 w) = real (unat w)" "is_fin (f64_of_u32 w)"
    using f64_of_nat_exact by (simp_all add: f64_of_u32_def)
qed

text \<open>A value between two finite values is finite.\<close>

lemma fin_between:
  assumes "is_fin lo" "is_fin hi" "fval lo \<le> fval x" "fval x \<le> fval hi"
  shows "is_fin x"
  using assms unfolding fval_le_key by (auto simp: is_fin_def key_def split: if_splits)

lemma rounds_to_between:
  assumes "rounds_to x r" "is_fin lo" "is_fin hi" "fval lo \<le> r" "r \<le> fval hi"
  shows "is_fin x" "fval lo \<le> fval x" "fval x \<le> fval hi"
proof -
  show "fval lo \<le> fval x" using assms rounds_to_ge fin_not(1) by blast
  moreover show "fval x \<le> fval hi" using assms rounds_to_le fin_not(1) by blast
  ultimately show "is_fin x" using fin_between assms(2,3) by blast
qed

lemma f64_grid:
  assumes "n < 2 ^ 53" "k \<le> 1000"
  shows "\<exists>y. is_fin y \<and> fval y = signed s (real n / 2 ^ k)"
proof -
  obtain M where M: "M < inf_mag" "gval 52 1074 M = real n / 2 ^ k" using gval_grid [OF assms] by blast
  then have "M < 9223372036854775808" by (simp add: inf_mag_def)
  then have "is_fin (mk s M)" "fval (mk s M) = signed s (real n / 2 ^ k)"
    using M by (simp_all add: is_fin_def fval_def signed_def)
  then show ?thesis by blast
qed

text \<open>
  The rounding error: below \<open>2 ^ (53 - k)\<close> all multiples of \<open>2 ^ - k\<close> are
  representable, so the error stays below \<open>2 ^ - k\<close>.
\<close>

lemma rounds_to_error_nonneg:
  assumes "rounds_to x (signed s r)" "0 \<le> r" "r * 2 ^ k < 2 ^ 53 - 1" "k \<le> 1000"
  shows "\<bar>fval x - signed s r\<bar> \<le> 1 / 2 ^ k" "is_fin x"
proof -
  define n where "n = nat \<lfloor>r * 2 ^ k\<rfloor>"
  have n0: "real n = of_int \<lfloor>r * 2 ^ k\<rfloor>" using assms(2) by (simp add: n_def)
  then have n: "real n \<le> r * 2 ^ k" "r * 2 ^ k < real n + 1" by linarith+
  then have "real n + 1 < 2 ^ 53" using assms(3) by linarith
  then have "real (n + 1) < real (2 ^ 53)" by simp
  then have sm: "n + 1 < 2 ^ 53" unfolding of_nat_less_iff .
  obtain u v where u: "is_fin u" "fval u = signed s (real n / 2 ^ k)"
    and v: "is_fin v" "fval v = signed s (real (n + 1) / 2 ^ k)"
    using f64_grid [of n k s] f64_grid [of "n + 1" k s] sm assms(4) by auto
  have b: "real n / 2 ^ k \<le> r" "r \<le> real (n + 1) / 2 ^ k" "real (n + 1) / 2 ^ k = real n / 2 ^ k + 1 / 2 ^ k"
    using n by (simp_all add: field_simps)
  show "\<bar>fval x - signed s r\<bar> \<le> 1 / 2 ^ k" "is_fin x"
  proof -
    have w: "fval v \<le> fval x \<and> fval x \<le> fval u" if s: "s"
    proof -
      have "fval v \<le> signed s r" "signed s r \<le> fval u"
        unfolding u(2) v(2) signed_def if_P [OF s] using b(1,2) by simp_all
      then show ?thesis
        using rounds_to_ge [OF assms(1), of v] rounds_to_le [OF assms(1), of u] u(1) v(1) fin_not(1) by blast
    qed
    have w': "fval u \<le> fval x \<and> fval x \<le> fval v" if s: "\<not> s"
    proof -
      have "fval u \<le> signed s r" "signed s r \<le> fval v"
        unfolding u(2) v(2) signed_def if_not_P [OF s] using b(1,2) by simp_all
      then show ?thesis
        using rounds_to_ge [OF assms(1), of u] rounds_to_le [OF assms(1), of v] u(1) v(1) fin_not(1) by blast
    qed
    show "is_fin x" using fin_between u(1) v(1) w w' by blast
    show "\<bar>fval x - signed s r\<bar> \<le> 1 / 2 ^ k"
    proof (cases s)
      case True
      show ?thesis using w [OF True] u(2) v(2) b unfolding signed_def if_P [OF True] by linarith
    next
      case False
      show ?thesis using w' [OF False] u(2) v(2) b unfolding signed_def if_not_P [OF False] by linarith
    qed
  qed
qed

lemma rounds_to_error:
  assumes "rounds_to x r" "\<bar>r\<bar> * 2 ^ k < 2 ^ 53 - 1" "k \<le> 1000"
  shows "\<bar>fval x - r\<bar> \<le> 1 / 2 ^ k" "is_fin x"
proof -
  have s: "signed (r < 0) \<bar>r\<bar> = r" by (simp add: signed_def)
  show "\<bar>fval x - r\<bar> \<le> 1 / 2 ^ k" "is_fin x"
    using rounds_to_error_nonneg [of x "r < 0" "\<bar>r\<bar>" k] assms unfolding s by simp_all
qed

text \<open>Rounding commutes with the absolute value.\<close>

lemma rounds_to_abs: "rounds_to x r \<Longrightarrow> rounds_to (abs x) \<bar>r\<bar>"
proof -
  assume "rounds_to x r"
  then obtain s n d where d: "0 < d" and r: "r = signed s (real n / real d)"
    and k: "key x = key (round_ratio s n d)" and x: "\<not> is_nan x"
    by (auto simp: rounds_to_def)
  have "\<bar>r\<bar> = signed False (real n / real d)" unfolding r by (simp add: signed_def)
  moreover have "magn x = magn (round_ratio s n d)" using k by (auto simp: key_def split: if_splits)
  then have "key (abs x) = key (round_ratio False n d)"
    by (simp add: abs_f64_def key_def round_ratio_magn)
  moreover have "\<not> is_nan (abs x)" using x by (simp add: abs_f64_def)
  ultimately show ?thesis using d unfolding rounds_to_def by blast
qed

lemma less_f64_fin: "is_fin x \<Longrightarrow> is_fin y \<Longrightarrow> x < y \<longleftrightarrow> fval x < fval y"
  by (simp add: less_f64_def fval_less_key)

lemma le_f64_fin: "is_fin x \<Longrightarrow> is_fin y \<Longrightarrow> x \<le> y \<longleftrightarrow> fval x \<le> fval y"
  by (simp add: less_eq_f64_def fval_le_key)

text \<open>What evaluates a closed expression of the model's arithmetic by rewriting.\<close>

lemma floorlog_numeral: "floorlog 2 (numeral n) = digits_acc (numeral n) 0"
  by (rule floorlog_digits)

lemma floorlog_one: "floorlog 2 (Suc 0) = 1"
  by (simp add: floorlog_def)

lemmas f64_eval =
  plus_f64_def minus_f64_def uminus_f64_def times_f64_def divide_f64_def abs_f64_def
  less_f64_def less_eq_f64_def feq_def key_def tkey_def
  f64_of_nat_def f64_of_int_def f64_of_u32_def lit_def fdiv_def fadd_def fmul_def fneg_def fabs_def
  round_ratio_def round_mag_def round_exp_def ratio_exp_def scale_def rhe_def enc_def
  floorlog_numeral floorlog_one digits_acc.simps
  is_nan_def is_inf_def is_fin_def fman_def fex_def fint_def man_def ex_def
  round_dyad_def dyad_def inf_mag_def mk_def magn_def sgn_bit_def fzero_def finf_def
  ipart_def has_frac_def ffloor_def fceil_def as_u32_def fmin_def fmax_def fclamp_def
  f64_nan_def f64_infinity_def f64_max_def

section \<open>Neutral and opposite numbers\<close>

lemma f64_eq_val:
  assumes "fval x = fval y" "magn y \<noteq> 0"
  shows "x = y"
proof -
  have k: "key x = key y" using assms(1) by (simp add: fval_eq_key)
  moreover have "magn x \<noteq> 0" using k assms(2) by (auto simp: key_def split: if_splits)
  ultimately show ?thesis using assms(2) by (intro f64_eqI) (auto simp: key_def split: if_splits)
qed

lemma plus_zero:
  assumes "is_fin x" "magn x \<noteq> 0" "magn z = 0"
  shows "x + z = x" "z + x = x" "x - z = x"
proof -
  have z: "is_fin z" "fval z = 0" "is_fin (fneg z)" "fval (fneg z) = 0"
    using assms(3) by (simp_all add: is_fin_def fval_zero_iff inf_mag_def)
  have "fval (x + z) = fval x" "fval (z + x) = fval x" "fval (x - z) = fval x"
    using rounds_to_exact [OF _ fin_not(1) [OF assms(1)]] fadd_rounds [OF assms(1) z(1)]
      fadd_rounds [OF z(1) assms(1)] fsub_rounds [OF assms(1) z(1)] z by simp_all
  then show "x + z = x" "z + x = x" "x - z = x" using f64_eq_val assms(2) by blast+
qed

lemma minus_self: "is_fin x \<Longrightarrow> x - x = fzero False"
  by (simp add: minus_f64_def plus_f64_def fadd_def Let_def fint_def fex_def fman_def)

end
