(* ===== verification/F32.thy ===== *)
theory F32
  imports F64
begin

text \<open>
  Rust's \<open>f32\<close>, bit for bit, in the same shape as the 64-bit format of F64: the 32-bit
  pattern, the order, the casts from and to \<open>f64\<close>, and the arithmetic. The sum, the
  product and the quotient of two 32-bit numbers are computed in the 64-bit format and then
  rounded: its 53 digits are more than twice 24 plus 1, so that the two roundings give the
  one correct rounding.
\<close>

datatype f32 = F32 (bits32: u32)

definition inf_mag32 :: nat where
  "inf_mag32 = 2139095040"

definition sgn32 :: "f32 \<Rightarrow> bool" where
  "sgn32 x \<longleftrightarrow> 2147483648 \<le> unat (bits32 x)"

definition magn32 :: "f32 \<Rightarrow> nat" where
  "magn32 x = unat (bits32 x) mod 2147483648"

definition is_nan32 :: "f32 \<Rightarrow> bool" where
  "is_nan32 x \<longleftrightarrow> inf_mag32 < magn32 x"

definition key32 :: "f32 \<Rightarrow> int" where
  "key32 x = (if sgn32 x then - int (magn32 x) else int (magn32 x))"

instantiation f32 :: ord
begin

definition less_f32 :: "f32 \<Rightarrow> f32 \<Rightarrow> bool" where
  "x < y \<longleftrightarrow> \<not> is_nan32 x \<and> \<not> is_nan32 y \<and> key32 x < key32 y"

definition less_eq_f32 :: "f32 \<Rightarrow> f32 \<Rightarrow> bool" where
  "x \<le> y \<longleftrightarrow> \<not> is_nan32 x \<and> \<not> is_nan32 y \<and> key32 x \<le> key32 y"

instance ..

end

text \<open>\<open>f32::clamp\<close>; it keeps NaN.\<close>

definition clamp32 :: "f32 \<Rightarrow> f32 \<Rightarrow> f32 \<Rightarrow> f32" where
  "clamp32 x lo hi = (if x < lo then lo else if hi < x then hi else x)"

lemma clamp32_idem: "\<not> hi < lo \<Longrightarrow> clamp32 (clamp32 x lo hi) lo hi = clamp32 x lo hi"
  by (auto simp: clamp32_def less_f32_def)

lemma clamp32_bounds:
  assumes "\<not> is_nan32 x" "lo \<le> hi"
  shows "lo \<le> clamp32 x lo hi" "clamp32 x lo hi \<le> hi"
  using assms by (auto simp: clamp32_def less_f32_def less_eq_f32_def)

lemma clamp32_nan: "is_nan32 x \<Longrightarrow> clamp32 x lo hi = x"
  by (auto simp: clamp32_def less_f32_def)

section \<open>Casts\<close>

definition mk32 :: "bool \<Rightarrow> nat \<Rightarrow> f32" where
  "mk32 s m = F32 (word_of_nat ((if s then 2147483648 else 0) + m))"

definition is_inf32 :: "f32 \<Rightarrow> bool" where
  "is_inf32 x \<longleftrightarrow> magn32 x = inf_mag32"

definition f64_of_f32 :: "f32 \<Rightarrow> f64" where
  "f64_of_f32 x =
    (if is_nan32 x then f64_nan
     else if is_inf32 x then finf (sgn32 x)
     else if magn32 x = 0 then fzero (sgn32 x)
     else round_dyad (sgn32 x) (man 23 (magn32 x)) (ex 23 (magn32 x)) 149)"

text \<open>\<open>as f32\<close> and the rounding of a ratio of natural numbers.\<close>

definition round_ratio32 :: "bool \<Rightarrow> nat \<Rightarrow> nat \<Rightarrow> f32" where
  "round_ratio32 s n d = mk32 s (min inf_mag32 (round_mag 23 149 n d))"

definition f32_of_f64 :: "f64 \<Rightarrow> f32" where
  "f32_of_f64 x =
    (if is_nan x then F32 2143289344
     else if is_inf x then mk32 (sgn_bit x) inf_mag32
     else case dyad (fman x) (fex x) 1074 of (n, d) \<Rightarrow> round_ratio32 (sgn_bit x) n d)"

definition f32_of_u32 :: "u32 \<Rightarrow> f32" where
  "f32_of_u32 w = round_ratio32 False (unat w) 1"

text \<open>A decimal literal.\<close>

definition lit32 :: "nat \<Rightarrow> nat \<Rightarrow> f32" where
  "lit32 n d = round_ratio32 False n d"

section \<open>Arithmetic\<close>

instantiation f32 :: "{plus, minus, uminus, times, abs}"
begin

definition plus_f32 :: "f32 \<Rightarrow> f32 \<Rightarrow> f32" where "a + b = f32_of_f64 (f64_of_f32 a + f64_of_f32 b)"

definition uminus_f32 :: "f32 \<Rightarrow> f32" where "- a = mk32 (\<not> sgn32 a) (magn32 a)"

definition minus_f32 :: "f32 \<Rightarrow> f32 \<Rightarrow> f32" where "a - b = f32_of_f64 (f64_of_f32 a - f64_of_f32 b)"

definition times_f32 :: "f32 \<Rightarrow> f32 \<Rightarrow> f32" where "a * b = f32_of_f64 (f64_of_f32 a * f64_of_f32 b)"

definition abs_f32 :: "f32 \<Rightarrow> f32" where "\<bar>a\<bar> = mk32 False (magn32 a)"

instance ..

end

instantiation f32 :: inverse
begin

definition divide_f32 :: "f32 \<Rightarrow> f32 \<Rightarrow> f32" where "a div b = f32_of_f64 (f64_of_f32 a div f64_of_f32 b)"

definition inverse_f32 :: "f32 \<Rightarrow> f32" where "inverse a = f32_of_f64 (lit 1 1 div f64_of_f32 a)"

instance ..

end

definition fmin32 :: "f32 \<Rightarrow> f32 \<Rightarrow> f32" where
  "fmin32 x y = (if is_nan32 x then y else if is_nan32 y then x else if x < y then x else y)"

definition fmax32 :: "f32 \<Rightarrow> f32 \<Rightarrow> f32" where
  "fmax32 x y = (if is_nan32 x then y else if is_nan32 y then x else if y < x then x else y)"

definition f32_of_nat :: "nat \<Rightarrow> f32" where
  "f32_of_nat n = F32 (word_of_nat (min inf_mag32 (round_mag 23 149 n 1)))"

definition f32_neg_of_nat :: "nat \<Rightarrow> f32" where
  "f32_neg_of_nat n = F32 (word_of_nat (2147483648 + min inf_mag32 (round_mag 23 149 n 1)))"

lemmas f32_eval = f64_of_f32_def f32_of_f64_def round_ratio32_def lit32_def f32_of_u32_def mk32_def is_inf32_def
  plus_f32_def minus_f32_def uminus_f32_def times_f32_def divide_f32_def abs_f32_def fmin32_def fmax32_def
  f32_of_nat_def f32_neg_of_nat_def inf_mag32_def sgn32_def magn32_def is_nan32_def
  key32_def less_f32_def less_eq_f32_def clamp32_def
  round_mag_def round_exp_def ratio_exp_def scale_def rhe_def enc_def
  floorlog_numeral floorlog_one digits_acc.simps

lemma f32_20: "f32_of_nat 20 = F32 1101004800" "f32_neg_of_nat 20 = F32 3248488448"
  by (simp_all add: f32_eval)

end
