(* ===== verification/Libm.thy ===== *)
theory Libm
  imports F32
begin

text \<open>
  The rest of Rust's \<open>f64\<close>. The square root, the roundings to integers, the sign and the
  casts are exact and defined bit for bit. The elementary functions are the platform's: the
  language does not fix their results, so they are the fields of a record that the
  calculations take as an argument. What a theorem uses of them is a hypothesis of it.
\<close>

record libm =
  lm_exp :: "f64 \<Rightarrow> f64"
  lm_ln :: "f64 \<Rightarrow> f64"
  lm_log10 :: "f64 \<Rightarrow> f64"
  lm_powf :: "f64 \<Rightarrow> f64 \<Rightarrow> f64"
  lm_powi :: "f64 \<Rightarrow> nat \<Rightarrow> f64"
  lm_sin :: "f64 \<Rightarrow> f64"
  lm_cos :: "f64 \<Rightarrow> f64"
  lm_atan2 :: "f64 \<Rightarrow> f64 \<Rightarrow> f64"
  lm_cbrt :: "f64 \<Rightarrow> f64"

section \<open>Square root\<close>

text \<open>The integer square root, digit by digit from the top.\<close>

fun isqrt_digits :: "nat \<Rightarrow> nat \<Rightarrow> nat \<Rightarrow> nat" where
  "isqrt_digits n 0 r = r"
| "isqrt_digits n (Suc k) r = (let r' = r + 2 ^ k in isqrt_digits n k (if r' * r' \<le> n then r' else r))"

definition isqrt :: "nat \<Rightarrow> nat" where
  "isqrt n = isqrt_digits n (floorlog 2 n div 2 + 1) 0"

text \<open>
  The root of a positive finite value \<open>m * 2 ^ e / 2 ^ 1074\<close>: the mantissa is scaled up
  by 2 to the power 112 or 113, whichever makes the exponent even, so that the integer root has more digits than the format;
  an additional odd digit records that it was not exact. The result is then rounded once.
\<close>

definition fsqrt :: "f64 \<Rightarrow> f64" where
  "fsqrt x =
    (if is_nan x then f64_nan
     else if magn x = 0 then x
     else if sgn_bit x then f64_nan
     else if is_inf x then x
     else let k = (if even (fex x) then 112 else 113);
              n = fman x * 2 ^ k;
              r = isqrt n;
              m = 2 * r + (if r * r = n then 0 else 1)
          in round_dyad False m (fex x div 2) 594)"

lemma isqrt_digits_bounds:
  assumes "r * r \<le> n" "n < (r + 2 ^ k) * (r + 2 ^ k)"
  shows "isqrt_digits n k r * isqrt_digits n k r \<le> n
    \<and> n < (isqrt_digits n k r + 1) * (isqrt_digits n k r + 1)"
  using assms
proof (induction k arbitrary: r)
  case (Suc k)
  let ?r' = "r + 2 ^ k"
  show ?case
  proof (cases "?r' * ?r' \<le> n")
    case True
    have "?r' + 2 ^ k = r + 2 ^ Suc k" by simp
    then have "n < (?r' + 2 ^ k) * (?r' + 2 ^ k)" using Suc.prems(2) by (simp only:)
    then show ?thesis using Suc.IH [OF True] True by (simp add: Let_def)
  next
    case False
    then have "n < ?r' * ?r'" by simp
    then show ?thesis using Suc.IH [OF Suc.prems(1)] False by (simp add: Let_def)
  qed
qed simp

lemma isqrt_bounds: "isqrt n * isqrt n \<le> n \<and> n < (isqrt n + 1) * (isqrt n + 1)"
proof -
  let ?L = "floorlog 2 n" and ?k = "floorlog 2 n div 2 + 1"
  have "n < 2 ^ ?L"
    using floorlog_bounds [of n 2] by (cases "n = 0") (simp_all add: floorlog_def)
  also have "(2::nat) ^ ?L \<le> 2 ^ (?k + ?k)" by (rule power_increasing) linarith+
  also have "(2::nat) ^ (?k + ?k) = 2 ^ ?k * 2 ^ ?k" by (rule power_add)
  finally show ?thesis unfolding isqrt_def by (intro isqrt_digits_bounds) simp_all
qed

section \<open>Rounding to integers\<close>

definition ftrunc :: "f64 \<Rightarrow> f64" where
  "ftrunc x = (if \<not> is_fin x then x else round_ratio (sgn_bit x) (ipart x) 1)"

text \<open>The fraction of a finite value, as twice itself compared with one.\<close>

definition frac_num :: "f64 \<Rightarrow> nat" where
  "frac_num x = (if 1074 \<le> fex x then 0 else fman x mod 2 ^ (1074 - fex x))"

definition frac_den :: "f64 \<Rightarrow> nat" where
  "frac_den x = (if 1074 \<le> fex x then 1 else 2 ^ (1074 - fex x))"

text \<open>\<open>f64::round\<close>: halves away from zero.\<close>

definition fround :: "f64 \<Rightarrow> f64" where
  "fround x = (if \<not> is_fin x then x
     else round_ratio (sgn_bit x) (ipart x + (if frac_den x \<le> 2 * frac_num x then 1 else 0)) 1)"

definition fround_even :: "f64 \<Rightarrow> f64" where
  "fround_even x = (if \<not> is_fin x then x
     else round_ratio (sgn_bit x) (ipart x +
       (if frac_den x < 2 * frac_num x \<or> frac_den x = 2 * frac_num x \<and> odd (ipart x) then 1 else 0)) 1)"

definition fsignum :: "f64 \<Rightarrow> f64" where
  "fsignum x = (if is_nan x then f64_nan else round_ratio (sgn_bit x) 1 1)"

section \<open>Casts to signed integers\<close>

text \<open>Saturating, 0 for NaN. The word is the two's complement.\<close>

definition as_int :: "nat \<Rightarrow> f64 \<Rightarrow> int" where
  "as_int w x = (if is_nan x then 0
     else if sgn_bit x then (if is_inf x then - (2 ^ (w - 1)) else max (- (2 ^ (w - 1))) (- int (ipart x)))
     else (if is_inf x then 2 ^ (w - 1) - 1 else min (2 ^ (w - 1) - 1) (int (ipart x))))"

definition as_i32 :: "f64 \<Rightarrow> i32" where
  "as_i32 x = word_of_int (as_int 32 x)"

definition as_i64 :: "f64 \<Rightarrow> 64 word" where
  "as_i64 x = word_of_int (as_int 64 x)"

definition f64_of_i32 :: "i32 \<Rightarrow> f64" where
  "f64_of_i32 w = f64_of_int (sint w)"

definition f64_of_i64 :: "64 word \<Rightarrow> f64" where
  "f64_of_i64 w = f64_of_int (sint w)"

definition f64_of_u64 :: "u64 \<Rightarrow> f64" where
  "f64_of_u64 w = f64_of_nat (unat w)"

text \<open>
  The sum of an iterator; the fold starts with negative zero, the neutral element of the
  addition.
\<close>

definition fsum :: "f64 list \<Rightarrow> f64" where
  "fsum xs = foldl (+) (fzero True) xs"

text \<open>\<open>std::f64::consts::PI\<close>.\<close>

definition f64_pi :: f64 where
  "f64_pi = F64 4614256656552045848"

end
