(* ===== verification/Control_Points.thy ===== *)
theory Control_Points
  imports F32
begin

text \<open>
  Timing points, difficulty points and effect points of a beatmap
  (\<open>src/model/control_point/*.rs\<close>), their insertion into the lists of a beatmap
  (\<open>src/model/beatmap/decode.rs\<close>), and \<open>src/util/float_ext.rs\<close>. The lists are kept
  sorted by time; insertions and lookups are binary searches with \<open>total_cmp\<close>, the order
  of \<open>tkey\<close>. The interface that the beatmap relies on is the locale
  \<open>timed_points\<close>, interpreted for the three kinds of points.
\<close>

section \<open>Approximate equality\<close>

definition f64_epsilon :: f64 where
  "f64_epsilon = lit 1 4503599627370496"

definition almost_eq :: "f64 \<Rightarrow> f64 \<Rightarrow> f64 \<Rightarrow> bool" where
  "almost_eq x y acceptable_difference \<longleftrightarrow> abs (x - y) \<le> acceptable_difference"

definition float_eq :: "f64 \<Rightarrow> f64 \<Rightarrow> bool" where
  "float_eq x y \<longleftrightarrow> almost_eq x y f64_epsilon"

definition float_not_eq :: "f64 \<Rightarrow> f64 \<Rightarrow> bool" where
  "float_not_eq x y \<longleftrightarrow> f64_epsilon \<le> abs (x - y)"

definition lerp :: "f64 \<Rightarrow> f64 \<Rightarrow> f64 \<Rightarrow> f64" where
  "lerp value1 value2 amount = value1 * (lit 1 1 - amount) + value2 * amount"

section \<open>Binary search\<close>

text \<open>
  The standard library's \<open>binary_search_by\<close> with \<open>total_cmp\<close> on the times. The result
  is \<open>Inr i\<close> where element \<open>i\<close> has the time, and \<open>Inl i\<close> where it would be
  inserted.
\<close>

function search_base :: "int list \<Rightarrow> int \<Rightarrow> nat \<Rightarrow> nat \<Rightarrow> nat" where
  "search_base ks k base sz =
    (if sz \<le> 1 then base
     else let half = sz div 2; mid = base + half
          in search_base ks k (if k < ks ! mid then base else mid) (sz - half))"
  by pat_completeness auto
termination by (relation "measure (\<lambda>(ks, k, base, sz). sz)") auto

declare search_base.simps [simp del]

definition binary_search :: "('p \<Rightarrow> f64) \<Rightarrow> f64 \<Rightarrow> 'p list \<Rightarrow> nat + nat" where
  "binary_search tm t ps =
    (if ps = [] then Inl 0
     else let base = search_base (map (tkey \<circ> tm) ps) (tkey t) 0 (length ps); key = tkey (tm (ps ! base))
          in if key = tkey t then Inr base else if key < tkey t then Inl (base + 1) else Inl base)"

text \<open>Insertion, where a point at the same time is replaced.\<close>

definition add_point :: "('p \<Rightarrow> f64) \<Rightarrow> 'p \<Rightarrow> 'p list \<Rightarrow> 'p list" where
  "add_point tm p ps = (case binary_search tm (tm p) ps of
      Inl i \<Rightarrow> take i ps @ p # drop i ps
    | Inr i \<Rightarrow> ps[i := p])"

text \<open>The last point at or before a time, where there is one.\<close>

definition point_at :: "('p \<Rightarrow> f64) \<Rightarrow> 'p list \<Rightarrow> f64 \<Rightarrow> 'p option" where
  "point_at tm ps t = (case binary_search tm t ps of
      Inl i \<Rightarrow> if i = 0 then None else Some (ps ! (i - 1))
    | Inr i \<Rightarrow> Some (ps ! i))"

text \<open>The same, but the first point stands for the time before it.\<close>

definition point_at_or_first :: "('p \<Rightarrow> f64) \<Rightarrow> 'p list \<Rightarrow> f64 \<Rightarrow> 'p option" where
  "point_at_or_first tm ps t =
    (let i = (case binary_search tm t ps of Inl i \<Rightarrow> i - 1 | Inr i \<Rightarrow> i)
     in if i < length ps then Some (ps ! i) else None)"

section \<open>The points\<close>

record timing_point =
  tp_time :: f64
  tp_beat_len :: f64

definition timing_point_new :: "f64 \<Rightarrow> f64 \<Rightarrow> timing_point" where
  "timing_point_new t beat_len = \<lparr>tp_time = t, tp_beat_len = fclamp beat_len (lit 6 1) (lit 60000 1)\<rparr>"

definition timing_point_bpm :: "timing_point \<Rightarrow> f64" where
  "timing_point_bpm p = lit 60000 1 / tp_beat_len p"

definition timing_point_at :: "timing_point list \<Rightarrow> f64 \<Rightarrow> timing_point option" where
  "timing_point_at = point_at_or_first tp_time"

definition add_timing_point :: "timing_point \<Rightarrow> timing_point list \<Rightarrow> timing_point list" where
  "add_timing_point = add_point tp_time"

record difficulty_point =
  dp_time :: f64
  dp_slider_velocity :: f64
  dp_bpm_multiplier :: f64
  dp_generate_ticks :: bool

definition difficulty_point_new :: "f64 \<Rightarrow> f64 \<Rightarrow> f64 \<Rightarrow> difficulty_point" where
  "difficulty_point_new t beat_len speed_multiplier =
    \<lparr>dp_time = t, dp_slider_velocity = fclamp speed_multiplier (lit 1 10) (lit 10 1),
     dp_bpm_multiplier = (if beat_len < lit 0 1
       then fclamp (f64_of_f32 (f32_of_f64 (- beat_len))) (lit 10 1) (lit 10000 1) / lit 100 1
       else lit 1 1),
     dp_generate_ticks = (\<not> is_nan beat_len)\<rparr>"

definition difficulty_point_default :: difficulty_point where
  "difficulty_point_default = \<lparr>dp_time = lit 0 1, dp_slider_velocity = lit 1 1,
     dp_bpm_multiplier = lit 1 1, dp_generate_ticks = True\<rparr>"

definition difficulty_point_redundant :: "difficulty_point \<Rightarrow> difficulty_point \<Rightarrow> bool" where
  "difficulty_point_redundant p existing \<longleftrightarrow>
    dp_generate_ticks p = dp_generate_ticks existing
    \<and> float_eq (dp_slider_velocity p) (dp_slider_velocity existing)"

definition difficulty_point_at :: "difficulty_point list \<Rightarrow> f64 \<Rightarrow> difficulty_point option" where
  "difficulty_point_at = point_at dp_time"

definition difficulty_point_exists :: "difficulty_point \<Rightarrow> difficulty_point list \<Rightarrow> bool" where
  "difficulty_point_exists p ps = (case difficulty_point_at ps (dp_time p) of
      Some existing \<Rightarrow> difficulty_point_redundant p existing
    | None \<Rightarrow> difficulty_point_redundant p difficulty_point_default)"

definition add_difficulty_point :: "difficulty_point \<Rightarrow> difficulty_point list \<Rightarrow> difficulty_point list" where
  "add_difficulty_point = add_point dp_time"

record effect_point =
  ep_time :: f64
  ep_kiai :: bool
  ep_scroll_speed :: f64

definition effect_point_new :: "f64 \<Rightarrow> bool \<Rightarrow> effect_point" where
  "effect_point_new t kiai = \<lparr>ep_time = t, ep_kiai = kiai, ep_scroll_speed = lit 1 1\<rparr>"

definition effect_point_default :: effect_point where
  "effect_point_default = \<lparr>ep_time = lit 0 1, ep_kiai = False, ep_scroll_speed = lit 1 1\<rparr>"

definition effect_point_redundant :: "effect_point \<Rightarrow> effect_point \<Rightarrow> bool" where
  "effect_point_redundant p existing \<longleftrightarrow>
    ep_kiai p = ep_kiai existing \<and> float_eq (ep_scroll_speed p) (ep_scroll_speed existing)"

definition effect_point_at :: "effect_point list \<Rightarrow> f64 \<Rightarrow> effect_point option" where
  "effect_point_at = point_at ep_time"

definition effect_point_exists :: "effect_point \<Rightarrow> effect_point list \<Rightarrow> bool" where
  "effect_point_exists p ps = (case effect_point_at ps (ep_time p) of
      Some existing \<Rightarrow> effect_point_redundant p existing
    | None \<Rightarrow> effect_point_redundant p effect_point_default)"

definition add_effect_point :: "effect_point \<Rightarrow> effect_point list \<Rightarrow> effect_point list" where
  "add_effect_point = add_point ep_time"

section \<open>The search is correct\<close>

text \<open>Sorted by time, each time once.\<close>

definition timed :: "('p \<Rightarrow> f64) \<Rightarrow> 'p list \<Rightarrow> bool" where
  "timed tm ps \<longleftrightarrow> sorted_wrt (<) (map (tkey \<circ> tm) ps)"

lemma search_base_range:
  assumes "sorted ks" "0 < sz" "base + sz \<le> length ks"
    and "base = 0 \<or> ks ! base \<le> k" "\<forall>j. base + sz \<le> j \<and> j < length ks \<longrightarrow> k < ks ! j"
  shows "search_base ks k base sz < length ks \<and>
    (search_base ks k base sz = 0 \<or> ks ! search_base ks k base sz \<le> k) \<and>
    (\<forall>j. search_base ks k base sz < j \<and> j < length ks \<longrightarrow> k < ks ! j)"
  using assms
proof (induction ks k base sz rule: search_base.induct)
  case (1 ks k base sz)
  let ?h = "sz div 2"
  let ?b = "if k < ks ! (base + ?h) then base else base + ?h"
  show ?case
  proof (cases "sz \<le> 1")
    case True
    then have "search_base ks k base sz = base" by (subst search_base.simps) simp
    then show ?thesis using True "1.prems" by auto
  next
    case False
    have e: "search_base ks k base sz = search_base ks k ?b (sz - ?h)"
      using False by (subst search_base.simps) (simp add: Let_def)
    have h: "0 < ?h" "?h < sz" using False by auto
    have up: "\<forall>j. ?b + (sz - ?h) \<le> j \<and> j < length ks \<longrightarrow> k < ks ! j"
    proof (cases "k < ks ! (base + ?h)")
      case True
      have "k < ks ! j" if "base + (sz - ?h) \<le> j" "j < length ks" for j
      proof -
        have "base + ?h \<le> j" using that(1) by linarith
        then show ?thesis using sorted_nth_mono [OF "1.prems"(1) _ that(2)] True by fastforce
      qed
      then show ?thesis using True by simp
    next
      case False
      then show ?thesis using "1.prems"(5) h by auto
    qed
    have pre: "0 < sz - ?h" "?b + (sz - ?h) \<le> length ks" "?b = 0 \<or> ks ! ?b \<le> k"
      using h "1.prems"(3,4) by auto
    show ?thesis unfolding e using "1.IH" [OF False refl refl "1.prems"(1) pre up] .
  qed
qed

text \<open>Either the time is there, or the two parts around the place of insertion enclose it.\<close>

lemma binary_search_cases:
  assumes "sorted (map (tkey \<circ> tm) ps)"
  shows "case binary_search tm t ps of
      Inr i \<Rightarrow> i < length ps \<and> tkey (tm (ps ! i)) = tkey t \<and> (\<forall>j. i < j \<and> j < length ps \<longrightarrow> tkey t < tkey (tm (ps ! j)))
    | Inl i \<Rightarrow> i \<le> length ps \<and> (\<forall>j < i. tkey (tm (ps ! j)) < tkey t)
        \<and> (\<forall>j. i \<le> j \<and> j < length ps \<longrightarrow> tkey t < tkey (tm (ps ! j)))"
proof (cases "ps = []")
  case False
  let ?ks = "map (tkey \<circ> tm) ps"
  let ?b = "search_base ?ks (tkey t) 0 (length ps)"
  have s: "?b < length ?ks \<and> (?b = 0 \<or> ?ks ! ?b \<le> tkey t) \<and> (\<forall>j. ?b < j \<and> j < length ?ks \<longrightarrow> tkey t < ?ks ! j)"
    by (rule search_base_range [OF assms]) (use False in simp_all)
  then have r: "?b < length ps" by simp
  with s have r2: "?b = 0 \<or> tkey (tm (ps ! ?b)) \<le> tkey t"
    and r3: "\<forall>j. ?b < j \<and> j < length ps \<longrightarrow> tkey t < tkey (tm (ps ! j))" by auto
  have mono: "tkey (tm (ps ! i)) \<le> tkey (tm (ps ! j))" if "i \<le> j" "j < length ps" for i j
    using sorted_nth_mono [OF assms that(1)] that by simp
  show ?thesis
  proof (cases "tkey (tm (ps ! ?b))" "tkey t" rule: linorder_cases)
    case less
    then have "binary_search tm t ps = Inl (?b + 1)" using False by (simp add: binary_search_def Let_def)
    moreover have "tkey (tm (ps ! j)) < tkey t" if "j < ?b + 1" for j
      using mono [of j ?b] that r less by simp
    ultimately show ?thesis using r r3 by auto
  next
    case equal
    then have "binary_search tm t ps = Inr ?b" using False by (simp add: binary_search_def Let_def)
    then show ?thesis using r r3 equal by auto
  next
    case greater
    then have "?b = 0" using r2 by auto
    then have "binary_search tm t ps = Inl 0" using False greater by (simp add: binary_search_def Let_def)
    moreover have "tkey t < tkey (tm (ps ! j))" if "j < length ps" for j
      using mono [of 0 j] that greater \<open>?b = 0\<close> by simp
    ultimately show ?thesis by simp
  qed
qed (simp add: binary_search_def)


section \<open>Insertion and lookup\<close>

lemma timed_sorted: "timed tm ps \<Longrightarrow> sorted (map (tkey \<circ> tm) ps)"
  by (auto simp: timed_def intro: sorted_wrt_mono_rel [of _ "(<)"])

lemma timed_nth:
  "timed tm ps \<Longrightarrow> i < j \<Longrightarrow> j < length ps \<Longrightarrow> tkey (tm (ps ! i)) < tkey (tm (ps ! j))"
  by (auto simp: timed_def sorted_wrt_iff_nth_less)

text \<open>
  The reference: of the points in the order of their insertion, the last one of the latest
  time that is not after \<open>t\<close>.
\<close>

definition active :: "('p \<Rightarrow> f64) \<Rightarrow> f64 \<Rightarrow> 'p list \<Rightarrow> 'p option" where
  "active tm t ps = fold (\<lambda>p acc. case acc of
       None \<Rightarrow> if tkey (tm p) \<le> tkey t then Some p else None
     | Some a \<Rightarrow> if tkey (tm p) \<le> tkey t \<and> tkey (tm a) \<le> tkey (tm p) then Some p else Some a) ps None"

text \<open>What the beatmap relies on, for any kind of point.\<close>

locale timed_points =
  fixes tm :: "'p \<Rightarrow> f64"
    and add :: "'p \<Rightarrow> 'p list \<Rightarrow> 'p list"
    and look :: "'p list \<Rightarrow> f64 \<Rightarrow> 'p option"
  assumes add_timed: "timed tm ps \<Longrightarrow> timed tm (add p ps)"
    and add_set: "timed tm ps \<Longrightarrow> set (add p ps) = insert p {q \<in> set ps. tm q \<noteq> tm p}"
    and look_last: "timed tm ps \<Longrightarrow> q \<in> set ps \<Longrightarrow> tkey (tm q) \<le> tkey t \<Longrightarrow>
      \<exists>p. look ps t = Some p \<and> p \<in> set ps \<and> tkey (tm q) \<le> tkey (tm p) \<and> tkey (tm p) \<le> tkey t"
begin

lemma timed_inj: "timed tm ps \<Longrightarrow> p \<in> set ps \<Longrightarrow> q \<in> set ps \<Longrightarrow> tm p = tm q \<Longrightarrow> p = q"
  by (metis in_set_conv_nth linorder_neqE_nat order_less_irrefl timed_nth)

text \<open>Building a list from points in any order.\<close>

lemma build_timed: "timed tm (fold add ps [])"
proof -
  have "timed tm qs \<Longrightarrow> timed tm (fold add ps qs)" for qs
    by (induction ps arbitrary: qs) (simp_all add: add_timed)
  then show ?thesis by (simp add: timed_def)
qed

lemma build_step: "fold add (ps @ [p]) [] = add p (fold add ps [])"
  by simp

text \<open>The lookup finds the one latest point.\<close>

lemma look_iff:
  assumes "timed tm ps" "r \<in> set ps" "tkey (tm r) \<le> tkey t"
    and "\<And>q. q \<in> set ps \<Longrightarrow> tkey (tm q) \<le> tkey t \<Longrightarrow> tkey (tm q) \<le> tkey (tm r)"
  shows "look ps t = Some r"
proof -
  obtain p where p: "look ps t = Some p" "p \<in> set ps" "tkey (tm r) \<le> tkey (tm p)" "tkey (tm p) \<le> tkey t"
    using look_last [OF assms(1-3)] by blast
  then have "tkey (tm p) = tkey (tm r)" using assms(4) by force
  then have "tm p = tm r" by (simp only: tkey_inj)
  then have "p = r" using timed_inj [OF assms(1) p(2) assms(2)] by blast
  then show ?thesis using p(1) by simp
qed

text \<open>
  What the list that was built holds: where the points in their order of insertion have an
  active one, it is in the list, and no other point before the time is later.
\<close>

lemma build_active:
  "case active tm t ps of
     None \<Rightarrow> \<forall>q \<in> set (fold add ps []). tkey t < tkey (tm q)
   | Some a \<Rightarrow> a \<in> set (fold add ps []) \<and> tkey (tm a) \<le> tkey t
       \<and> (\<forall>q \<in> set (fold add ps []). tkey (tm q) \<le> tkey t \<longrightarrow> tkey (tm q) \<le> tkey (tm a))"
proof (induction ps rule: rev_induct)
  case Nil
  show ?case by (simp add: active_def)
next
  case (snoc p ps)
  let ?S = "set (fold add ps [])"
  have e: "set (add p (fold add ps [])) = insert p {q \<in> ?S. tm q \<noteq> tm p}" by (rule add_set [OF build_timed])
  show ?case
  proof (cases "active tm t ps")
    case None
    then show ?thesis using snoc.IH unfolding build_step e by (auto simp: active_def)
  next
    case (Some a)
    then have a: "a \<in> ?S" "tkey (tm a) \<le> tkey t" "\<forall>q \<in> ?S. tkey (tm q) \<le> tkey t \<longrightarrow> tkey (tm q) \<le> tkey (tm a)"
      using snoc.IH by simp_all
    show ?thesis
    proof (cases "tkey (tm p) \<le> tkey t \<and> tkey (tm a) \<le> tkey (tm p)")
      case True
      then have "active tm t (ps @ [p]) = Some p" using Some by (simp add: active_def)
      then show ?thesis using True a(3) unfolding build_step e by fastforce
    next
      case False
      then have s: "active tm t (ps @ [p]) = Some a" using Some by (auto simp: active_def)
      have "tm a \<noteq> tm p" using False a(2) by auto
      then show ?thesis using False a unfolding build_step e s by auto
    qed
  qed
qed

lemma look_build:
  assumes "active tm t ps \<noteq> None"
  shows "look (fold add ps []) t = active tm t ps"
proof -
  obtain a where a: "active tm t ps = Some a" using assms by blast
  then show ?thesis using build_active [of ps t] look_iff [OF build_timed] by auto
qed

end

lemma add_point_timed:
  assumes "timed tm ps"
  shows "timed tm (add_point tm p ps) \<and> set (add_point tm p ps) = insert p {q \<in> set ps. tm q \<noteq> tm p}"
proof -
  note c = binary_search_cases [OF timed_sorted [OF assms], of "tm p"]
  show ?thesis
  proof (cases "binary_search tm (tm p) ps")
    case (Inl i)
    then have i: "i \<le> length ps" "\<And>j. j < i \<Longrightarrow> tkey (tm (ps ! j)) < tkey (tm p)"
      "\<And>j. i \<le> j \<Longrightarrow> j < length ps \<Longrightarrow> tkey (tm p) < tkey (tm (ps ! j))" using c by auto
    have sets: "\<forall>q \<in> set (take i ps). tkey (tm q) < tkey (tm p)" "\<forall>q \<in> set (drop i ps). tkey (tm p) < tkey (tm q)"
      using i by (auto simp: in_set_conv_nth)
    have "sorted_wrt (<) (map (tkey \<circ> tm) (take i ps) @ map (tkey \<circ> tm) (drop i ps))"
      using assms by (simp add: timed_def flip: map_append)
    then have "timed tm (take i ps @ p # drop i ps)"
      using sets unfolding timed_def by (auto simp: sorted_wrt_append)
    moreover have "set ps = set (take i ps) \<union> set (drop i ps)" by (metis append_take_drop_id set_append)
    ultimately show ?thesis using sets by (auto simp: add_point_def Inl)
  next
    case (Inr i)
    then have i: "i < length ps" "tkey (tm (ps ! i)) = tkey (tm p)" using c by auto
    then have t: "tm (ps ! i) = tm p" by (simp add: tkey_inj)
    then have "map (tkey \<circ> tm) (ps[i := p]) = map (tkey \<circ> tm) ps"
      using i by (simp add: map_update list_update_same_conv)
    then have "timed tm (ps[i := p])" using assms by (simp only: timed_def)
    moreover have "set (ps[i := p]) = insert p {q \<in> set ps. tm q \<noteq> tm p}"
    proof -
      have d: "tm (ps ! j) \<noteq> tm p" if "j < length ps" "j \<noteq> i" for j
        using timed_nth [OF assms, of i j] timed_nth [OF assms, of j i] that i(1) t by (cases "i < j") auto
      have "x \<in> set (ps[i := p]) \<longleftrightarrow> x = p \<or> x \<in> set ps \<and> tm x \<noteq> tm p" for x
      proof
        assume "x \<in> set (ps[i := p])"
        then obtain j where j: "j < length ps" "x = ps[i := p] ! j" by (auto simp: in_set_conv_nth)
        then show "x = p \<or> x \<in> set ps \<and> tm x \<noteq> tm p" using d [of j] by (cases "j = i") auto
      next
        assume "x = p \<or> x \<in> set ps \<and> tm x \<noteq> tm p"
        then show "x \<in> set (ps[i := p])"
        proof
          assume "x = p" then show ?thesis using i(1) by (simp add: set_update_memI)
        next
          assume x: "x \<in> set ps \<and> tm x \<noteq> tm p"
          then obtain j where j: "j < length ps" "x = ps ! j" by (auto simp: in_set_conv_nth)
          then have "j \<noteq> i" using x t by auto
          then have "ps[i := p] ! j = x" using j by simp
          then show ?thesis using j(1) by (metis length_list_update nth_mem)
        qed
      qed
      then show ?thesis by auto
    qed
    ultimately show ?thesis by (simp add: add_point_def Inr)
  qed
qed

lemma point_at_cases:
  assumes "timed tm ps"
  shows "case point_at tm ps t of
      None \<Rightarrow> \<forall>q \<in> set ps. tkey t < tkey (tm q)
    | Some p \<Rightarrow> p \<in> set ps \<and> tkey (tm p) \<le> tkey t \<and> (\<forall>q \<in> set ps. tkey (tm q) \<le> tkey t \<longrightarrow> tkey (tm q) \<le> tkey (tm p))"
proof -
  note c = binary_search_cases [OF timed_sorted [OF assms], of t]
  show ?thesis
  proof (cases "binary_search tm t ps")
    case (Inl i)
    then have i: "i \<le> length ps" "\<And>j. j < i \<Longrightarrow> tkey (tm (ps ! j)) < tkey t"
      "\<And>j. i \<le> j \<Longrightarrow> j < length ps \<Longrightarrow> tkey t < tkey (tm (ps ! j))" using c by auto
    show ?thesis
    proof (cases "i = 0")
      case True
      then show ?thesis using i by (auto simp: point_at_def Inl in_set_conv_nth)
    next
      case False
      have "tkey (tm (ps ! j)) \<le> tkey (tm (ps ! (i - 1)))" if "j < i" for j
        using timed_nth [OF assms, of j "i - 1"] that i(1) by (cases "j = i - 1") (auto intro!: less_imp_le)
      moreover have "j < i" if "j < length ps" "tkey (tm (ps ! j)) \<le> tkey t" for j
        using i(3) [of j] that by fastforce
      ultimately show ?thesis using i(1) i(2) [of "i - 1"] False nth_mem [of "i - 1" ps]
        by (auto simp: point_at_def Inl in_set_conv_nth less_imp_le simp del: nth_mem)
    qed
  next
    case (Inr i)
    then have i: "i < length ps" "tkey (tm (ps ! i)) = tkey t" using c by auto
    then show ?thesis by (auto simp: point_at_def Inr)
  qed
qed

lemma point_at_last:
  assumes "timed tm ps" "q \<in> set ps" "tkey (tm q) \<le> tkey t"
  shows "\<exists>p. point_at tm ps t = Some p \<and> p \<in> set ps \<and> tkey (tm q) \<le> tkey (tm p) \<and> tkey (tm p) \<le> tkey t"
  using point_at_cases [OF assms(1), of t] assms(2,3) by (auto split: option.splits)

text \<open>With the first point as the default, the lookup differs only before the first point.\<close>

lemma point_at_or_first_is:
  "point_at_or_first tm ps t =
    (case point_at tm ps t of None \<Rightarrow> if ps = [] then None else Some (ps ! 0) | Some p \<Rightarrow> Some p)"
  if "timed tm ps"
  using binary_search_cases [OF timed_sorted [OF that], of t]
  by (auto simp: point_at_or_first_def point_at_def Let_def split: sum.splits)

interpretation timings: timed_points tp_time add_timing_point timing_point_at
proof unfold_locales
  show "timed tp_time (add_timing_point p ps)"
    "set (add_timing_point p ps) = insert p {q \<in> set ps. tp_time q \<noteq> tp_time p}"
    if "timed tp_time ps" for ps p
    using add_point_timed [OF that] by (simp_all add: add_timing_point_def)
  show "\<exists>p. timing_point_at ps t = Some p \<and> p \<in> set ps \<and> tkey (tp_time q) \<le> tkey (tp_time p) \<and> tkey (tp_time p) \<le> tkey t"
    if "timed tp_time ps" "q \<in> set ps" "tkey (tp_time q) \<le> tkey t" for ps q t
    using point_at_last [OF that] by (auto simp: timing_point_at_def point_at_or_first_is [OF that(1)])
qed

interpretation difficulties: timed_points dp_time add_difficulty_point difficulty_point_at
  by unfold_locales (auto simp: add_difficulty_point_def difficulty_point_at_def add_point_timed intro: point_at_last)

interpretation effects: timed_points ep_time add_effect_point effect_point_at
  by unfold_locales (auto simp: add_effect_point_def effect_point_at_def add_point_timed intro: point_at_last)


section \<open>The properties\<close>

text \<open>
  C34. Whatever points are added and in whatever order, the three lists of control points of
  a beatmap stay sorted by time, with one point per time.
\<close>

theorem control_points_sorted:
  "timed tp_time (fold add_timing_point ps []) \<and> timed dp_time (fold add_difficulty_point qs [])
    \<and> timed ep_time (fold add_effect_point rs [])"
  using timings.build_timed difficulties.build_timed effects.build_timed by blast

text \<open>
  C33. A lookup by binary search among the points of a beatmap finds the point that is active
  at the time: of all added points that are not later, one of the latest time, and of those
  the one that was added last. Where there is none, a lookup of difficulty or effect points
  finds none, and a lookup of timing points falls back to the first of the list.
\<close>

theorem control_point_lookup:
  "difficulty_point_at (fold add_difficulty_point qs []) t = active dp_time t qs
    \<and> effect_point_at (fold add_effect_point rs []) t = active ep_time t rs
    \<and> timing_point_at (fold add_timing_point ps []) t =
      (case active tp_time t ps of
         None \<Rightarrow> if fold add_timing_point ps [] = [] then None else Some (fold add_timing_point ps [] ! 0)
       | Some p \<Rightarrow> Some p)"
proof (intro conjI)
  show "difficulty_point_at (fold add_difficulty_point qs []) t = active dp_time t qs"
  proof (cases "active dp_time t qs = None")
    case True
    then show ?thesis using difficulties.build_active [of qs t]
        point_at_cases [OF difficulties.build_timed, of qs t]
      by (auto simp: difficulty_point_at_def split: option.splits)
  qed (rule difficulties.look_build)
  show "effect_point_at (fold add_effect_point rs []) t = active ep_time t rs"
  proof (cases "active ep_time t rs = None")
    case True
    then show ?thesis using effects.build_active [of rs t] point_at_cases [OF effects.build_timed, of rs t]
      by (auto simp: effect_point_at_def split: option.splits)
  qed (rule effects.look_build)
  show "timing_point_at (fold add_timing_point ps []) t =
      (case active tp_time t ps of
         None \<Rightarrow> if fold add_timing_point ps [] = [] then None else Some (fold add_timing_point ps [] ! 0)
       | Some p \<Rightarrow> Some p)"
  proof (cases "active tp_time t ps")
    case None
    then show ?thesis using timings.build_active [of ps t] point_at_cases [OF timings.build_timed, of ps t]
      by (auto simp: timing_point_at_def point_at_or_first_is [OF timings.build_timed] split: option.splits)
  next
    case (Some p)
    then show ?thesis using timings.look_build [of t ps] by simp
  qed
qed

end
