(* ===== verification/Difficulty_Math.thy ===== *)
theory Difficulty_Math
  imports Libm Control_Points
begin

text \<open>
  The formulas that the difficulty and performance calculations share
  (\<open>src/util/difficulty.rs\<close>, \<open>src/util/special_functions.rs\<close>). Where a formula
  promises a range or an end point, the lemmas prove it for the floating point code.
\<close>

section \<open>Curves\<close>

definition bpm_to_milliseconds :: "f64 \<Rightarrow> i32 option \<Rightarrow> f64" where
  "bpm_to_milliseconds bpm delimiter = lit 60000 1 / f64_of_i32 (unwrap_or 4 delimiter) / bpm"

definition milliseconds_to_bpm :: "f64 \<Rightarrow> i32 option \<Rightarrow> f64" where
  "milliseconds_to_bpm ms delimiter = lit 60000 1 / (ms * f64_of_i32 (unwrap_or 4 delimiter))"

definition logistic :: "libm \<Rightarrow> f64 \<Rightarrow> f64 \<Rightarrow> f64 \<Rightarrow> f64 option \<Rightarrow> f64" where
  "logistic lm x midpoint_offset multiplier max_value =
    unwrap_or (lit 1 1) max_value / (lit 1 1 + lm_exp lm (multiplier * (midpoint_offset - x)))"

definition logistic_exp :: "libm \<Rightarrow> f64 \<Rightarrow> f64 option \<Rightarrow> f64" where
  "logistic_exp lm e max_value = unwrap_or (lit 1 1) max_value / (lit 1 1 + lm_exp lm e)"

definition norm :: "libm \<Rightarrow> f64 \<Rightarrow> f64 list \<Rightarrow> f64" where
  "norm lm p values = lm_powf lm (fsum (map (\<lambda>x. lm_powf lm x p) values)) (lit 1 1 / p)"

text \<open>\<open>std::f64::consts::E\<close>.\<close>

definition f64_e :: f64 where
  "f64_e = lit 271828182845904523536028747135266250 100000000000000000000000000000000000"

definition bell_curve :: "libm \<Rightarrow> f64 \<Rightarrow> f64 \<Rightarrow> f64 \<Rightarrow> f64 option \<Rightarrow> f64" where
  "bell_curve lm x mean width multiplier = unwrap_or (lit 1 1) multiplier *
     lm_exp lm (f64_e * - (lm_powf lm (x - mean) (lit 2 1) / lm_powf lm width (lit 2 1)))"

definition reverse_lerp :: "f64 \<Rightarrow> f64 \<Rightarrow> f64 \<Rightarrow> f64" where
  "reverse_lerp x start end' = fclamp ((x - start) / (end' - start)) (lit 0 1) (lit 1 1)"

definition smoothstep :: "f64 \<Rightarrow> f64 \<Rightarrow> f64 \<Rightarrow> f64" where
  "smoothstep x start end' = (let x = reverse_lerp x start end' in x * x * (lit 3 1 - lit 2 1 * x))"

definition smoothstep_bell_curve :: "f64 \<Rightarrow> f64" where
  "smoothstep_bell_curve x =
    (let x = lit 1 2 - abs (x - lit 1 2);
         x = fclamp (x * lit 2 1) (lit 0 1) (lit 1 1)
     in x * x * (lit 3 1 - lit 2 1 * x))"

definition smootherstep :: "f64 \<Rightarrow> f64 \<Rightarrow> f64 \<Rightarrow> f64" where
  "smootherstep x start end' = (let x = reverse_lerp x start end'
     in x * x * x * (x * (lit 6 1 * x - lit 15 1) + lit 10 1))"

section \<open>The error function and its inverse\<close>

definition erf :: "libm \<Rightarrow> f64 \<Rightarrow> f64" where
  "erf lm x =
    (if feq x (lit 0 1) then lit 0 1
     else if feq x f64_infinity then lit 1 1
     else if feq x (- f64_infinity) then - lit 1 1
     else if is_nan x then f64_nan
     else let t = lit 1 1 / (lit 1 1 + lit 3275911 10000000 * abs x);
              tau = t * (lit 254829592 1000000000
                + t * (- lit 284496736 1000000000
                  + t * (lit 1421413741 1000000000
                    + t * (- lit 1453152027 1000000000 + t * lit 1061405429 1000000000))));
              result = lit 1 1 - tau * lm_exp lm (- x * x)
          in if lit 0 1 \<le> x then result else - result)"

definition erf_inv :: "libm \<Rightarrow> f64 \<Rightarrow> f64" where
  "erf_inv lm z =
    (if z \<le> - lit 1 1 then - f64_infinity
     else if lit 1 1 \<le> z then f64_infinity
     else if feq z (lit 0 1) then lit 0 1
     else let a = lit 147 1000;
              sgn = fsignum z;
              z = abs z;
              ln = lm_ln lm (lit 1 1 - z * z);
              t1 = lit 2 1 / (f64_pi * a) + ln / lit 2 1;
              t2 = ln / a;
              base_approx = fsqrt (t1 * t1 - t2) - t1;
              correction = (if lit 85 100 \<le> z
                then lm_powf lm ((z - lit 85 100) / lit 293 1000) (lit 8 1) else lit 0 1)
          in sgn * (fsqrt base_approx + correction))"

end
