(* ===== verification/Score_State.thy ===== *)
theory Score_State
  imports F64
begin

text \<open>
  The hit counts of a score in the four modes and the state of any mode
  (\<open>src/{any,osu,taiko,catch,mania}/score_state.rs\<close>): total hits, accuracy, and the
  conversions. Counts are \<open>u32\<close> with wrapping arithmetic, as in a release build.
\<close>

datatype game_mode = Osu | Taiko | Catch | Mania

record score_state =
  ss_max_combo :: u32
  ss_osu_large_tick_hits :: u32
  ss_osu_small_tick_hits :: u32
  ss_slider_end_hits :: u32
  ss_n_geki :: u32
  ss_n_katu :: u32
  ss_n300 :: u32
  ss_n100 :: u32
  ss_n50 :: u32
  ss_misses :: u32

record osu_score_state =
  os_max_combo :: u32
  os_large_tick_hits :: u32
  os_small_tick_hits :: u32
  os_slider_end_hits :: u32
  os_n300 :: u32
  os_n100 :: u32
  os_n50 :: u32
  os_misses :: u32

record taiko_score_state =
  ts_max_combo :: u32
  ts_n300 :: u32
  ts_n100 :: u32
  ts_misses :: u32

record catch_score_state =
  cs_max_combo :: u32
  cs_fruits :: u32
  cs_droplets :: u32
  cs_tiny_droplets :: u32
  cs_tiny_droplet_misses :: u32
  cs_misses :: u32

record mania_score_state =
  ms_n320 :: u32
  ms_n300 :: u32
  ms_n200 :: u32
  ms_n100 :: u32
  ms_n50 :: u32
  ms_misses :: u32

text \<open>
  The origin of an osu!standard score. The arguments are \<open>max_large_ticks\<close> and then
  \<open>max_slider_ends\<close> or \<open>max_small_ticks\<close>.
\<close>

datatype osu_score_origin = Stable | WithSliderAcc u32 u32 | WithoutSliderAcc u32 u32

section \<open>Total hits\<close>

definition score_state_new :: score_state where
  "score_state_new = \<lparr>ss_max_combo = 0, ss_osu_large_tick_hits = 0, ss_osu_small_tick_hits = 0,
     ss_slider_end_hits = 0, ss_n_geki = 0, ss_n_katu = 0, ss_n300 = 0, ss_n100 = 0, ss_n50 = 0,
     ss_misses = 0\<rparr>"

definition total_hits :: "score_state \<Rightarrow> game_mode \<Rightarrow> u32" where
  "total_hits s mode =
    (let amount = ss_n300 s + ss_n100 s + ss_misses s
     in if mode \<noteq> Taiko then
          let amount = amount + ss_n50 s
          in if mode \<noteq> Osu then
               let amount = amount + ss_n_katu s
               in amount + (if mode \<noteq> Catch then 1 else 0) * ss_n_geki s
             else amount
        else amount)"

definition osu_score_state_new :: osu_score_state where
  "osu_score_state_new = \<lparr>os_max_combo = 0, os_large_tick_hits = 0, os_small_tick_hits = 0,
     os_slider_end_hits = 0, os_n300 = 0, os_n100 = 0, os_n50 = 0, os_misses = 0\<rparr>"

definition osu_total_hits :: "osu_score_state \<Rightarrow> u32" where
  "osu_total_hits s = os_n300 s + os_n100 s + os_n50 s + os_misses s"

definition taiko_score_state_new :: taiko_score_state where
  "taiko_score_state_new = \<lparr>ts_max_combo = 0, ts_n300 = 0, ts_n100 = 0, ts_misses = 0\<rparr>"

definition taiko_total_hits :: "taiko_score_state \<Rightarrow> u32" where
  "taiko_total_hits s = ts_n300 s + ts_n100 s + ts_misses s"

definition catch_score_state_new :: catch_score_state where
  "catch_score_state_new = \<lparr>cs_max_combo = 0, cs_fruits = 0, cs_droplets = 0, cs_tiny_droplets = 0,
     cs_tiny_droplet_misses = 0, cs_misses = 0\<rparr>"

definition catch_total_hits :: "catch_score_state \<Rightarrow> u32" where
  "catch_total_hits s = cs_fruits s + cs_droplets s + cs_tiny_droplets s + cs_tiny_droplet_misses s + cs_misses s"

definition mania_score_state_new :: mania_score_state where
  "mania_score_state_new = \<lparr>ms_n320 = 0, ms_n300 = 0, ms_n200 = 0, ms_n100 = 0, ms_n50 = 0, ms_misses = 0\<rparr>"

definition mania_total_hits :: "mania_score_state \<Rightarrow> u32" where
  "mania_total_hits s = ms_n320 s + ms_n300 s + ms_n200 s + ms_n100 s + ms_n50 s + ms_misses s"

section \<open>Accuracy\<close>

definition osu_accuracy :: "osu_score_state \<Rightarrow> osu_score_origin \<Rightarrow> f64" where
  "osu_accuracy s origin =
    (let numerator = 300 * os_n300 s + 100 * os_n100 s + 50 * os_n50 s;
         denominator = 300 * (os_n300 s + os_n100 s + os_n50 s + os_misses s);
         (numerator, denominator) = (case origin of
             Stable \<Rightarrow> (numerator, denominator)
           | WithSliderAcc max_large_ticks max_slider_ends \<Rightarrow>
               let slider_end_hits = min (os_slider_end_hits s) max_slider_ends;
                   large_tick_hits = min (os_large_tick_hits s) max_large_ticks
               in (numerator + (150 * slider_end_hits + 30 * large_tick_hits),
                   denominator + (150 * max_slider_ends + 30 * max_large_ticks))
           | WithoutSliderAcc max_large_ticks max_small_ticks \<Rightarrow>
               let large_tick_hits = min (os_large_tick_hits s) max_large_ticks;
                   small_tick_hits = min (os_small_tick_hits s) max_small_ticks
               in (numerator + (30 * large_tick_hits + 10 * small_tick_hits),
                   denominator + (30 * max_large_ticks + 10 * max_small_ticks)))
     in if denominator = 0 then fzero False else f64_of_u32 numerator / f64_of_u32 denominator)"

definition taiko_accuracy :: "taiko_score_state \<Rightarrow> f64" where
  "taiko_accuracy s =
    (let total_hits = taiko_total_hits s
     in if total_hits = 0 then fzero False
        else let numerator = 2 * ts_n300 s + ts_n100 s;
                 denominator = 2 * total_hits
             in f64_of_u32 numerator / f64_of_u32 denominator)"

definition catch_accuracy :: "catch_score_state \<Rightarrow> f64" where
  "catch_accuracy s =
    (let total_hits = catch_total_hits s
     in if total_hits = 0 then fzero False
        else let numerator = cs_fruits s + cs_droplets s + cs_tiny_droplets s;
                 denominator = total_hits
             in f64_of_u32 numerator / f64_of_u32 denominator)"

definition mania_accuracy :: "mania_score_state \<Rightarrow> f64" where
  "mania_accuracy s =
    (let total_hits = mania_total_hits s
     in if total_hits = 0 then fzero False
        else let numerator = 6 * (ms_n320 s + ms_n300 s) + 4 * ms_n200 s + 2 * ms_n100 s + ms_n50 s;
                 denominator = 6 * total_hits
             in f64_of_u32 numerator / f64_of_u32 denominator)"

section \<open>Conversions\<close>

definition to_osu :: "score_state \<Rightarrow> osu_score_state" where
  "to_osu s = \<lparr>os_max_combo = ss_max_combo s, os_large_tick_hits = ss_osu_large_tick_hits s,
     os_small_tick_hits = ss_osu_small_tick_hits s, os_slider_end_hits = ss_slider_end_hits s,
     os_n300 = ss_n300 s, os_n100 = ss_n100 s, os_n50 = ss_n50 s, os_misses = ss_misses s\<rparr>"

definition to_taiko :: "score_state \<Rightarrow> taiko_score_state" where
  "to_taiko s = \<lparr>ts_max_combo = ss_max_combo s, ts_n300 = ss_n300 s, ts_n100 = ss_n100 s,
     ts_misses = ss_misses s\<rparr>"

definition to_catch :: "score_state \<Rightarrow> catch_score_state" where
  "to_catch s = \<lparr>cs_max_combo = ss_max_combo s, cs_fruits = ss_n300 s, cs_droplets = ss_n100 s,
     cs_tiny_droplets = ss_n50 s, cs_tiny_droplet_misses = ss_n_katu s, cs_misses = ss_misses s\<rparr>"

definition to_mania :: "score_state \<Rightarrow> mania_score_state" where
  "to_mania s = \<lparr>ms_n320 = ss_n_geki s, ms_n300 = ss_n300 s, ms_n200 = ss_n_katu s,
     ms_n100 = ss_n100 s, ms_n50 = ss_n50 s, ms_misses = ss_misses s\<rparr>"

definition of_osu :: "osu_score_state \<Rightarrow> score_state" where
  "of_osu s = \<lparr>ss_max_combo = os_max_combo s, ss_osu_large_tick_hits = os_large_tick_hits s,
     ss_osu_small_tick_hits = os_small_tick_hits s, ss_slider_end_hits = os_slider_end_hits s,
     ss_n_geki = 0, ss_n_katu = 0, ss_n300 = os_n300 s, ss_n100 = os_n100 s, ss_n50 = os_n50 s,
     ss_misses = os_misses s\<rparr>"

definition of_taiko :: "taiko_score_state \<Rightarrow> score_state" where
  "of_taiko s = \<lparr>ss_max_combo = ts_max_combo s, ss_osu_large_tick_hits = 0,
     ss_osu_small_tick_hits = 0, ss_slider_end_hits = 0, ss_n_geki = 0, ss_n_katu = 0,
     ss_n300 = ts_n300 s, ss_n100 = ts_n100 s, ss_n50 = 0, ss_misses = ts_misses s\<rparr>"

definition of_catch :: "catch_score_state \<Rightarrow> score_state" where
  "of_catch s = \<lparr>ss_max_combo = cs_max_combo s, ss_osu_large_tick_hits = 0,
     ss_osu_small_tick_hits = 0, ss_slider_end_hits = 0, ss_n_geki = 0,
     ss_n_katu = cs_tiny_droplet_misses s, ss_n300 = cs_fruits s, ss_n100 = cs_droplets s,
     ss_n50 = cs_tiny_droplets s, ss_misses = cs_misses s\<rparr>"

definition of_mania :: "mania_score_state \<Rightarrow> score_state" where
  "of_mania s = \<lparr>ss_max_combo = 0, ss_osu_large_tick_hits = 0, ss_osu_small_tick_hits = 0,
     ss_slider_end_hits = 0, ss_n_geki = ms_n320 s, ss_n_katu = ms_n200 s, ss_n300 = ms_n300 s,
     ss_n100 = ms_n100 s, ss_n50 = ms_n50 s, ss_misses = ms_misses s\<rparr>"

lemmas score_conv_defs = to_osu_def to_taiko_def to_catch_def to_mania_def
  of_osu_def of_taiko_def of_catch_def of_mania_def

text \<open>
  A locale for what a mode's score state promises to the state of any mode: the conversions
  form a retraction and keep the number of hits.
\<close>

locale score_conversion =
  fixes into :: "'s \<Rightarrow> score_state"
    and out :: "score_state \<Rightarrow> 's"
    and hits :: "'s \<Rightarrow> u32"
    and mode :: game_mode
  assumes out_into: "out (into s) = s"
    and hits_into: "total_hits (into s) mode = hits s"
begin

lemma into_inj: "into s = into t \<longleftrightarrow> s = t"
  by (metis out_into)

lemma hits_out_into: "hits (out (into s)) = total_hits (into s) mode"
  by (simp add: out_into hits_into)

end

interpretation osu_conv: score_conversion of_osu to_osu osu_total_hits Osu
  by unfold_locales (simp_all add: score_conv_defs total_hits_def osu_total_hits_def ac_simps)

interpretation taiko_conv: score_conversion of_taiko to_taiko taiko_total_hits Taiko
  by unfold_locales (simp_all add: score_conv_defs total_hits_def taiko_total_hits_def)

interpretation catch_conv: score_conversion of_catch to_catch catch_total_hits Catch
  by unfold_locales (simp_all add: score_conv_defs total_hits_def catch_total_hits_def ac_simps)

interpretation mania_conv: score_conversion of_mania to_mania mania_total_hits Mania
  by unfold_locales (simp_all add: score_conv_defs total_hits_def mania_total_hits_def ac_simps)

text \<open>
  Turning the score state of a mode into the general one and back gives it back, and the
  general total of hits for that mode is the mode's own total.
\<close>

lemma score_state_conversions:
  "to_osu (of_osu o1) = o1 \<and> total_hits (of_osu o1) Osu = osu_total_hits o1 \<and>
   to_taiko (of_taiko t) = t \<and> total_hits (of_taiko t) Taiko = taiko_total_hits t \<and>
   to_catch (of_catch c) = c \<and> total_hits (of_catch c) Catch = catch_total_hits c \<and>
   to_mania (of_mania m) = m \<and> total_hits (of_mania m) Mania = mania_total_hits m"
  by (simp add: osu_conv.out_into osu_conv.hits_into taiko_conv.out_into taiko_conv.hits_into
      catch_conv.out_into catch_conv.hits_into mania_conv.out_into mania_conv.hits_into)

end
