(* ===== verification/Accuracy.thy ===== *)
theory Accuracy
  imports Score_State
begin

text \<open>
  The accuracies of the four score states as 64-bit floats: each is the correctly rounded
  quotient of two counts, hence a finite number between 0 and 1, and it is exactly 1 for the
  scores without an imperfect hit and for no other. The bound on the counts says that the
  \<open>u32\<close> sums of the code do not wrap.
\<close>

definition f64_one :: f64 where
  "f64_one = mk False 4607182418800017408"

definition below_one :: f64 where
  "below_one = mk False 4607182418800017407"

lemma fval_one: "fval f64_one = 1" "is_fin f64_one" "\<not> is_nan f64_one"
  by (simp_all add: f64_one_def fval_def is_fin_def is_nan_def inf_mag_def gval_def man_def ex_def)

lemma fval_below_one: "fval below_one = 1 - 1 / 2 ^ 53" "is_fin below_one" "\<not> is_nan below_one"
  by (simp_all add: below_one_def fval_def is_fin_def is_nan_def inf_mag_def gval_def man_def ex_def)

text \<open>A ratio of two counts lies between 0 and 1 and is 1 only where they agree.\<close>

lemma ratio_below_one:
  assumes "n < d" "d \<le> 2 ^ 53"
  shows "real n / real d \<le> 1 - 1 / 2 ^ 53"
proof -
  have "real n \<le> real d - 1" using assms(1) by linarith
  then have "real n / real d \<le> 1 - 1 / real d" using assms(1) by (simp add: field_simps)
  also have "real d \<le> 2 ^ 53" using assms(2) by (metis of_nat_le_iff of_nat_numeral of_nat_power)
  then have "1 - 1 / real d \<le> 1 - 1 / 2 ^ 53" using assms(1) by (simp add: field_simps)
  finally show ?thesis .
qed

lemma u32_ratio:
  assumes "n \<le> d" "d \<noteq> 0"
  shows "is_fin (f64_of_u32 n / f64_of_u32 d)"
    and "0 \<le> fval (f64_of_u32 n / f64_of_u32 d)"
    and "fval (f64_of_u32 n / f64_of_u32 d) \<le> 1"
    and "fval (f64_of_u32 n / f64_of_u32 d) = 1 \<longleftrightarrow> n = d"
proof -
  let ?q = "f64_of_u32 n / f64_of_u32 d"
  obtain N D where ND: "N = unat n" "D = unat d" by blast
  have d: "0 < D" "N \<le> D" "D < 2 ^ 32"
    using assms unsigned_less [where ?'a = nat, of d] unfolding ND
    by (simp_all add: word_le_nat_alt unat_gt_0)
  have fv: "fval (f64_of_u32 n) = real N" "fval (f64_of_u32 d) = real D"
    unfolding ND by (rule f64_of_u32_exact)+
  have r: "rounds_to ?q (real N / real D)"
    using fdiv_rounds [OF f64_of_u32_exact(2) f64_of_u32_exact(2), of d n] d(1)
    unfolding fv by simp
  have b: "fval (fzero False) \<le> real N / real D" "real N / real D \<le> fval f64_one"
    using d by (simp_all add: fval_one)
  note btw = rounds_to_between [OF r class_fzero(1) fval_one(2) b]
  show "is_fin ?q" "0 \<le> fval ?q" "fval ?q \<le> 1" using btw by (simp_all add: fval_one)
  show "fval ?q = 1 \<longleftrightarrow> n = d"
  proof
    assume "n = d"
    then have "N = D" using ND by simp
    then have "real N / real D = 1" using d(1) by simp
    then have "rounds_to ?q (fval f64_one)" using r by (simp add: fval_one)
    then show "fval ?q = 1" using rounds_to_exact [of ?q f64_one] by (simp add: fval_one)
  next
    assume q: "fval ?q = 1"
    show "n = d"
    proof (rule ccontr)
      assume "n \<noteq> d"
      then have "N < D" using d(2) ND by (metis le_neq_implies_less word_unat_eq_iff)
      then have "fval ?q \<le> fval below_one"
        using rounds_to_le [OF r, of below_one] ratio_below_one [of N D] d(3)
        by (simp add: fval_below_one)
      then show False using q by (simp add: fval_below_one)
    qed
  qed
qed

lemma unat_arith_small:
  "unat a + unat b < 4294967296 \<Longrightarrow> unat (a + b) = unat a + unat (b :: u32)"
  "unat c * unat a < 4294967296 \<Longrightarrow> unat (c * a) = unat c * unat (a :: u32)"
  by (simp_all add: unat_word_ariths)

lemma u32_zero: "w = 0 \<longleftrightarrow> unat w = 0" for w :: u32
  by (simp add: unat_eq_zero)

definition hits_bounded :: "nat \<Rightarrow> nat \<Rightarrow> u32 list \<Rightarrow> bool" where
  "hits_bounded k extra ws \<longleftrightarrow> k * sum_list (map unat ws) + extra < 4294967296"

definition is_accuracy :: "f64 \<Rightarrow> bool \<Rightarrow> bool" where
  "is_accuracy a p \<longleftrightarrow> is_fin a \<and> 0 \<le> fval a \<and> fval a \<le> 1 \<and> (fval a = 1 \<longleftrightarrow> p)"

lemma is_accuracy_ratio:
  "n \<le> d \<Longrightarrow> d \<noteq> 0 \<Longrightarrow> is_accuracy (f64_of_u32 n / f64_of_u32 d) (n = d)"
  using u32_ratio by (simp add: is_accuracy_def)

lemma is_accuracy_zero: "is_accuracy (fzero False) False"
  by (simp add: is_accuracy_def)

lemma is_accuracy_scaled:
  assumes "unat d = D" "unat n = N" "N \<le> D" "D \<noteq> 0" "p \<longleftrightarrow> N = D"
  shows "is_accuracy (f64_of_u32 n / f64_of_u32 d) p"
proof -
  have le: "n \<le> d" using assms(1-3) by (simp add: word_le_nat_alt)
  have nz: "d \<noteq> 0" using assms(1,4) by auto
  have "n = d \<longleftrightarrow> p" unfolding assms(5) word_unat_eq_iff [of n] assms(1,2) ..
  then show ?thesis using is_accuracy_ratio [OF le nz] by simp
qed

lemma taiko_acc:
  assumes "hits_bounded 2 0 [ts_n300 s, ts_n100 s, ts_misses s]"
  shows "is_accuracy (taiko_accuracy s) (taiko_total_hits s \<noteq> 0 \<and> ts_n100 s = 0 \<and> ts_misses s = 0)"
proof (cases "taiko_total_hits s = 0")
  case True
  then show ?thesis by (simp add: taiko_accuracy_def is_accuracy_zero)
next
  case False
  let ?t = "unat (ts_n300 s) + unat (ts_n100 s) + unat (ts_misses s)"
  have b: "2 * ?t < 4294967296" using assms by (simp add: hits_bounded_def algebra_simps)
  then have t: "unat (taiko_total_hits s) = ?t" by (simp add: unat_arith_small taiko_total_hits_def)
  then have "?t \<noteq> 0" using False by (metis unat_eq_zero)
  then show ?thesis using False t b unfolding taiko_accuracy_def Let_def if_not_P [OF False]
    by (intro is_accuracy_scaled [of _ "2 * ?t" _ "2 * unat (ts_n300 s) + unat (ts_n100 s)"])
      (auto simp: unat_arith_small u32_zero)
qed

lemma catch_acc:
  assumes "hits_bounded 1 0 [cs_fruits s, cs_droplets s, cs_tiny_droplets s, cs_tiny_droplet_misses s, cs_misses s]"
  shows "is_accuracy (catch_accuracy s)
    (catch_total_hits s \<noteq> 0 \<and> cs_tiny_droplet_misses s = 0 \<and> cs_misses s = 0)"
proof (cases "catch_total_hits s = 0")
  case True
  then show ?thesis by (simp add: catch_accuracy_def is_accuracy_zero)
next
  case False
  let ?h = "unat (cs_fruits s) + unat (cs_droplets s) + unat (cs_tiny_droplets s)"
  let ?t = "?h + unat (cs_tiny_droplet_misses s) + unat (cs_misses s)"
  have b: "?t < 4294967296" using assms by (simp add: hits_bounded_def algebra_simps)
  then have t: "unat (catch_total_hits s) = ?t" by (simp add: unat_arith_small catch_total_hits_def)
  then have "?t \<noteq> 0" using False by (metis unat_eq_zero)
  then show ?thesis using False t b unfolding catch_accuracy_def Let_def if_not_P [OF False]
    by (intro is_accuracy_scaled [of _ "?t" _ "?h"])
      (auto simp: unat_arith_small u32_zero)
qed

lemma mania_acc:
  assumes "hits_bounded 6 0 [ms_n320 s, ms_n300 s, ms_n200 s, ms_n100 s, ms_n50 s, ms_misses s]"
  shows "is_accuracy (mania_accuracy s)
    (mania_total_hits s \<noteq> 0 \<and> ms_n200 s = 0 \<and> ms_n100 s = 0 \<and> ms_n50 s = 0 \<and> ms_misses s = 0)"
proof (cases "mania_total_hits s = 0")
  case True
  then show ?thesis by (simp add: mania_accuracy_def is_accuracy_zero)
next
  case False
  let ?t = "unat (ms_n320 s) + unat (ms_n300 s) + unat (ms_n200 s) + unat (ms_n100 s)
    + unat (ms_n50 s) + unat (ms_misses s)"
  let ?h = "6 * (unat (ms_n320 s) + unat (ms_n300 s)) + 4 * unat (ms_n200 s)
    + 2 * unat (ms_n100 s) + unat (ms_n50 s)"
  have b: "6 * ?t < 4294967296" using assms by (simp add: hits_bounded_def algebra_simps)
  then have t: "unat (mania_total_hits s) = ?t" by (simp add: unat_arith_small mania_total_hits_def)
  then have "?t \<noteq> 0" using False by (metis unat_eq_zero)
  then show ?thesis using False t b unfolding mania_accuracy_def Let_def if_not_P [OF False]
    by (intro is_accuracy_scaled [of _ "6 * ?t" _ "?h"])
      (auto simp: unat_arith_small u32_zero)
qed

text \<open>The extra terms of an osu!lazer score: their weights and maximum values.\<close>

definition origin_max :: "osu_score_origin \<Rightarrow> nat" where
  "origin_max origin = (case origin of Stable \<Rightarrow> 0
     | WithSliderAcc l e \<Rightarrow> 150 * unat e + 30 * unat l
     | WithoutSliderAcc l t \<Rightarrow> 30 * unat l + 10 * unat t)"

definition origin_full :: "osu_score_state \<Rightarrow> osu_score_origin \<Rightarrow> bool" where
  "origin_full s origin = (case origin of Stable \<Rightarrow> True
     | WithSliderAcc l e \<Rightarrow> e \<le> os_slider_end_hits s \<and> l \<le> os_large_tick_hits s
     | WithoutSliderAcc l t \<Rightarrow> l \<le> os_large_tick_hits s \<and> t \<le> os_small_tick_hits s)"

lemma osu_acc_extra:
  fixes s and ed en :: u32
  defines "D \<equiv> 300 * (os_n300 s + os_n100 s + os_n50 s + os_misses s)"
    and "N \<equiv> 300 * os_n300 s + 100 * os_n100 s + 50 * os_n50 s"
  assumes b: "hits_bounded 300 (unat ed) [os_n300 s, os_n100 s, os_n50 s, os_misses s]"
    and some: "osu_total_hits s \<noteq> 0" and en: "unat en \<le> unat ed"
    and p: "p \<longleftrightarrow> unat en = unat ed"
  shows "is_accuracy (if D + ed = 0 then fzero False else f64_of_u32 (N + en) / f64_of_u32 (D + ed))
    (os_n100 s = 0 \<and> os_n50 s = 0 \<and> os_misses s = 0 \<and> p)"
proof -
  let ?t = "unat (os_n300 s) + unat (os_n100 s) + unat (os_n50 s) + unat (os_misses s)"
  let ?h = "300 * unat (os_n300 s) + 100 * unat (os_n100 s) + 50 * unat (os_n50 s)"
  have b: "300 * ?t + unat ed < 4294967296" using b by (simp add: hits_bounded_def algebra_simps)
  then have "unat (osu_total_hits s) = ?t" by (simp add: unat_arith_small osu_total_hits_def)
  then have nz: "?t \<noteq> 0" using some by (simp add: u32_zero)
  have D: "unat D = 300 * ?t" using b unfolding D_def by (simp add: unat_arith_small)
  have N: "unat N = ?h" using b unfolding N_def by (simp add: unat_arith_small)
  have d: "unat (D + ed) = 300 * ?t + unat ed" using b D by (simp add: unat_arith_small)
  have n: "unat (N + en) = ?h + unat en" using b N en by (simp add: unat_arith_small)
  have "D + ed \<noteq> 0" using nz unfolding u32_zero d by auto
  then show ?thesis using nz n d en
    by (simp, intro is_accuracy_scaled [of _ "300 * ?t + unat ed" _ "?h + unat en"])
      (auto simp: u32_zero p)
qed

lemma osu_acc:
  assumes "hits_bounded 300 (origin_max origin) [os_n300 s, os_n100 s, os_n50 s, os_misses s]"
    and some: "osu_total_hits s \<noteq> 0"
  shows "is_accuracy (osu_accuracy s origin)
    (os_n100 s = 0 \<and> os_n50 s = 0 \<and> os_misses s = 0 \<and> origin_full s origin)"
proof (cases origin)
  case Stable
  then show ?thesis using osu_acc_extra [of 0 s 0 True, unfolded add_0_right] assms
    unfolding osu_accuracy_def Stable Let_def prod.case osu_score_origin.case
    by (simp add: origin_full_def origin_max_def)
next
  case (WithSliderAcc l e)
  let ?ed = "150 * e + 30 * l" and ?en = "150 * min (os_slider_end_hits s) e + 30 * min (os_large_tick_hits s) l"
  have b: "150 * unat e + 30 * unat l < 4294967296"
    using assms(1) WithSliderAcc by (simp add: hits_bounded_def origin_max_def)
  have ed: "unat ?ed = 150 * unat e + 30 * unat l" using b by (simp add: unat_arith_small)
  have en: "unat ?en = 150 * min (unat (os_slider_end_hits s)) (unat e) + 30 * min (unat (os_large_tick_hits s)) (unat l)" using b by (simp add: unat_arith_small)
  have le: "unat ?en \<le> unat ?ed" unfolding ed en by simp
  have full: "origin_full s origin \<longleftrightarrow> unat ?en = unat ?ed"
    unfolding ed en origin_full_def WithSliderAcc osu_score_origin.case word_le_nat_alt by linarith
  have "hits_bounded 300 (unat ?ed) [os_n300 s, os_n100 s, os_n50 s, os_misses s]"
    using assms(1) unfolding ed WithSliderAcc by (simp add: origin_max_def)
  from osu_acc_extra [OF this some le full] show ?thesis
    unfolding osu_accuracy_def WithSliderAcc Let_def prod.case osu_score_origin.case .
next
  case (WithoutSliderAcc l e)
  let ?ed = "30 * l + 10 * e" and ?en = "30 * min (os_large_tick_hits s) l + 10 * min (os_small_tick_hits s) e"
  have b: "30 * unat l + 10 * unat e < 4294967296"
    using assms(1) WithoutSliderAcc by (simp add: hits_bounded_def origin_max_def)
  have ed: "unat ?ed = 30 * unat l + 10 * unat e" using b by (simp add: unat_arith_small)
  have en: "unat ?en = 30 * min (unat (os_large_tick_hits s)) (unat l) + 10 * min (unat (os_small_tick_hits s)) (unat e)" using b by (simp add: unat_arith_small)
  have le: "unat ?en \<le> unat ?ed" unfolding ed en by simp
  have full: "origin_full s origin \<longleftrightarrow> unat ?en = unat ?ed"
    unfolding ed en origin_full_def WithoutSliderAcc osu_score_origin.case word_le_nat_alt by linarith
  have "hits_bounded 300 (unat ?ed) [os_n300 s, os_n100 s, os_n50 s, os_misses s]"
    using assms(1) unfolding ed WithoutSliderAcc by (simp add: origin_max_def)
  from osu_acc_extra [OF this some le full] show ?thesis
    unfolding osu_accuracy_def WithoutSliderAcc Let_def prod.case osu_score_origin.case .
qed

section \<open>The properties\<close>

text \<open>
  C22. The accuracy of an osu!standard score of at least one hit is a finite number from 0 to 1, in each of
  the three scorings (stable, lazer with and without slider accuracy), provided the weighted
  counts fit in 32 bits. It equals 1 exactly where nothing but 300s was hit and, in lazer,
  no tick or slider end was dropped: no imperfect score is rounded up to 100 percent.
\<close>

theorem osu_accuracy_range:
  assumes "hits_bounded 300 (origin_max origin) [os_n300 s, os_n100 s, os_n50 s, os_misses s]"
    and "osu_total_hits s \<noteq> 0"
  shows "is_fin (osu_accuracy s origin) \<and> 0 \<le> fval (osu_accuracy s origin) \<and> fval (osu_accuracy s origin) \<le> 1
    \<and> (fval (osu_accuracy s origin) = 1 \<longleftrightarrow>
        os_n100 s = 0 \<and> os_n50 s = 0 \<and> os_misses s = 0 \<and> origin_full s origin)"
  using osu_acc [OF assms] by (simp add: is_accuracy_def)

theorem osu_accuracy_range_witness:
  "fval (osu_accuracy \<lparr>os_max_combo = 0, os_large_tick_hits = 5, os_small_tick_hits = 0,
     os_slider_end_hits = 7, os_n300 = 100, os_n100 = 3, os_n50 = 0, os_misses = 1\<rparr>
     (WithSliderAcc 5 9)) < 1"
  using osu_accuracy_range [of "WithSliderAcc 5 9" "\<lparr>os_max_combo = 0, os_large_tick_hits = 5,
     os_small_tick_hits = 0, os_slider_end_hits = 7, os_n300 = 100, os_n100 = 3, os_n50 = 0, os_misses = 1\<rparr>"]
  by (simp add: hits_bounded_def origin_max_def osu_total_hits_def order_less_le)

text \<open>
  C23. The same for osu!taiko, osu!catch and osu!mania, where a state without hits has
  accuracy 0: the value lies from 0 to 1, and is 1 exactly for a score of at least one
  hit and no imperfect one (in mania a 300 counts as much as a 320).
\<close>

theorem mode_accuracy_range:
  "(hits_bounded 2 0 [ts_n300 t, ts_n100 t, ts_misses t] \<longrightarrow>
     is_accuracy (taiko_accuracy t) (taiko_total_hits t \<noteq> 0 \<and> ts_n100 t = 0 \<and> ts_misses t = 0)) \<and>
   (hits_bounded 1 0 [cs_fruits c, cs_droplets c, cs_tiny_droplets c, cs_tiny_droplet_misses c, cs_misses c] \<longrightarrow>
     is_accuracy (catch_accuracy c)
       (catch_total_hits c \<noteq> 0 \<and> cs_tiny_droplet_misses c = 0 \<and> cs_misses c = 0)) \<and>
   (hits_bounded 6 0 [ms_n320 m, ms_n300 m, ms_n200 m, ms_n100 m, ms_n50 m, ms_misses m] \<longrightarrow>
     is_accuracy (mania_accuracy m)
       (mania_total_hits m \<noteq> 0 \<and> ms_n200 m = 0 \<and> ms_n100 m = 0 \<and> ms_n50 m = 0 \<and> ms_misses m = 0))"
  using taiko_acc catch_acc mania_acc by blast

theorem mode_accuracy_range_witness:
  "is_accuracy (mania_accuracy \<lparr>ms_n320 = 5, ms_n300 = 3, ms_n200 = 0, ms_n100 = 0, ms_n50 = 0, ms_misses = 0\<rparr>) True
   \<and> is_accuracy (taiko_accuracy \<lparr>ts_max_combo = 4, ts_n300 = 3, ts_n100 = 1, ts_misses = 0\<rparr>) False
   \<and> is_accuracy (catch_accuracy \<lparr>cs_max_combo = 4, cs_fruits = 3, cs_droplets = 1, cs_tiny_droplets = 2,
        cs_tiny_droplet_misses = 1, cs_misses = 0\<rparr>) False"
  using mode_accuracy_range [of "\<lparr>ts_max_combo = 4, ts_n300 = 3, ts_n100 = 1, ts_misses = 0\<rparr>"
    "\<lparr>cs_max_combo = 4, cs_fruits = 3, cs_droplets = 1, cs_tiny_droplets = 2,
        cs_tiny_droplet_misses = 1, cs_misses = 0\<rparr>"
    "\<lparr>ms_n320 = 5, ms_n300 = 3, ms_n200 = 0, ms_n100 = 0, ms_n50 = 0, ms_misses = 0\<rparr>"]
  by (simp add: hits_bounded_def mania_total_hits_def)

end
