(* ===== verification/Mods.thy ===== *)
theory Mods
  imports F32
begin

text \<open>
  Game mods (\<open>src/model/mods.rs\<close>). The three representations come from the crate
  rosu-mods, which is not part of the repository: its types are the type variables
  \<open>'l\<close> (lazer mods), \<open>'i\<close> (intermode mods) and \<open>'g\<close> (legacy mods), and the queries
  that the code calls on them are the fields of the record \<open>rosu_mods\<close>, an argument of
  every definition that uses them. The mods of a lazer set are listed by \<open>lz_iter\<close> as
  the variants the code matches on; every other variant is \<open>OtherMod\<close>.
\<close>

text \<open>The mods that the code asks for by name.\<close>

datatype mod_name = NoFail | Easy | TouchDevice | Hidden | HardRock | Relax | Flashlight
  | SpunOut | Autopilot | Blinds | Traceable | Classic | DoubleTime | HalfTime | ScoreV2
  | Keys nat

datatype game_mod =
    ClassicOsu "bool option"
  | DifficultyAdjustOsu "f64 option" "f64 option" "f64 option" "f64 option"
  | DifficultyAdjustTaiko "f64 option" "f64 option" "f64 option"
  | DifficultyAdjustCatch "f64 option" "f64 option" "f64 option" "f64 option" "bool option"
  | DifficultyAdjustMania "f64 option" "f64 option"
  | MirrorOsu "string option"
  | MirrorCatch
  | OtherMod

record ('l, 'i, 'g) rosu_mods =
  lz_clock_rate :: "'l \<Rightarrow> f64 option"
  lz_iter :: "'l \<Rightarrow> game_mod list"
  lz_contains :: "'l \<Rightarrow> mod_name \<Rightarrow> bool"
  im_clock_rate :: "'i \<Rightarrow> f64"
  im_contains :: "'i \<Rightarrow> mod_name \<Rightarrow> bool"
  im_checked_bits :: "'i \<Rightarrow> u32 option"
  lg_clock_rate :: "'g \<Rightarrow> f64"
  lg_contains :: "'g \<Rightarrow> mod_name \<Rightarrow> bool"
  lg_from_bits :: "u32 \<Rightarrow> 'g"

datatype ('l, 'i, 'g) game_mods = Lazer 'l | Intermode 'i | Legacy 'g

datatype reflection = ReflectNone | Vertical | Horizontal | Both

text \<open>Rust's \<open>Iterator::find_map\<close>: the first result that is \<open>Some\<close>.\<close>

fun find_map :: "('a \<Rightarrow> 'b option) \<Rightarrow> 'a list \<Rightarrow> 'b option" where
  "find_map f [] = None"
| "find_map f (x # xs) = (case f x of Some y \<Rightarrow> Some y | None \<Rightarrow> find_map f xs)"

definition mods_clock_rate :: "('l, 'i, 'g) rosu_mods \<Rightarrow> ('l, 'i, 'g) game_mods \<Rightarrow> f64" where
  "mods_clock_rate api m = (case m of
      Lazer l \<Rightarrow> unwrap_or (lit 1 1) (lz_clock_rate api l)
    | Intermode i \<Rightarrow> im_clock_rate api i
    | Legacy g \<Rightarrow> lg_clock_rate api g)"

text \<open>
  The macro \<open>impl_has_mod!\<close>: a query whose legacy flag is \<open>+\<close> asks the legacy set, one
  whose flag is \<open>-\<close> is false there.
\<close>

definition has_mod :: "('l, 'i, 'g) rosu_mods \<Rightarrow> bool \<Rightarrow> mod_name \<Rightarrow> ('l, 'i, 'g) game_mods \<Rightarrow> bool" where
  "has_mod api is_legacy name m = (case m of
      Lazer l \<Rightarrow> lz_contains api l name
    | Intermode i \<Rightarrow> im_contains api i name
    | Legacy g \<Rightarrow> (if is_legacy then lg_contains api g name else False))"

definition nf :: "('l, 'i, 'g) rosu_mods \<Rightarrow> ('l, 'i, 'g) game_mods \<Rightarrow> bool" where "nf api = has_mod api True NoFail"
definition ez :: "('l, 'i, 'g) rosu_mods \<Rightarrow> ('l, 'i, 'g) game_mods \<Rightarrow> bool" where "ez api = has_mod api True Easy"
definition td :: "('l, 'i, 'g) rosu_mods \<Rightarrow> ('l, 'i, 'g) game_mods \<Rightarrow> bool" where "td api = has_mod api True TouchDevice"
definition hd_mod :: "('l, 'i, 'g) rosu_mods \<Rightarrow> ('l, 'i, 'g) game_mods \<Rightarrow> bool" where "hd_mod api = has_mod api True Hidden"
definition hr :: "('l, 'i, 'g) rosu_mods \<Rightarrow> ('l, 'i, 'g) game_mods \<Rightarrow> bool" where "hr api = has_mod api True HardRock"
definition rx :: "('l, 'i, 'g) rosu_mods \<Rightarrow> ('l, 'i, 'g) game_mods \<Rightarrow> bool" where "rx api = has_mod api True Relax"
definition fl :: "('l, 'i, 'g) rosu_mods \<Rightarrow> ('l, 'i, 'g) game_mods \<Rightarrow> bool" where "fl api = has_mod api True Flashlight"
definition so :: "('l, 'i, 'g) rosu_mods \<Rightarrow> ('l, 'i, 'g) game_mods \<Rightarrow> bool" where "so api = has_mod api True SpunOut"
definition ap :: "('l, 'i, 'g) rosu_mods \<Rightarrow> ('l, 'i, 'g) game_mods \<Rightarrow> bool" where "ap api = has_mod api True Autopilot"
definition bl :: "('l, 'i, 'g) rosu_mods \<Rightarrow> ('l, 'i, 'g) game_mods \<Rightarrow> bool" where "bl api = has_mod api False Blinds"
definition tc :: "('l, 'i, 'g) rosu_mods \<Rightarrow> ('l, 'i, 'g) game_mods \<Rightarrow> bool" where "tc api = has_mod api False Traceable"
definition cl :: "('l, 'i, 'g) rosu_mods \<Rightarrow> ('l, 'i, 'g) game_mods \<Rightarrow> bool" where "cl api = has_mod api False Classic"
definition dt :: "('l, 'i, 'g) rosu_mods \<Rightarrow> ('l, 'i, 'g) game_mods \<Rightarrow> bool" where "dt api = has_mod api True DoubleTime"
definition ht :: "('l, 'i, 'g) rosu_mods \<Rightarrow> ('l, 'i, 'g) game_mods \<Rightarrow> bool" where "ht api = has_mod api True HalfTime"
definition has_score_v2 :: "('l, 'i, 'g) rosu_mods \<Rightarrow> ('l, 'i, 'g) game_mods \<Rightarrow> bool" where "has_score_v2 api = has_mod api True ScoreV2"

definition od_ar_hp_multiplier :: "('l, 'i, 'g) rosu_mods \<Rightarrow> ('l, 'i, 'g) game_mods \<Rightarrow> f64" where
  "od_ar_hp_multiplier api m = (if hr api m then lit 14 10 else if ez api m then lit 5 10 else lit 1 1)"

definition custom_hardrock_offsets :: "('l, 'i, 'g) rosu_mods \<Rightarrow> ('l, 'i, 'g) game_mods \<Rightarrow> bool option" where
  "custom_hardrock_offsets api m = (case m of
      Lazer l \<Rightarrow> find_map (\<lambda>g. case g of DifficultyAdjustCatch _ _ _ _ off \<Rightarrow> off | _ \<Rightarrow> None) (lz_iter api l)
    | Intermode _ \<Rightarrow> None
    | Legacy _ \<Rightarrow> None)"

definition hardrock_offsets_of :: "('l, 'i, 'g) rosu_mods \<Rightarrow> ('l, 'i, 'g) game_mods \<Rightarrow> bool" where
  "hardrock_offsets_of api m = unwrap_or (hr api m) (custom_hardrock_offsets api m)"

definition no_slider_head_acc :: "('l, 'i, 'g) rosu_mods \<Rightarrow> ('l, 'i, 'g) game_mods \<Rightarrow> bool \<Rightarrow> bool" where
  "no_slider_head_acc api m lazer = (case m of
      Lazer l \<Rightarrow> unwrap_or (\<not> lazer)
        (find_map (\<lambda>g. case g of ClassicOsu acc \<Rightarrow> Some (unwrap_or True acc) | _ \<Rightarrow> None) (lz_iter api l))
    | Intermode i \<Rightarrow> im_contains api i Classic \<or> \<not> lazer
    | Legacy _ \<Rightarrow> \<not> lazer)"

definition mirror_reflection :: "game_mod \<Rightarrow> reflection option" where
  "mirror_reflection g = (case g of
      MirrorOsu r \<Rightarrow> (case r of
          None \<Rightarrow> Some Horizontal
        | Some s \<Rightarrow> if s = ''1'' then Some Vertical else if s = ''2'' then Some Both else Some ReflectNone)
    | MirrorCatch \<Rightarrow> Some Horizontal
    | _ \<Rightarrow> None)"

definition reflection :: "('l, 'i, 'g) rosu_mods \<Rightarrow> ('l, 'i, 'g) game_mods \<Rightarrow> reflection" where
  "reflection api m = (case m of
      Lazer l \<Rightarrow> (if lz_contains api l HardRock then Vertical
        else unwrap_or ReflectNone (find_map mirror_reflection (lz_iter api l)))
    | Intermode i \<Rightarrow> (if im_contains api i HardRock then Vertical else ReflectNone)
    | Legacy g \<Rightarrow> (if lg_contains api g HardRock then Vertical else ReflectNone))"

text \<open>
  The chain of key mods, in the order of the code: 1 to 10 keys for lazer and intermode
  mods, 1 to 9 keys for legacy mods.
\<close>

fun first_keys :: "(mod_name \<Rightarrow> bool) \<Rightarrow> nat list \<Rightarrow> nat option" where
  "first_keys has [] = None"
| "first_keys has (k # ks) = (if has (Keys k) then Some k else first_keys has ks)"

definition mania_keys :: "('l, 'i, 'g) rosu_mods \<Rightarrow> ('l, 'i, 'g) game_mods \<Rightarrow> f32 option" where
  "mania_keys api m = map_option f32_of_nat (case m of
      Lazer l \<Rightarrow> first_keys (lz_contains api l) [1, 2, 3, 4, 5, 6, 7, 8, 9, 10]
    | Intermode i \<Rightarrow> first_keys (im_contains api i) [1, 2, 3, 4, 5, 6, 7, 8, 9, 10]
    | Legacy g \<Rightarrow> first_keys (lg_contains api g) [1, 2, 3, 4, 5, 6, 7, 8, 9])"

definition scroll_speed :: "('l, 'i, 'g) rosu_mods \<Rightarrow> ('l, 'i, 'g) game_mods \<Rightarrow> f64 option" where
  "scroll_speed api m = (case m of
      Lazer l \<Rightarrow> (case find_map (\<lambda>g. case g of DifficultyAdjustTaiko _ _ s \<Rightarrow> Some s | _ \<Rightarrow> None) (lz_iter api l) of
          None \<Rightarrow> None | Some s \<Rightarrow> s)
    | _ \<Rightarrow> None)"

text \<open>
  The macro \<open>impl_map_attr!\<close>: the values a lazer set gives to AR, CS, HP and OD. The
  fields of a \<open>DifficultyAdjust\<close> are, in this order, approach rate, circle size, drain
  rate and overall difficulty (taiko: drain rate, overall difficulty and scroll speed;
  mania: drain rate and overall difficulty).
\<close>

definition map_attr :: "('l, 'i, 'g) rosu_mods \<Rightarrow> (game_mod \<Rightarrow> f64 option) \<Rightarrow> ('l, 'i, 'g) game_mods \<Rightarrow> f64 option" where
  "map_attr api field m = (case m of
      Lazer l \<Rightarrow> find_map field (lz_iter api l)
    | Intermode _ \<Rightarrow> None
    | Legacy _ \<Rightarrow> None)"

definition mods_ar :: "('l, 'i, 'g) rosu_mods \<Rightarrow> ('l, 'i, 'g) game_mods \<Rightarrow> f64 option" where
  "mods_ar api = map_attr api (\<lambda>g. case g of
      DifficultyAdjustOsu ar _ _ _ \<Rightarrow> ar | DifficultyAdjustCatch ar _ _ _ _ \<Rightarrow> ar | _ \<Rightarrow> None)"

definition mods_cs :: "('l, 'i, 'g) rosu_mods \<Rightarrow> ('l, 'i, 'g) game_mods \<Rightarrow> f64 option" where
  "mods_cs api = map_attr api (\<lambda>g. case g of
      DifficultyAdjustOsu _ cs _ _ \<Rightarrow> cs | DifficultyAdjustCatch _ cs _ _ _ \<Rightarrow> cs | _ \<Rightarrow> None)"

definition mods_hp :: "('l, 'i, 'g) rosu_mods \<Rightarrow> ('l, 'i, 'g) game_mods \<Rightarrow> f64 option" where
  "mods_hp api = map_attr api (\<lambda>g. case g of
      DifficultyAdjustOsu _ _ hp _ \<Rightarrow> hp | DifficultyAdjustTaiko hp _ _ \<Rightarrow> hp
    | DifficultyAdjustCatch _ _ hp _ _ \<Rightarrow> hp | DifficultyAdjustMania hp _ \<Rightarrow> hp | _ \<Rightarrow> None)"

definition mods_od :: "('l, 'i, 'g) rosu_mods \<Rightarrow> ('l, 'i, 'g) game_mods \<Rightarrow> f64 option" where
  "mods_od api = map_attr api (\<lambda>g. case g of
      DifficultyAdjustOsu _ _ _ od \<Rightarrow> od | DifficultyAdjustTaiko _ od _ \<Rightarrow> od
    | DifficultyAdjustCatch _ _ _ od _ \<Rightarrow> od | DifficultyAdjustMania _ od \<Rightarrow> od | _ \<Rightarrow> None)"

text \<open>Conversions into \<open>GameMods\<close>; intermode mods with legacy bits only become legacy mods.\<close>

definition from_bits :: "('l, 'i, 'g) rosu_mods \<Rightarrow> u32 \<Rightarrow> ('l, 'i, 'g) game_mods" where
  "from_bits api bits = Legacy (lg_from_bits api bits)"

definition from_intermode_ref :: "('l, 'i, 'g) rosu_mods \<Rightarrow> 'i \<Rightarrow> ('l, 'i, 'g) game_mods" where
  "from_intermode_ref api i = (case im_checked_bits api i of
      Some bits \<Rightarrow> from_bits api bits
    | None \<Rightarrow> Intermode i)"

lemma first_keys_Some:
  "first_keys has ks = Some k \<Longrightarrow> k \<in> set ks \<and> has (Keys k)"
  by (induction ks) (auto split: if_splits)

lemma first_keys_None: "first_keys has ks = None \<longleftrightarrow> (\<forall>k\<in>set ks. \<not> has (Keys k))"
  by (induction ks) auto

lemma find_map_Some: "find_map f xs = Some y \<Longrightarrow> \<exists>x\<in>set xs. f x = Some y"
  by (induction xs) (auto split: option.splits)

lemma find_map_None: "find_map f xs = None \<longleftrightarrow> (\<forall>x\<in>set xs. f x = None)"
  by (induction xs) (auto split: option.splits)

section \<open>A concrete set of mods\<close>

text \<open>
  Lists of names, with the clock rates of the game, for evaluating the queries. It stands in
  for the crate in witnesses only.
\<close>

definition listed_rate :: "mod_name list \<Rightarrow> f64" where
  "listed_rate ms = (if DoubleTime \<in> set ms then lit 3 2 else if HalfTime \<in> set ms then lit 3 4 else lit 1 1)"

definition listed_mods :: "(mod_name list, mod_name list, mod_name list) rosu_mods" where
  "listed_mods = \<lparr>lz_clock_rate = \<lambda>ms. Some (listed_rate ms),
     lz_iter = \<lambda>ms. if Classic \<in> set ms then [ClassicOsu None] else [],
     lz_contains = \<lambda>ms m. m \<in> set ms, im_clock_rate = listed_rate, im_contains = \<lambda>ms m. m \<in> set ms,
     im_checked_bits = \<lambda>ms. if ms = [] then Some 0 else None,
     lg_clock_rate = listed_rate, lg_contains = \<lambda>ms m. m \<in> set ms, lg_from_bits = \<lambda>w. []\<rparr>"

lemma has_listed [simp]:
  "has_mod listed_mods b name (Lazer ms) \<longleftrightarrow> name \<in> set ms"
  "has_mod listed_mods b name (Intermode ms) \<longleftrightarrow> name \<in> set ms"
  "has_mod listed_mods b name (Legacy ms) \<longleftrightarrow> b \<and> name \<in> set ms"
  by (simp_all add: has_mod_def listed_mods_def)

lemma listed_no_slider_head_acc [simp]:
  "no_slider_head_acc listed_mods (Lazer ms) lazer \<longleftrightarrow> Classic \<in> set ms \<or> \<not> lazer"
  "no_slider_head_acc listed_mods (Intermode ms) lazer \<longleftrightarrow> Classic \<in> set ms \<or> \<not> lazer"
  "no_slider_head_acc listed_mods (Legacy ms) lazer \<longleftrightarrow> \<not> lazer"
  by (simp_all add: no_slider_head_acc_def listed_mods_def)

end
