(* ===== verification/Settings.thy ===== *)
theory Settings
  imports Mods
begin

text \<open>
  The settings of a calculation (\<open>src/any/difficulty/mod.rs\<close>, \<open>src/any/difficulty/inspect.rs\<close>):
  the builder \<open>Difficulty\<close>, its inspection and the getters. The clock rate is stored as the
  bits of the number in a \<open>NonZeroU64\<close>, made with an unchecked constructor.
\<close>

record mods_dependent =
  md_value :: f32
  md_with_mods :: bool

record 'mods difficulty =
  d_mods :: 'mods
  d_passed_objects :: "u32 option"
  d_clock_rate :: "u64 option"
  d_ar :: "mods_dependent option"
  d_cs :: "mods_dependent option"
  d_hp :: "mods_dependent option"
  d_od :: "mods_dependent option"
  d_hardrock_offsets :: "bool option"
  d_lazer :: "bool option"

record 'mods inspect_difficulty =
  i_mods :: 'mods
  i_passed_objects :: "u32 option"
  i_clock_rate :: "f64 option"
  i_ar :: "mods_dependent option"
  i_cs :: "mods_dependent option"
  i_hp :: "mods_dependent option"
  i_od :: "mods_dependent option"
  i_hardrock_offsets :: "bool option"
  i_lazer :: "bool option"

definition mods_dependent_new :: "f32 \<Rightarrow> mods_dependent" where
  "mods_dependent_new v = \<lparr>md_value = v, md_with_mods = False\<rparr>"

text \<open>\<open>Difficulty::new\<close>; the default mods are an argument, \<open>GameModsLegacy::NoMod\<close> in the code.\<close>

definition difficulty_new :: "'mods \<Rightarrow> 'mods difficulty" where
  "difficulty_new default_mods = \<lparr>d_mods = default_mods, d_passed_objects = None, d_clock_rate = None,
     d_ar = None, d_cs = None, d_hp = None, d_od = None, d_hardrock_offsets = None, d_lazer = None\<rparr>"

definition set_mods :: "'mods \<Rightarrow> 'mods difficulty \<Rightarrow> 'mods difficulty" where
  "set_mods m d = d\<lparr>d_mods := m\<rparr>"

definition set_passed_objects :: "u32 \<Rightarrow> 'mods difficulty \<Rightarrow> 'mods difficulty" where
  "set_passed_objects n d = d\<lparr>d_passed_objects := Some n\<rparr>"

definition rate_clamp :: "f64 \<Rightarrow> f64" where
  "rate_clamp c = fclamp c (lit 1 100) (lit 100 1)"

definition set_clock_rate :: "f64 \<Rightarrow> 'mods difficulty \<Rightarrow> 'mods difficulty" where
  "set_clock_rate c d = d\<lparr>d_clock_rate := Some (to_bits (rate_clamp c))\<rparr>"

definition clamp20 :: "f32 \<Rightarrow> bool \<Rightarrow> mods_dependent" where
  "clamp20 v with_mods =
     \<lparr>md_value = clamp32 v (f32_neg_of_nat 20) (f32_of_nat 20), md_with_mods = with_mods\<rparr>"

definition set_ar :: "f32 \<Rightarrow> bool \<Rightarrow> 'mods difficulty \<Rightarrow> 'mods difficulty" where
  "set_ar v with_mods d = d\<lparr>d_ar := Some (clamp20 v with_mods)\<rparr>"

definition set_cs :: "f32 \<Rightarrow> bool \<Rightarrow> 'mods difficulty \<Rightarrow> 'mods difficulty" where
  "set_cs v with_mods d = d\<lparr>d_cs := Some (clamp20 v with_mods)\<rparr>"

definition set_hp :: "f32 \<Rightarrow> bool \<Rightarrow> 'mods difficulty \<Rightarrow> 'mods difficulty" where
  "set_hp v with_mods d = d\<lparr>d_hp := Some (clamp20 v with_mods)\<rparr>"

definition set_od :: "f32 \<Rightarrow> bool \<Rightarrow> 'mods difficulty \<Rightarrow> 'mods difficulty" where
  "set_od v with_mods d = d\<lparr>d_od := Some (clamp20 v with_mods)\<rparr>"

definition set_hardrock_offsets :: "bool \<Rightarrow> 'mods difficulty \<Rightarrow> 'mods difficulty" where
  "set_hardrock_offsets b d = d\<lparr>d_hardrock_offsets := Some b\<rparr>"

definition set_lazer :: "bool \<Rightarrow> 'mods difficulty \<Rightarrow> 'mods difficulty" where
  "set_lazer b d = d\<lparr>d_lazer := Some b\<rparr>"

definition non_zero_u64_to_f64 :: "u64 \<Rightarrow> f64" where
  "non_zero_u64_to_f64 n = F64 n"

definition inspect :: "'mods difficulty \<Rightarrow> 'mods inspect_difficulty" where
  "inspect d = \<lparr>i_mods = d_mods d, i_passed_objects = d_passed_objects d,
     i_clock_rate = map_option non_zero_u64_to_f64 (d_clock_rate d),
     i_ar = d_ar d, i_cs = d_cs d, i_hp = d_hp d, i_od = d_od d,
     i_hardrock_offsets = d_hardrock_offsets d, i_lazer = d_lazer d\<rparr>"

text \<open>\<open>if let Some(x) = opt \<open>{ d = f(d, x) }\<close>\<close>.\<close>

definition apply_opt :: "'a option \<Rightarrow> ('a \<Rightarrow> 'd \<Rightarrow> 'd) \<Rightarrow> 'd \<Rightarrow> 'd" where
  "apply_opt x f d = (case x of None \<Rightarrow> d | Some a \<Rightarrow> f a d)"

definition into_difficulty :: "'mods \<Rightarrow> 'mods inspect_difficulty \<Rightarrow> 'mods difficulty" where
  "into_difficulty default_mods i =
    (let d = set_mods (i_mods i) (difficulty_new default_mods);
         d = apply_opt (i_passed_objects i) set_passed_objects d;
         d = apply_opt (i_clock_rate i) set_clock_rate d;
         d = apply_opt (i_ar i) (\<lambda>a. set_ar (md_value a) (md_with_mods a)) d;
         d = apply_opt (i_cs i) (\<lambda>a. set_cs (md_value a) (md_with_mods a)) d;
         d = apply_opt (i_hp i) (\<lambda>a. set_hp (md_value a) (md_with_mods a)) d;
         d = apply_opt (i_od i) (\<lambda>a. set_od (md_value a) (md_with_mods a)) d;
         d = apply_opt (i_hardrock_offsets i) set_hardrock_offsets d;
         d = apply_opt (i_lazer i) set_lazer d
     in d)"

section \<open>Getters\<close>

definition get_clock_rate :: "('mods \<Rightarrow> f64) \<Rightarrow> 'mods difficulty \<Rightarrow> f64" where
  "get_clock_rate mods_rate d = map_or (mods_rate (d_mods d)) non_zero_u64_to_f64 (d_clock_rate d)"

definition get_passed_objects :: "'mods difficulty \<Rightarrow> usize" where
  "get_passed_objects d = map_or (- 1) (\<lambda>n. ucast n) (d_passed_objects d)"

definition get_hardrock_offsets :: "('mods \<Rightarrow> bool) \<Rightarrow> 'mods difficulty \<Rightarrow> bool" where
  "get_hardrock_offsets mods_offsets d = unwrap_or (mods_offsets (d_mods d)) (d_hardrock_offsets d)"

definition get_lazer :: "'mods difficulty \<Rightarrow> bool" where
  "get_lazer d = unwrap_or True (d_lazer d)"

section \<open>What the settings guarantee\<close>

text \<open>The settings a chain of builder calls can make.\<close>

datatype 'mods setter =
    SetMods 'mods | SetPassedObjects u32 | SetClockRate f64 | SetAr f32 bool | SetCs f32 bool
  | SetHp f32 bool | SetOd f32 bool | SetHardrockOffsets bool | SetLazer bool

fun run_setter :: "'mods setter \<Rightarrow> 'mods difficulty \<Rightarrow> 'mods difficulty" where
  "run_setter (SetMods m) = set_mods m"
| "run_setter (SetPassedObjects n) = set_passed_objects n"
| "run_setter (SetClockRate c) = set_clock_rate c"
| "run_setter (SetAr v b) = set_ar v b"
| "run_setter (SetCs v b) = set_cs v b"
| "run_setter (SetHp v b) = set_hp v b"
| "run_setter (SetOd v b) = set_od v b"
| "run_setter (SetHardrockOffsets b) = set_hardrock_offsets b"
| "run_setter (SetLazer b) = set_lazer b"

definition build :: "'mods \<Rightarrow> 'mods setter list \<Rightarrow> 'mods difficulty" where
  "build default_mods steps = fold run_setter steps (difficulty_new default_mods)"

definition md_ok :: "mods_dependent \<Rightarrow> bool" where
  "md_ok a \<longleftrightarrow> clamp20 (md_value a) (md_with_mods a) = a"

definition rate_ok :: "u64 \<Rightarrow> bool" where
  "rate_ok n \<longleftrightarrow> n \<noteq> 0 \<and> rate_clamp (F64 n) = F64 n"

definition difficulty_ok :: "'mods difficulty \<Rightarrow> bool" where
  "difficulty_ok d \<longleftrightarrow> pred_option rate_ok (d_clock_rate d) \<and> pred_option md_ok (d_ar d)
     \<and> pred_option md_ok (d_cs d) \<and> pred_option md_ok (d_hp d) \<and> pred_option md_ok (d_od d)"

lemma rate_bounds: "lit 1 100 = F64 4576918229304087675" "lit 100 1 = F64 4636737291354636288"
  by (simp_all add: f64_eval)

lemma fclamp_idem: "\<not> hi < lo \<Longrightarrow> fclamp (fclamp x lo hi) lo hi = fclamp x lo hi"
  by (auto simp: fclamp_def less_f64_def)

lemma clamp20_ok: "md_ok (clamp20 v b)"
proof -
  have "\<not> F32 1101004800 < F32 3248488448" by (simp add: f32_eval)
  then show ?thesis by (simp add: md_ok_def clamp20_def f32_20 clamp32_idem)
qed

lemma clamped_rate_ok: "rate_ok (to_bits (rate_clamp c))"
proof -
  have o: "\<not> lit 100 1 < lit 1 100" "lit 1 100 \<noteq> F64 0" "lit 100 1 \<noteq> F64 0" "F64 0 < lit 1 100"
    unfolding rate_bounds by (simp_all add: f64_eval)
  have "rate_clamp c \<noteq> F64 0" using o by (auto simp: rate_clamp_def fclamp_def)
  then have "to_bits (rate_clamp c) \<noteq> 0" by (metis f64.exhaust_sel)
  moreover have "rate_clamp (rate_clamp c) = rate_clamp c"
    unfolding rate_clamp_def by (rule fclamp_idem [OF o(1)])
  ultimately show ?thesis by (simp add: rate_ok_def)
qed

lemma run_setter_ok: "difficulty_ok d \<Longrightarrow> difficulty_ok (run_setter s d)"
  by (cases s) (auto simp: difficulty_ok_def set_mods_def set_passed_objects_def set_clock_rate_def
      set_ar_def set_cs_def set_hp_def set_od_def set_hardrock_offsets_def set_lazer_def
      clamp20_ok clamped_rate_ok)

lemma build_ok_from: "difficulty_ok d \<Longrightarrow> difficulty_ok (fold run_setter steps d)"
  by (induction steps arbitrary: d) (simp_all add: run_setter_ok)

text \<open>
  C20. Every chain of builder calls keeps the invariant: the bits given to the unchecked
  constructor of \<open>NonZeroU64\<close> are never zero, whatever number (NaN and infinities included)
  was given as clock rate, and the stored values are fixed by their clamps.
\<close>

theorem build_ok: "difficulty_ok (build m steps)"
  unfolding build_def by (rule build_ok_from) (simp add: difficulty_ok_def difficulty_new_def)

lemma set_md_ok: "md_ok a \<Longrightarrow> clamp20 (md_value a) (md_with_mods a) = a"
  by (simp add: md_ok_def)

text \<open>
  C21. Inspecting settings and turning the result into settings again gives the settings back.
\<close>

theorem into_difficulty_inspect:
  "into_difficulty m (inspect (build m' steps)) = build m' steps"
proof -
  let ?d = "build m' steps"
  have ok: "difficulty_ok ?d" by (rule build_ok)
  have "to_bits (rate_clamp (F64 n)) = n" if "d_clock_rate ?d = Some n" for n
    using ok that by (simp add: difficulty_ok_def rate_ok_def)
  moreover have "clamp20 (md_value a) (md_with_mods a) = a"
    if "d_ar ?d = Some a \<or> d_cs ?d = Some a \<or> d_hp ?d = Some a \<or> d_od ?d = Some a" for a
    using ok that by (auto simp: difficulty_ok_def md_ok_def)
  ultimately show ?thesis
    unfolding into_difficulty_def inspect_def Let_def apply_opt_def set_mods_def set_passed_objects_def
      set_clock_rate_def set_ar_def set_cs_def set_hp_def set_od_def set_hardrock_offsets_def
      set_lazer_def difficulty_new_def non_zero_u64_to_f64_def
    by (cases ?d) (auto split: option.splits)
qed

section \<open>Passed objects\<close>

lemma all_passed: "unat (get_passed_objects (difficulty_new m)) = 18446744073709551615"
  by (simp add: get_passed_objects_def difficulty_new_def unsigned_minus_1_eq_mask mask_eq_exp_minus_1)

lemma passed_after_set: "n < 2 ^ 32 \<Longrightarrow> unat (get_passed_objects (set_passed_objects (word_of_nat n) d)) = n"
  by (simp add: get_passed_objects_def set_passed_objects_def unsigned_ucast_eq unsigned_of_nat take_bit_nat_eq_self_iff)

end
