(* ===== verification/Hit_Results.thy ===== *)
theory Hit_Results
  imports Accuracy Settings
begin

text \<open>
  What the four hit result generators share (\<open>generate_state\<close> of
  \<open>src/{osu,taiko,catch,mania}/performance/mod.rs\<close>): the priority, the choice between a
  map and its attributes (\<open>src/util/map_or_attrs.rs\<close>), ranges of 32-bit counts, and the
  search for the candidate whose accuracy lies closest to the requested one. The nested
  loops of the code run over the list of candidates in the order of the loops, and keep
  the first one that is strictly closer than all before it.
\<close>

datatype hit_result_priority = BestCase | WorstCase

datatype convert_error = AlreadyConverted | ConvertFromTo game_mode game_mode

datatype ('map, 'attrs) map_or_attrs = FromMap 'map | FromAttrs 'attrs

text \<open>
  The attributes at the start of \<open>generate_state\<close>: computed for a map, and stored in
  its place by \<open>insert_attrs\<close>. The error of the calculation is passed on as it is: its type
  \<open>'e\<close> is \<open>ConvertError\<close> in the code, and where the calculation of a mode is not
  known to return (\<open>Any_Performance\<close>) the type of errors has one more value for this.
\<close>

definition insert_attrs :: "'attrs \<Rightarrow> ('map, 'attrs) map_or_attrs \<Rightarrow> ('map, 'attrs) map_or_attrs" where
  "insert_attrs attrs _ = FromAttrs attrs"

definition resolve_attrs ::
  "('map \<Rightarrow> 'e + 'attrs) \<Rightarrow> ('map, 'attrs) map_or_attrs
    \<Rightarrow> 'e + 'attrs \<times> ('map, 'attrs) map_or_attrs" where
  "resolve_attrs calculate_for_mode self = (case self of
      FromMap m \<Rightarrow> (case calculate_for_mode m of
          Inl e \<Rightarrow> Inl e
        | Inr attrs \<Rightarrow> Inr (attrs, insert_attrs attrs self))
    | FromAttrs attrs \<Rightarrow> Inr (attrs, self))"

lemma resolve_attrs_again:
  "resolve_attrs calc self = Inr (attrs, m) \<Longrightarrow> resolve_attrs calc m = Inr (attrs, m)"
  by (auto simp: resolve_attrs_def insert_attrs_def split: map_or_attrs.splits sum.splits)

text \<open>
  The \<open>calculate\<close> that every mode has: the state is generated, which stores the attributes;
  these are read again, or computed if they were not stored, and the calculator of the mode
  runs on them.
\<close>

definition calculate_with ::
  "('self \<Rightarrow> 'e + 'state \<times> 'self) \<Rightarrow> ('self \<Rightarrow> ('map, 'attrs) map_or_attrs)
    \<Rightarrow> ('self \<Rightarrow> 'mods difficulty) \<Rightarrow> ('mods difficulty \<Rightarrow> 'map \<Rightarrow> 'e + 'attrs)
    \<Rightarrow> ('self \<Rightarrow> 'attrs \<Rightarrow> 'state \<Rightarrow> 'pp) \<Rightarrow> 'self \<Rightarrow> 'e + 'pp" where
  "calculate_with generate_state map_or_attrs difficulty calculate_for_mode calculator self =
    (case generate_state self of
       Inl e \<Rightarrow> Inl e
     | Inr (s, self) \<Rightarrow>
        (case (case map_or_attrs self of
            FromAttrs attrs \<Rightarrow> Inr attrs
          | FromMap bm \<Rightarrow> calculate_for_mode (difficulty self) bm) of
          Inl e \<Rightarrow> Inl e
        | Inr attrs \<Rightarrow> Inr (calculator self attrs s)))"

text \<open>
  What the calculation of a mode promises, and what follows for the whole: it fails exactly
  when the conversion of its map does, and otherwise runs the calculator on the attributes that
  the state was generated with.
\<close>

lemma resolved_attrs: "resolve_attrs c x = Inr (attrs, m) \<Longrightarrow> m = FromAttrs attrs"
  by (auto simp: resolve_attrs_def insert_attrs_def split: map_or_attrs.splits sum.splits)

locale mode_generator =
  fixes generate_state :: "('mods difficulty \<Rightarrow> 'map \<Rightarrow> 'e + 'attrs) \<Rightarrow> 'self \<Rightarrow> 'e + 'state \<times> 'self"
    and map_or_attrs :: "'self \<Rightarrow> ('map, 'attrs) map_or_attrs"
    and difficulty :: "'self \<Rightarrow> 'mods difficulty"
  assumes generates: "resolve_attrs (calc (difficulty self)) (map_or_attrs self) = Inr (attrs, m) \<Longrightarrow>
      \<exists>s self'. generate_state calc self = Inr (s, self') \<and> map_or_attrs self' = m \<and> difficulty self' = difficulty self"
    and fails: "resolve_attrs (calc (difficulty self)) (map_or_attrs self) = Inl e \<Longrightarrow> generate_state calc self = Inl e"
begin

lemma runs_calculator:
  assumes "resolve_attrs (calc (difficulty self)) (map_or_attrs self) = Inr (attrs, m)"
  shows "\<exists>s self'. generate_state calc self = Inr (s, self') \<and> difficulty self' = difficulty self \<and>
    calculate_with (generate_state calc) map_or_attrs difficulty calc calculator self = Inr (calculator self' attrs s)"
  using generates [of calc self attrs m] assms resolved_attrs [OF assms] by (auto simp: calculate_with_def)

lemma error_iff:
  "calculate_with (generate_state calc) map_or_attrs difficulty calc calculator self = Inl e
    \<longleftrightarrow> (\<exists>bm. map_or_attrs self = FromMap bm \<and> calc (difficulty self) bm = Inl e)"
proof (cases "resolve_attrs (calc (difficulty self)) (map_or_attrs self)")
  case (Inl e')
  then show ?thesis using fails [of calc self e'] Inl
    by (auto simp: calculate_with_def resolve_attrs_def split: map_or_attrs.splits sum.splits)
next
  case (Inr p)
  then show ?thesis using runs_calculator [of calc self "fst p" "snd p" calculator]
    by (auto simp: resolve_attrs_def split: map_or_attrs.splits sum.splits)
qed

end

text \<open>The inclusive range \<open>a..=b\<close> of 32-bit counts.\<close>

definition u32_range :: "u32 \<Rightarrow> u32 \<Rightarrow> u32 list" where
  "u32_range a b = map word_of_nat [unat a ..< Suc (unat b)]"

text \<open>The search for the closest candidate: best distance and current choice.\<close>

definition keep_best :: "('c \<Rightarrow> f64) \<Rightarrow> 'c \<Rightarrow> f64 \<times> 'c \<Rightarrow> f64 \<times> 'c" where
  "keep_best dst c = (\<lambda>(best, cur). if dst c < best then (dst c, c) else (best, cur))"

definition closest :: "f64 \<Rightarrow> ('c \<Rightarrow> f64) \<Rightarrow> 'c list \<Rightarrow> 'c \<Rightarrow> 'c" where
  "closest best dst cs start = snd (fold (keep_best dst) cs (best, start))"

section \<open>The search\<close>

lemma keep_best_pair: "keep_best dst c (best, cur) = (if dst c < best then (dst c, c) else (best, cur))"
  by (simp add: keep_best_def)

lemma fold_keep_best:
  assumes "fold (keep_best dst) cs (b, c) = (b', c')"
  shows "(b' = b \<and> c' = c \<or> b' = dst c' \<and> c' \<in> set cs \<and> dst c' < b)
    \<and> (\<forall>x\<in>set cs. \<not> dst x < b')"
  using assms
proof (induction cs arbitrary: b c)
  case Nil
  then show ?case by simp
next
  case (Cons x cs)
  show ?case
  proof (cases "dst x < b")
    case True
    with Cons.prems have f: "fold (keep_best dst) cs (dst x, x) = (b', c')"
      by (simp add: keep_best_pair)
    note ih = Cons.IH [OF f]
    then show ?thesis using True by (auto simp: less_f64_def)
  next
    case False
    with Cons.prems have f: "fold (keep_best dst) cs (b, c) = (b', c')"
      by (simp add: keep_best_pair)
    note ih = Cons.IH [OF f]
    then show ?thesis using False by (auto simp: less_f64_def)
  qed
qed

lemma closest_cases:
  "closest best dst cs start = start \<or> closest best dst cs start \<in> set cs"
  unfolding closest_def using fold_keep_best [of dst cs best start]
  by (cases "fold (keep_best dst) cs (best, start)") auto

text \<open>
  Where some candidate has a finite distance, the search returns a candidate, and none is
  closer.
\<close>

lemma closest_finds:
  assumes "x \<in> set cs" "dst x < best"
  shows "closest best dst cs start \<in> set cs"
    and "y \<in> set cs \<Longrightarrow> \<not> dst y < dst (closest best dst cs start)"
proof -
  obtain b' c' where f: "fold (keep_best dst) cs (best, start) = (b', c')" by fastforce
  note k = fold_keep_best [OF f]
  then have "b' \<noteq> best" using assms by auto
  then have "b' = dst c'" "c' \<in> set cs" using k by auto
  then show "closest best dst cs start \<in> set cs"
    and "y \<in> set cs \<Longrightarrow> \<not> dst y < dst (closest best dst cs start)"
    using k f by (auto simp: closest_def)
qed

lemma closest_all:
  assumes "cs \<noteq> []" "\<And>x. x \<in> set cs \<Longrightarrow> dst x < best"
  shows "closest best dst cs start \<in> set cs"
    and "y \<in> set cs \<Longrightarrow> \<not> dst y < dst (closest best dst cs start)"
  using closest_finds [of "hd cs" cs dst] assms by (auto simp: hd_in_set)

section \<open>Ranges\<close>

lemma set_u32_range [simp]: "x \<in> set (u32_range a b) \<longleftrightarrow> a \<le> x \<and> x \<le> b"
proof
  assume "x \<in> set (u32_range a b)"
  then obtain n where n: "x = word_of_nat n" "unat a \<le> n" "n \<le> unat b"
    by (auto simp: u32_range_def)
  have "n < 4294967296" using n(3) unsigned_less [where ?'a = nat, of b] by simp
  then have "unat x = n" using n(1) by (simp add: unat_of_nat)
  then show "a \<le> x \<and> x \<le> b" using n by (simp add: word_le_nat_alt)
next
  assume "a \<le> x \<and> x \<le> b"
  then have "unat x \<in> set [unat a ..< Suc (unat b)]" "x = word_of_nat (unat x)"
    by (auto simp: word_le_nat_alt)
  then show "x \<in> set (u32_range a b)" unfolding u32_range_def by (metis image_eqI set_map)
qed

lemma u32_range_nonempty: "a \<le> b \<Longrightarrow> u32_range a b \<noteq> []"
  using set_u32_range [of a a b] by (metis empty_iff empty_set order_refl)

section \<open>Floor and ceiling as counts\<close>

lemma ipart_div: "is_fin x \<Longrightarrow> ipart x = fman x * 2 ^ fex x div 2 ^ 1074"
proof (cases "1074 \<le> fex x")
  case True
  then have p: "(2::nat) ^ fex x = 2 ^ (fex x - 1074) * 2 ^ 1074" unfolding power_add [symmetric] by simp
  have "fman x * (2 ^ (fex x - 1074) * 2 ^ 1074) div 2 ^ 1074 = fman x * 2 ^ (fex x - 1074)"
    unfolding mult.assoc [symmetric] by (rule nonzero_mult_div_cancel_right) (rule power_not_zero, simp)
  then show ?thesis using True unfolding p by (simp only: ipart_def if_True)
next
  case False
  then have p: "(2::nat) ^ 1074 = 2 ^ (1074 - fex x) * 2 ^ fex x" unfolding power_add [symmetric] by simp
  have "fman x * 2 ^ fex x div (2 ^ (1074 - fex x) * 2 ^ fex x) = fman x div 2 ^ (1074 - fex x)"
    by (rule div_mult_mult2) simp
  then show ?thesis using False unfolding p by (simp only: ipart_def if_False)
qed

lemma fval_nonneg_mant: "\<not> sgn_bit x \<Longrightarrow> fval x = real (fman x * 2 ^ fex x) / 2 ^ 1074"
  by (simp add: fval_man_ex fint_def)

lemma ipart_mono:
  assumes "is_fin x" "is_fin y" "\<not> sgn_bit x" "\<not> sgn_bit y" "fval x \<le> fval y"
  shows "ipart x \<le> ipart y"
proof -
  have "real (fman x * 2 ^ fex x) \<le> real (fman y * 2 ^ fex y)"
    using assms(5) unfolding fval_nonneg_mant [OF assms(3)] fval_nonneg_mant [OF assms(4)]
    by (simp add: divide_le_cancel)
  then have "fman x * 2 ^ fex x \<le> fman y * 2 ^ fex y" by (simp only: of_nat_le_iff)
  then show ?thesis unfolding ipart_div [OF assms(1)] ipart_div [OF assms(2)] by (rule div_le_mono)
qed

text \<open>The cast to an unsigned integer is monotone.\<close>

lemma as_u32_mono:
  assumes "\<not> is_nan x" "\<not> is_nan y" "key x \<le> key y"
  shows "as_u32 x \<le> as_u32 y"
proof (cases "sgn_bit x")
  case True
  then show ?thesis by (simp add: as_u32_def)
next
  case x: False
  show ?thesis
  proof (cases "sgn_bit y")
    case True
    then have "magn x = 0" using x assms(3) by (simp add: key_def)
    moreover from this have "is_fin x" "fman x = 0" by (simp_all add: is_fin_def fman_def inf_mag_def man_def)
    ultimately show ?thesis using x by (simp add: as_u32_def ipart_def)
  next
    case y: False
    have m: "magn x \<le> magn y" using x y assms(3) by (simp add: key_def)
    have w: "word_of_nat (min 4294967295 n) \<le> (4294967295 :: u32)" for n
      by (simp add: word_le_nat_alt unat_of_nat)
    show ?thesis
    proof (cases "is_fin y")
      case False
      then have "is_inf y" using assms(2) class_cases by blast
      then show ?thesis using x y w by (simp add: as_u32_def)
    next
      case fy: True
      then have fx: "is_fin x" using m by (simp add: is_fin_def)
      have "ipart x \<le> ipart y" using ipart_mono [OF fx fy x y] assms(3) by (simp add: fval_le_key)
      then show ?thesis using x y fx fy by (simp add: as_u32_def word_le_nat_alt unat_of_nat)
    qed
  qed
qed

lemma floor_le_ceil: "\<not> is_nan x \<Longrightarrow> as_u32 (ffloor x) \<le> as_u32 (fceil x)"
proof (rule as_u32_mono)
  assume n: "\<not> is_nan x"
  show "\<not> is_nan (ffloor x)" "\<not> is_nan (fceil x)" using n by (simp_all add: ffloor_def fceil_def)
  show "key (ffloor x) \<le> key (fceil x)"
  proof (cases "is_fin x")
    case True
    have m: "round_mag 52 1074 (ipart x) 1 \<le> round_mag 52 1074 (ipart x + k) 1" for k
      by (rule round_mag_mono) simp_all
    show ?thesis using True m [of 1]
      by (auto simp: ffloor_def fceil_def key_def round_ratio_magn)
  qed (simp add: ffloor_def fceil_def)
qed

text \<open>A NaN is cast to 0, and so is its floor.\<close>

lemma as_u32_nan: "is_nan x \<Longrightarrow> as_u32 (ffloor x) = 0 \<and> as_u32 (fceil x) = 0"
  by (auto simp: ffloor_def fceil_def as_u32_def is_nan_def is_fin_def)

section \<open>Accuracies as input\<close>

text \<open>
  The setter \<open>accuracy\<close>, the same in every mode: the percentage is clamped and scaled.
  Its result is finite and from 0 to 1, unless the argument is NaN.
\<close>

definition acc_fraction :: "f64 \<Rightarrow> f64" where
  "acc_fraction acc = fclamp acc (lit 0 1) (lit 100 1) / lit 100 1"

definition unit_fin :: "f64 \<Rightarrow> bool" where
  "unit_fin x \<longleftrightarrow> is_fin x \<and> 0 \<le> fval x \<and> fval x \<le> 1"

definition acc_ok :: "f64 option \<Rightarrow> bool" where
  "acc_ok acc = pred_option unit_fin acc"

lemma lit_nat:
  assumes "n < 2 ^ 53"
  shows "fval (lit n 1) = real n" "is_fin (lit n 1)"
  using round_ratio_of_nat [OF assms, of False] by (simp_all add: lit_def signed_def)

lemma fclamp_fin:
  assumes "\<not> is_nan x" "is_fin lo" "is_fin hi" "fval lo \<le> fval hi"
  shows "is_fin (fclamp x lo hi)" "fval lo \<le> fval (fclamp x lo hi)" "fval (fclamp x lo hi) \<le> fval hi"
proof -
  show b: "fval lo \<le> fval (fclamp x lo hi)" "fval (fclamp x lo hi) \<le> fval hi"
    using assms by (auto simp: fclamp_def less_f64_def fval_less_key [symmetric])
  show "is_fin (fclamp x lo hi)" by (rule fin_between [OF assms(2,3) b])
qed

lemma acc_fraction_ok: "\<not> is_nan x \<Longrightarrow> unit_fin (acc_fraction x)"
proof -
  assume n: "\<not> is_nan x"
  have l: "fval (lit 0 1) = 0" "is_fin (lit 0 1)" "fval (lit 100 1) = 100" "is_fin (lit 100 1)"
    using lit_nat [of 0] lit_nat [of 100] by simp_all
  let ?c = "fclamp x (lit 0 1) (lit 100 1)"
  have "is_fin ?c" "0 \<le> fval ?c" "fval ?c \<le> 100" using fclamp_fin [OF n l(2,4)] l by simp_all
  then have "rounds_to (acc_fraction x) (fval ?c / 100)" "0 \<le> fval ?c / 100" "fval ?c / 100 \<le> 1"
    using fdiv_rounds [of ?c "lit 100 1"] l unfolding acc_fraction_def by simp_all
  then show ?thesis unfolding unit_fin_def
    using rounds_to_between [of "acc_fraction x" "fval ?c / 100" "fzero False" f64_one]
    by (simp add: fval_one)
qed

lemma fval_f64_max: "1 < fval f64_max" "is_fin f64_max"
proof -
  show "is_fin f64_max" by (simp add: f64_max_def is_fin_def inf_mag_def)
  have "key f64_one < key f64_max" by (simp add: key_def f64_one_def f64_max_def inf_mag_def)
  then show "1 < fval f64_max" using fval_less_key [of f64_one f64_max] by (simp add: fval_one)
qed

lemma unit_dist:
  assumes "unit_fin a" "unit_fin b"
  shows "unit_fin (abs (a - b))" "abs (a - b) < f64_max"
proof -
  have r: "rounds_to (a - b) (fval a - fval b)" using fsub_rounds assms by (simp add: unit_fin_def)
  have "is_fin (a - b) \<and> -1 \<le> fval (a - b) \<and> fval (a - b) \<le> 1"
    using rounds_to_between [OF r, of "fneg f64_one" f64_one] assms by (auto simp: fval_one unit_fin_def)
  then show u: "unit_fin (abs (a - b))" by (auto simp: unit_fin_def abs_f64_def)
  then show "abs (a - b) < f64_max"
    using less_f64_fin [of "abs (a - b)" f64_max] fval_f64_max by (auto simp: unit_fin_def)
qed

lemma f64_max_le [simp]: "f64_max \<le> f64_max" "f64_max \<le> f64_infinity"
  by (simp_all add: less_eq_f64_def f64_max_def f64_infinity_def is_nan_def key_def inf_mag_def)

lemma unit_ratio:
  assumes "unat d = D" "unat n = N" "N \<le> D" "D \<noteq> 0"
  shows "unit_fin (f64_of_u32 n / f64_of_u32 d)"
  using is_accuracy_scaled [OF assms refl] by (simp add: is_accuracy_def unit_fin_def)

lemma unit_zero: "unit_fin (fzero False)"
  by (simp add: unit_fin_def)

lemma ipart_bounds:
  assumes "is_fin x" "\<not> sgn_bit x"
  shows "real (ipart x) \<le> fval x" "fval x < real (ipart x) + 1"
    "\<not> has_frac x \<Longrightarrow> fval x = real (ipart x)"
proof -
  let ?n = "fman x * 2 ^ fex x"
  have v: "fval x = real ?n / 2 ^ 1074" by (rule fval_nonneg_mant [OF assms(2)])
  have i: "ipart x = ?n div 2 ^ 1074" by (rule ipart_div [OF assms(1)])
  have p: "real (2 ^ 1074) = (2 ^ 1074 :: real)" unfolding of_nat_power of_nat_numeral ..
  have pos: "(0::nat) < 2 ^ 1074" by (rule zero_less_power) simp
  show "real (ipart x) \<le> fval x" unfolding v i p [symmetric] by (rule of_nat_div_le_of_nat)
  show "fval x < real (ipart x) + 1"
  proof -
    have "?n < (?n div 2 ^ 1074 + 1) * 2 ^ 1074"
      using dividend_less_div_times [OF pos, of ?n] unfolding distrib_right mult_1 by (simp only: add.commute)
    then have "real ?n < (real (ipart x) + 1) * real (2 ^ 1074)"
      unfolding i of_nat_less_iff [symmetric, where ?'a = real] of_nat_mult of_nat_add of_nat_1 .
    then show ?thesis unfolding v p [symmetric] using pos by (simp only: pos_divide_less_eq of_nat_0_less_iff)
  qed
  show "fval x = real (ipart x)" if "\<not> has_frac x"
  proof -
    have "2 ^ 1074 dvd ?n"
    proof (cases "1074 \<le> fex x")
      case True
      then show ?thesis by (intro dvd_mult le_imp_power_dvd)
    next
      case False
      then have "2 ^ (1074 - fex x) dvd fman x" using that by (simp add: has_frac_def mod_eq_0_iff_dvd)
      then have "2 ^ (1074 - fex x) * 2 ^ fex x dvd ?n" by (intro mult_dvd_mono) simp_all
      moreover have "(2::nat) ^ (1074 - fex x) * 2 ^ fex x = 2 ^ 1074" using False unfolding power_add [symmetric] by simp
      ultimately show ?thesis by (simp only:)
    qed
    then show ?thesis unfolding v i p [symmetric] by (rule real_of_nat_div [symmetric])
  qed
qed

lemma as_u32_of_nat:
  assumes "n < 4294967296"
  shows "unat (as_u32 (round_ratio False n 1)) = n"
proof -
  let ?x = "round_ratio False n 1"
  have x: "is_fin ?x" "fval ?x = real n" using round_ratio_of_nat [of n False] assms by (simp_all add: signed_def)
  have "ipart ?x = n" using ipart_bounds [OF x(1)] x(2) by simp
  then show ?thesis using x(1) assms by (simp add: as_u32_def unat_of_nat)
qed

lemma floor_ceil_bounds:
  assumes "is_fin x" "fval x < 2 ^ 32 - 1"
  shows "0 < as_u32 (ffloor x) \<Longrightarrow> real (unat (as_u32 (ffloor x))) \<le> fval x"
    and "fval x \<le> real (unat (as_u32 (fceil x)))"
proof -
  show "fval x \<le> real (unat (as_u32 (fceil x)))"
  proof (cases "sgn_bit x")
    case True
    then have "fval x \<le> 0" by (simp add: fval_def)
    then show ?thesis by (meson of_nat_0_le_iff order_trans)
  next
    case False
    note b = ipart_bounds [OF assms(1) False]
    let ?n = "ipart x + (if has_frac x then 1 else 0)"
    have "real (ipart x) < real 4294967295" using b(1) assms(2) by simp
    then have "?n < 4294967296" unfolding of_nat_less_iff by simp
    then have "unat (as_u32 (fceil x)) = ?n"
      using assms(1) False as_u32_of_nat [of ?n] by (simp add: fceil_def)
    then show ?thesis using b by (cases "has_frac x") auto
  qed
  show "real (unat (as_u32 (ffloor x))) \<le> fval x" if "0 < as_u32 (ffloor x)"
  proof (cases "sgn_bit x")
    case True
    then have "as_u32 (ffloor x) = 0" using assms(1) by (simp add: ffloor_def as_u32_def)
    then show ?thesis using that by simp
  next
    case False
    note b = ipart_bounds [OF assms(1) False]
    have "real (ipart x) < real 4294967295" using b(1) assms(2) by simp
    then have "ipart x < 4294967296" unfolding of_nat_less_iff by simp
    then have "unat (as_u32 (ffloor x)) = ipart x"
      using assms(1) False as_u32_of_nat [of "ipart x"] by (simp add: ffloor_def)
    then show ?thesis using b(1) by (simp only:)
  qed
qed

section \<open>Searching a window\<close>

text \<open>
  The generators look for the best count only between the floor and the ceiling of a real
  estimate. The following lemmas show that the window contains an optimal count although
  estimate and accuracies are rounded: scaled by the number of hits, all rounding errors
  together stay below an eighth, while neighbouring counts differ by one.
\<close>

lemma closer_above:
  fixes X a b :: real
  assumes "b \<le> a" "a - X \<le> 1 / 4" "1 / 4 \<le> X - b"
  shows "\<bar>X - a\<bar> \<le> \<bar>X - b\<bar>"
  using assms by linarith

lemma closer_below:
  fixes X a b :: real
  assumes "a \<le> b" "X - a \<le> 1 / 4" "1 / 4 \<le> b - X"
  shows "\<bar>X - a\<bar> \<le> \<bar>X - b\<bar>"
  using assms by linarith

lemma window_linear:
  fixes X t2 R :: real and x :: "nat \<Rightarrow> real"
  assumes x: "\<And>i. i \<le> r \<Longrightarrow> \<bar>x i - (real i + R)\<bar> \<le> 1 / 16" and X: "\<bar>X - R - t2\<bar> \<le> 1 / 16"
    and mono: "\<And>i j. i \<le> j \<Longrightarrow> j \<le> r \<Longrightarrow> x i \<le> x j"
    and lo: "lo \<le> hi" "hi \<le> r" "0 < lo \<Longrightarrow> real lo \<le> t2" "hi < r \<Longrightarrow> t2 \<le> real hi" and k: "k \<le> r"
  shows "\<exists>j. lo \<le> j \<and> j \<le> hi \<and> \<bar>X - x j\<bar> \<le> \<bar>X - x k\<bar>"
proof -
  consider "k < lo" | "lo \<le> k" "k \<le> hi" | "hi < k" by linarith
  then show ?thesis
  proof cases
    case 1
    have "x k \<le> x lo" using mono 1 lo by simp
    moreover have "real k + 1 \<le> real lo" using 1 by linarith
    moreover have "real lo \<le> t2" using 1 lo by simp
    moreover have "\<bar>x lo - (real lo + R)\<bar> \<le> 1 / 16" "\<bar>x k - (real k + R)\<bar> \<le> 1 / 16"
      using x lo k by simp_all
    ultimately have "\<bar>X - x lo\<bar> \<le> \<bar>X - x k\<bar>"
      using X by (intro closer_above) linarith+
    then show ?thesis using lo by blast
  next
    case 2
    then show ?thesis by blast
  next
    case 3
    have "x hi \<le> x k" using mono 3 k by simp
    moreover have "real hi + 1 \<le> real k" using 3 by linarith
    moreover have "t2 \<le> real hi" using 3 lo k by simp
    moreover have "\<bar>x hi - (real hi + R)\<bar> \<le> 1 / 16" "\<bar>x k - (real k + R)\<bar> \<le> 1 / 16"
      using x lo k by simp_all
    ultimately have "\<bar>X - x hi\<bar> \<le> \<bar>X - x k\<bar>"
      using X by (intro closer_below) linarith+
    then show ?thesis using lo by blast
  qed
qed


lemma scale_abs: "0 < D \<Longrightarrow> D * \<bar>a - q / D\<bar> = \<bar>D * a - q\<bar>" for D :: real
proof -
  assume D: "0 < D"
  then have "D * a - q = D * (a - q / D)" by (simp add: right_diff_distrib)
  then show ?thesis using D by (simp add: abs_mult)
qed

lemma below_53: "\<bar>y\<bar> \<le> D \<Longrightarrow> D < 2 ^ 33 \<Longrightarrow> \<bar>y\<bar> * 2 ^ 18 < 2 ^ 53 - 1" for y D :: real
  by simp

lemma below_53_50: "y \<le> 1 \<Longrightarrow> y * 2 ^ 50 < 2 ^ 53 - 1" for y :: real
  by simp

lemma scaled_close:
  assumes "rounds_to v (q / D)" "0 \<le> q" "q \<le> D" "0 < D" "D < 2 ^ 33"
  shows "\<bar>D * fval v - q\<bar> \<le> 1 / 16"
proof -
  have "\<bar>fval v - q / D\<bar> \<le> 1 / 2 ^ 50"
  proof -
    have "0 \<le> q / D" "q / D \<le> 1" using assms(2-4) by (simp_all add: divide_le_eq_1)
    then have "\<bar>q / D\<bar> \<le> 1" by linarith
    then have "\<bar>q / D\<bar> * 2 ^ 50 < 2 ^ 53 - 1" using below_53_50 by blast
    then show ?thesis by (rule rounds_to_error(1) [OF assms(1)]) simp
  qed
  then have "D * \<bar>fval v - q / D\<bar> \<le> D * (1 / 2 ^ 50)"
    using assms(4) by (intro mult_left_mono) simp_all
  moreover have "D * \<bar>fval v - q / D\<bar> = \<bar>D * fval v - q\<bar>" by (rule scale_abs [OF assms(4)])
  moreover have "D * (1 / 2 ^ 50) \<le> 1 / 16" using assms(5) by simp
  ultimately show ?thesis by linarith
qed

lemma scaled_target:
  assumes acc: "unit_fin acc" and d: "is_fin d" "0 < fval d" "fval d < 3000000000"
    and r: "is_fin r" "0 \<le> fval r" "fval r \<le> fval d"
  shows "is_fin (acc * d - r)" "\<bar>fval d * fval acc - fval r - fval (acc * d - r)\<bar> \<le> 1 / 16"
    "fval (acc * d - r) < 2 ^ 32 - 1"
proof -
  let ?D = "fval d" and ?t = "acc * d"
  have A: "is_fin acc" "0 \<le> fval acc" "fval acc \<le> 1" using acc by (simp_all add: unit_fin_def)
  have D: "?D < 2 ^ 33" using d(3) by simp
  have AD: "0 \<le> ?D * fval acc" "?D * fval acc \<le> ?D" using A d by (simp_all add: mult_left_le)
  have r1: "rounds_to ?t (?D * fval acc)" using fmul_rounds [OF A(1) d(1)] by (simp only: mult.commute)
  have e1: "\<bar>fval ?t - ?D * fval acc\<bar> \<le> 1 / 262144" "is_fin ?t"
    using rounds_to_error [OF r1 below_53 [OF _ D]] AD by simp_all
  have t: "0 \<le> fval ?t" "fval ?t \<le> ?D"
    using rounds_to_ge [OF r1, of "fzero False"] rounds_to_le [OF r1, of d] AD d(1) by simp_all
  have r2: "rounds_to (?t - r) (fval ?t - fval r)" by (rule fsub_rounds [OF e1(2) r(1)])
  have "\<bar>fval ?t - fval r\<bar> \<le> ?D" using t r by linarith
  then have e2: "\<bar>fval (?t - r) - (fval ?t - fval r)\<bar> \<le> 1 / 262144" "is_fin (?t - r)"
    using rounds_to_error [OF r2 below_53 [OF _ D]] by simp_all
  show "is_fin (?t - r)" by (rule e2(2))
  show "\<bar>?D * fval acc - fval r - fval (?t - r)\<bar> \<le> 1 / 16" using e1(1) e2(1) by linarith
  have "(2::real) ^ 32 - 1 = 4294967295" by simp
  then show "fval (?t - r) < 2 ^ 32 - 1" using e2(1) t r d(3) by linarith
qed

lemma window_floor_ceil:
  fixes x :: "nat \<Rightarrow> real"
  assumes x: "\<And>i. i \<le> r \<Longrightarrow> \<bar>x i - (real i + R)\<bar> \<le> 1 / 16"
    and mono: "\<And>i j. i \<le> j \<Longrightarrow> j \<le> r \<Longrightarrow> x i \<le> x j"
    and t: "is_fin t" "\<bar>X - R - fval t\<bar> \<le> 1 / 16" "fval t < 2 ^ 32 - 1" and k: "k \<le> r"
  shows "\<exists>j. min r (unat (as_u32 (ffloor t))) \<le> j \<and> j \<le> min r (unat (as_u32 (fceil t)))
    \<and> \<bar>X - x j\<bar> \<le> \<bar>X - x k\<bar>" (is "\<exists>j. ?lo \<le> j \<and> j \<le> ?hi \<and> _ j")
proof (rule window_linear [OF x t(2) mono])
  have "unat (as_u32 (ffloor t)) \<le> unat (as_u32 (fceil t))"
    using floor_le_ceil [of t] t(1) by (simp add: word_le_nat_alt)
  then show "?lo \<le> ?hi" by linarith
  show "?hi \<le> r" by simp
  show "k \<le> r" by (rule k)
  show "real ?lo \<le> fval t" if "0 < ?lo"
  proof -
    have "0 < as_u32 (ffloor t)" using that by (simp add: unat_gt_0 word_neq_0_conv)
    from floor_ceil_bounds(1) [OF t(1,3) this] show ?thesis
      using of_nat_mono [of ?lo "unat (as_u32 (ffloor t))", where ?'a = real] by linarith
  qed
  show "fval t \<le> real ?hi" if "?hi < r"
  proof -
    have "?hi = unat (as_u32 (fceil t))" using that by linarith
    then show ?thesis using floor_ceil_bounds(2) [OF t(1,3)] by (simp only:)
  qed
qed

text \<open>
  The window of a generator whose accuracy with \<open>k\<close> good hits is the rounded
  \<open>(k + R) / N\<close> contains a count that is at least as close as any other one.
\<close>

lemma count_window:
  fixes N R r :: nat
  assumes acc: "unit_fin acc" and N: "0 < N" "N < 3000000000" "r + R \<le> N"
    and rnd: "\<And>k. k \<le> r \<Longrightarrow> rounds_to (f k) (real (k + R) / real N)"
    and d: "is_fin d" "fval d = real N" and x: "is_fin c" "fval c = real R" and a: "a \<le> r"
  obtains j where "min r (unat (as_u32 (ffloor (acc * d - c)))) \<le> j"
    "j \<le> min r (unat (as_u32 (fceil (acc * d - c))))"
    "\<bar>fval acc - fval (f j)\<bar> \<le> \<bar>fval acc - fval (f a)\<bar>"
proof -
  obtain D where D: "D = real N" by blast
  have "real N < real (3000000000::nat)" unfolding of_nat_less_iff by (rule N(2))
  then have Db: "0 < D" "D < 3000000000" "D < 2 ^ 33" using N(1) unfolding D by simp_all
  define y where "y k = D * fval (f k)" for k
  have y: "\<bar>y i - (real i + real R)\<bar> \<le> 1 / 16" if "i \<le> r" for i
  proof -
    have "real (i + R) \<le> D" unfolding D of_nat_le_iff using that N(3) by linarith
    from scaled_close [OF rnd [OF that, folded D] of_nat_0_le_iff this Db(1,3)]
    show ?thesis by (simp add: y_def)
  qed
  have mono: "y i \<le> y j" if "i \<le> j" "j \<le> r" for i j
  proof -
    have "real (i + R) / real N \<le> real (j + R) / real N" using that by (intro divide_right_mono) simp_all
    then have "fval (f i) \<le> fval (f j)" using rounds_to_mono rnd that by (meson le_trans)
    then show ?thesis unfolding y_def using Db(1) by (intro mult_left_mono) simp_all
  qed
  have R: "0 \<le> fval c" "fval c \<le> fval d" unfolding d(2) x(2) using N(3) by simp_all
  note t = scaled_target [OF acc d(1) _ _ x(1) R, unfolded d(2) x(2), folded D, OF Db(1,2)]
  obtain j where j: "min r (unat (as_u32 (ffloor (acc * d - c)))) \<le> j"
    "j \<le> min r (unat (as_u32 (fceil (acc * d - c))))"
    "\<bar>D * fval acc - y j\<bar> \<le> \<bar>D * fval acc - y a\<bar>"
    using window_floor_ceil [OF y mono t a] by blast
  have "\<bar>D * fval acc - y i\<bar> = D * \<bar>fval acc - fval (f i)\<bar>" for i
    unfolding y_def right_diff_distrib [symmetric] abs_mult using Db(1) by simp
  then have "\<bar>fval acc - fval (f j)\<bar> \<le> \<bar>fval acc - fval (f a)\<bar>"
    using j(3) Db(1) by (simp only: mult_le_cancel_left_pos)
  then show ?thesis using that j(1,2) by blast
qed

text \<open>Counts below a 32-bit limit, as words.\<close>

lemma u32_below:
  assumes "k \<le> unat (r :: u32)"
  shows "unat (word_of_nat k :: u32) = k" "unat (r - word_of_nat k) = unat r - k"
proof -
  have "k < 4294967296" using assms unsigned_less [where ?'a = nat, of r] by simp
  then show u: "unat (word_of_nat k :: u32) = k" by (simp add: unat_of_nat)
  show "unat (r - word_of_nat k) = unat r - k" using assms u by (simp add: unat_sub_le word_le_nat_alt)
qed

text \<open>Closer accuracies have smaller rounded distances.\<close>

lemma unit_dist_mono:
  assumes "unit_fin a" "unit_fin y" "unit_fin z" "\<bar>fval a - fval y\<bar> \<le> \<bar>fval a - fval z\<bar>"
  shows "fval (abs (a - y)) \<le> fval (abs (a - z))"
proof -
  have r: "rounds_to (abs (a - v)) \<bar>fval a - fval v\<bar>" if "unit_fin v" for v
    using rounds_to_abs [OF fsub_rounds] assms(1) that by (simp add: unit_fin_def)
  show ?thesis by (rule rounds_to_mono [OF r [OF assms(2)] r [OF assms(3)] assms(4)])
qed

text \<open>A candidate that is searched is not closer than the result.\<close>

lemma closest_unit:
  assumes "unit_fin acc" "f64_max \<le> best" "\<And>c. c \<in> set cs \<Longrightarrow> unit_fin (f c)" "c \<in> set cs"
  shows "closest best (\<lambda>c. abs (acc - f c)) cs start \<in> set cs"
    and "fval (abs (acc - f (closest best (\<lambda>c. abs (acc - f c)) cs start))) \<le> fval (abs (acc - f c))"
proof -
  let ?d = "\<lambda>c. abs (acc - f c)"
  have d: "?d c < best" "unit_fin (?d c)" if "c \<in> set cs" for c
    using unit_dist [OF assms(1) assms(3) [OF that]] assms(2) by (auto simp: less_f64_def less_eq_f64_def)
  show m: "closest best ?d cs start \<in> set cs"
    by (rule closest_finds(1) [of c cs ?d, OF assms(4) d(1) [OF assms(4)]])
  have "\<not> ?d c < ?d (closest best ?d cs start)"
    by (rule closest_finds(2) [of c cs ?d, OF assms(4) d(1) [OF assms(4)] assms(4)])
  then show "fval (?d (closest best ?d cs start)) \<le> fval (?d c)"
    using d(2) [OF assms(4)] d(2) [OF m] by (simp add: less_f64_fin unit_fin_def not_less)
qed

end
