(* ===== verification/Osu_Performance.thy ===== *)
theory Osu_Performance
  imports Hit_Results
begin

text \<open>
  The performance settings of osu!standard and the generation of a score state from partial
  information (\<open>src/osu/performance/mod.rs\<close>). Where an accuracy is given, the missing
  counts are searched for; the candidates of each branch form a list in the order of the
  code's loops, a candidate being the triple of 300s, 100s and 50s.
\<close>

record osu_difficulty_attributes =
  od_aim :: f64
  od_aim_difficult_slider_count :: f64
  od_speed :: f64
  od_flashlight :: f64
  od_reading :: f64
  od_slider_factor :: f64
  od_aim_top_weighted_slider_factor :: f64
  od_speed_top_weighted_slider_factor :: f64
  od_speed_note_count :: f64
  od_aim_difficult_strain_count :: f64
  od_speed_difficult_strain_count :: f64
  od_reading_difficult_note_count :: f64
  od_nested_score_per_object :: f64
  od_legacy_score_base_multiplier :: f64
  od_maximum_legacy_combo_score :: f64
  od_ar :: f64
  od_great_hit_window :: f64
  od_ok_hit_window :: f64
  od_meh_hit_window :: f64
  od_hp :: f64
  od_n_circles :: u32
  od_n_sliders :: u32
  od_n_large_ticks :: u32
  od_n_spinners :: u32
  od_stars :: f64
  od_max_combo :: u32

definition osu_n_objects :: "osu_difficulty_attributes \<Rightarrow> u32" where
  "osu_n_objects a = od_n_circles a + od_n_sliders a + od_n_spinners a"

record ('mods, 'map) osu_performance =
  op_map_or_attrs :: "('map, osu_difficulty_attributes) map_or_attrs"
  op_difficulty :: "'mods difficulty"
  op_acc :: "f64 option"
  op_combo :: "u32 option"
  op_large_tick_hits :: "u32 option"
  op_small_tick_hits :: "u32 option"
  op_slider_end_hits :: "u32 option"
  op_n300 :: "u32 option"
  op_n100 :: "u32 option"
  op_n50 :: "u32 option"
  op_misses :: "u32 option"
  op_legacy_total_score :: "u64 option"
  op_priority :: hit_result_priority

section \<open>Settings\<close>

definition osu_set_mods :: "'mods \<Rightarrow> ('mods, 'map) osu_performance \<Rightarrow> ('mods, 'map) osu_performance" where
  "osu_set_mods v self = self\<lparr>op_difficulty := set_mods v (op_difficulty self)\<rparr>"

definition osu_set_combo :: "u32 \<Rightarrow> ('mods, 'map) osu_performance \<Rightarrow> ('mods, 'map) osu_performance" where
  "osu_set_combo v self = self\<lparr>op_combo := Some v\<rparr>"

definition osu_set_priority ::
  "hit_result_priority \<Rightarrow> ('mods, 'map) osu_performance \<Rightarrow> ('mods, 'map) osu_performance" where
  "osu_set_priority v self = self\<lparr>op_priority := v\<rparr>"

definition osu_set_lazer :: "bool \<Rightarrow> ('mods, 'map) osu_performance \<Rightarrow> ('mods, 'map) osu_performance" where
  "osu_set_lazer v self = self\<lparr>op_difficulty := set_lazer v (op_difficulty self)\<rparr>"

definition osu_set_large_tick_hits :: "u32 \<Rightarrow> ('mods, 'map) osu_performance \<Rightarrow> ('mods, 'map) osu_performance" where
  "osu_set_large_tick_hits v self = self\<lparr>op_large_tick_hits := Some v\<rparr>"

definition osu_set_small_tick_hits :: "u32 \<Rightarrow> ('mods, 'map) osu_performance \<Rightarrow> ('mods, 'map) osu_performance" where
  "osu_set_small_tick_hits v self = self\<lparr>op_small_tick_hits := Some v\<rparr>"

definition osu_set_slider_end_hits :: "u32 \<Rightarrow> ('mods, 'map) osu_performance \<Rightarrow> ('mods, 'map) osu_performance" where
  "osu_set_slider_end_hits v self = self\<lparr>op_slider_end_hits := Some v\<rparr>"

definition osu_set_n300 :: "u32 \<Rightarrow> ('mods, 'map) osu_performance \<Rightarrow> ('mods, 'map) osu_performance" where
  "osu_set_n300 v self = self\<lparr>op_n300 := Some v\<rparr>"

definition osu_set_n100 :: "u32 \<Rightarrow> ('mods, 'map) osu_performance \<Rightarrow> ('mods, 'map) osu_performance" where
  "osu_set_n100 v self = self\<lparr>op_n100 := Some v\<rparr>"

definition osu_set_n50 :: "u32 \<Rightarrow> ('mods, 'map) osu_performance \<Rightarrow> ('mods, 'map) osu_performance" where
  "osu_set_n50 v self = self\<lparr>op_n50 := Some v\<rparr>"

definition osu_set_misses :: "u32 \<Rightarrow> ('mods, 'map) osu_performance \<Rightarrow> ('mods, 'map) osu_performance" where
  "osu_set_misses v self = self\<lparr>op_misses := Some v\<rparr>"

definition osu_set_difficulty ::
  "'mods difficulty \<Rightarrow> ('mods, 'map) osu_performance \<Rightarrow> ('mods, 'map) osu_performance" where
  "osu_set_difficulty v self = self\<lparr>op_difficulty := v\<rparr>"

definition osu_set_passed_objects :: "u32 \<Rightarrow> ('mods, 'map) osu_performance \<Rightarrow> ('mods, 'map) osu_performance" where
  "osu_set_passed_objects v self = self\<lparr>op_difficulty := set_passed_objects v (op_difficulty self)\<rparr>"

definition osu_set_clock_rate :: "f64 \<Rightarrow> ('mods, 'map) osu_performance \<Rightarrow> ('mods, 'map) osu_performance" where
  "osu_set_clock_rate v self = self\<lparr>op_difficulty := set_clock_rate v (op_difficulty self)\<rparr>"

definition osu_set_ar :: "f32 \<Rightarrow> bool \<Rightarrow> ('mods, 'map) osu_performance \<Rightarrow> ('mods, 'map) osu_performance" where
  "osu_set_ar v with_mods self = self\<lparr>op_difficulty := set_ar v with_mods (op_difficulty self)\<rparr>"

definition osu_set_cs :: "f32 \<Rightarrow> bool \<Rightarrow> ('mods, 'map) osu_performance \<Rightarrow> ('mods, 'map) osu_performance" where
  "osu_set_cs v with_mods self = self\<lparr>op_difficulty := set_cs v with_mods (op_difficulty self)\<rparr>"

definition osu_set_hp :: "f32 \<Rightarrow> bool \<Rightarrow> ('mods, 'map) osu_performance \<Rightarrow> ('mods, 'map) osu_performance" where
  "osu_set_hp v with_mods self = self\<lparr>op_difficulty := set_hp v with_mods (op_difficulty self)\<rparr>"

definition osu_set_od :: "f32 \<Rightarrow> bool \<Rightarrow> ('mods, 'map) osu_performance \<Rightarrow> ('mods, 'map) osu_performance" where
  "osu_set_od v with_mods self = self\<lparr>op_difficulty := set_od v with_mods (op_difficulty self)\<rparr>"

definition osu_set_state ::
  "osu_score_state \<Rightarrow> ('mods, 'map) osu_performance \<Rightarrow> ('mods, 'map) osu_performance" where
  "osu_set_state s self = self\<lparr>op_combo := Some (os_max_combo s),
     op_large_tick_hits := Some (os_large_tick_hits s), op_small_tick_hits := Some (os_small_tick_hits s),
     op_slider_end_hits := Some (os_slider_end_hits s), op_n300 := Some (os_n300 s),
     op_n100 := Some (os_n100 s), op_n50 := Some (os_n50 s), op_misses := Some (os_misses s)\<rparr>"

definition osu_set_accuracy :: "f64 \<Rightarrow> ('mods, 'map) osu_performance \<Rightarrow> ('mods, 'map) osu_performance" where
  "osu_set_accuracy acc self = self\<lparr>op_acc := Some (acc_fraction acc)\<rparr>"

definition osu_set_legacy_total_score :: "u64 \<Rightarrow> ('mods, 'map) osu_performance \<Rightarrow> ('mods, 'map) osu_performance" where
  "osu_set_legacy_total_score v self = self\<lparr>op_legacy_total_score := Some v\<rparr>"

definition osu_from_map_or_attrs ::
  "'mods \<Rightarrow> ('map, osu_difficulty_attributes) map_or_attrs \<Rightarrow> ('mods, 'map) osu_performance" where
  "osu_from_map_or_attrs default_mods m = \<lparr>op_map_or_attrs = m,
     op_difficulty = difficulty_new default_mods, op_acc = None, op_combo = None,
     op_large_tick_hits = None, op_small_tick_hits = None, op_slider_end_hits = None,
     op_n300 = None, op_n100 = None, op_n50 = None, op_misses = None,
     op_legacy_total_score = None, op_priority = BestCase\<rparr>"

section \<open>Origin and slider hits\<close>

record osu_slider_hits =
  sh_origin :: osu_score_origin
  sh_slider_end_hits :: u32
  sh_large_tick_hits :: u32
  sh_small_tick_hits :: u32

definition osu_slider_hits ::
  "osu_difficulty_attributes \<Rightarrow> bool \<Rightarrow> bool \<Rightarrow> u32 option \<Rightarrow> u32 option \<Rightarrow> u32 option \<Rightarrow> osu_slider_hits" where
  "osu_slider_hits attrs lazer classic given_slider_ends given_large given_small =
    (if \<not> lazer then
       \<lparr>sh_origin = Stable, sh_slider_end_hits = 0, sh_large_tick_hits = 0, sh_small_tick_hits = 0\<rparr>
     else if \<not> classic then
       \<lparr>sh_origin = WithSliderAcc (od_n_large_ticks attrs) (od_n_sliders attrs),
        sh_slider_end_hits = map_or (od_n_sliders attrs) (\<lambda>n. min n (od_n_sliders attrs)) given_slider_ends,
        sh_large_tick_hits = map_or (od_n_large_ticks attrs) (\<lambda>n. min n (od_n_large_ticks attrs)) given_large,
        sh_small_tick_hits = 0\<rparr>
     else
       \<lparr>sh_origin = WithoutSliderAcc (od_n_sliders attrs + od_n_large_ticks attrs) (od_n_sliders attrs),
        sh_slider_end_hits = 0,
        sh_large_tick_hits = map_or (od_n_sliders attrs + od_n_large_ticks attrs)
          (\<lambda>n. min n (od_n_sliders attrs + od_n_large_ticks attrs)) given_large,
        sh_small_tick_hits = map_or (od_n_sliders attrs) (\<lambda>n. min n (od_n_sliders attrs)) given_small\<rparr>)"

definition osu_slider_acc_values :: "osu_slider_hits \<Rightarrow> u32 \<times> u32" where
  "osu_slider_acc_values h = (case sh_origin h of
      Stable \<Rightarrow> (0, 0)
    | WithSliderAcc max_large_ticks max_slider_ends \<Rightarrow>
        (150 * sh_slider_end_hits h + 30 * sh_large_tick_hits h,
         150 * max_slider_ends + 30 * max_large_ticks)
    | WithoutSliderAcc max_large_ticks max_small_ticks \<Rightarrow>
        (30 * sh_large_tick_hits h + 10 * sh_small_tick_hits h,
         30 * max_large_ticks + 10 * max_small_ticks))"

text \<open>\<open>NoComboState::accuracy\<close>.\<close>

definition no_combo_accuracy :: "osu_slider_hits \<Rightarrow> u32 \<Rightarrow> u32 \<Rightarrow> u32 \<Rightarrow> u32 \<Rightarrow> f64" where
  "no_combo_accuracy h n300 n100 n50 misses =
    (let numerator = 300 * n300 + 100 * n100 + 50 * n50;
         denominator = 300 * (n300 + n100 + n50 + misses);
         (numerator, denominator) = (case sh_origin h of
             Stable \<Rightarrow> (numerator, denominator)
           | WithSliderAcc max_large_ticks max_slider_ends \<Rightarrow>
               let slider_end_hits = min (sh_slider_end_hits h) max_slider_ends;
                   large_tick_hits = min (sh_large_tick_hits h) max_large_ticks
               in (numerator + (150 * slider_end_hits + 30 * large_tick_hits),
                   denominator + (150 * max_slider_ends + 30 * max_large_ticks))
           | WithoutSliderAcc max_large_ticks max_small_ticks \<Rightarrow>
               let large_tick_hits = min (sh_large_tick_hits h) max_large_ticks;
                   small_tick_hits = min (sh_small_tick_hits h) max_small_ticks
               in (numerator + (30 * large_tick_hits + 10 * small_tick_hits),
                   denominator + (30 * max_large_ticks + 10 * max_small_ticks)))
     in if denominator = 0 then lit 0 1 else f64_of_u32 numerator / f64_of_u32 denominator)"

definition osu_dist :: "f64 \<Rightarrow> osu_slider_hits \<Rightarrow> u32 \<Rightarrow> u32 \<times> u32 \<times> u32 \<Rightarrow> f64" where
  "osu_dist acc h misses = (\<lambda>(n300, n100, n50). abs (acc - no_combo_accuracy h n300 n100 n50 misses))"

section \<open>Searching hit results\<close>

text \<open>
  The window of counts around an estimate, at most \<open>limit\<close>.
\<close>

definition estimate_window :: "u32 \<Rightarrow> f64 \<Rightarrow> u32 list" where
  "estimate_window limit raw = u32_range (min limit (as_u32 (ffloor raw))) (min limit (as_u32 (fceil raw)))"

text \<open>Given 300s: the rest is split into 100s and 50s.\<close>

definition osu_cands_300 :: "f64 \<Rightarrow> u32 \<Rightarrow> u32 \<Rightarrow> u32 \<Rightarrow> (u32 \<times> u32 \<times> u32) list" where
  "osu_cands_300 target_total slider_acc_value n300 n_remaining =
    (let raw_n100 = (target_total - f64_of_u32 (50 * n_remaining + 300 * n300 + slider_acc_value)) / lit 50 1
     in map (\<lambda>new100. (n300, new100, n_remaining - new100)) (estimate_window n_remaining raw_n100))"

text \<open>Given 100s: the rest is split into 300s and 50s.\<close>

definition osu_cands_100 :: "f64 \<Rightarrow> u32 \<Rightarrow> u32 \<Rightarrow> u32 \<Rightarrow> (u32 \<times> u32 \<times> u32) list" where
  "osu_cands_100 target_total slider_acc_value n100 n_remaining =
    (let raw_n300 = (target_total - f64_of_u32 (50 * n_remaining + 100 * n100 + slider_acc_value)) / lit 250 1
     in map (\<lambda>new300. (new300, n100, n_remaining - new300)) (estimate_window n_remaining raw_n300))"

text \<open>Given 50s: the rest is split into 300s and 100s.\<close>

definition osu_cands_50 :: "f64 \<Rightarrow> u32 \<Rightarrow> u32 \<Rightarrow> u32 \<Rightarrow> u32 \<Rightarrow> u32 \<Rightarrow> (u32 \<times> u32 \<times> u32) list" where
  "osu_cands_50 target_total slider_acc_value n_objects misses n50 n_remaining =
    (let raw_n300 = (target_total + f64_of_u32 (100 * misses + 50 * n50)
           - f64_of_u32 (100 * n_objects + slider_acc_value)) / lit 200 1
     in map (\<lambda>new300. (new300, n_remaining - new300, n50)) (estimate_window n_remaining raw_n300))"

text \<open>Nothing given: two nested loops, over the 300s and then over the 100s.\<close>

definition osu_cands_inner :: "f64 \<Rightarrow> u32 \<Rightarrow> u32 \<Rightarrow> u32 \<Rightarrow> (u32 \<times> u32 \<times> u32) list" where
  "osu_cands_inner target_total slider_acc_value n_remaining new300 =
    (let raw_n100 = (target_total - f64_of_u32 (50 * n_remaining + 250 * new300 + slider_acc_value)) / lit 50 1
     in map (\<lambda>new100. (new300, new100, n_remaining - new300 - new100))
          (estimate_window (n_remaining - new300) raw_n100))"

definition osu_cands_none :: "f64 \<Rightarrow> u32 \<Rightarrow> u32 \<Rightarrow> (u32 \<times> u32 \<times> u32) list" where
  "osu_cands_none target_total slider_acc_value n_remaining =
    (let raw_n300 = (target_total - f64_of_u32 (50 * n_remaining + slider_acc_value)) / lit 250 1
     in concat (map (osu_cands_inner target_total slider_acc_value n_remaining)
          (estimate_window n_remaining raw_n300)))"

text \<open>
  The final shift of a full search: hits move between the counts without changing their
  number or their value.
\<close>

definition osu_shift :: "hit_result_priority \<Rightarrow> u32 \<times> u32 \<times> u32 \<Rightarrow> u32 \<times> u32 \<times> u32" where
  "osu_shift priority = (\<lambda>(n300, n100, n50). case priority of
      BestCase \<Rightarrow> (let n = min n300 (n50 div 4) in (n300 - n, n100 + 5 * n, n50 - 4 * n))
    | WorstCase \<Rightarrow> (let n = n100 div 5 in (n300 + n, n100 - 5 * n, n50 + 4 * n)))"

definition osu_hits_acc ::
  "f64 \<Rightarrow> hit_result_priority \<Rightarrow> osu_slider_hits \<Rightarrow> u32 \<Rightarrow> u32 \<Rightarrow> u32 \<times> u32 \<times> u32
    \<Rightarrow> u32 option \<Rightarrow> u32 option \<Rightarrow> u32 option \<Rightarrow> u32 \<times> u32 \<times> u32" where
  "osu_hits_acc acc priority h n_objects misses = (\<lambda>(n300, n100, n50) given300 given100 given50.
    (let n_remaining = n_objects - misses;
         (slider_acc_value, max_slider_acc_value) = osu_slider_acc_values h;
         target_total = acc * f64_of_u32 (300 * n_objects + max_slider_acc_value)
     in case (given300, given100, given50) of
        (Some _, Some _, Some _) \<Rightarrow>
          (let remaining = saturating_sub n_objects (n300 + n100 + n50 + misses)
           in case priority of
              BestCase \<Rightarrow> (n300 + remaining, n100, n50)
            | WorstCase \<Rightarrow> (n300, n100, n50 + remaining))
      | (Some _, Some _, None) \<Rightarrow> (n300, n100, saturating_sub n_objects (n300 + n100 + misses))
      | (Some _, None, Some _) \<Rightarrow> (n300, saturating_sub n_objects (n300 + n50 + misses), n50)
      | (None, Some _, Some _) \<Rightarrow> (saturating_sub n_objects (n100 + n50 + misses), n100, n50)
      | (Some _, None, None) \<Rightarrow>
          (let n300 = min n300 n_remaining; n_remaining = n_remaining - n300
           in closest f64_max (osu_dist acc h misses)
                (osu_cands_300 target_total slider_acc_value n300 n_remaining) (n300, n100, n50))
      | (None, Some _, None) \<Rightarrow>
          (let n100 = min n100 n_remaining; n_remaining = n_remaining - n100
           in closest f64_max (osu_dist acc h misses)
                (osu_cands_100 target_total slider_acc_value n100 n_remaining) (n300, n100, n50))
      | (None, None, Some _) \<Rightarrow>
          (let n50 = min n50 n_remaining; n_remaining = n_remaining - n50
           in closest f64_max (osu_dist acc h misses)
                (osu_cands_50 target_total slider_acc_value n_objects misses n50 n_remaining) (n300, n100, n50))
      | (None, None, None) \<Rightarrow>
          osu_shift priority (closest f64_max (osu_dist acc h misses)
            (osu_cands_none target_total slider_acc_value n_remaining) (n300, n100, n50))))"

definition osu_hits_no_acc ::
  "hit_result_priority \<Rightarrow> u32 \<Rightarrow> u32 \<Rightarrow> u32 \<times> u32 \<times> u32
    \<Rightarrow> u32 option \<Rightarrow> u32 option \<Rightarrow> u32 option \<Rightarrow> u32 \<times> u32 \<times> u32" where
  "osu_hits_no_acc priority n_objects misses = (\<lambda>(n300, n100, n50) given300 given100 given50.
    (let remaining = saturating_sub n_objects (n300 + n100 + n50 + misses)
     in case priority of
        BestCase \<Rightarrow> (case (given300, given100, given50) of
            (None, _, _) \<Rightarrow> (remaining, n100, n50)
          | (_, None, _) \<Rightarrow> (n300, remaining, n50)
          | (_, _, None) \<Rightarrow> (n300, n100, remaining)
          | _ \<Rightarrow> (n300 + remaining, n100, n50))
      | WorstCase \<Rightarrow> (case (given50, given100, given300) of
            (None, _, _) \<Rightarrow> (n300, n100, remaining)
          | (_, None, _) \<Rightarrow> (n300, remaining, n50)
          | (_, _, None) \<Rightarrow> (remaining, n100, n50)
          | _ \<Rightarrow> (n300, n100, n50 + remaining))))"

definition osu_hits ::
  "f64 option \<Rightarrow> hit_result_priority \<Rightarrow> osu_slider_hits \<Rightarrow> u32
    \<Rightarrow> u32 option \<Rightarrow> u32 option \<Rightarrow> u32 option \<Rightarrow> u32 option \<Rightarrow> (u32 \<times> u32 \<times> u32) \<times> u32" where
  "osu_hits acc priority h n_objects given300 given100 given50 given_misses =
    (let misses = map_or 0 (\<lambda>n. min n n_objects) given_misses;
         n_remaining = n_objects - misses;
         n300 = map_or 0 (\<lambda>n. min n n_remaining) given300;
         n100 = map_or 0 (\<lambda>n. min n n_remaining) given100;
         n50 = map_or 0 (\<lambda>n. min n n_remaining) given50
     in (case acc of
           Some a \<Rightarrow> osu_hits_acc a priority h n_objects misses (n300, n100, n50) given300 given100 given50
         | None \<Rightarrow> osu_hits_no_acc priority n_objects misses (n300, n100, n50) given300 given100 given50,
         misses))"

definition osu_generate_state ::
  "('mods \<Rightarrow> bool \<Rightarrow> bool) \<Rightarrow> ('mods difficulty \<Rightarrow> 'map \<Rightarrow> 'e + osu_difficulty_attributes)
    \<Rightarrow> ('mods, 'map) osu_performance
    \<Rightarrow> 'e + osu_score_state \<times> ('mods, 'map) osu_performance" where
  "osu_generate_state slider_head_acc_off calculate_for_mode self =
    (case resolve_attrs (calculate_for_mode (op_difficulty self)) (op_map_or_attrs self) of
       Inl e \<Rightarrow> Inl e
     | Inr (attrs, map_or_attrs') \<Rightarrow>
        (let max_combo = od_max_combo attrs;
             n_objects = min (ucast (get_passed_objects (op_difficulty self))) (osu_n_objects attrs);
             lazer = get_lazer (op_difficulty self);
             using_classic_slider_acc = slider_head_acc_off (d_mods (op_difficulty self)) lazer;
             h = osu_slider_hits attrs lazer using_classic_slider_acc
               (op_slider_end_hits self) (op_large_tick_hits self) (op_small_tick_hits self);
             ((n300, n100, n50), misses) = osu_hits (op_acc self) (op_priority self) h n_objects
               (op_n300 self) (op_n100 self) (op_n50 self) (op_misses self);
             max_possible_combo = saturating_sub max_combo misses;
             max_combo = map_or max_possible_combo (\<lambda>combo. min combo max_possible_combo) (op_combo self)
         in Inr (\<lparr>os_max_combo = max_combo, os_large_tick_hits = sh_large_tick_hits h,
                os_small_tick_hits = sh_small_tick_hits h, os_slider_end_hits = sh_slider_end_hits h,
                os_n300 = n300, os_n100 = n100, os_n50 = n50, os_misses = misses\<rparr>,
              self\<lparr>op_map_or_attrs := map_or_attrs', op_combo := Some max_combo,
                op_slider_end_hits := Some (sh_slider_end_hits h),
                op_large_tick_hits := Some (sh_large_tick_hits h),
                op_small_tick_hits := Some (sh_small_tick_hits h),
                op_n300 := Some n300, op_n100 := Some n100, op_n50 := Some n50,
                op_misses := Some misses\<rparr>)))"

section \<open>Accuracies of candidates\<close>

definition osu_state_of :: "osu_slider_hits \<Rightarrow> u32 \<Rightarrow> u32 \<Rightarrow> u32 \<Rightarrow> u32 \<Rightarrow> osu_score_state" where
  "osu_state_of h n300 n100 n50 misses = \<lparr>os_max_combo = 0, os_large_tick_hits = sh_large_tick_hits h,
     os_small_tick_hits = sh_small_tick_hits h, os_slider_end_hits = sh_slider_end_hits h,
     os_n300 = n300, os_n100 = n100, os_n50 = n50, os_misses = misses\<rparr>"

lemma fzero_lit: "lit 0 1 = fzero False"
  by (rule f64_eqI) (simp_all add: lit_def round_ratio_magn round_mag_def, simp add: fzero_def)

lemma no_combo_accuracy_is:
  "no_combo_accuracy h n300 n100 n50 misses = osu_accuracy (osu_state_of h n300 n100 n50 misses) (sh_origin h)"
  unfolding no_combo_accuracy_def osu_accuracy_def osu_state_of_def fzero_lit Let_def osu_score_state.select_convs ..

lemma osu_accuracy_unit:
  assumes "hits_bounded 300 (origin_max origin) [os_n300 s, os_n100 s, os_n50 s, os_misses s]"
  shows "unit_fin (osu_accuracy s origin)"
proof (cases "osu_total_hits s = 0")
  case False
  then show ?thesis using osu_acc [OF assms False] by (simp add: is_accuracy_def unit_fin_def)
next
  case True
  have b: "300 * (unat (os_n300 s) + unat (os_n100 s) + unat (os_n50 s) + unat (os_misses s))
      + origin_max origin < 4294967296"
    using assms by (simp add: hits_bounded_def algebra_simps)
  then have "unat (osu_total_hits s) = unat (os_n300 s) + unat (os_n100 s) + unat (os_n50 s) + unat (os_misses s)"
    by (simp add: unat_arith_small osu_total_hits_def)
  then have z: "os_n300 s = 0" "os_n100 s = 0" "os_n50 s = 0" "os_misses s = 0"
    using True by (simp_all add: u32_zero)
  have q: "unit_fin (if d = 0 then fzero False else f64_of_u32 n / f64_of_u32 d)"
    if "unat n \<le> unat d" for n d
    using unit_ratio [OF refl refl that] unit_zero by (simp add: u32_zero)
  show ?thesis
  proof (cases origin)
    case Stable
    then show ?thesis unfolding osu_accuracy_def by (simp add: z unit_zero)
  next
    case (WithSliderAcc l e)
    then have "150 * unat e + 30 * unat l < 4294967296" using b by (simp add: origin_max_def)
    then have "unat (150 * min (os_slider_end_hits s) e + 30 * min (os_large_tick_hits s) l)
        \<le> unat (150 * e + 30 * l)"
      by (simp add: unat_arith_small)
    from q [OF this] show ?thesis unfolding osu_accuracy_def WithSliderAcc by (simp add: z split: if_splits)
  next
    case (WithoutSliderAcc l e)
    then have "30 * unat l + 10 * unat e < 4294967296" using b by (simp add: origin_max_def)
    then have "unat (30 * min (os_large_tick_hits s) l + 10 * min (os_small_tick_hits s) e)
        \<le> unat (30 * l + 10 * e)"
      by (simp add: unat_arith_small)
    from q [OF this] show ?thesis unfolding osu_accuracy_def WithoutSliderAcc by (simp add: z split: if_splits)
  qed
qed

lemma no_combo_accuracy_unit:
  assumes "300 * (unat n300 + unat n100 + unat n50 + unat misses) + origin_max (sh_origin h) < 4294967296"
  shows "unit_fin (no_combo_accuracy h n300 n100 n50 misses)"
  unfolding no_combo_accuracy_is using assms
  by (intro osu_accuracy_unit) (simp add: hits_bounded_def osu_state_of_def algebra_simps)

section \<open>Candidates\<close>

definition trio :: "u32 \<times> u32 \<times> u32 \<Rightarrow> nat" where
  "trio c = unat (fst c) + unat (fst (snd c)) + unat (snd (snd c))"

lemma estimate_window_nonempty: "estimate_window limit raw \<noteq> []"
proof -
  have "as_u32 (ffloor raw) \<le> as_u32 (fceil raw)"
    using floor_le_ceil as_u32_nan by (cases "is_nan raw") auto
  then have "min limit (as_u32 (ffloor raw)) \<le> min limit (as_u32 (fceil raw))" by (simp add: word_le_nat_alt)
  then show ?thesis unfolding estimate_window_def by (rule u32_range_nonempty)
qed

lemma estimate_window_le: "x \<in> set (estimate_window limit raw) \<Longrightarrow> x \<le> limit"
  by (simp add: estimate_window_def)

lemma sub_split: "x \<le> (r :: u32) \<Longrightarrow> unat x + unat (r - x) = unat r"
  by (simp add: word_le_nat_alt unat_sub_le)

lemma osu_cands_nonempty:
  "osu_cands_300 t v n r \<noteq> []" "osu_cands_100 t v n r \<noteq> []" "osu_cands_50 t v k m n r \<noteq> []"
  "osu_cands_inner t v r n \<noteq> []" "osu_cands_none t v r \<noteq> []"
  using estimate_window_nonempty
  by (simp_all add: osu_cands_300_def osu_cands_100_def osu_cands_50_def osu_cands_inner_def
      osu_cands_none_def Let_def)

lemma osu_cands_trio:
  "c \<in> set (osu_cands_300 t v n r) \<Longrightarrow> fst c = n \<and> trio c = unat n + unat r"
  "c \<in> set (osu_cands_100 t v n r) \<Longrightarrow> fst (snd c) = n \<and> trio c = unat n + unat r"
  "c \<in> set (osu_cands_50 t v k m n r) \<Longrightarrow> snd (snd c) = n \<and> trio c = unat n + unat r"
  "c \<in> set (osu_cands_none t v r) \<Longrightarrow> trio c = unat r"
  using sub_split estimate_window_le
  by (force simp: osu_cands_300_def osu_cands_100_def osu_cands_50_def trio_def Let_def)+
    (auto simp: osu_cands_none_def osu_cands_inner_def trio_def Let_def
      dest!: estimate_window_le, metis add.assoc sub_split)

lemma osu_closest_trio:
  assumes acc: "unit_fin acc" and ne: "cs \<noteq> []" and t: "\<And>c. c \<in> set cs \<Longrightarrow> trio c = k"
    and small: "300 * (k + unat misses) + origin_max (sh_origin h) < 4294967296"
  shows "closest f64_max (osu_dist acc h misses) cs start \<in> set cs"
    and "y \<in> set cs \<Longrightarrow> fval (osu_dist acc h misses (closest f64_max (osu_dist acc h misses) cs start))
      \<le> fval (osu_dist acc h misses y)"
proof -
  let ?f = "\<lambda>(n300, n100, n50). no_combo_accuracy h n300 n100 n50 misses"
  have u: "unit_fin (?f c)" if "c \<in> set cs" for c
    using t [OF that] small no_combo_accuracy_unit [of "fst c" "fst (snd c)" "snd (snd c)" misses h]
    by (simp add: trio_def case_prod_unfold)
  have d: "osu_dist acc h misses = (\<lambda>c. abs (acc - ?f c))" by (auto simp: osu_dist_def)
  show "closest f64_max (osu_dist acc h misses) cs start \<in> set cs"
    unfolding d by (rule closest_unit(1) [of acc f64_max cs ?f, OF acc f64_max_le(1) u hd_in_set [OF ne]])
  show "fval (osu_dist acc h misses (closest f64_max (osu_dist acc h misses) cs start))
      \<le> fval (osu_dist acc h misses y)" if "y \<in> set cs"
    unfolding d by (rule closest_unit(2) [of acc f64_max cs ?f, OF acc f64_max_le(1) u that])
qed

lemma osu_shift_trio:
  assumes "trio (a, b, c) < 4294967296" and s: "osu_shift pr (a, b, c) = (x, y, z)"
  shows "trio (x, y, z) = trio (a, b, c)"
    and "300 * unat x + 100 * unat y + 50 * unat z = 300 * unat a + 100 * unat b + 50 * unat c"
proof -
  have sub: "unat (p - q) = unat p - unat q" if "unat q \<le> unat p" for p q :: u32
    using that by (simp add: unat_sub_le word_le_nat_alt)
  have "trio (x, y, z) = trio (a, b, c) \<and>
    300 * unat x + 100 * unat y + 50 * unat z = 300 * unat a + 100 * unat b + 50 * unat c"
  proof (cases pr)
    case BestCase
    define n where "n = min a (c div 4)"
    have n: "unat n \<le> unat a" "4 * unat n \<le> unat c" by (simp_all add: n_def unat_div)
    have "x = a - n" "y = b + 5 * n" "z = c - 4 * n"
      using s unfolding osu_shift_def BestCase n_def by (simp_all add: Let_def)
    moreover have n5: "unat (5 * n) = 5 * unat n" "unat (4 * n) = 4 * unat n"
      using n assms(1) by (simp_all add: trio_def unat_arith_small)
    moreover from n5 have "unat (b + 5 * n) = unat b + 5 * unat n" "unat (c - 4 * n) = unat c - 4 * unat n"
      "unat (a - n) = unat a - unat n"
      using n assms(1) by (simp_all add: trio_def unat_arith_small sub)
    ultimately show ?thesis using n by (simp add: trio_def)
  next
    case WorstCase
    define n where "n = b div 5"
    have n: "5 * unat n \<le> unat b" by (simp add: n_def unat_div)
    have "x = a + n" "y = b - 5 * n" "z = c + 4 * n"
      using s unfolding osu_shift_def WorstCase n_def by (simp_all add: Let_def)
    moreover have n5: "unat (5 * n) = 5 * unat n" "unat (4 * n) = 4 * unat n"
      using n assms(1) by (simp_all add: trio_def unat_arith_small)
    moreover from n5 have "unat (c + 4 * n) = unat c + 4 * unat n" "unat (b - 5 * n) = unat b - 5 * unat n"
      "unat (a + n) = unat a + unat n"
      using n assms(1) by (simp_all add: trio_def unat_arith_small sub)
    ultimately show ?thesis using n by (simp add: trio_def)
  qed
  then show "trio (x, y, z) = trio (a, b, c)"
    "300 * unat x + 100 * unat y + 50 * unat z = 300 * unat a + 100 * unat b + 50 * unat c" by simp_all
qed

section \<open>Totals\<close>

definition osu_clamped :: "u32 \<Rightarrow> u32 option \<Rightarrow> u32" where
  "osu_clamped limit given = map_or 0 (\<lambda>n. min n limit) given"

lemma osu_clamped_le: "unat (osu_clamped limit given) \<le> unat limit"
  by (cases given) (simp_all add: osu_clamped_def)

lemma osu_clamped_None [simp]: "osu_clamped limit None = 0"
  by (simp add: osu_clamped_def)

lemma osu_hits_no_acc_total:
  assumes small: "4 * unat n_objects < 4294967296" and ms: "unat misses \<le> unat n_objects"
    and x: "x = osu_clamped r a" "y = osu_clamped r b" "z = osu_clamped r c" "unat r \<le> unat n_objects"
  shows "trio (osu_hits_no_acc pr n_objects misses (x, y, z) a b c) + unat misses
    = max (unat n_objects) (unat x + unat y + unat z + unat misses)"
proof -
  have le: "unat x \<le> unat n_objects" "unat y \<le> unat n_objects" "unat z \<le> unat n_objects"
    using x osu_clamped_le le_trans by metis+
  have s: "unat (x + y + z + misses) = unat x + unat y + unat z + unat misses"
    using le small ms by (simp add: unat_arith_small)
  let ?rem = "saturating_sub n_objects (x + y + z + misses)"
  have rem: "unat ?rem = unat n_objects - (unat x + unat y + unat z + unat misses)" by (simp add: s)
  have p: "unat (x + ?rem) = unat x + unat ?rem" "unat (z + ?rem) = unat z + unat ?rem"
    using le small rem by (simp_all add: unat_arith_small)
  have "osu_hits_no_acc pr n_objects misses (x, y, z) a b c
      \<in> {(x + ?rem, y, z), (x, y, z + ?rem)} \<union> (if b = None then {(x, ?rem, z)} else {})"
    using x by (cases a; cases b; cases c; cases pr) (simp_all add: osu_hits_no_acc_def Let_def)
  then consider "osu_hits_no_acc pr n_objects misses (x, y, z) a b c = (x + ?rem, y, z)"
    | "osu_hits_no_acc pr n_objects misses (x, y, z) a b c = (x, y, z + ?rem)"
    | "b = None" "osu_hits_no_acc pr n_objects misses (x, y, z) a b c = (x, ?rem, z)"
    by (auto split: if_splits)
  then show ?thesis
  proof cases
    case 1 then show ?thesis unfolding 1 trio_def fst_conv snd_conv p rem by linarith
  next
    case 2 then show ?thesis unfolding 2 trio_def fst_conv snd_conv p rem by linarith
  next
    case 3
    then have "y = 0" using x by simp
    then have "unat y = 0" by simp
    then show ?thesis unfolding 3(2) trio_def fst_conv snd_conv rem by linarith
  qed
qed

lemma osu_hits_acc_total:
  assumes small: "300 * unat n_objects + origin_max (sh_origin h) < 4294967296"
    and acc: "unit_fin acc" and ms: "unat misses \<le> unat n_objects" and r: "r = n_objects - misses"
    and x: "x = osu_clamped r a" "y = osu_clamped r b" "z = osu_clamped r c"
  shows "trio (osu_hits_acc acc pr h n_objects misses (x, y, z) a b c) + unat misses
    = max (unat n_objects) (unat x + unat y + unat z + unat misses)"
proof -
  have ur: "unat r + unat misses = unat n_objects" using ms r by (simp add: unat_sub_le word_le_nat_alt)
  have le: "unat x \<le> unat r" "unat y \<le> unat r" "unat z \<le> unat r"
    using x osu_clamped_le by metis+
  have s: "unat (x + y + z + misses) = unat x + unat y + unat z + unat misses"
    "unat (x + y + misses) = unat x + unat y + unat misses" "unat (x + z + misses) = unat x + unat z + unat misses"
    "unat (y + z + misses) = unat y + unat z + unat misses"
    using le small ur by (simp_all add: unat_arith_small)
  let ?rem = "saturating_sub n_objects (x + y + z + misses)"
  have rem: "unat ?rem = unat n_objects - (unat x + unat y + unat z + unat misses)" by (simp add: s)
  have p: "unat (x + ?rem) = unat x + unat ?rem" "unat (z + ?rem) = unat z + unat ?rem"
  proof -
    have "unat x + unat ?rem < 4294967296" "unat z + unat ?rem < 4294967296"
      using le small rem ur by linarith+
    then show "unat (x + ?rem) = unat x + unat ?rem" "unat (z + ?rem) = unat z + unat ?rem"
      by (simp_all only: unat_arith_small(1))
  qed
  obtain v mv where sv: "osu_slider_acc_values h = (v, mv)" by fastforce
  define t where "t = acc * f64_of_u32 (300 * n_objects + mv)"
  have rm: "300 * (unat r + unat misses) + origin_max (sh_origin h) < 4294967296" using small ur by simp
  have pick: "trio (closest f64_max (osu_dist acc h misses) cs st) = unat r"
    if "cs \<noteq> []" "\<And>c. c \<in> set cs \<Longrightarrow> trio c = unat r" for cs st
    using osu_closest_trio(1) [OF acc that rm] that(2) by blast
  have mn: "min q r = q \<and> unat q + unat (r - q) = unat r" if "unat q \<le> unat r" for q
    using that sub_split [of q r] by (simp add: min_def word_le_nat_alt)
  note unf = osu_hits_acc_def Let_def sv prod.case option.case t_def [symmetric] r [symmetric]
  show ?thesis
  proof (cases a; cases b; cases c)
    fix a' b' c' assume abc: "a = Some a'" "b = Some b'" "c = Some c'"
    have "osu_hits_acc acc pr h n_objects misses (x, y, z) a b c = (case pr of
        BestCase \<Rightarrow> (x + ?rem, y, z) | WorstCase \<Rightarrow> (x, y, z + ?rem))"
      unfolding unf abc ..
    then consider "osu_hits_acc acc pr h n_objects misses (x, y, z) a b c = (x + ?rem, y, z)"
      | "osu_hits_acc acc pr h n_objects misses (x, y, z) a b c = (x, y, z + ?rem)"
      by (cases pr) auto
    then show ?thesis
    proof cases
      case 1
      show ?thesis unfolding 1 trio_def fst_conv snd_conv p rem by linarith
    next
      case 2
      show ?thesis unfolding 2 trio_def fst_conv snd_conv p rem by linarith
    qed
  next
    fix a' b' assume abc: "a = Some a'" "b = Some b'" "c = None"
    then have "z = 0" using x by simp
    then have z0: "unat z = 0" by simp
    have e: "osu_hits_acc acc pr h n_objects misses (x, y, z) a b c
      = (x, y, saturating_sub n_objects (x + y + misses))" unfolding unf abc ..
    show ?thesis unfolding e trio_def fst_conv snd_conv unat_saturating_sub s using z0 by linarith
  next
    fix a' c' assume abc: "a = Some a'" "b = None" "c = Some c'"
    then have "y = 0" using x by simp
    then have z0: "unat y = 0" by simp
    have e: "osu_hits_acc acc pr h n_objects misses (x, y, z) a b c
      = (x, saturating_sub n_objects (x + z + misses), z)" unfolding unf abc ..
    show ?thesis unfolding e trio_def fst_conv snd_conv unat_saturating_sub s using z0 by linarith
  next
    fix b' c' assume abc: "a = None" "b = Some b'" "c = Some c'"
    then have "x = 0" using x by simp
    then have z0: "unat x = 0" by simp
    have e: "osu_hits_acc acc pr h n_objects misses (x, y, z) a b c
      = (saturating_sub n_objects (y + z + misses), y, z)" unfolding unf abc ..
    show ?thesis unfolding e trio_def fst_conv snd_conv unat_saturating_sub s using z0 by linarith
  next
    fix a' assume abc: "a = Some a'" "b = None" "c = None"
    have "trio (osu_hits_acc acc pr h n_objects misses (x, y, z) a b c) = unat r"
      unfolding unf abc by (rule pick [OF osu_cands_nonempty(1)]) (use osu_cands_trio(1) mn [OF le(1)] in auto)
    then show ?thesis using abc x le ur by simp
  next
    fix b' assume abc: "a = None" "b = Some b'" "c = None"
    have "trio (osu_hits_acc acc pr h n_objects misses (x, y, z) a b c) = unat r"
      unfolding unf abc by (rule pick [OF osu_cands_nonempty(2)]) (use osu_cands_trio(2) mn [OF le(2)] in auto)
    then show ?thesis using abc x le ur by simp
  next
    fix c' assume abc: "a = None" "b = None" "c = Some c'"
    have "trio (osu_hits_acc acc pr h n_objects misses (x, y, z) a b c) = unat r"
      unfolding unf abc by (rule pick [OF osu_cands_nonempty(3)]) (use osu_cands_trio(3) mn [OF le(3)] in auto)
    then show ?thesis using abc x le ur by simp
  next
    assume abc: "a = None" "b = None" "c = None"
    let ?b = "closest f64_max (osu_dist acc h misses) (osu_cands_none t v r) (x, y, z)"
    have b: "trio ?b = unat r"
      by (rule pick [OF osu_cands_nonempty(5)]) (rule osu_cands_trio(4))
    have "trio (osu_shift pr ?b) = trio ?b"
      using osu_shift_trio(1) [of "fst ?b" "fst (snd ?b)" "snd (snd ?b)" pr] b small ur by (simp add: prod_eq_iff)
    then have "trio (osu_hits_acc acc pr h n_objects misses (x, y, z) a b c) = unat r"
      unfolding unf abc using b by simp
    then show ?thesis using abc x le ur by simp
  qed
qed

section \<open>The closest accuracy\<close>

text \<open>
  Every count within the limit is in the window, or the window has a count between it and
  the estimate.
\<close>

lemma window_between:
  assumes t: "is_fin t" "fval t < 2 ^ 32 - 1" and k: "k \<le> unat limit"
  obtains j where "j \<in> set (estimate_window limit t)" "unat j \<le> unat limit"
    "unat j = k \<or> k < unat j \<and> real (unat j) \<le> fval t \<or> unat j < k \<and> fval t \<le> real (unat j)"
proof -
  let ?lo = "min limit (as_u32 (ffloor t))" and ?hi = "min limit (as_u32 (fceil t))"
  have le: "unat ?lo \<le> unat ?hi" using floor_le_ceil [of t] t(1) by (simp add: word_le_nat_alt)
  have w: "x \<in> set (estimate_window limit t) \<longleftrightarrow> unat ?lo \<le> unat x \<and> unat x \<le> unat ?hi" for x
    unfolding estimate_window_def by (simp add: word_le_nat_alt)
  consider "k < unat ?lo" | "unat ?lo \<le> k" "k \<le> unat ?hi" | "unat ?hi < k" by linarith
  then show ?thesis
  proof cases
    case 1
    then have "0 < as_u32 (ffloor t)" by (simp add: word_less_nat_alt)
    from floor_ceil_bounds(1) [OF t this] have "real (unat ?lo) \<le> fval t"
      using of_nat_mono [of "unat ?lo" "unat (as_u32 (ffloor t))", where ?'a = real] by simp
    then show ?thesis using that [of ?lo] 1 w le by simp
  next
    case 2
    then show ?thesis using that [of "word_of_nat k"] w u32_below(1) [OF k] k by simp
  next
    case 3
    then have "unat ?hi = unat (as_u32 (fceil t))" using k by simp
    then have "fval t \<le> real (unat ?hi)" using floor_ceil_bounds(2) [OF t] by (simp only:)
    then show ?thesis using that [of ?hi] 3 w le by simp
  qed
qed

text \<open>An estimate: the target less a base, over the step of the count.\<close>

lemma estimate_close:
  fixes C :: nat
  assumes e: "is_fin u" "\<bar>fval u - T\<bar> \<le> 1 / 16" "\<bar>fval u\<bar> < 4200000000" and C: "1 \<le> C" "C \<le> 250"
  shows "is_fin (u / lit C 1)" "\<bar>real C * fval (u / lit C 1) - T\<bar> \<le> 1 / 8" "fval (u / lit C 1) < 2 ^ 32 - 1"
proof -
  have c: "fval (lit C 1) = real C" "is_fin (lit C 1)" using lit_nat [of C] C by simp_all
  have r: "rounds_to (u / lit C 1) (fval u / real C)"
    using fdiv_rounds [OF e(1) c(2)] c(1) C by simp
  have q: "\<bar>fval u / real C\<bar> \<le> \<bar>fval u\<bar>" using C by (simp add: abs_divide divide_le_eq mult_le_cancel_left1)
  then have b: "\<bar>fval u / real C\<bar> * 2 ^ 18 < 2 ^ 53 - 1" by (intro below_53 [of _ 4200000000]) (use e(3) in linarith, simp)
  have err: "\<bar>fval (u / lit C 1) - fval u / real C\<bar> \<le> 1 / 262144"
    using rounds_to_error(1) [OF r b] by simp
  show "is_fin (u / lit C 1)" by (rule rounds_to_error(2) [OF r b]) simp
  have "real C * \<bar>fval (u / lit C 1) - fval u / real C\<bar> \<le> 250 * (1 / 262144)"
    using err C by (intro mult_mono) simp_all
  moreover have "real C * \<bar>fval (u / lit C 1) - fval u / real C\<bar> = \<bar>real C * fval (u / lit C 1) - fval u\<bar>"
    using C by (intro scale_abs) simp
  ultimately show "\<bar>real C * fval (u / lit C 1) - T\<bar> \<le> 1 / 8" using e(2) by linarith
  have "(2::real) ^ 32 - 1 = 4294967295" by simp
  then show "fval (u / lit C 1) < 2 ^ 32 - 1" using err q e(3) by linarith
qed

lemma scaled_target_bound:
  assumes acc: "unit_fin acc" and d: "is_fin d" "0 < fval d" "fval d < 3000000000"
    and r: "is_fin r" "0 \<le> fval r" "fval r \<le> fval d"
  shows "\<bar>fval (acc * d - r)\<bar> < 4200000000"
proof -
  have "0 \<le> fval acc" "fval acc \<le> 1" using acc by (simp_all add: unit_fin_def)
  then have "0 \<le> fval d * fval acc" "fval d * fval acc \<le> fval d" using d by (simp_all add: mult_left_le)
  then show ?thesis using scaled_target(2) [OF assms] r(2,3) d(3) by linarith
qed


text \<open>
  The value of a candidate in the numerator of its accuracy, and the sum of all values.
\<close>

definition osu_value :: "osu_slider_hits \<Rightarrow> u32 \<times> u32 \<times> u32 \<Rightarrow> nat" where
  "osu_value h c = 300 * unat (fst c) + 100 * unat (fst (snd c)) + 50 * unat (snd (snd c))
     + unat (fst (osu_slider_acc_values h))"

text \<open>Slider hits as the generator makes them: at most their maxima.\<close>

definition slider_hits_ok :: "osu_slider_hits \<Rightarrow> bool" where
  "slider_hits_ok h \<longleftrightarrow> (case sh_origin h of
      Stable \<Rightarrow> True
    | WithSliderAcc l e \<Rightarrow> sh_slider_end_hits h \<le> e \<and> sh_large_tick_hits h \<le> l
    | WithoutSliderAcc l t \<Rightarrow> sh_large_tick_hits h \<le> l \<and> sh_small_tick_hits h \<le> t)"

lemma osu_slider_hits_ok: "slider_hits_ok (osu_slider_hits attrs lazer classic a b c)"
  by (cases a; cases b; cases c) (simp_all add: slider_hits_ok_def osu_slider_hits_def word_le_nat_alt)

lemma slider_values:
  assumes "slider_hits_ok h" "origin_max (sh_origin h) < 4294967296" "osu_slider_acc_values h = (v, mv)"
  shows "unat mv = origin_max (sh_origin h)" "unat v \<le> unat mv"
  using assms
  by (auto simp: slider_hits_ok_def osu_slider_acc_values_def origin_max_def word_le_nat_alt
      unat_arith_small split: osu_score_origin.splits)

lemma no_combo_accuracy_rounds:
  assumes ok: "slider_hits_ok h" and sv: "osu_slider_acc_values h = (v, mv)"
    and N: "300 * (trio c + unat misses) + origin_max (sh_origin h) = N" "0 < N" "N < 4294967296"
  shows "rounds_to (no_combo_accuracy h (fst c) (fst (snd c)) (snd (snd c)) misses)
    (real (osu_value h c) / real N)" "osu_value h c \<le> N"
proof -
  obtain n300 n100 n50 where c: "c = (n300, n100, n50)" by (cases c)
  let ?n = "300 * n300 + 100 * n100 + 50 * n50 + v" and ?d = "300 * (n300 + n100 + n50 + misses) + mv"
  have om: "origin_max (sh_origin h) < 4294967296" using N by simp
  note m = slider_values [OF ok om sv]
  have d: "unat ?d = N" using N m by (simp add: c trio_def unat_arith_small)
  have n: "unat ?n = osu_value h c" using N m by (simp add: c trio_def osu_value_def sv unat_arith_small)
  have mins: "min a b = a" if "a \<le> b" for a b :: u32 using that by (rule min_absorb1)
  have e: "no_combo_accuracy h n300 n100 n50 misses = f64_of_u32 ?n / f64_of_u32 ?d"
  proof -
    have "?d \<noteq> 0" using d N(2) by auto
    then show ?thesis using sv ok
      by (auto simp: no_combo_accuracy_def osu_slider_acc_values_def slider_hits_ok_def mins
          split: osu_score_origin.splits)
  qed
  have fd: "fval (f64_of_u32 ?d) = real N" unfolding f64_of_u32_exact d ..
  then have nz: "fval (f64_of_u32 ?d) \<noteq> 0" using N by simp
  have "rounds_to (f64_of_u32 ?n / f64_of_u32 ?d) (fval (f64_of_u32 ?n) / fval (f64_of_u32 ?d))"
    by (intro fdiv_rounds f64_of_u32_exact(2) nz)
  then show "rounds_to (no_combo_accuracy h (fst c) (fst (snd c)) (snd (snd c)) misses)
    (real (osu_value h c) / real N)"
    unfolding fd unfolding f64_of_u32_exact n by (simp add: c e)
  show "osu_value h c \<le> N" using N m by (simp add: c trio_def osu_value_def sv)
qed

definition osu_acc_of :: "osu_slider_hits \<Rightarrow> u32 \<Rightarrow> u32 \<times> u32 \<times> u32 \<Rightarrow> f64" where
  "osu_acc_of h misses c = no_combo_accuracy h (fst c) (fst (snd c)) (snd (snd c)) misses"

text \<open>
  A candidate whose value lies between that of another one and the target, or is the same,
  is at least as close: values differ in steps of 50, errors stay below one half.
\<close>

definition value_between :: "real \<Rightarrow> nat \<Rightarrow> nat \<Rightarrow> bool" where
  "value_between X v w \<longleftrightarrow> v = w \<or> w + 1 \<le> v \<and> real v \<le> X + 1 / 4 \<or> v + 1 \<le> w \<and> X - 1 / 4 \<le> real v"

lemma value_between_closer:
  assumes ok: "slider_hits_ok h" and N: "300 * (k + unat misses) + origin_max (sh_origin h) = N" "0 < N" "N < 3000000000"
    and c: "trio c = k" "trio c' = k" and b: "value_between (real N * A) (osu_value h c) (osu_value h c')"
  shows "\<bar>A - fval (osu_acc_of h misses c)\<bar> \<le> \<bar>A - fval (osu_acc_of h misses c')\<bar>"
proof -
  obtain v mv where sv: "osu_slider_acc_values h = (v, mv)" by fastforce
  obtain D where D: "D = real N" by blast
  have "real N < real (3000000000::nat)" unfolding of_nat_less_iff by (rule N(3))
  then have Db: "0 < D" "D < 2 ^ 33" using N(2) unfolding D by simp_all
  have N': "300 * (trio x + unat misses) + origin_max (sh_origin h) = N" "N < 4294967296" if "trio x = k" for x
    using that N by simp_all
  have x: "\<bar>D * fval (osu_acc_of h misses y) - real (osu_value h y)\<bar> \<le> 1 / 16"
    and r: "rounds_to (osu_acc_of h misses y) (real (osu_value h y) / D)" if "trio y = k" for y
  proof -
    note r = no_combo_accuracy_rounds [OF ok sv N'(1) [OF that] N(2) N'(2) [OF that]]
    show "rounds_to (osu_acc_of h misses y) (real (osu_value h y) / D)"
      using r(1) by (simp add: osu_acc_of_def D)
    have "real (osu_value h y) \<le> D" unfolding D of_nat_le_iff by (rule r(2))
    from scaled_close [OF _ of_nat_0_le_iff this Db] r(1)
    show "\<bar>D * fval (osu_acc_of h misses y) - real (osu_value h y)\<bar> \<le> 1 / 16"
      by (simp add: osu_acc_of_def D)
  qed
  let ?a = "D * fval (osu_acc_of h misses c)" and ?b = "D * fval (osu_acc_of h misses c')"
  have mono: "osu_value h y \<le> osu_value h z \<Longrightarrow> D * fval (osu_acc_of h misses y) \<le> D * fval (osu_acc_of h misses z)"
    if "trio y = k" "trio z = k" for y z
  proof -
    assume "osu_value h y \<le> osu_value h z"
    then have "real (osu_value h y) / D \<le> real (osu_value h z) / D" using Db(1) by (intro divide_right_mono) simp_all
    from rounds_to_mono [OF r [OF that(1)] r [OF that(2)] this]
    show ?thesis using Db(1) by (intro mult_left_mono) simp_all
  qed
  have "\<bar>D * A - ?a\<bar> \<le> \<bar>D * A - ?b\<bar>"
    using b [unfolded value_between_def D [symmetric]]
  proof (elim disjE conjE)
    assume "osu_value h c = osu_value h c'"
    then have "?a \<le> ?b" "?b \<le> ?a" using mono [OF c] mono [OF c(2,1)] by simp_all
    then show ?thesis by linarith
  next
    assume v: "osu_value h c' + 1 \<le> osu_value h c" "real (osu_value h c) \<le> D * A + 1 / 4"
    have "real (osu_value h c') + 1 \<le> real (osu_value h c)" using v(1) by linarith
    moreover have "?b \<le> ?a" using mono [OF c(2,1)] v(1) by simp
    ultimately show ?thesis using x [OF c(1)] x [OF c(2)] v(2) by linarith
  next
    assume v: "osu_value h c + 1 \<le> osu_value h c'" "D * A - 1 / 4 \<le> real (osu_value h c)"
    have "real (osu_value h c) + 1 \<le> real (osu_value h c')" using v(1) by linarith
    moreover have "?a \<le> ?b" using mono [OF c] v(1) by simp
    ultimately show ?thesis using x [OF c(1)] x [OF c(2)] v(2) by linarith
  qed
  moreover have "\<bar>D * A - D * y\<bar> = D * \<bar>A - y\<bar>" for y
    unfolding right_diff_distrib [symmetric] abs_mult using Db(1) by simp
  ultimately show ?thesis using Db(1) by (simp only: mult_le_cancel_left_pos)
qed

lemma window_value:
  assumes t: "is_fin t" "fval t < 2 ^ 32 - 1" "\<bar>real C * fval t - (X - real B)\<bar> \<le> 1 / 8" and C: "1 \<le> C"
    and k: "k \<le> unat limit"
  obtains j where "j \<in> set (estimate_window limit t)" "unat j \<le> unat limit"
    "value_between X (B + C * unat j) (B + C * k)"
proof -
  obtain j where j: "j \<in> set (estimate_window limit t)" "unat j \<le> unat limit"
    "unat j = k \<or> k < unat j \<and> real (unat j) \<le> fval t \<or> unat j < k \<and> fval t \<le> real (unat j)"
    by (rule window_between [OF t(1,2) k])
  obtain J where J: "J = unat j" by blast
  have step: "C * m + 1 \<le> C * n" if "m < n" for m n
    using mult_le_mono2 [of "Suc m" n C] that C by simp
  have cj: "real (B + C * J) = real B + real C * real J" by simp
  have "value_between X (B + C * J) (B + C * k)"
    using j(3) [folded J]
  proof (elim disjE conjE)
    assume "J = k" then show ?thesis by (simp add: value_between_def)
  next
    assume a: "k < J" "real J \<le> fval t"
    have "C * k + 1 \<le> C * J" using step [OF a(1)] .
    moreover have "real C * real J \<le> real C * fval t" using a(2) by (intro mult_left_mono) simp_all
    ultimately show ?thesis unfolding value_between_def cj using t(3) by linarith
  next
    assume a: "J < k" "fval t \<le> real J"
    have "C * J + 1 \<le> C * k" using step [OF a(1)] .
    moreover have "real C * fval t \<le> real C * real J" using a(2) by (intro mult_left_mono) simp_all
    ultimately show ?thesis unfolding value_between_def cj using t(3) by linarith
  qed
  then show ?thesis using that j J by simp
qed

lemma osu_estimate:
  assumes acc: "unit_fin acc" and N: "0 < N" "N < 3000000000" and d: "unat d = N"
    and B: "unat b = B" "B \<le> N" and C: "1 \<le> C" "C \<le> 250"
  shows "is_fin ((acc * f64_of_u32 d - f64_of_u32 b) / lit C 1)"
    "fval ((acc * f64_of_u32 d - f64_of_u32 b) / lit C 1) < 2 ^ 32 - 1"
    "\<bar>real C * fval ((acc * f64_of_u32 d - f64_of_u32 b) / lit C 1) - (real N * fval acc - real B)\<bar> \<le> 1 / 8"
proof -
  have fd: "fval (f64_of_u32 d) = real N" "fval (f64_of_u32 b) = real B"
    unfolding f64_of_u32_exact d B by simp_all
  have "real N < real (3000000000::nat)" unfolding of_nat_less_iff by (rule N(2))
  then have Nb: "0 < fval (f64_of_u32 d)" "fval (f64_of_u32 d) < 3000000000" unfolding fd using N(1) by simp_all
  have Bb: "0 \<le> fval (f64_of_u32 b)" "fval (f64_of_u32 b) \<le> fval (f64_of_u32 d)" unfolding fd using B(2) by simp_all
  note t = scaled_target [OF acc f64_of_u32_exact(2) Nb f64_of_u32_exact(2) Bb]
  note b = scaled_target_bound [OF acc f64_of_u32_exact(2) Nb f64_of_u32_exact(2) Bb]
  have "\<bar>fval (acc * f64_of_u32 d - f64_of_u32 b) - (real N * fval acc - real B)\<bar> \<le> 1 / 16"
    using t(2) unfolding fd by linarith
  note e = estimate_close [OF t(1) this b C]
  show "is_fin ((acc * f64_of_u32 d - f64_of_u32 b) / lit C 1)"
    "fval ((acc * f64_of_u32 d - f64_of_u32 b) / lit C 1) < 2 ^ 32 - 1"
    "\<bar>real C * fval ((acc * f64_of_u32 d - f64_of_u32 b) / lit C 1) - (real N * fval acc - real B)\<bar> \<le> 1 / 8"
    using e by simp_all
qed

lemma osu_window:
  assumes acc: "unit_fin acc" and N: "0 < N" "N < 3000000000" and d: "unat d = N"
    and B: "unat b = B" "B \<le> N" and C: "1 \<le> C \<and> C \<le> 250" and k: "k \<le> unat limit"
  shows "\<exists>j\<in>set (estimate_window limit ((acc * f64_of_u32 d - f64_of_u32 b) / lit C 1)).
    unat j \<le> unat limit \<and> unat (limit - j) = unat limit - unat j
    \<and> value_between (real N * fval acc) (B + C * unat j) (B + C * k)"
proof -
  note e = osu_estimate [OF acc N d B conjunct1 [OF C] conjunct2 [OF C]]
  obtain j where j: "j \<in> set (estimate_window limit ((acc * f64_of_u32 d - f64_of_u32 b) / lit C 1))"
    "unat j \<le> unat limit" "value_between (real N * fval acc) (B + C * unat j) (B + C * k)"
    by (rule window_value [OF e conjunct1 [OF C] k])
  then show ?thesis by (auto simp: unat_sub_le word_le_nat_alt)
qed

lemma osu_cands_300_between:
  assumes acc: "unit_fin acc" and N: "0 < N" "N < 3000000000" and d: "unat d = N"
    and b: "50 * unat r + 300 * unat n300 + unat v \<le> N" and sv: "fst (osu_slider_acc_values h) = v"
    and c: "unat p + unat q = unat r"
  shows "\<exists>c\<in>set (osu_cands_300 (acc * f64_of_u32 d) v n300 r).
    value_between (real N * fval acc) (osu_value h c) (osu_value h (n300, p, q))"
proof -
  have bw: "unat (50 * r + 300 * n300 + v) = 50 * unat r + 300 * unat n300 + unat v"
    using b N by (simp add: unat_arith_small)
  have "(1::nat) \<le> 50 \<and> 50 \<le> (250::nat)" "unat p \<le> unat r" using c by simp_all
  from osu_window [OF acc N d bw b this]
  obtain j where j: "j \<in> set (estimate_window r ((acc * f64_of_u32 d - f64_of_u32 (50 * r + 300 * n300 + v)) / lit 50 1))"
    "unat j \<le> unat r" "unat (r - j) = unat r - unat j"
    "value_between (real N * fval acc) (50 * unat r + 300 * unat n300 + unat v + 50 * unat j)
      (50 * unat r + 300 * unat n300 + unat v + 50 * unat p)" by blast
  have "osu_value h (n300, j, r - j) = 50 * unat r + 300 * unat n300 + unat v + 50 * unat j"
    "osu_value h (n300, p, q) = 50 * unat r + 300 * unat n300 + unat v + 50 * unat p"
    using j(2,3) c by (simp_all add: osu_value_def sv)
  moreover have "(n300, j, r - j) \<in> set (osu_cands_300 (acc * f64_of_u32 d) v n300 r)"
    using j(1) by (simp add: osu_cands_300_def Let_def)
  ultimately show ?thesis using j(4) by (intro bexI [of _ "(n300, j, r - j)"]) simp_all
qed

lemma osu_cands_100_between:
  assumes acc: "unit_fin acc" and N: "0 < N" "N < 3000000000" and d: "unat d = N"
    and b: "50 * unat r + 100 * unat n100 + unat v \<le> N" and sv: "fst (osu_slider_acc_values h) = v"
    and c: "unat p + unat q = unat r"
  shows "\<exists>c\<in>set (osu_cands_100 (acc * f64_of_u32 d) v n100 r).
    value_between (real N * fval acc) (osu_value h c) (osu_value h (p, n100, q))"
proof -
  have bw: "unat (50 * r + 100 * n100 + v) = 50 * unat r + 100 * unat n100 + unat v"
    using b N by (simp add: unat_arith_small)
  have "(1::nat) \<le> 250 \<and> 250 \<le> (250::nat)" "unat p \<le> unat r" using c by simp_all
  from osu_window [OF acc N d bw b this]
  obtain j where j: "j \<in> set (estimate_window r ((acc * f64_of_u32 d - f64_of_u32 (50 * r + 100 * n100 + v)) / lit 250 1))"
    "unat j \<le> unat r" "unat (r - j) = unat r - unat j"
    "value_between (real N * fval acc) (50 * unat r + 100 * unat n100 + unat v + 250 * unat j)
      (50 * unat r + 100 * unat n100 + unat v + 250 * unat p)" by blast
  have "osu_value h (j, n100, r - j) = 50 * unat r + 100 * unat n100 + unat v + 250 * unat j"
    "osu_value h (p, n100, q) = 50 * unat r + 100 * unat n100 + unat v + 250 * unat p"
    using j(2,3) c by (simp_all add: osu_value_def sv)
  moreover have "(j, n100, r - j) \<in> set (osu_cands_100 (acc * f64_of_u32 d) v n100 r)"
    using j(1) by (simp add: osu_cands_100_def Let_def)
  ultimately show ?thesis using j(4) by (intro bexI [of _ "(j, n100, r - j)"]) simp_all
qed

text \<open>
  Nothing given: the outer loop offers the number \<open>p\<close> of 300s or one between it and the
  target; the inner loop completes it.
\<close>

lemma osu_cands_inner_between:
  assumes acc: "unit_fin acc" and N: "0 < N" "N < 3000000000" and d: "unat d = N"
    and b: "300 * unat r + unat v \<le> N" and a: "unat a \<le> unat r" and k: "k \<le> unat r - unat a"
    and sv: "fst (osu_slider_acc_values h) = v"
  shows "\<exists>c\<in>set (osu_cands_inner (acc * f64_of_u32 d) v r a). 50 * unat r + unat v + 250 * unat a \<le> osu_value h c
    \<and> value_between (real N * fval acc) (osu_value h c) (50 * unat r + 250 * unat a + unat v + 50 * k)"
proof -
  have ra: "unat (r - a) = unat r - unat a" using a by (simp add: unat_sub_le word_le_nat_alt)
  have B: "50 * unat r + 250 * unat a + unat v \<le> N" using b a by linarith
  then have bw: "unat (50 * r + 250 * a + v) = 50 * unat r + 250 * unat a + unat v"
    using N by (simp add: unat_arith_small)
  have "(1::nat) \<le> 50 \<and> 50 \<le> (250::nat)" "k \<le> unat (r - a)" using k ra by simp_all
  from osu_window [OF acc N d bw B this]
  obtain j where j: "j \<in> set (estimate_window (r - a) ((acc * f64_of_u32 d - f64_of_u32 (50 * r + 250 * a + v)) / lit 50 1))"
    "unat j \<le> unat (r - a)" "unat (r - a - j) = unat (r - a) - unat j"
    "value_between (real N * fval acc) (50 * unat r + 250 * unat a + unat v + 50 * unat j)
      (50 * unat r + 250 * unat a + unat v + 50 * k)" by blast
  have "osu_value h (a, j, r - a - j) = 50 * unat r + 250 * unat a + unat v + 50 * unat j"
    using j(2,3) ra a by (simp add: osu_value_def sv)
  moreover have "(a, j, r - a - j) \<in> set (osu_cands_inner (acc * f64_of_u32 d) v r a)"
    using j(1) by (simp add: osu_cands_inner_def Let_def)
  ultimately show ?thesis using j(4) by (intro bexI [of _ "(a, j, r - a - j)"]) simp_all
qed

lemma osu_cands_none_between:
  assumes acc: "unit_fin acc" and N: "0 < N" "N < 3000000000" and d: "unat d = N"
    and b: "300 * unat r + unat v \<le> N" and sv: "fst (osu_slider_acc_values h) = v"
    and c: "unat p + unat q + unat w = unat r"
  shows "\<exists>c\<in>set (osu_cands_none (acc * f64_of_u32 d) v r).
    value_between (real N * fval acc) (osu_value h c) (osu_value h (p, q, w))"
proof -
  let ?X = "real N * fval acc" and ?B = "50 * unat r + unat v"
  have B: "?B \<le> N" using b by linarith
  then have bw: "unat (50 * r + v) = ?B" using N by (simp add: unat_arith_small)
  have "(1::nat) \<le> 250 \<and> 250 \<le> (250::nat)" "unat p \<le> unat r" using c by simp_all
  from osu_window [OF acc N d bw B this]
  obtain a where a: "a \<in> set (estimate_window r ((acc * f64_of_u32 d - f64_of_u32 (50 * r + v)) / lit 250 1))"
    "unat a \<le> unat r" "value_between ?X (?B + 250 * unat a) (?B + 250 * unat p)" by blast
  have inner: "set (osu_cands_inner (acc * f64_of_u32 d) v r a) \<subseteq> set (osu_cands_none (acc * f64_of_u32 d) v r)"
    using a(1) by (auto simp: osu_cands_none_def Let_def)
  note step = osu_cands_inner_between [OF acc N d b a(2) _ sv]
  have v': "osu_value h (p, q, w) = ?B + 250 * unat p + 50 * unat q"
    using c by (simp add: osu_value_def sv)
  have "\<exists>c\<in>set (osu_cands_inner (acc * f64_of_u32 d) v r a). value_between ?X (osu_value h c) (osu_value h (p, q, w))"
    using a(3) [unfolded value_between_def]
  proof (elim disjE conjE)
    assume "?B + 250 * unat a = ?B + 250 * unat p"
    then have e: "unat a = unat p" by simp
    have "unat q \<le> unat r - unat a" using c e by linarith
    moreover have "50 * unat r + 250 * unat a + unat v + 50 * unat q = osu_value h (p, q, w)" unfolding v' e by simp
    ultimately show ?thesis using step [of "unat q"] by auto
  next
    assume up: "?B + 250 * unat p + 1 \<le> ?B + 250 * unat a" "real (?B + 250 * unat a) \<le> ?X + 1 / 4"
    show ?thesis
    proof (cases "5 * unat p + unat q \<le> 5 * unat a")
      case True
      obtain c where c: "c \<in> set (osu_cands_inner (acc * f64_of_u32 d) v r a)" "?B + 250 * unat a \<le> osu_value h c"
        "value_between ?X (osu_value h c) (?B + 250 * unat a)" using step [of 0] by (auto simp: ac_simps)
      have "real (osu_value h c) \<le> ?X + 1 / 4"
        using c(2,3) up(2) unfolding value_between_def by auto
      then have "value_between ?X (osu_value h c) (osu_value h (p, q, w))"
        using c(2) True unfolding value_between_def v' by auto
      then show ?thesis using c(1) by blast
    next
      case False
      define k where "k = 5 * unat p + unat q - 5 * unat a"
      have k: "5 * unat p + unat q = 5 * unat a + k" using False by (simp add: k_def)
      then have "k \<le> unat r - unat a" using up(1) c by linarith
      moreover have "50 * unat r + 250 * unat a + unat v + 50 * k = osu_value h (p, q, w)" unfolding v' using k by simp
      ultimately show ?thesis using step [of k] by auto
    qed
  next
    assume down: "?B + 250 * unat a + 1 \<le> ?B + 250 * unat p" "?X - 1 / 4 \<le> real (?B + 250 * unat a)"
    obtain c where c: "c \<in> set (osu_cands_inner (acc * f64_of_u32 d) v r a)" "?B + 250 * unat a \<le> osu_value h c"
      "value_between ?X (osu_value h c) (?B + 250 * unat a)" using step [of 0] by (auto simp: ac_simps)
    have "osu_value h c = ?B + 250 * unat a"
    proof (rule ccontr)
      assume "osu_value h c \<noteq> ?B + 250 * unat a"
      then have "?B + 250 * unat a + 1 \<le> osu_value h c" "real (osu_value h c) \<le> ?X + 1 / 4"
        using c(2,3) unfolding value_between_def by auto
      moreover from this(1) have "real (?B + 250 * unat a) + 1 \<le> real (osu_value h c)" by linarith
      ultimately show False using down(2) by linarith
    qed
    then have "value_between ?X (osu_value h c) (osu_value h (p, q, w))"
      using down unfolding value_between_def v' by auto
    then show ?thesis using c(1) by blast
  qed
  then show ?thesis using inner by blast
qed

text \<open>Given 50s: the estimate adds a count before it subtracts the base.\<close>

lemma scaled_target_plus:
  assumes acc: "unit_fin acc" and d: "is_fin d" "0 < fval d" "fval d < 3000000000"
    and e: "is_fin e" "0 \<le> fval e" "fval e \<le> 1000000000" and b: "is_fin b" "0 \<le> fval b" "fval b \<le> fval d"
  shows "is_fin (acc * d + e - b)" "\<bar>fval (acc * d + e - b) - (fval d * fval acc + fval e - fval b)\<bar> \<le> 1 / 16"
    "\<bar>fval (acc * d + e - b)\<bar> < 4200000000"
proof -
  let ?D = "fval d" and ?t = "acc * d"
  have A: "is_fin acc" "0 \<le> fval acc" "fval acc \<le> 1" using acc by (simp_all add: unit_fin_def)
  have L: "(4200000000::real) < 2 ^ 33" by simp
  have AD: "0 \<le> ?D * fval acc" "?D * fval acc \<le> ?D" using A d by (simp_all add: mult_left_le)
  have r1: "rounds_to ?t (?D * fval acc)" using fmul_rounds [OF A(1) d(1)] by (simp only: mult.commute)
  have "\<bar>?D * fval acc\<bar> \<le> 4200000000" using AD d by linarith
  then have e1: "\<bar>fval ?t - ?D * fval acc\<bar> \<le> 1 / 262144" "is_fin ?t"
    using rounds_to_error [OF r1 below_53 [OF _ L]] by simp_all
  have r2: "rounds_to (?t + e) (fval ?t + fval e)" by (rule fadd_rounds [OF e1(2) e(1)])
  have "\<bar>fval ?t + fval e\<bar> \<le> 4200000000" using AD d e e1(1) by linarith
  then have e2: "\<bar>fval (?t + e) - (fval ?t + fval e)\<bar> \<le> 1 / 262144" "is_fin (?t + e)"
    using rounds_to_error [OF r2 below_53 [OF _ L]] by simp_all
  have r3: "rounds_to (?t + e - b) (fval (?t + e) - fval b)" by (rule fsub_rounds [OF e2(2) b(1)])
  have "\<bar>fval (?t + e) - fval b\<bar> \<le> 4200000000" using AD d e b e1(1) e2(1) by linarith
  then have e3: "\<bar>fval (?t + e - b) - (fval (?t + e) - fval b)\<bar> \<le> 1 / 262144" "is_fin (?t + e - b)"
    using rounds_to_error [OF r3 below_53 [OF _ L]] by simp_all
  show "is_fin (?t + e - b)" by (rule e3(2))
  show "\<bar>fval (?t + e - b) - (?D * fval acc + fval e - fval b)\<bar> \<le> 1 / 16" using e1(1) e2(1) e3(1) by linarith
  show "\<bar>fval (?t + e - b)\<bar> < 4200000000" using e1(1) e2(1) e3(1) AD d e b by linarith
qed

lemma osu_cands_50_between:
  assumes acc: "unit_fin acc" and N: "0 < N" "N < 3000000000" and d: "unat d = N"
    and b: "300 * unat n_objects + unat v \<le> N" and sv: "fst (osu_slider_acc_values h) = v"
    and r: "unat r + unat n50 + unat m = unat n_objects"
    and c: "unat p + unat q = unat r"
  shows "\<exists>c\<in>set (osu_cands_50 (acc * f64_of_u32 d) v n_objects m n50 r).
    value_between (real N * fval acc) (osu_value h c) (osu_value h (p, q, n50))"
proof -
  let ?e = "100 * m + 50 * n50" and ?b = "100 * n_objects + v"
  have w: "unat ?e = 100 * unat m + 50 * unat n50" "unat ?b = 100 * unat n_objects + unat v"
    using b r N by (simp_all add: unat_arith_small)
  obtain B where B: "B = 100 * unat r + 50 * unat n50 + unat v" by blast
  have Be: "real B = real (unat ?b) - real (unat ?e)"
  proof -
    have "B + unat ?e = unat ?b" unfolding w B using r by simp
    then have "real B + real (unat ?e) = real (unat ?b)" unfolding of_nat_add [symmetric] of_nat_eq_iff .
    then show ?thesis by linarith
  qed
  have fd: "fval (f64_of_u32 d) = real N" unfolding f64_of_u32_exact d ..
  have "real N < real (3000000000::nat)" unfolding of_nat_less_iff by (rule N(2))
  then have Nb: "0 < fval (f64_of_u32 d)" "fval (f64_of_u32 d) < 3000000000" unfolding fd using N(1) by simp_all
  have "real (unat ?e) \<le> real (1000000000::nat)" unfolding of_nat_le_iff w using b r N by linarith
  then have eb: "0 \<le> fval (f64_of_u32 ?e)" "fval (f64_of_u32 ?e) \<le> 1000000000"
    unfolding f64_of_u32_exact by (simp_all only: of_nat_0_le_iff of_nat_numeral)
  have "real (unat ?b) \<le> real N" unfolding of_nat_le_iff w using b by linarith
  then have bb: "0 \<le> fval (f64_of_u32 ?b)" "fval (f64_of_u32 ?b) \<le> fval (f64_of_u32 d)"
    unfolding fd unfolding f64_of_u32_exact by (simp_all only: of_nat_0_le_iff)
  note t = scaled_target_plus [OF acc f64_of_u32_exact(2) Nb f64_of_u32_exact(2) eb f64_of_u32_exact(2) bb]
  let ?u = "acc * f64_of_u32 d + f64_of_u32 ?e - f64_of_u32 ?b"
  have "\<bar>fval ?u - (real N * fval acc - real B)\<bar> \<le> 1 / 16"
    using t(2) unfolding fd unfolding f64_of_u32_exact Be by linarith
  moreover have "(1::nat) \<le> 200" "200 \<le> (250::nat)" by simp_all
  ultimately have est: "is_fin (?u / lit 200 1)" "fval (?u / lit 200 1) < 2 ^ 32 - 1"
    "\<bar>real 200 * fval (?u / lit 200 1) - (real N * fval acc - real B)\<bar> \<le> 1 / 8"
    using estimate_close [OF t(1) _ t(3)] by blast+
  have pr: "unat p \<le> unat r" using c by simp
  obtain j where j: "j \<in> set (estimate_window r (?u / lit 200 1))" "unat j \<le> unat r"
    "value_between (real N * fval acc) (B + 200 * unat j) (B + 200 * unat p)"
    using window_value [OF est _ pr] one_le_numeral by blast
  have "unat (r - j) = unat r - unat j" using j(2) by (simp add: unat_sub_le word_le_nat_alt)
  then have "osu_value h (j, r - j, n50) = B + 200 * unat j" "osu_value h (p, q, n50) = B + 200 * unat p"
    using j(2) c by (simp_all add: osu_value_def sv B)
  moreover have "(j, r - j, n50) \<in> set (osu_cands_50 (acc * f64_of_u32 d) v n_objects m n50 r)"
    using j(1) by (simp add: osu_cands_50_def Let_def)
  ultimately show ?thesis using j(3) by (intro bexI [of _ "(j, r - j, n50)"]) simp_all
qed

section \<open>The search over all branches\<close>

lemma osu_dist_of: "osu_dist acc h misses c = abs (acc - osu_acc_of h misses c)"
  by (simp add: osu_dist_def osu_acc_of_def case_prod_unfold)

lemma osu_acc_of_unit:
  "300 * (trio c + unat misses) + origin_max (sh_origin h) < 4294967296 \<Longrightarrow> unit_fin (osu_acc_of h misses c)"
  unfolding osu_acc_of_def by (rule no_combo_accuracy_unit) (simp add: trio_def)

text \<open>No closer value, no closer accuracy.\<close>

lemma osu_dist_between:
  assumes acc: "unit_fin acc" and ok: "slider_hits_ok h"
    and N: "300 * (k + unat misses) + origin_max (sh_origin h) = N" "0 < N" "N < 3000000000"
    and t: "trio c = k" "trio c' = k"
    and b: "value_between (real N * fval acc) (osu_value h c) (osu_value h c')"
  shows "fval (osu_dist acc h misses c) \<le> fval (osu_dist acc h misses c')"
  unfolding osu_dist_of
  by (rule unit_dist_mono [OF acc osu_acc_of_unit osu_acc_of_unit value_between_closer [OF ok N t b]])
    (use N t in simp_all)

lemma osu_pick:
  assumes acc: "unit_fin acc" and ok: "slider_hits_ok h"
    and N: "300 * (k + unat misses) + origin_max (sh_origin h) = N" "0 < N" "N < 3000000000"
    and cs: "cs \<noteq> []" "\<And>c. c \<in> set cs \<Longrightarrow> trio c = k" and t: "trio c' = k"
    and b: "\<exists>c\<in>set cs. value_between (real N * fval acc) (osu_value h c) (osu_value h c')"
  shows "fval (osu_dist acc h misses (closest f64_max (osu_dist acc h misses) cs start))
    \<le> fval (osu_dist acc h misses c')"
proof -
  obtain c where c: "c \<in> set cs" "value_between (real N * fval acc) (osu_value h c) (osu_value h c')"
    using b by blast
  have "fval (osu_dist acc h misses (closest f64_max (osu_dist acc h misses) cs start))
      \<le> fval (osu_dist acc h misses c)"
    by (rule osu_closest_trio(2) [OF acc cs _ c(1)]) (use N in simp_all)
  also have "\<dots> \<le> fval (osu_dist acc h misses c')"
    by (rule osu_dist_between [OF acc ok N cs(2) [OF c(1)] t c(2)])
  finally show ?thesis .
qed

lemma osu_shift_dist:
  assumes acc: "unit_fin acc" and ok: "slider_hits_ok h"
    and N: "300 * (trio c + unat misses) + origin_max (sh_origin h) = N" "0 < N" "N < 3000000000"
  shows "fval (osu_dist acc h misses (osu_shift pr c)) \<le> fval (osu_dist acc h misses c)"
proof -
  obtain x y z where s: "osu_shift pr c = (x, y, z)" by (cases "osu_shift pr c")
  obtain a b d where c: "c = (a, b, d)" by (cases c)
  have "trio (a, b, d) < 4294967296" using N unfolding c by simp
  note sh = osu_shift_trio [OF this s [unfolded c]]
  have "osu_value h (x, y, z) = osu_value h c" unfolding osu_value_def c fst_conv snd_conv sh(2) ..
  then have "value_between (real N * fval acc) (osu_value h (x, y, z)) (osu_value h c)"
    by (simp add: value_between_def)
  then show ?thesis unfolding s
    using osu_dist_between [OF acc ok N(1-3)] sh(1) c by simp
qed

definition given_counts :: "'a option list \<Rightarrow> nat" where
  "given_counts gs = length (filter (\<lambda>g. g \<noteq> None) gs)"

lemma osu_hits_acc_closest:
  assumes acc: "unit_fin acc" and ok: "slider_hits_ok h"
    and N: "300 * unat n_objects + origin_max (sh_origin h) = N" "0 < N" "N < 3000000000"
    and ms: "unat misses \<le> unat n_objects" and r: "r = n_objects - misses"
    and x: "x = osu_clamped r a" "y = osu_clamped r b" "z = osu_clamped r c"
    and one: "given_counts [a, b, c] \<le> 1"
    and t: "trio (p, q, w) = unat r"
    and res: "osu_hits_acc acc pr h n_objects misses (x, y, z) a b c = (x', y', z')"
    and same: "a \<noteq> None \<Longrightarrow> p = x'" "b \<noteq> None \<Longrightarrow> q = y'" "c \<noteq> None \<Longrightarrow> w = z'"
  shows "fval (osu_dist acc h misses (x', y', z')) \<le> fval (osu_dist acc h misses (p, q, w))"
proof -
  have ur: "unat r + unat misses = unat n_objects" using ms r by (simp add: unat_sub_le word_le_nat_alt)
  have N': "300 * (unat r + unat misses) + origin_max (sh_origin h) = N" unfolding ur by (rule N(1))
  have le: "unat x \<le> unat r" "unat y \<le> unat r" "unat z \<le> unat r" using x osu_clamped_le by metis+
  obtain v mv where sv: "osu_slider_acc_values h = (v, mv)" by fastforce
  have sv': "fst (osu_slider_acc_values h) = v" by (simp add: sv)
  have mv: "unat mv = origin_max (sh_origin h)" "unat v \<le> unat mv"
    using slider_values [OF ok _ sv] N by simp_all
  then have d: "unat (300 * n_objects + mv) = N" using N by (simp add: unat_arith_small)
  have vb: "300 * unat n_objects + unat v \<le> N" using mv N(1) by linarith
  have mn: "min q r = q" "unat (r - q) = unat r - unat q" if "unat q \<le> unat r" for q
    using that by (simp_all add: min_def word_le_nat_alt unat_sub_le)
  note unf = osu_hits_acc_def Let_def sv prod.case option.case r [symmetric]
  note pick = osu_pick [OF acc ok N' N(2,3) _ _ t]
  have cnt: "unat p + unat q + unat w = unat r" using t by (simp add: trio_def)
  consider "a \<noteq> None" "b = None" "c = None" | "a = None" "b \<noteq> None" "c = None"
    | "a = None" "b = None" "c \<noteq> None" | "a = None" "b = None" "c = None"
    using one unfolding given_counts_def by (cases a; cases b; cases c) simp_all
  then show ?thesis
  proof cases
    case 1
    then obtain a' where a: "a = Some a'" by blast
    let ?cs = "osu_cands_300 (acc * f64_of_u32 (300 * n_objects + mv)) v x (r - x)"
    have e: "closest f64_max (osu_dist acc h misses) ?cs (x, y, z) = (x', y', z')"
      using res unfolding unf a 1(2,3) mn(1) [OF le(1)] .
    have k: "fst u = x \<and> trio u = unat r" if "u \<in> set ?cs" for u
      using osu_cands_trio(1) [OF that] le(1) by (simp add: mn(2) [OF le(1)])
    have ne: "?cs \<noteq> []" by (rule osu_cands_nonempty)
    have "(x', y', z') \<in> set ?cs" unfolding e [symmetric]
      by (rule osu_closest_trio(1) [OF acc ne]) (use k N N' in auto)
    then have px: "p = x" using k same(1) 1 by fastforce
    have "\<exists>u\<in>set ?cs. value_between (real N * fval acc) (osu_value h u) (osu_value h (x, q, w))"
      by (rule osu_cands_300_between [OF acc N(2,3) d _ sv'])
        (use vb le(1) cnt ur px in \<open>simp_all add: mn(2) [OF le(1)]\<close>)
    then show ?thesis unfolding e [symmetric] using pick [OF ne] k px by blast
  next
    case 2
    then obtain b' where b: "b = Some b'" by blast
    let ?cs = "osu_cands_100 (acc * f64_of_u32 (300 * n_objects + mv)) v y (r - y)"
    have e: "closest f64_max (osu_dist acc h misses) ?cs (x, y, z) = (x', y', z')"
      using res unfolding unf b 2(1,3) mn(1) [OF le(2)] .
    have k: "fst (snd u) = y \<and> trio u = unat r" if "u \<in> set ?cs" for u
      using osu_cands_trio(2) [OF that] le(2) by (simp add: mn(2) [OF le(2)])
    have ne: "?cs \<noteq> []" by (rule osu_cands_nonempty)
    have "(x', y', z') \<in> set ?cs" unfolding e [symmetric]
      by (rule osu_closest_trio(1) [OF acc ne]) (use k N N' in auto)
    then have px: "q = y" using k same(2) 2 by fastforce
    have "\<exists>u\<in>set ?cs. value_between (real N * fval acc) (osu_value h u) (osu_value h (p, y, w))"
      by (rule osu_cands_100_between [OF acc N(2,3) d _ sv'])
        (use vb le(2) cnt ur px in \<open>simp_all add: mn(2) [OF le(2)]\<close>)
    then show ?thesis unfolding e [symmetric] using pick [OF ne] k px by blast
  next
    case 3
    then obtain c' where c: "c = Some c'" by blast
    let ?cs = "osu_cands_50 (acc * f64_of_u32 (300 * n_objects + mv)) v n_objects misses z (r - z)"
    have e: "closest f64_max (osu_dist acc h misses) ?cs (x, y, z) = (x', y', z')"
      using res unfolding unf c 3(1,2) mn(1) [OF le(3)] .
    have k: "snd (snd u) = z \<and> trio u = unat r" if "u \<in> set ?cs" for u
      using osu_cands_trio(3) [OF that] le(3) by (simp add: mn(2) [OF le(3)])
    have ne: "?cs \<noteq> []" by (rule osu_cands_nonempty)
    have "(x', y', z') \<in> set ?cs" unfolding e [symmetric]
      by (rule osu_closest_trio(1) [OF acc ne]) (use k N N' in auto)
    then have px: "w = z" using k same(3) 3 by fastforce
    have "\<exists>u\<in>set ?cs. value_between (real N * fval acc) (osu_value h u) (osu_value h (p, q, z))"
      by (rule osu_cands_50_between [OF acc N(2,3) d vb sv'])
        (use le(3) cnt ur px in \<open>simp_all add: mn(2) [OF le(3)]\<close>)
    then show ?thesis unfolding e [symmetric] using pick [OF ne] k px by blast
  next
    case 4
    let ?cs = "osu_cands_none (acc * f64_of_u32 (300 * n_objects + mv)) v r"
    let ?b = "closest f64_max (osu_dist acc h misses) ?cs (x, y, z)"
    have e: "osu_shift pr ?b = (x', y', z')" using res unfolding unf 4 .
    have ne: "?cs \<noteq> []" by (rule osu_cands_nonempty)
    have "?b \<in> set ?cs" by (rule osu_closest_trio(1) [OF acc ne]) (erule osu_cands_trio(4), use N N' in linarith)
    then have b: "trio ?b = unat r" by (rule osu_cands_trio(4))
    have "\<exists>u\<in>set ?cs. value_between (real N * fval acc) (osu_value h u) (osu_value h (p, q, w))"
      by (rule osu_cands_none_between [OF acc N(2,3) d _ sv' cnt]) (use vb ur in simp)
    then have "fval (osu_dist acc h misses ?b) \<le> fval (osu_dist acc h misses (p, q, w))"
      using pick [OF ne] osu_cands_trio(4) by blast
    moreover have "fval (osu_dist acc h misses (osu_shift pr ?b)) \<le> fval (osu_dist acc h misses ?b)"
      by (rule osu_shift_dist [OF acc ok _ N(2,3)]) (simp only: b N')
    ultimately show ?thesis unfolding e by linarith
  qed
qed


section \<open>The properties\<close>

definition osu_objects_of :: "('mods, 'map) osu_performance \<Rightarrow> osu_difficulty_attributes \<Rightarrow> u32" where
  "osu_objects_of self attrs = min (ucast (get_passed_objects (op_difficulty self))) (osu_n_objects attrs)"

definition osu_slider_hits_of ::
  "('mods \<Rightarrow> bool \<Rightarrow> bool) \<Rightarrow> ('mods, 'map) osu_performance \<Rightarrow> osu_difficulty_attributes \<Rightarrow> osu_slider_hits" where
  "osu_slider_hits_of off self attrs =
    osu_slider_hits attrs (get_lazer (op_difficulty self)) (off (d_mods (op_difficulty self)) (get_lazer (op_difficulty self)))
      (op_slider_end_hits self) (op_large_tick_hits self) (op_small_tick_hits self)"

definition osu_small ::
  "('mods \<Rightarrow> bool \<Rightarrow> bool) \<Rightarrow> ('mods, 'map) osu_performance \<Rightarrow> osu_difficulty_attributes \<Rightarrow> bool" where
  "osu_small off self attrs \<longleftrightarrow>
    300 * unat (osu_objects_of self attrs) + origin_max (sh_origin (osu_slider_hits_of off self attrs)) < 3000000000"

lemma osu_generate_cases:
  assumes "osu_generate_state off calc self = Inr (s, self')"
    and "resolve_attrs (calc (op_difficulty self)) (op_map_or_attrs self) = Inr (attrs, m)"
  shows "osu_hits (op_acc self) (op_priority self) (osu_slider_hits_of off self attrs) (osu_objects_of self attrs)
      (op_n300 self) (op_n100 self) (op_n50 self) (op_misses self) = ((os_n300 s, os_n100 s, os_n50 s), os_misses s)"
    "os_max_combo s = map_or (saturating_sub (od_max_combo attrs) (os_misses s))
      (\<lambda>c. min c (saturating_sub (od_max_combo attrs) (os_misses s))) (op_combo self)"
    "os_large_tick_hits s = sh_large_tick_hits (osu_slider_hits_of off self attrs)"
    "os_small_tick_hits s = sh_small_tick_hits (osu_slider_hits_of off self attrs)"
    "os_slider_end_hits s = sh_slider_end_hits (osu_slider_hits_of off self attrs)"
    "self' = self\<lparr>op_map_or_attrs := m, op_combo := Some (os_max_combo s),
      op_slider_end_hits := Some (os_slider_end_hits s), op_large_tick_hits := Some (os_large_tick_hits s),
      op_small_tick_hits := Some (os_small_tick_hits s), op_n300 := Some (os_n300 s),
      op_n100 := Some (os_n100 s), op_n50 := Some (os_n50 s), op_misses := Some (os_misses s)\<rparr>"
  using assms unfolding osu_generate_state_def Let_def osu_slider_hits_of_def osu_objects_of_def
  by (auto split: prod.splits)

lemma osu_generate_returns:
  "resolve_attrs (calc (op_difficulty self)) (op_map_or_attrs self) = Inr (attrs, m) \<Longrightarrow>
    \<exists>s self'. osu_generate_state off calc self = Inr (s, self')"
  by (simp add: osu_generate_state_def Let_def split: prod.splits)

lemma osu_hits_cases:
  assumes "osu_hits acc pr h n a b c ms = (t, misses)"
  shows "misses = osu_clamped n ms" "unat misses \<le> unat n"
    "t = (case acc of
        Some v \<Rightarrow> osu_hits_acc v pr h n misses (osu_clamped (n - misses) a, osu_clamped (n - misses) b,
          osu_clamped (n - misses) c) a b c
      | None \<Rightarrow> osu_hits_no_acc pr n misses (osu_clamped (n - misses) a, osu_clamped (n - misses) b,
          osu_clamped (n - misses) c) a b c)"
  using assms osu_clamped_le [of n ms] unfolding osu_hits_def Let_def osu_clamped_def
  by (auto split: option.splits)

text \<open>
  C26. The counts that a state of osu!standard is completed to: the misses are those given, at
  most the number of objects; all counts add up to the number of objects, or to those given
  where these are more; the combo is at most what the misses leave.
\<close>

theorem osu_state_complete:
  assumes "osu_generate_state off calc self = Inr (s, self')"
    and "resolve_attrs (calc (op_difficulty self)) (op_map_or_attrs self) = Inr (attrs, m)"
    and "acc_ok (op_acc self)" and "osu_small off self attrs"
  shows "os_misses s = osu_clamped (osu_objects_of self attrs) (op_misses self) \<and>
    unat (os_n300 s) + unat (os_n100 s) + unat (os_n50 s) + unat (os_misses s)
      = max (unat (osu_objects_of self attrs))
        (unat (osu_clamped (osu_objects_of self attrs - os_misses s) (op_n300 self))
          + unat (osu_clamped (osu_objects_of self attrs - os_misses s) (op_n100 self))
          + unat (osu_clamped (osu_objects_of self attrs - os_misses s) (op_n50 self)) + unat (os_misses s)) \<and>
    unat (os_max_combo s) \<le> unat (od_max_combo attrs) - unat (os_misses s)"
proof -
  note g = osu_generate_cases [OF assms(1,2)]
  note h = osu_hits_cases [OF g(1)]
  let ?n = "osu_objects_of self attrs"
  have r: "unat (?n - os_misses s) \<le> unat ?n" using h(2) by (simp add: unat_sub_le word_le_nat_alt)
  have "trio (os_n300 s, os_n100 s, os_n50 s) + unat (os_misses s)
      = max (unat ?n) (unat (osu_clamped (?n - os_misses s) (op_n300 self))
          + unat (osu_clamped (?n - os_misses s) (op_n100 self))
          + unat (osu_clamped (?n - os_misses s) (op_n50 self)) + unat (os_misses s))"
  proof (cases "op_acc self")
    case None
    show ?thesis unfolding h(3) None option.case
      by (rule osu_hits_no_acc_total [OF _ h(2) refl refl refl r]) (use assms(4) in \<open>simp add: osu_small_def\<close>)
  next
    case (Some v)
    then have "unit_fin v" using assms(3) by (simp add: acc_ok_def)
    from osu_hits_acc_total [OF _ this h(2) refl refl refl refl] show ?thesis
      unfolding h(3) Some option.case using assms(4) by (simp add: osu_small_def)
  qed
  moreover have "unat (os_max_combo s) \<le> unat (od_max_combo attrs) - unat (os_misses s)"
    unfolding g(2) by (cases "op_combo self") simp_all
  ultimately show ?thesis using h(1) by (simp add: trio_def)
qed

text \<open>The origin that the accuracy of a generated state refers to.\<close>

lemma osu_acc_of_state:
  assumes "os_large_tick_hits s = sh_large_tick_hits h" "os_small_tick_hits s = sh_small_tick_hits h"
    "os_slider_end_hits s = sh_slider_end_hits h"
  shows "osu_acc_of h (os_misses s) (os_n300 s, os_n100 s, os_n50 s) = osu_accuracy s (sh_origin h)"
  unfolding osu_acc_of_def no_combo_accuracy_is osu_state_of_def osu_accuracy_def fst_conv snd_conv
    osu_score_state.select_convs assms ..

text \<open>
  C1. With an accuracy given, and at most one of the counts of 300s, 100s and 50s, the
  generated state of osu!standard has the closest accuracy: no other split of the remaining
  hits that agrees on the given count is closer, although only the counts next to an
  estimate in floating point are tried, and although the hits are shifted afterwards.
\<close>

theorem osu_accuracy_closest:
  assumes "osu_generate_state off calc self = Inr (s, self')"
    and "resolve_attrs (calc (op_difficulty self)) (op_map_or_attrs self) = Inr (attrs, m)"
    and "op_acc self = Some acc" "unit_fin acc" "given_counts [op_n300 self, op_n100 self, op_n50 self] \<le> 1"
    and "osu_small off self attrs" "0 < unat (osu_objects_of self attrs)"
    and "unat p + unat q + unat w + unat (os_misses s) = unat (osu_objects_of self attrs)"
    and "op_n300 self \<noteq> None \<Longrightarrow> p = os_n300 s" "op_n100 self \<noteq> None \<Longrightarrow> q = os_n100 s"
      "op_n50 self \<noteq> None \<Longrightarrow> w = os_n50 s"
  shows "fval (abs (acc - osu_accuracy s (sh_origin (osu_slider_hits_of off self attrs))))
    \<le> fval (abs (acc - osu_accuracy (s\<lparr>os_n300 := p, os_n100 := q, os_n50 := w\<rparr>)
        (sh_origin (osu_slider_hits_of off self attrs))))"
proof -
  note g = osu_generate_cases [OF assms(1,2)]
  note h = osu_hits_cases [OF g(1)]
  let ?h = "osu_slider_hits_of off self attrs" and ?n = "osu_objects_of self attrs"
  let ?s' = "s\<lparr>os_n300 := p, os_n100 := q, os_n50 := w\<rparr>"
  have ok: "slider_hits_ok ?h" unfolding osu_slider_hits_of_def by (rule osu_slider_hits_ok)
  have small: "0 < 300 * unat ?n + origin_max (sh_origin ?h)"
    "300 * unat ?n + origin_max (sh_origin ?h) < 3000000000" using assms(6,7) by (simp_all add: osu_small_def)
  have t: "trio (p, q, w) = unat (?n - os_misses s)"
    using assms(8) h(2) by (simp add: trio_def unat_sub_le word_le_nat_alt)
  have "fval (osu_dist acc ?h (os_misses s) (os_n300 s, os_n100 s, os_n50 s))
      \<le> fval (osu_dist acc ?h (os_misses s) (p, q, w))"
    using h(3) unfolding assms(3) option.case
    by (intro osu_hits_acc_closest [OF assms(4) ok refl small h(2) refl refl refl refl assms(5) t _ assms(9-11)])
      (erule sym)
  moreover have "osu_acc_of ?h (os_misses ?s') (os_n300 ?s', os_n100 ?s', os_n50 ?s')
      = osu_accuracy ?s' (sh_origin ?h)" by (rule osu_acc_of_state) (simp_all add: g(3-5))
  ultimately show ?thesis unfolding osu_dist_of osu_acc_of_state [OF g(3-5)] by simp
qed

section \<open>Generating again\<close>

definition trio_within :: "u32 \<Rightarrow> u32 \<times> u32 \<times> u32 \<Rightarrow> bool" where
  "trio_within r c \<longleftrightarrow> fst c \<le> r \<and> fst (snd c) \<le> r \<and> snd (snd c) \<le> r"

lemma trio_within_total: "trio c \<le> unat r \<Longrightarrow> trio_within r c"
  by (simp add: trio_within_def trio_def word_le_nat_alt)

text \<open>A count raised by what the sum of all of them leaves stays within the bound.\<close>

lemma raised_within:
  assumes "unat x \<le> unat r" "unat r + unat misses = unat n" "x' = x + saturating_sub n s"
    and "unat x + unat misses \<le> unat s"
  shows "x' \<le> (r :: u32)"
proof -
  have e: "unat x + unat (saturating_sub n s) \<le> unat r" using assms by simp
  then have "unat x + unat (saturating_sub n s) < 4294967296" using unsigned_less [of r, where ?'a = nat] by simp
  then show ?thesis using e unfolding assms(3) word_le_nat_alt by (simp only: unat_arith_small(1))
qed

lemma osu_hits_acc_within:
  assumes small: "300 * unat n_objects + origin_max (sh_origin h) < 4294967296"
    and acc: "unit_fin acc" and ms: "unat misses \<le> unat n_objects" and r: "r = n_objects - misses"
    and x: "x = osu_clamped r a" "y = osu_clamped r b" "z = osu_clamped r c"
  shows "trio_within r (osu_hits_acc acc pr h n_objects misses (x, y, z) a b c)"
proof -
  have ur: "unat r + unat misses = unat n_objects" using ms r by (simp add: unat_sub_le word_le_nat_alt)
  have le: "unat x \<le> unat r" "unat y \<le> unat r" "unat z \<le> unat r" using x osu_clamped_le by metis+
  have s: "unat (x + y + z + misses) = unat x + unat y + unat z + unat misses"
    "unat (x + y + misses) = unat x + unat y + unat misses" "unat (x + z + misses) = unat x + unat z + unat misses"
    "unat (y + z + misses) = unat y + unat z + unat misses"
    using le small ur by (simp_all add: unat_arith_small)
  have m: "unat (x + y + z + misses) \<ge> unat x + unat misses" "unat (x + y + z + misses) \<ge> unat z + unat misses"
    unfolding s by linarith+
  note raised = raised_within [OF le(1) ur refl m(1)] raised_within [OF le(3) ur refl m(2)]
  note tot = osu_hits_acc_total [OF small acc ms r x, of pr]
  obtain v mv where sv: "osu_slider_acc_values h = (v, mv)" by fastforce
  note unf = osu_hits_acc_def Let_def sv prod.case option.case
  have few: ?thesis if "unat x + unat y + unat z \<le> unat r"
    using tot ur that by (intro trio_within_total) linarith
  have left: "saturating_sub n_objects u \<le> r" if "unat u \<ge> unat misses" for u
    using that ur by (simp add: word_le_nat_alt)
  show ?thesis
  proof (cases a; cases b; cases c)
    fix a' b' c' assume abc: "a = Some a'" "b = Some b'" "c = Some c'"
    show ?thesis unfolding unf abc using le raised by (cases pr) (simp_all add: trio_within_def word_le_nat_alt)
  next
    fix a' b' assume abc: "a = Some a'" "b = Some b'" "c = None"
    have "unat (x + y + misses) \<ge> unat misses" unfolding s by simp
    from left [OF this] show ?thesis unfolding unf abc using le by (simp add: trio_within_def word_le_nat_alt)
  next
    fix a' c' assume abc: "a = Some a'" "b = None" "c = Some c'"
    have "unat (x + z + misses) \<ge> unat misses" unfolding s by simp
    from left [OF this] show ?thesis unfolding unf abc using le by (simp add: trio_within_def word_le_nat_alt)
  next
    fix b' c' assume abc: "a = None" "b = Some b'" "c = Some c'"
    have "unat (y + z + misses) \<ge> unat misses" unfolding s by simp
    from left [OF this] show ?thesis unfolding unf abc using le by (simp add: trio_within_def word_le_nat_alt)
  qed (use few le x in \<open>simp_all\<close>)
qed

lemma osu_hits_no_acc_within:
  assumes small: "4 * unat n_objects < 4294967296" and ms: "unat misses \<le> unat n_objects" and r: "r = n_objects - misses"
    and x: "x = osu_clamped r a" "y = osu_clamped r b" "z = osu_clamped r c"
  shows "trio_within r (osu_hits_no_acc pr n_objects misses (x, y, z) a b c)"
proof -
  have ur: "unat r + unat misses = unat n_objects" using ms r by (simp add: unat_sub_le word_le_nat_alt)
  have le: "unat x \<le> unat r" "unat y \<le> unat r" "unat z \<le> unat r" using x osu_clamped_le by metis+
  have s: "unat (x + y + z + misses) = unat x + unat y + unat z + unat misses"
    using le small ur by (simp add: unat_arith_small)
  have m: "unat (x + y + z + misses) \<ge> unat x + unat misses" "unat (x + y + z + misses) \<ge> unat z + unat misses"
    "unat (x + y + z + misses) \<ge> unat misses"
    unfolding s by linarith+
  note raised = raised_within [OF le(1) ur refl m(1)] raised_within [OF le(3) ur refl m(2)]
  have left: "saturating_sub n_objects (x + y + z + misses) \<le> r"
    using m(3) ur by (simp add: word_le_nat_alt)
  show ?thesis
    using le raised left unfolding osu_hits_no_acc_def Let_def
    by (cases pr; cases a; cases b; cases c) (simp_all add: trio_within_def word_le_nat_alt)
qed

lemma osu_hits_again:
  assumes h: "osu_hits acc pr h n a b c ms = ((x, y, z), misses)" and acc: "acc_ok acc"
    and small: "300 * unat n + origin_max (sh_origin h) < 3000000000"
  shows "osu_hits acc pr h n (Some x) (Some y) (Some z) (Some misses) = ((x, y, z), misses)"
proof -
  note c = osu_hits_cases [OF h]
  let ?r = "n - misses"
  have ur: "unat ?r + unat misses = unat n" using c(2) by (simp add: unat_sub_le word_le_nat_alt)
  have sm: "4 * unat n < 4294967296" "300 * unat n + origin_max (sh_origin h) < 4294967296" using small by simp_all
  let ?x = "osu_clamped ?r a" and ?y = "osu_clamped ?r b" and ?z = "osu_clamped ?r c"
  have w: "trio_within ?r (x, y, z) \<and> unat n \<le> trio (x, y, z) + unat misses"
  proof (cases acc)
    case None
    show ?thesis unfolding c(3) None option.case
      using osu_hits_no_acc_within [OF sm(1) c(2) refl refl refl refl]
        osu_hits_no_acc_total [OF sm(1) c(2) refl refl refl, of ?r] ur by simp
  next
    case (Some v)
    then have "unit_fin v" using acc by (simp add: acc_ok_def)
    then show ?thesis unfolding c(3) Some option.case
      using osu_hits_acc_within [OF sm(2) _ c(2) refl refl refl refl]
        osu_hits_acc_total [OF sm(2) _ c(2) refl refl refl refl] by simp
  qed
  have le: "min x ?r = x" "min y ?r = y" "min z ?r = z"
    using w by (simp_all add: trio_within_def min_def)
  have mm: "min misses n = misses" using c(2) by (simp add: min_def word_le_nat_alt)
  have b: "unat x \<le> unat n" "unat y \<le> unat n" "unat z \<le> unat n"
    using w ur by (simp_all add: trio_within_def word_le_nat_alt)
  have "unat (x + y + z + misses) = unat x + unat y + unat z + unat misses"
    using b sm(1) c(2) by (simp add: unat_arith_small)
  then have rem: "saturating_sub n (x + y + z + misses) = 0"
    using w unfolding word_unat_eq_iff unat_saturating_sub by (simp add: trio_def)
  show ?thesis unfolding osu_hits_def Let_def
    by (cases acc; cases pr) (simp_all add: mm le rem osu_hits_acc_def osu_hits_no_acc_def case_prod_unfold)
qed

lemma osu_slider_hits_again:
  "osu_slider_hits attrs lazer classic (Some (sh_slider_end_hits (osu_slider_hits attrs lazer classic a b c)))
      (Some (sh_large_tick_hits (osu_slider_hits attrs lazer classic a b c)))
      (Some (sh_small_tick_hits (osu_slider_hits attrs lazer classic a b c)))
    = osu_slider_hits attrs lazer classic a b c"
  by (cases a; cases b; cases c) (simp_all add: osu_slider_hits_def)

text \<open>
  C29. Generating a state of osu!standard again changes nothing, in the state nor in the
  calculator.
\<close>

theorem osu_generate_idempotent:
  assumes "osu_generate_state off calc self = Inr (s, self')"
    and "resolve_attrs (calc (op_difficulty self)) (op_map_or_attrs self) = Inr (attrs, m)"
    and "acc_ok (op_acc self)" and "osu_small off self attrs"
  shows "osu_generate_state off calc self' = Inr (s, self')"
proof -
  note g = osu_generate_cases [OF assms(1,2)]
  have hh: "osu_hits (op_acc self) (op_priority self) (osu_slider_hits_of off self attrs) (osu_objects_of self attrs)
      (Some (os_n300 s)) (Some (os_n100 s)) (Some (os_n50 s)) (Some (os_misses s))
      = ((os_n300 s, os_n100 s, os_n50 s), os_misses s)"
    by (rule osu_hits_again [OF g(1) assms(3)]) (use assms(4) in \<open>simp add: osu_small_def\<close>)
  have sl: "osu_slider_hits attrs (get_lazer (op_difficulty self)) (off (d_mods (op_difficulty self)) (get_lazer (op_difficulty self)))
      (Some (os_slider_end_hits s)) (Some (os_large_tick_hits s)) (Some (os_small_tick_hits s))
      = osu_slider_hits_of off self attrs"
    unfolding g(3-5) osu_slider_hits_of_def by (rule osu_slider_hits_again)
  have r: "resolve_attrs (calc (op_difficulty self')) (op_map_or_attrs self') = Inr (attrs, m)"
    unfolding g(6) using resolve_attrs_again [OF assms(2)] by simp
  have cb: "min (os_max_combo s) (saturating_sub (od_max_combo attrs) (os_misses s)) = os_max_combo s"
    unfolding g(2) by (cases "op_combo self") simp_all
  have sel: "op_difficulty self' = op_difficulty self" "op_acc self' = op_acc self" "op_priority self' = op_priority self"
    "op_combo self' = Some (os_max_combo s)" "op_slider_end_hits self' = Some (os_slider_end_hits s)"
    "op_large_tick_hits self' = Some (os_large_tick_hits s)" "op_small_tick_hits self' = Some (os_small_tick_hits s)"
    "op_n300 self' = Some (os_n300 s)" "op_n100 self' = Some (os_n100 s)" "op_n50 self' = Some (os_n50 s)"
    "op_misses self' = Some (os_misses s)" unfolding g(6) by simp_all
  show ?thesis
    unfolding osu_generate_state_def r sum.case prod.case Let_def
    unfolding sel sl osu_objects_of_def [symmetric] hh prod.case
      map_or_simps cb
    unfolding g(6) by (simp add: g(3-5) [symmetric])
qed


text \<open>
  The accuracy that the search gives a candidate, computed without the combo, is the
  accuracy of the score state with the same hits.
\<close>

theorem osu_search_accuracy:
  "no_combo_accuracy \<lparr>sh_origin = origin, sh_slider_end_hits = os_slider_end_hits s,
      sh_large_tick_hits = os_large_tick_hits s, sh_small_tick_hits = os_small_tick_hits s\<rparr>
      (os_n300 s) (os_n100 s) (os_n50 s) (os_misses s) = osu_accuracy s origin"
  unfolding no_combo_accuracy_is osu_accuracy_def osu_state_of_def osu_score_state.select_convs
    osu_slider_hits.select_convs ..

section \<open>Witnesses\<close>

text \<open>Six circles, three sliders with two ticks, a spinner, and one miss, played on lazer.\<close>

definition osu_example_attrs :: osu_difficulty_attributes where
  "osu_example_attrs = \<lparr>od_aim = lit 1 1, od_aim_difficult_slider_count = lit 1 1, od_speed = lit 1 1,
     od_flashlight = lit 0 1, od_reading = lit 1 1, od_slider_factor = lit 1 1,
     od_aim_top_weighted_slider_factor = lit 1 1, od_speed_top_weighted_slider_factor = lit 1 1,
     od_speed_note_count = lit 5 1, od_aim_difficult_strain_count = lit 5 1,
     od_speed_difficult_strain_count = lit 5 1, od_reading_difficult_note_count = lit 5 1,
     od_nested_score_per_object = lit 10 1, od_legacy_score_base_multiplier = lit 1 1,
     od_maximum_legacy_combo_score = lit 1000 1, od_ar = lit 9 1, od_great_hit_window = lit 30 1,
     od_ok_hit_window = lit 70 1, od_meh_hit_window = lit 110 1, od_hp = lit 5 1, od_n_circles = 6,
     od_n_sliders = 3, od_n_large_ticks = 2, od_n_spinners = 1, od_stars = lit 2 1, od_max_combo = 15\<rparr>"

definition osu_example :: "f64 option \<Rightarrow> (unit, unit) osu_performance" where
  "osu_example acc = (osu_from_map_or_attrs () (FromAttrs osu_example_attrs))
     \<lparr>op_acc := acc, op_n50 := Some 1, op_misses := Some 1\<rparr>"

definition no_osu_calculation :: "unit difficulty \<Rightarrow> unit \<Rightarrow> convert_error + osu_difficulty_attributes" where
  "no_osu_calculation _ _ = Inl AlreadyConverted"

definition slider_heads_judged :: "unit \<Rightarrow> bool \<Rightarrow> bool" where
  "slider_heads_judged _ _ = False"

lemma osu_example_sel [simp]: "op_acc (osu_example acc) = acc" "op_n300 (osu_example acc) = None"
  "op_n100 (osu_example acc) = None" "op_n50 (osu_example acc) = Some 1" "op_misses (osu_example acc) = Some 1"
  by (simp_all add: osu_example_def osu_from_map_or_attrs_def)

lemma osu_example_resolve:
  "resolve_attrs (no_osu_calculation (op_difficulty (osu_example acc))) (op_map_or_attrs (osu_example acc))
    = Inr (osu_example_attrs, FromAttrs osu_example_attrs)"
  by (simp add: resolve_attrs_def osu_example_def osu_from_map_or_attrs_def)

lemma osu_example_objects: "osu_objects_of (osu_example acc) osu_example_attrs = 10"
  by (simp add: osu_objects_of_def osu_example_def osu_from_map_or_attrs_def get_passed_objects_def ucast_max
      difficulty_new_def osu_example_attrs_def osu_n_objects_def min_def word_le_nat_alt
      unsigned_minus_1_eq_mask mask_eq_exp_minus_1)

lemma osu_example_origin:
  "sh_origin (osu_slider_hits_of slider_heads_judged (osu_example acc) osu_example_attrs) = WithSliderAcc 2 3"
  by (simp add: osu_slider_hits_of_def osu_slider_hits_def slider_heads_judged_def osu_example_def
      osu_from_map_or_attrs_def get_lazer_def difficulty_new_def osu_example_attrs_def)

lemma osu_example_small: "osu_small slider_heads_judged (osu_example acc) osu_example_attrs"
  by (simp add: osu_small_def osu_example_objects osu_example_origin origin_max_def)

lemma osu_example_runs:
  obtains s self' where "osu_generate_state slider_heads_judged no_osu_calculation (osu_example acc) = Inr (s, self')"
  using osu_generate_returns [of no_osu_calculation, OF osu_example_resolve] by blast

theorem osu_state_complete_witness:
  "\<exists>s self'. osu_generate_state slider_heads_judged no_osu_calculation (osu_example (Some (acc_fraction (lit 95 1)))) = Inr (s, self')
    \<and> unat (os_n300 s) + unat (os_n100 s) + unat (os_n50 s) + unat (os_misses s) = 10"
proof -
  have acc: "acc_ok (Some (acc_fraction (lit 95 1)))"
    unfolding acc_ok_def by (simp, rule acc_fraction_ok) (simp add: lit_def)
  obtain s self' where g: "osu_generate_state slider_heads_judged no_osu_calculation
    (osu_example (Some (acc_fraction (lit 95 1)))) = Inr (s, self')" by (rule osu_example_runs)
  note c = osu_state_complete [OF g osu_example_resolve _ osu_example_small, unfolded osu_example_objects osu_example_sel]
  have m: "os_misses s = 1" using conjunct1 [OF c [OF acc]] by (simp add: osu_clamped_def)
  have "unat (os_n300 s) + unat (os_n100 s) + unat (os_n50 s) + unat (os_misses s) = 10"
    using conjunct1 [OF conjunct2 [OF c [OF acc]]] unfolding m by (simp add: osu_clamped_def)
  then show ?thesis using g by blast
qed

theorem osu_generate_idempotent_witness:
  "\<exists>s self'. osu_generate_state slider_heads_judged no_osu_calculation (osu_example None) = Inr (s, self')
    \<and> osu_generate_state slider_heads_judged no_osu_calculation self' = Inr (s, self')"
proof -
  obtain s self' where g: "osu_generate_state slider_heads_judged no_osu_calculation (osu_example None) = Inr (s, self')"
    by (rule osu_example_runs)
  show ?thesis using osu_generate_idempotent [OF g osu_example_resolve _ osu_example_small] g
    by (simp add: acc_ok_def)
qed

lemma osu_example_n50:
  assumes "osu_generate_state slider_heads_judged no_osu_calculation (osu_example (Some acc)) = Inr (s, self')"
    and "unit_fin acc"
  shows "os_misses s = 1" "os_n50 s = 1"
proof -
  note g = osu_generate_cases [OF assms(1) osu_example_resolve]
  note h = osu_hits_cases [OF g(1)]
  show m: "os_misses s = 1" using h(1) by (simp add: osu_example_objects osu_clamped_def)
  let ?h = "osu_slider_hits_of slider_heads_judged (osu_example (Some acc)) osu_example_attrs"
  obtain v mv where sv: "osu_slider_acc_values ?h = (v, mv)" by fastforce
  let ?cs = "osu_cands_50 (acc * f64_of_u32 (300 * 10 + mv)) v 10 1 1 8"
  have "(os_n300 s, os_n100 s, os_n50 s) = closest f64_max (osu_dist acc ?h 1) ?cs (0, 0, 1)"
    using h(3) unfolding osu_hits_acc_def Let_def sv prod.case osu_example_objects osu_example_sel option.case m
    by (simp add: osu_clamped_def)
  moreover have "closest f64_max (osu_dist acc ?h 1) ?cs (0, 0, 1) \<in> set ?cs"
    by (rule osu_closest_trio(1) [OF assms(2) osu_cands_nonempty(3)])
      (use osu_cands_trio(3) osu_example_small [of "Some acc"] in \<open>auto simp: osu_small_def osu_example_objects\<close>)
  ultimately have "(os_n300 s, os_n100 s, os_n50 s) \<in> set ?cs" by simp
  from osu_cands_trio(3) [OF this] show "os_n50 s = 1" by simp
qed

theorem osu_accuracy_closest_witness:
  "\<exists>s self'. osu_generate_state slider_heads_judged no_osu_calculation (osu_example (Some (acc_fraction (lit 95 1)))) = Inr (s, self')
    \<and> fval (abs (acc_fraction (lit 95 1) - osu_accuracy s (WithSliderAcc 2 3)))
      \<le> fval (abs (acc_fraction (lit 95 1) - osu_accuracy (s\<lparr>os_n300 := 7, os_n100 := 1, os_n50 := 1\<rparr>) (WithSliderAcc 2 3)))"
proof -
  let ?acc = "acc_fraction (lit 95 1)"
  have acc: "unit_fin ?acc" by (rule acc_fraction_ok) (simp add: lit_def)
  obtain s self' where g: "osu_generate_state slider_heads_judged no_osu_calculation
    (osu_example (Some ?acc)) = Inr (s, self')" by (rule osu_example_runs)
  show ?thesis
    using osu_accuracy_closest [OF g osu_example_resolve _ acc _ osu_example_small, of 7 1 1] g
      osu_example_n50 [OF g acc] by (simp add: given_counts_def osu_example_objects osu_example_origin)
qed

end
