(* ===== verification/Legacy_Score.thy ===== *)
theory Legacy_Score
  imports Difficulty_Math Osu_Performance Mods
begin

text \<open>
  The estimate of misses from the total score of a score set on stable
  (\<open>src/osu/difficulty/legacy_score/miss_calculator.rs\<close>). The record gathers what the
  struct borrows.
\<close>

record ('l, 'i, 'g) legacy_miss_calculator =
  lc_state :: osu_score_state
  lc_mods :: "('l, 'i, 'g) game_mods"
  lc_attrs :: osu_difficulty_attributes
  lc_accuracy :: f64
  lc_total_score :: u64

text \<open>The multiplier of the mods.\<close>

definition legacy_mod_multiplier :: "('l, 'i, 'g) rosu_mods \<Rightarrow> ('l, 'i, 'g) game_mods \<Rightarrow> f64" where
  "legacy_mod_multiplier api m =
    (let score_v2 = has_score_v2 api m;
         x = lit 1 1;
         x = (if nf api m then x * (if score_v2 then lit 1 1 else lit 1 2) else x);
         x = (if ez api m then x * lit 1 2 else x);
         x = (if ht api m then x * lit 3 10 else x);
         x = (if hd_mod api m then x * lit 106 100 else x);
         x = (if hr api m then x * (if score_v2 then lit 110 100 else lit 106 100) else x);
         x = (if dt api m then x * (if score_v2 then lit 120 100 else lit 112 100) else x);
         x = (if fl api m then x * lit 112 100 else x);
         x = (if so api m then x * lit 9 10 else x)
     in if rx api m \<or> ap api m then lit 0 1 else x)"

definition legacy_combo_per_object :: "('l, 'i, 'g) legacy_miss_calculator \<Rightarrow> f64" where
  "legacy_combo_per_object self =
    (let combo_score = od_maximum_legacy_combo_score (lc_attrs self);
         divisor = lit 300 1 / lit 25 1 * od_legacy_score_base_multiplier (lc_attrs self);
         combo_score = (if \<not> feq divisor (lit 0 1) then combo_score / divisor else combo_score);
         max_combo = f64_of_u32 (od_max_combo (lc_attrs self));
         numerator = (max_combo - lit 2 1) * max_combo;
         denominator = fmax (max_combo + lit 2 1 * (combo_score - lit 1 1)) (lit 1 1)
     in numerator / denominator)"

text \<open>
  Misses that the combo suggests, at most the imperfect hits, and with at most as many slider
  breaks as the combo allows. The bound on slider breaks is computed on \<open>i32\<close>.
\<close>

definition total_imperfect_hits :: "osu_score_state \<Rightarrow> f64" where
  "total_imperfect_hits s = f64_of_u32 (os_n100 s + os_n50 s + os_misses s)"

definition full_combo_threshold :: "libm \<Rightarrow> osu_difficulty_attributes \<Rightarrow> f64" where
  "full_combo_threshold lm attrs =
    (let portion = lit 4 100 + lit 6 100 * lm_powi lm (fmin (od_aim_top_weighted_slider_factor attrs) (lit 1 1)) 2;
         reduction = fmin (lit 4 1 + portion * f64_of_u32 (od_n_sliders attrs)) (f64_of_u32 (od_n_sliders attrs))
     in f64_of_u32 (od_max_combo attrs) - reduction)"

definition max_possible_slider_breaks :: "osu_difficulty_attributes \<Rightarrow> osu_score_state \<Rightarrow> i32" where
  "max_possible_slider_breaks attrs s =
    (let combo_diff = (if os_max_combo s < od_max_combo attrs then od_max_combo attrs - os_max_combo s else 0)
     in smin (od_n_sliders attrs) (sdiv_word combo_diff 2))"

definition cap_slider_breaks :: "osu_difficulty_attributes \<Rightarrow> osu_score_state \<Rightarrow> f64 \<Rightarrow> f64" where
  "cap_slider_breaks attrs s miss_count =
    (let misses = f64_of_u32 (os_misses s);
         breaks = f64_of_i32 (max_possible_slider_breaks attrs s)
     in if breaks < miss_count - misses then misses + breaks else miss_count)"

definition legacy_maximum_miss_count :: "libm \<Rightarrow> ('l, 'i, 'g) legacy_miss_calculator \<Rightarrow> f64" where
  "legacy_maximum_miss_count lm self =
    (let s = lc_state self; attrs = lc_attrs self
     in if od_n_sliders attrs = 0 then f64_of_u32 (os_misses s)
        else let threshold = full_combo_threshold lm attrs;
                 combo = f64_of_u32 (os_max_combo s);
                 miss_count = (if combo < threshold
                   then lm_powf lm (threshold / fmax combo (lit 1 1)) (lit 25 10) else lit 0 1);
                 miss_count = fmin miss_count (total_imperfect_hits s)
             in cap_slider_breaks attrs s miss_count)"

definition legacy_score_at_combo ::
  "('l, 'i, 'g) legacy_miss_calculator \<Rightarrow> f64 \<Rightarrow> f64 \<Rightarrow> f64 \<Rightarrow> f64" where
  "legacy_score_at_combo self combo combo_per_object score_v1_multiplier =
    (let s = lc_state self; attrs = lc_attrs self;
         total_hits = f64_of_u32 (os_n300 s) + f64_of_u32 (os_n100 s) + f64_of_u32 (os_n50 s) + f64_of_u32 (os_misses s);
         estimated_objects = combo / combo_per_object - lit 1 1;
         combo_score = (if lit 0 1 < combo_per_object
           then (lit 2 1 * (combo_per_object - lit 1 1) + (estimated_objects - lit 1 1) * combo_per_object)
             * estimated_objects / lit 2 1
           else lit 0 1);
         combo_score_scaled = combo_score * lc_accuracy self * lit 300 1 / lit 25 1 * score_v1_multiplier;
         objects_hit = (total_hits - f64_of_u32 (os_misses s)) * combo / f64_of_u32 (od_max_combo attrs);
         non_combo_score = (lit 300 1 + od_nested_score_per_object attrs) * lc_accuracy self * objects_hit
     in combo_score_scaled + non_combo_score)"

definition legacy_miss_count ::
  "('l, 'i, 'g) rosu_mods \<Rightarrow> libm \<Rightarrow> ('l, 'i, 'g) legacy_miss_calculator \<Rightarrow> f64" where
  "legacy_miss_count api lm self =
    (let s = lc_state self; attrs = lc_attrs self
     in if od_max_combo attrs = 0 then lit 0 1
        else let mod_multiplier = legacy_mod_multiplier api (lc_mods self)
             in if feq mod_multiplier (lit 0 1) \<or> feq (od_legacy_score_base_multiplier attrs) (lit 0 1) then lit 0 1
        else let score_v1_multiplier = od_legacy_score_base_multiplier attrs * mod_multiplier
             in if feq score_v1_multiplier (lit 0 1) then lit 0 1
        else let combo_per_object = legacy_combo_per_object self;
                 maximum_miss_count = legacy_maximum_miss_count lm self;
                 obtained = legacy_score_at_combo self (f64_of_u32 (os_max_combo s)) combo_per_object score_v1_multiplier;
                 remaining_score = f64_of_u64 (lc_total_score self) - obtained
             in if remaining_score \<le> lit 0 1 then maximum_miss_count
        else let remaining_combo = f64_of_u32 (od_max_combo attrs - os_max_combo s);
                 expected = legacy_score_at_combo self remaining_combo combo_per_object score_v1_multiplier;
                 score_based = fmax (expected / remaining_score) (lit 1 1)
             in fmin score_based maximum_miss_count)"

end
