(* ===== verification/Osu_PP.thy ===== *)
theory Osu_PP
  imports Legacy_Score
begin

text \<open>
  Performance points of osu!standard: the estimates of misses in
  \<open>OsuPerformance::calculate\<close> (\<open>src/osu/performance/mod.rs\<close>) and the calculator
  (\<open>src/osu/performance/calculator.rs\<close>), with its path for the relax mod and the path
  for all other scores. The record of the calculator is the struct of the code.
\<close>

record osu_performance_attributes =
  oa_difficulty :: osu_difficulty_attributes
  oa_pp :: f64
  oa_pp_acc :: f64
  oa_pp_aim :: f64
  oa_pp_flashlight :: f64
  oa_pp_speed :: f64
  oa_pp_reading :: f64
  oa_effective_miss_count :: f64
  oa_combo_based_estimated_miss_count :: f64
  oa_score_based_estimated_miss_count :: "f64 option"
  oa_aim_estimated_slider_breaks :: f64
  oa_speed_estimated_slider_breaks :: f64
  oa_speed_deviation :: "f64 option"

text \<open>What the struct update syntax with \<open>Default::default()\<close> gives.\<close>

definition osu_no_performance :: "osu_difficulty_attributes \<Rightarrow> osu_performance_attributes" where
  "osu_no_performance attrs = \<lparr>oa_difficulty = attrs, oa_pp = lit 0 1, oa_pp_acc = lit 0 1, oa_pp_aim = lit 0 1,
     oa_pp_flashlight = lit 0 1, oa_pp_speed = lit 0 1, oa_pp_reading = lit 0 1,
     oa_effective_miss_count = lit 0 1, oa_combo_based_estimated_miss_count = lit 0 1,
     oa_score_based_estimated_miss_count = None, oa_aim_estimated_slider_breaks = lit 0 1,
     oa_speed_estimated_slider_breaks = lit 0 1, oa_speed_deviation = None\<rparr>"

record ('l, 'i, 'g) osu_calculator =
  oc_attrs :: osu_difficulty_attributes
  oc_mods :: "('l, 'i, 'g) game_mods"
  oc_acc :: f64
  oc_state :: osu_score_state
  oc_effective_miss_count :: f64
  oc_combo_based_estimated_miss_count :: f64
  oc_score_based_estimated_miss_count :: "f64 option"
  oc_using_classic_slider_acc :: bool

definition n_slider_ends_dropped :: "osu_difficulty_attributes \<Rightarrow> osu_score_state \<Rightarrow> u32" where
  "n_slider_ends_dropped attrs s = od_n_sliders attrs - os_slider_end_hits s"

definition n_large_tick_miss :: "osu_difficulty_attributes \<Rightarrow> osu_score_state \<Rightarrow> u32" where
  "n_large_tick_miss attrs s = od_n_large_ticks attrs - os_large_tick_hits s"

definition total_successful_hits :: "osu_score_state \<Rightarrow> u32" where
  "total_successful_hits s = os_n300 s + os_n100 s + os_n50 s"

definition osu_total :: "('l, 'i, 'g) osu_calculator \<Rightarrow> f64" where
  "osu_total self = f64_of_u32 (osu_total_hits (oc_state self))"

section \<open>Penalties\<close>

definition miss_penalty :: "libm \<Rightarrow> f64 \<Rightarrow> f64 \<Rightarrow> f64" where
  "miss_penalty lm miss_count diff_strain_count =
    lit 93 100 / (miss_count / (lit 4 1 * lm_ln lm diff_strain_count) + lit 1 1)"

definition relax_miss_penalty :: "libm \<Rightarrow> f64 \<Rightarrow> f64 \<Rightarrow> f64" where
  "relax_miss_penalty lm hits effective_miss_count =
    lm_powf lm (lit 1 1 - lm_powf lm (effective_miss_count / hits) (lit 55 100))
      (lit 1 1 + effective_miss_count / lit 2 1)"

definition combo_scaling_factor :: "libm \<Rightarrow> ('l, 'i, 'g) osu_calculator \<Rightarrow> f64" where
  "combo_scaling_factor lm self =
    (if od_max_combo (oc_attrs self) = 0 then lit 1 1
     else fmin (lm_powf lm (f64_of_u32 (os_max_combo (oc_state self))) (lit 8 10)
       / lm_powf lm (f64_of_u32 (od_max_combo (oc_attrs self))) (lit 8 10)) (lit 1 1))"

definition estimated_slider_breaks :: "libm \<Rightarrow> ('l, 'i, 'g) osu_calculator \<Rightarrow> f64 \<Rightarrow> f64" where
  "estimated_slider_breaks lm self top_weighted_slider_factor =
    (let s = oc_state self;
         mistakes = (if os_n100 s \<noteq> 0 then 1 else 0) * os_n100 s + (if os_n50 s \<noteq> 0 then 1 else 0) * os_n50 s;
         non_miss_mistakes = f64_of_i32 mistakes
     in if \<not> oc_using_classic_slider_acc self \<or> feq non_miss_mistakes (lit 0 1) then lit 0 1
        else let missed_combo_percent = lit 1 1 - f64_of_u32 (os_max_combo s) / f64_of_u32 (od_max_combo (oc_attrs self));
                 estimated = fmin non_miss_mistakes (oc_effective_miss_count self * top_weighted_slider_factor);
                 adjustment = (non_miss_mistakes - estimated + lit 45 10) / (non_miss_mistakes + lit 4 1);
                 estimated = estimated * smoothstep (oc_effective_miss_count self) (lit 1 1) (lit 2 1)
             in estimated * adjustment * logistic lm missed_combo_percent (lit 33 100) (lit 15 1) None)"

definition traceable_bonus :: "libm \<Rightarrow> ('l, 'i, 'g) osu_calculator \<Rightarrow> f64 \<Rightarrow> f64" where
  "traceable_bonus lm self slider_factor =
    (let ar = od_ar (oc_attrs self);
         high = lit 1 2 + lm_powi lm slider_factor 6 / lit 2 1;
         low = lm_powi lm slider_factor 6;
         bonus = lit 275 10000 + lit 25 1000 * (lit 12 1 - fmax ar (lit 7 1)) * high;
         bonus = (if ar < lit 7 1 then bonus + lit 25 1000 * (lit 7 1 - fmax ar (lit 0 1)) * low else bonus)
     in if ar < lit 0 1 then bonus + lit 25 1000 * (lit 1 1 - lm_powf lm (lit 15 10) ar) * low else bonus)"

section \<open>Deviation\<close>

text \<open>\<open>DiffUtils.SQRT2\<close> of the original, which is one unit below the square root of two.\<close>

definition lazer_sqrt_2 :: f64 where
  "lazer_sqrt_2 = lit 14142135623730950 10000000000000000"

definition deviation_z :: f64 where
  "deviation_z = lit 232634787404 100000000000"

definition calculate_deviation :: "libm \<Rightarrow> ('l, 'i, 'g) osu_calculator \<Rightarrow> f64 \<Rightarrow> f64 \<Rightarrow> f64 \<Rightarrow> f64 option" where
  "calculate_deviation lm self great ok meh =
    (if great + ok + meh \<le> lit 0 1 then None
     else let n = fmax (lit 1 1) (great + ok);
              p = great / n;
              z = deviation_z;
              p_lower = fmin p ((n * p + z * z / lit 2 1) / (n + z * z)
                - z / (n + z * z) * fsqrt (n * p * (lit 1 1 - p) + z * z / lit 4 1));
              great_window = od_great_hit_window (oc_attrs self);
              ok_window = od_ok_hit_window (oc_attrs self);
              meh_window = od_meh_hit_window (oc_attrs self);
              deviation = (if lit 1 100 < p_lower then
                  let d = great_window / (lazer_sqrt_2 * erf_inv lm p_lower);
                      ratio = ok_window / d;
                      tail = fsqrt (lit 2 1 / f64_pi) * ok_window * lm_exp lm (- lit 5 10 * ratio * ratio)
                        / (d * erf lm (ok_window / (lazer_sqrt_2 * d)))
                  in d * fsqrt (lit 1 1 - tail)
                else ok_window / fsqrt (lit 3 1));
              meh_variance = (meh_window * meh_window + ok_window * meh_window + ok_window * ok_window) / lit 3 1
          in Some (fsqrt (((great + ok) * deviation * deviation + meh * meh_variance) / (great + ok + meh))))"

definition calculate_speed_deviation :: "libm \<Rightarrow> ('l, 'i, 'g) osu_calculator \<Rightarrow> f64 option" where
  "calculate_speed_deviation lm self =
    (let s = oc_state self
     in if total_successful_hits s = 0 then None
        else let notes = od_speed_note_count (oc_attrs self);
                 notes = notes + (f64_of_u32 (osu_total_hits s) - notes) * lit 1 10;
                 miss = fmin (f64_of_u32 (os_misses s)) notes;
                 meh = fmin (f64_of_u32 (os_n50 s)) (notes - miss);
                 ok = fmin (f64_of_u32 (os_n100 s)) (notes - miss - meh);
                 great = fmax (lit 0 1) (notes - miss - meh - ok)
             in calculate_deviation lm self great ok meh)"

text \<open>The same code twice: with \<open>Speed::difficulty_to_performance\<close>, and inlined.\<close>

definition cubic_performance :: "libm \<Rightarrow> f64 \<Rightarrow> f64" where
  "cubic_performance lm d = lit 4 1 * lm_powi lm d 3"

definition high_deviation_nerf :: "libm \<Rightarrow> ('l, 'i, 'g) osu_calculator \<Rightarrow> f64 \<Rightarrow> f64" where
  "high_deviation_nerf lm self speed_deviation =
    (let speed_value = cubic_performance lm (od_speed (oc_attrs self));
         cutoff = lit 100 1 + lit 220 1 * lm_powf lm (lit 22 1 / speed_deviation) (lit 65 10)
     in if speed_value \<le> cutoff then lit 1 1
        else let scale = lit 50 1;
                 adjusted = scale * (lm_ln lm ((speed_value - cutoff) / scale + lit 1 1) + cutoff / scale);
                 l = lit 1 1 - reverse_lerp speed_deviation (lit 22 1) (lit 27 1);
                 adjusted = lerp adjusted speed_value l
             in adjusted / speed_value)"

definition high_deviation_nerf_vanilla :: "libm \<Rightarrow> ('l, 'i, 'g) osu_calculator \<Rightarrow> f64 \<Rightarrow> f64" where
  "high_deviation_nerf_vanilla lm self speed_deviation =
    (let speed_value = lit 4 1 * lm_powi lm (od_speed (oc_attrs self)) 3;
         cutoff = lit 100 1 + lit 220 1 * lm_powf lm (lit 22 1 / speed_deviation) (lit 65 10)
     in if speed_value \<le> cutoff then lit 1 1
        else let scale = lit 50 1;
                 adjusted = scale * (lm_ln lm (((speed_value - cutoff) / scale) + lit 1 1) + cutoff / scale);
                 l = lit 1 1 - reverse_lerp speed_deviation (lit 22 1) (lit 27 1);
                 adjusted = lerp adjusted speed_value l
             in adjusted / speed_value)"

section \<open>Aim\<close>

text \<open>Difficult sliders that were probably dropped, and the nerf for them.\<close>

definition improperly_followed_sliders :: "('l, 'i, 'g) osu_calculator \<Rightarrow> f64" where
  "improperly_followed_sliders self =
    (let attrs = oc_attrs self; s = oc_state self
     in if oc_using_classic_slider_acc self
        then fclamp (fmin (total_imperfect_hits s) (f64_of_u32 (od_max_combo attrs - os_max_combo s)))
          (lit 0 1) (od_aim_difficult_slider_count attrs)
        else fclamp (f64_of_u32 (n_slider_ends_dropped attrs s + n_large_tick_miss attrs s))
          (lit 0 1) (od_aim_difficult_slider_count attrs))"

definition nerfed_aim_difficulty :: "libm \<Rightarrow> ('l, 'i, 'g) osu_calculator \<Rightarrow> f64" where
  "nerfed_aim_difficulty lm self =
    (let attrs = oc_attrs self
     in if od_n_sliders attrs \<noteq> 0 \<and> lit 0 1 < od_aim_difficult_slider_count attrs
        then od_aim attrs * ((lit 1 1 - od_slider_factor attrs)
          * lm_powf lm (lit 1 1 - improperly_followed_sliders self / od_aim_difficult_slider_count attrs) (lit 3 1)
          + od_slider_factor attrs)
        else od_aim attrs)"

text \<open>The bonus for blinds.\<close>

definition blinds_bonus :: "libm \<Rightarrow> ('l, 'i, 'g) osu_calculator \<Rightarrow> f64" where
  "blinds_bonus lm self = lit 13 10
     + (osu_total self * (lit 16 10000 / (lit 1 1 + lit 2 1 * oc_effective_miss_count self)) * lm_powf lm (oc_acc self) (lit 16 1))
       * (lit 1 1 - lit 3 1000 * od_hp (oc_attrs self) * od_hp (oc_attrs self))"

definition compute_aim_value_vanilla ::
  "('l, 'i, 'g) rosu_mods \<Rightarrow> libm \<Rightarrow> ('l, 'i, 'g) osu_calculator \<Rightarrow> f64 \<Rightarrow> f64" where
  "compute_aim_value_vanilla api lm self slider_breaks =
    (if ap api (oc_mods self) then lit 0 1
     else let attrs = oc_attrs self; s = oc_state self; em = oc_effective_miss_count self;
              total_hits = osu_total self;
              aim_value = lit 4 1 * lm_powi lm (nerfed_aim_difficulty lm self) 3;
              length_bonus = lit 95 100 + lit 35 100 * fmin (total_hits / lit 2000 1) (lit 1 1)
                + (if lit 2000 1 < total_hits then lm_log10 lm (total_hits / lit 2000 1) * lit 5 10 else lit 0 1);
              aim_value = aim_value * length_bonus;
              aim_value = (if lit 0 1 < em
                then aim_value * miss_penalty lm
                  (fmin (em + slider_breaks) (total_imperfect_hits s + f64_of_u32 (n_large_tick_miss attrs s)))
                  (od_aim_difficult_strain_count attrs)
                else aim_value);
              aim_value = (if bl api (oc_mods self) then aim_value * blinds_bonus lm self
                else if tc api (oc_mods self)
                then aim_value * (lit 1 1 + traceable_bonus lm self (od_slider_factor attrs))
                else aim_value)
          in aim_value * oc_acc self)"

section \<open>Speed\<close>

definition compute_speed_value_vanilla ::
  "('l, 'i, 'g) rosu_mods \<Rightarrow> libm \<Rightarrow> ('l, 'i, 'g) osu_calculator \<Rightarrow> f64 option \<Rightarrow> f64 \<Rightarrow> f64" where
  "compute_speed_value_vanilla api lm self speed_deviation slider_breaks =
    (case speed_deviation of None \<Rightarrow> lit 0 1
     | Some deviation \<Rightarrow>
         let attrs = oc_attrs self; s = oc_state self; em = oc_effective_miss_count self;
             speed_value = lit 4 1 * lm_powi lm (od_speed attrs) 3;
             speed_value = (if lit 0 1 < em
               then speed_value * miss_penalty lm
                 (fmin (em + slider_breaks) (total_imperfect_hits s + f64_of_u32 (n_large_tick_miss attrs s)))
                 (od_speed_difficult_strain_count attrs)
               else speed_value);
             speed_value = (if bl api (oc_mods self) then speed_value * lit 112 100 else speed_value);
             speed_value = speed_value * high_deviation_nerf_vanilla lm self deviation;
             window = lit 20 1 * lm_powf lm (lit 4 1 / od_speed attrs) (lit 35 100);
             effective_accuracy = erf lm (window / deviation)
         in speed_value * lm_powi lm effective_accuracy 2)"

section \<open>Accuracy, flashlight and reading\<close>

text \<open>The numerator is computed on \<open>i32\<close>; a negative percentage becomes zero.\<close>

definition better_acc_percentage :: "osu_score_state \<Rightarrow> u32 \<Rightarrow> f64" where
  "better_acc_percentage s amount =
    (if amount \<noteq> 0
     then f64_of_i32 ((os_n300 s - smax (osu_total_hits s - amount) 0) * 6 + os_n100 s * 2 + os_n50 s)
       / f64_of_u32 (amount * 6)
     else lit 0 1)"

definition compute_accuracy_value_vanilla ::
  "('l, 'i, 'g) rosu_mods \<Rightarrow> libm \<Rightarrow> ('l, 'i, 'g) osu_calculator \<Rightarrow> f64" where
  "compute_accuracy_value_vanilla api lm self =
    (let attrs = oc_attrs self;
         amount = (if \<not> oc_using_classic_slider_acc self \<or> has_score_v2 api (oc_mods self)
           then od_n_circles attrs + od_n_sliders attrs else od_n_circles attrs);
         percentage = fmax (better_acc_percentage (oc_state self) amount) (lit 0 1);
         od = (lit 795 10 - od_great_hit_window attrs) / lit 6 1;
         acc_value = lm_powf lm (lit 152163 100000) od * lm_powf lm percentage (lit 24 1) * lit 283 100;
         ratio = f64_of_u32 amount / lit 1000 1;
         acc_value = acc_value * (if amount < 1000 then lm_powf lm ratio (lit 3 10) else lm_powf lm ratio (lit 1 10))
     in if bl api (oc_mods self) then acc_value * lit 114 100
        else if tc api (oc_mods self)
        then acc_value * (lit 1 1 + lit 8 100 * reverse_lerp (od_ar attrs) (lit 115 10) (lit 10 1))
        else acc_value)"

definition compute_flashlight_value_vanilla ::
  "('l, 'i, 'g) rosu_mods \<Rightarrow> libm \<Rightarrow> ('l, 'i, 'g) osu_calculator \<Rightarrow> f64" where
  "compute_flashlight_value_vanilla api lm self =
    (if \<not> fl api (oc_mods self) then lit 0 1
     else let em = oc_effective_miss_count self;
              value = lit 25 1 * lm_powi lm (od_flashlight (oc_attrs self)) 2;
              value = (if lit 0 1 < em
                then value * (lit 97 100 * lm_powf lm (lit 1 1 - lm_powf lm (em / osu_total self) (lit 775 1000))
                  (lm_powf lm em (lit 875 1000)))
                else value);
              value = value * combo_scaling_factor lm self
          in value * (lit 5 10 + oc_acc self / lit 2 1))"

definition compute_reading_value_vanilla :: "libm \<Rightarrow> ('l, 'i, 'g) osu_calculator \<Rightarrow> f64 \<Rightarrow> f64" where
  "compute_reading_value_vanilla lm self slider_breaks =
    (let em = oc_effective_miss_count self;
         value = lit 4 1 * lm_powi lm (od_reading (oc_attrs self)) 3;
         value = (if lit 0 1 < em
           then value * miss_penalty lm (em + slider_breaks) (od_reading_difficult_note_count (oc_attrs self))
           else value)
     in value * lm_powi lm (oc_acc self) 3)"

text \<open>Two or four values under a power mean with exponent 1.1.\<close>

definition norm_pnorm :: "libm \<Rightarrow> f64 \<Rightarrow> f64 list \<Rightarrow> f64" where
  "norm_pnorm lm p values = lm_powf lm (fsum (map (\<lambda>v. lm_powf lm v p) values)) (lit 1 1 / p)"

definition sum_cognition_difficulty :: "libm \<Rightarrow> f64 \<Rightarrow> f64 \<Rightarrow> f64" where
  "sum_cognition_difficulty lm reading flashlight =
    (if reading \<le> lit 0 1 then flashlight
     else if flashlight \<le> lit 0 1 then reading
     else norm_pnorm lm (lit 11 10)
       [reading, flashlight * fclamp (flashlight / reading) (lit 25 100) (lit 1 1)])"

section \<open>Scores without the relax mod\<close>

definition calculate_vanilla ::
  "('l, 'i, 'g) rosu_mods \<Rightarrow> libm \<Rightarrow> ('l, 'i, 'g) osu_calculator \<Rightarrow> osu_performance_attributes" where
  "calculate_vanilla api lm self =
    (let attrs = oc_attrs self; m = oc_mods self; em = oc_effective_miss_count self;
         hits = osu_total self;
         multiplier = lit 112 100;
         multiplier = (if nf api m then multiplier * fmax (lit 1 1 - lit 2 100 * em) (lit 9 10) else multiplier);
         multiplier = (if so api m \<and> lit 0 1 < hits
           then multiplier * (lit 1 1 - lm_powf lm (f64_of_u32 (od_n_spinners attrs) / hits) (lit 85 100))
           else multiplier);
         (aim_breaks, speed_breaks) = (if lit 0 1 < em
           then (estimated_slider_breaks lm self (od_aim_top_weighted_slider_factor attrs),
             estimated_slider_breaks lm self (od_speed_top_weighted_slider_factor attrs))
           else (lit 0 1, lit 0 1));
         speed_deviation = calculate_speed_deviation lm self;
         aim_value = compute_aim_value_vanilla api lm self aim_breaks;
         speed_value = compute_speed_value_vanilla api lm self speed_deviation speed_breaks;
         acc_value = compute_accuracy_value_vanilla api lm self;
         reading_value = compute_reading_value_vanilla lm self aim_breaks;
         flashlight_value = compute_flashlight_value_vanilla api lm self;
         cognition_value = sum_cognition_difficulty lm reading_value flashlight_value;
         total_norm = norm_pnorm lm (lit 11 10) [aim_value, speed_value, acc_value, cognition_value]
     in \<lparr>oa_difficulty = attrs, oa_pp = total_norm * multiplier, oa_pp_acc = acc_value, oa_pp_aim = aim_value,
          oa_pp_flashlight = flashlight_value, oa_pp_speed = speed_value, oa_pp_reading = reading_value,
          oa_effective_miss_count = em,
          oa_combo_based_estimated_miss_count = oc_combo_based_estimated_miss_count self,
          oa_score_based_estimated_miss_count = oc_score_based_estimated_miss_count self,
          oa_aim_estimated_slider_breaks = aim_breaks, oa_speed_estimated_slider_breaks = speed_breaks,
          oa_speed_deviation = speed_deviation\<rparr>)"

section \<open>Scores with the relax mod\<close>

definition osu_od :: "osu_difficulty_attributes \<Rightarrow> f64" where
  "osu_od attrs = (lit 80 1 - od_great_hit_window attrs) / lit 6 1"

definition relax_len_bonus :: "libm \<Rightarrow> f64 \<Rightarrow> f64" where
  "relax_len_bonus lm hits = lit 95 100 + lit 4 10 * fmin (hits / lit 2000 1) (lit 1 1)
     + (if lit 2000 1 < hits then lit 1 1 else lit 0 1) * lm_log10 lm (hits / lit 2000 1) * lit 5 10"

definition compute_aim_value :: "('l, 'i, 'g) rosu_mods \<Rightarrow> libm \<Rightarrow> ('l, 'i, 'g) osu_calculator \<Rightarrow> f64" where
  "compute_aim_value api lm self =
    (if ap api (oc_mods self) then lit 0 1
     else let attrs = oc_attrs self; m = oc_mods self; em = oc_effective_miss_count self;
              hits = osu_total self;
              aim_value = cubic_performance lm (nerfed_aim_difficulty lm self);
              len_bonus = relax_len_bonus lm hits;
              aim_value = aim_value * len_bonus;
              aim_value = (if lit 0 1 < em
                then aim_value * miss_penalty lm em (od_aim_difficult_strain_count attrs) else aim_value);
              aim_value = (if lit 0 1 < em
                then (if rx api m then aim_value * relax_miss_penalty lm hits em
                  else aim_value * miss_penalty lm em (od_aim_difficult_strain_count attrs))
                else aim_value);
              ar_factor = (if lit 1033 100 < od_ar attrs then lit 3 10 * (od_ar attrs - lit 1033 100)
                else if od_ar attrs < lit 8 1 then lit 5 100 * (lit 8 1 - od_ar attrs) else lit 0 1);
              aim_value = aim_value * (lit 1 1 + ar_factor * len_bonus);
              aim_value = (if bl api m then aim_value * blinds_bonus lm self
                else if hd_mod api m \<or> tc api m
                then aim_value * (lit 1 1 + lit 4 100 * (lit 12 1 - od_ar attrs)) else aim_value);
              aim_value = aim_value * oc_acc self
          in aim_value * (lit 98 100 + lm_powf lm (fmax (lit 0 1) (osu_od attrs)) (lit 2 1) / lit 2500 1))"

text \<open>The hits that count for speed, all others being assumed to be the best ones.\<close>

definition relevant_speed_acc :: "osu_difficulty_attributes \<Rightarrow> osu_score_state \<Rightarrow> f64" where
  "relevant_speed_acc attrs s =
    (let notes = od_speed_note_count attrs;
         diff = fmax (lit 0 1) (f64_of_u32 (osu_total_hits s) - notes);
         n300 = fmax (f64_of_u32 (os_n300 s) - diff) (lit 0 1);
         n100 = fmax (f64_of_u32 (os_n100 s) - fmax (diff - f64_of_u32 (os_n300 s)) (lit 0 1)) (lit 0 1);
         n50 = fmax (f64_of_u32 (os_n50 s) - fmax (diff - f64_of_u32 (os_n300 s + os_n100 s)) (lit 0 1)) (lit 0 1)
     in if float_eq notes (lit 0 1) then lit 0 1
        else (n300 * lit 6 1 + n100 * lit 2 1 + n50) / (notes * lit 6 1))"

definition compute_speed_value ::
  "('l, 'i, 'g) rosu_mods \<Rightarrow> libm \<Rightarrow> ('l, 'i, 'g) osu_calculator \<Rightarrow> f64 option \<Rightarrow> f64" where
  "compute_speed_value api lm self speed_deviation =
    (case (if rx api (oc_mods self) then None else speed_deviation) of None \<Rightarrow> lit 0 1
     | Some deviation \<Rightarrow>
         let attrs = oc_attrs self; m = oc_mods self; em = oc_effective_miss_count self;
             hits = osu_total self;
             speed_value = cubic_performance lm (od_speed attrs);
             len_bonus = relax_len_bonus lm hits;
             speed_value = speed_value * len_bonus;
             speed_value = (if lit 0 1 < em
               then (if rx api m then speed_value * relax_miss_penalty lm hits em
                 else speed_value * miss_penalty lm em (od_speed_difficult_strain_count attrs))
               else speed_value);
             ar_factor = (if lit 1033 100 < od_ar attrs then lit 3 10 * (od_ar attrs - lit 1033 100) else lit 0 1);
             speed_value = speed_value * (lit 1 1 + ar_factor * len_bonus);
             speed_value = (if bl api m then speed_value * lit 112 100
               else if hd_mod api m \<or> tc api m
               then speed_value * (lit 1 1 + lit 4 100 * (lit 12 1 - od_ar attrs)) else speed_value);
             speed_value = speed_value * high_deviation_nerf lm self deviation;
             od = osu_od attrs
         in speed_value * ((lit 95 100 + lm_powf lm (fmax (lit 0 1) od) (lit 2 1) / lit 750 1)
              * lm_powf lm ((oc_acc self + relevant_speed_acc attrs (oc_state self)) / lit 2 1)
                  ((lit 145 10 - od) / lit 2 1)))"

definition compute_accuracy_value :: "('l, 'i, 'g) rosu_mods \<Rightarrow> libm \<Rightarrow> ('l, 'i, 'g) osu_calculator \<Rightarrow> f64" where
  "compute_accuracy_value api lm self =
    (let attrs = oc_attrs self; m = oc_mods self;
         amount = (if \<not> oc_using_classic_slider_acc self then od_n_circles attrs + od_n_sliders attrs else od_n_circles attrs);
         percentage = better_acc_percentage (oc_state self) amount;
         percentage = (if percentage < lit 0 1 then lit 0 1 else percentage);
         acc_value = lm_powf lm (lit 152163 100000) (osu_od attrs) * lm_powf lm percentage (lit 24 1) * lit 283 100;
         acc_value = acc_value * fmin (lm_powf lm (f64_of_u32 amount / lit 1000 1) (lit 3 10)) (lit 115 100);
         acc_value = (if bl api m then acc_value * lit 114 100
           else if hd_mod api m \<or> tc api m then acc_value * lit 108 100 else acc_value)
     in if fl api m then acc_value * lit 102 100 else acc_value)"

definition calculate_relax ::
  "('l, 'i, 'g) rosu_mods \<Rightarrow> libm \<Rightarrow> ('l, 'i, 'g) osu_calculator \<Rightarrow> osu_performance_attributes" where
  "calculate_relax api lm self =
    (let attrs = oc_attrs self; m = oc_mods self in
     if osu_total_hits (oc_state self) = 0 then osu_no_performance attrs
     else let hits = osu_total self;
              multiplier = lit 115 100;
              multiplier = (if so api m \<and> lit 0 1 < hits
                then multiplier * (lit 1 1 - lm_powf lm (f64_of_u32 (od_n_spinners attrs) / hits) (lit 85 100))
                else multiplier);
              speed_deviation = calculate_speed_deviation lm self;
              aim_value = compute_aim_value api lm self;
              speed_value = compute_speed_value api lm self speed_deviation;
              acc_value = compute_accuracy_value api lm self;
              aim_speed_ratio = aim_value / speed_value;
              (aim_value, speed_value) = (if aim_speed_ratio < lit 1 1
                then (aim_value * aim_speed_ratio, lm_powf lm speed_value (oc_acc self * aim_speed_ratio))
                else (aim_value, speed_value));
              aim_value = lm_powf lm aim_value (lit 11 10);
              acc_value = lm_powf lm acc_value (lit 11 10);
              pp = lm_powf lm (aim_value + speed_value + acc_value) (lit 1 1 / lit 11 10) * multiplier
          in \<lparr>oa_difficulty = attrs, oa_pp = pp, oa_pp_acc = acc_value, oa_pp_aim = aim_value,
               oa_pp_flashlight = lit 0 1, oa_pp_speed = speed_value, oa_pp_reading = lit 0 1,
               oa_effective_miss_count = oc_effective_miss_count self,
               oa_combo_based_estimated_miss_count = oc_combo_based_estimated_miss_count self,
               oa_score_based_estimated_miss_count = oc_score_based_estimated_miss_count self,
               oa_aim_estimated_slider_breaks = lit 0 1, oa_speed_estimated_slider_breaks = lit 0 1,
               oa_speed_deviation = speed_deviation\<rparr>)"

definition osu_calculate ::
  "('l, 'i, 'g) rosu_mods \<Rightarrow> libm \<Rightarrow> ('l, 'i, 'g) osu_calculator \<Rightarrow> osu_performance_attributes" where
  "osu_calculate api lm self =
    (if osu_total_hits (oc_state self) = 0 then osu_no_performance (oc_attrs self)
     else if rx api (oc_mods self) then calculate_relax api lm self
     else calculate_vanilla api lm self)"

section \<open>Estimated misses\<close>

text \<open>
  The misses that the combo suggests. With classic slider accuracy the threshold allows for
  dropped slider ends and the result is capped by the imperfect hits and the possible slider
  breaks; otherwise slider ends are known and missed large ticks count as misses.
\<close>

definition combo_based_miss_count ::
  "libm \<Rightarrow> osu_difficulty_attributes \<Rightarrow> bool \<Rightarrow> osu_score_state \<Rightarrow> f64" where
  "combo_based_miss_count lm attrs using_classic_slider_acc s =
    (let misses = f64_of_u32 (os_misses s); combo = f64_of_u32 (os_max_combo s) in
     if od_n_sliders attrs = 0 then misses
     else if using_classic_slider_acc then
       (let threshold = full_combo_threshold lm attrs;
            count = (if combo < threshold then threshold / fmax combo (lit 1 1) else misses);
            count = fmin count (total_imperfect_hits s)
        in cap_slider_breaks attrs s count)
     else
       (let threshold = f64_of_u32 (od_max_combo attrs - n_slider_ends_dropped attrs s);
            count = (if combo < threshold then threshold / fmax combo (lit 1 1) else misses)
        in fmin count (f64_of_u32 (n_large_tick_miss attrs s + os_misses s))))"

definition osu_origin :: "osu_difficulty_attributes \<Rightarrow> bool \<Rightarrow> bool \<Rightarrow> osu_score_origin" where
  "osu_origin attrs lazer using_classic_slider_acc =
    (if \<not> lazer then Stable
     else if \<not> using_classic_slider_acc then WithSliderAcc (od_n_large_ticks attrs) (od_n_sliders attrs)
     else WithoutSliderAcc (od_n_sliders attrs + od_n_large_ticks attrs) (od_n_sliders attrs))"

definition score_based_miss_count ::
  "('l, 'i, 'g) rosu_mods \<Rightarrow> libm \<Rightarrow> osu_difficulty_attributes \<Rightarrow> ('l, 'i, 'g) game_mods \<Rightarrow> bool \<Rightarrow> bool
    \<Rightarrow> u64 option \<Rightarrow> osu_score_state \<Rightarrow> f64 option" where
  "score_based_miss_count api lm attrs m lazer using_classic_slider_acc legacy_total_score s =
    (if using_classic_slider_acc \<and> \<not> has_score_v2 api m then
       (case legacy_total_score of None \<Rightarrow> None
        | Some score \<Rightarrow>
            let origin = (if lazer
                  then WithoutSliderAcc (od_n_sliders attrs + od_n_large_ticks attrs) (od_n_sliders attrs) else Stable)
            in Some (legacy_miss_count api lm \<lparr>lc_state = s, lc_mods = m, lc_attrs = attrs,
                 lc_accuracy = osu_accuracy s origin, lc_total_score = score\<rparr>))
     else None)"

definition effective_miss_count :: "f64 \<Rightarrow> f64 option \<Rightarrow> osu_score_state \<Rightarrow> f64" where
  "effective_miss_count combo_based score_based s =
    fmin (fmax (unwrap_or combo_based score_based) (f64_of_u32 (os_misses s))) (f64_of_u32 (osu_total_hits s))"

definition osu_calculator_of ::
  "('l, 'i, 'g) rosu_mods \<Rightarrow> libm \<Rightarrow> (('l, 'i, 'g) game_mods, 'map) osu_performance \<Rightarrow> osu_difficulty_attributes
    \<Rightarrow> osu_score_state \<Rightarrow> ('l, 'i, 'g) osu_calculator" where
  "osu_calculator_of api lm self attrs s =
    (let m = d_mods (op_difficulty self);
         lazer = get_lazer (op_difficulty self);
         classic = no_slider_head_acc api m lazer;
         combo_based = combo_based_miss_count lm attrs classic s;
         score_based = score_based_miss_count api lm attrs m lazer classic (op_legacy_total_score self) s
     in \<lparr>oc_attrs = attrs, oc_mods = m, oc_acc = osu_accuracy s (osu_origin attrs lazer classic),
          oc_state = s, oc_effective_miss_count = effective_miss_count combo_based score_based s,
          oc_combo_based_estimated_miss_count = combo_based,
          oc_score_based_estimated_miss_count = score_based,
          oc_using_classic_slider_acc = classic\<rparr>)"

definition osu_performance_calculate ::
  "('l, 'i, 'g) rosu_mods \<Rightarrow> libm
    \<Rightarrow> (('l, 'i, 'g) game_mods difficulty \<Rightarrow> 'map \<Rightarrow> 'e + osu_difficulty_attributes)
    \<Rightarrow> (('l, 'i, 'g) game_mods, 'map) osu_performance \<Rightarrow> 'e + osu_performance_attributes" where
  "osu_performance_calculate api lm calculate_for_mode =
    calculate_with (osu_generate_state (no_slider_head_acc api) calculate_for_mode) op_map_or_attrs op_difficulty
      calculate_for_mode (\<lambda>self attrs s. osu_calculate api lm (osu_calculator_of api lm self attrs s))"

section \<open>What holds of every calculation\<close>

text \<open>
  A calculation needs the attributes twice: to complete the state and then for the points.
  The second time they are stored already.
\<close>

interpretation osu_generator: mode_generator "osu_generate_state off" op_map_or_attrs op_difficulty for off
proof (unfold_locales, goal_cases)
  case (1 calc self attrs m)
  then show ?case using osu_generate_returns [of calc self attrs m off] osu_generate_cases(6) [of off calc self]
    by fastforce
next
  case (2 calc self e)
  then show ?case by (simp add: osu_generate_state_def)
qed

lemma osu_performance_calculate_is:
  assumes "resolve_attrs (calc (op_difficulty self)) (op_map_or_attrs self) = Inr (attrs, m)"
    and "osu_generate_state (no_slider_head_acc api) calc self = Inr (s, self')"
  shows "osu_performance_calculate api lm calc self = Inr (osu_calculate api lm (osu_calculator_of api lm self attrs s))"
proof -
  note g = osu_generate_cases(6) [OF assms(2,1)]
  have c: "osu_calculator_of api lm self' attrs s = osu_calculator_of api lm self attrs s"
    unfolding g by (simp add: osu_calculator_of_def)
  show ?thesis
    using osu_generator.runs_calculator [of calc, OF assms(1), where off = "no_slider_head_acc api"
      and calculator = "\<lambda>self attrs s. osu_calculate api lm (osu_calculator_of api lm self attrs s)"] assms(2)
    by (auto simp: osu_performance_calculate_def c)
qed

lemma f64_of_u32_le: "f64_of_u32 a \<le> f64_of_u32 b \<longleftrightarrow> a \<le> b"
  by (simp only: le_f64_fin f64_of_u32_exact word_le_nat_alt of_nat_le_iff)

lemma fmin_le: "\<not> is_nan y \<Longrightarrow> fmin x y \<le> y"
  by (auto simp: fmin_def less_f64_def less_eq_f64_def)

lemma fmax_ge: "\<not> is_nan y \<Longrightarrow> y \<le> fmax x y"
  by (auto simp: fmax_def less_f64_def less_eq_f64_def)

lemma fmin_ge: "z \<le> x \<Longrightarrow> z \<le> y \<Longrightarrow> z \<le> fmin x y"
  by (auto simp: fmin_def less_eq_f64_def)

lemma effective_miss_count_bounds:
  "effective_miss_count c b s \<le> f64_of_u32 (osu_total_hits s)"
  "os_misses s \<le> osu_total_hits s \<Longrightarrow> f64_of_u32 (os_misses s) \<le> effective_miss_count c b s"
proof -
  have n: "\<not> is_nan (f64_of_u32 w)" for w using f64_of_u32_exact(2) fin_not(1) by blast
  show "effective_miss_count c b s \<le> f64_of_u32 (osu_total_hits s)"
    unfolding effective_miss_count_def by (rule fmin_le [OF n])
  show "f64_of_u32 (os_misses s) \<le> effective_miss_count c b s" if "os_misses s \<le> osu_total_hits s"
    unfolding effective_miss_count_def using that by (intro fmin_ge fmax_ge n) (simp add: f64_of_u32_le)
qed

lemma osu_calculate_misses:
  "osu_total_hits (oc_state c) \<noteq> 0 \<Longrightarrow>
    oa_effective_miss_count (osu_calculate api lm c) = oc_effective_miss_count c"
  by (simp add: osu_calculate_def calculate_relax_def calculate_vanilla_def Let_def split: prod.splits)

text \<open>
  C30. Whatever the mathematical functions return, infinities and NaN included, and whatever
  score is given for the estimate: the misses that enter the points are at least those of the
  state and at most its hits.
\<close>

theorem osu_effective_misses:
  assumes "resolve_attrs (calc (op_difficulty self)) (op_map_or_attrs self) = Inr (attrs, m)"
    and "osu_generate_state (no_slider_head_acc api) calc self = Inr (s, self')"
    and "os_misses s \<le> osu_total_hits s" and "osu_total_hits s \<noteq> 0"
  shows "\<exists>r. osu_performance_calculate api lm calc self = Inr r
    \<and> f64_of_u32 (os_misses s) \<le> oa_effective_miss_count r
    \<and> oa_effective_miss_count r \<le> f64_of_u32 (osu_total_hits s)"
proof -
  have c: "oc_state (osu_calculator_of api lm self attrs s) = s"
    "oc_effective_miss_count (osu_calculator_of api lm self attrs s)
      = effective_miss_count (oc_combo_based_estimated_miss_count (osu_calculator_of api lm self attrs s))
          (oc_score_based_estimated_miss_count (osu_calculator_of api lm self attrs s)) s"
    by (simp_all add: osu_calculator_of_def Let_def)
  show ?thesis
    using assms(3,4)
    by (simp add: osu_performance_calculate_is [OF assms(1,2)] osu_calculate_misses c effective_miss_count_bounds)
qed

text \<open>
  C35. A calculation fails exactly when the conversion of the map does, and with its error; the
  attributes of the map are computed once.
\<close>

theorem osu_calculate_error:
  "osu_performance_calculate api lm calc self = Inl e
    \<longleftrightarrow> (\<exists>bm. op_map_or_attrs self = FromMap bm \<and> calc (op_difficulty self) bm = Inl e)"
  unfolding osu_performance_calculate_def by (rule osu_generator.error_iff)

text \<open>The quotient by zero of a number that is not negative is not below one.\<close>

lemma div_zero_not_less:
  assumes "\<not> x < lit 0 1"
  shows "\<not> x / lit 0 1 < lit 1 1"
proof -
  have z: "magn (lit 0 1) = 0" "\<not> sgn_bit (lit 0 1)" "\<not> is_nan (lit 0 1)"
    by (simp_all add: lit_def f64_eval)
  show ?thesis
  proof (cases "is_nan x \<or> magn x = 0")
    case True
    then show ?thesis by (auto simp: divide_f64_def fdiv_def z less_f64_def Let_def is_nan_def f64_nan_def f64_eval)
  next
    case False
    then have "\<not> sgn_bit x" using assms z by (auto simp: less_f64_def key_def)
    with False show ?thesis
      by (auto simp: divide_f64_def fdiv_def z less_f64_def Let_def key_def lit_def f64_eval is_inf_def)
  qed
qed

text \<open>
  With the relax mod the speed value is always zero, so that the nerf of aim by the ratio of
  aim and speed never applies: unless the aim value is negative, the aim part is the aim value
  under the exponent of the norm, whatever the speed of the map.
\<close>

theorem osu_relax_without_speed:
  assumes "rx api (oc_mods c)" and "osu_total_hits (oc_state c) \<noteq> 0"
    and "\<not> compute_aim_value api lm c < lit 0 1"
  shows "oa_pp_speed (osu_calculate api lm c) = lit 0 1
    \<and> oa_pp_aim (osu_calculate api lm c) = lm_powf lm (compute_aim_value api lm c) (lit 11 10)"
proof -
  have s: "compute_speed_value api lm c d = lit 0 1" for d using assms(1) by (simp add: compute_speed_value_def)
  show ?thesis using assms(1,2) div_zero_not_less [OF assms(3)]
    by (simp add: osu_calculate_def calculate_relax_def Let_def s)
qed


text \<open>
  C31. The subtractions of the calculator on \<open>u32\<close> do not wrap around on a generated
  state, unless the score is a classic one on lazer: slider ends, large ticks and combo of the
  state are at most those of the map.
\<close>

theorem osu_subtractions_do_not_wrap:
  assumes "resolve_attrs (calc (op_difficulty self)) (op_map_or_attrs self) = Inr (attrs, m)"
    and "osu_generate_state off calc self = Inr (s, self')"
    and "\<not> (get_lazer (op_difficulty self) \<and> off (d_mods (op_difficulty self)) True)"
  shows "unat (n_slider_ends_dropped attrs s) + unat (os_slider_end_hits s) = unat (od_n_sliders attrs)
    \<and> unat (n_large_tick_miss attrs s) + unat (os_large_tick_hits s) = unat (od_n_large_ticks attrs)
    \<and> os_max_combo s \<le> od_max_combo attrs"
proof -
  note g = osu_generate_cases [OF assms(2,1)]
  let ?h = "osu_slider_hits_of off self attrs"
  have e: "sh_slider_end_hits ?h \<le> od_n_sliders attrs" "sh_large_tick_hits ?h \<le> od_n_large_ticks attrs"
    using assms(3) unfolding osu_slider_hits_of_def osu_slider_hits_def
    by (cases "op_slider_end_hits self"; cases "op_large_tick_hits self"; auto)+
  have "os_max_combo s \<le> od_max_combo attrs"
    unfolding g(2) by (cases "op_combo self") (simp_all add: word_le_nat_alt)
  with e show ?thesis
    by (simp add: n_slider_ends_dropped_def n_large_tick_miss_def g(3,5) unat_sub_le word_le_nat_alt)
qed

text \<open>
  On a classic score on lazer the judged slider heads count as large ticks, while the number
  of large ticks that are subtracted from does not include them: with all hits made, the number
  of missed large ticks is below zero, so that it is 2 to the power 32 less the sliders where
  arithmetic wraps around.
\<close>

theorem osu_classic_tick_misses_wrap:
  assumes "resolve_attrs (calc (op_difficulty self)) (op_map_or_attrs self) = Inr (attrs, m)"
    and "osu_generate_state off calc self = Inr (s, self')"
    and "get_lazer (op_difficulty self)" "off (d_mods (op_difficulty self)) True"
    and "op_large_tick_hits self = None"
    and "0 < od_n_sliders attrs" "unat (od_n_sliders attrs) + unat (od_n_large_ticks attrs) < 2 ^ 32"
  shows "od_n_large_ticks attrs < os_large_tick_hits s
    \<and> unat (n_large_tick_miss attrs s) = 2 ^ 32 - unat (od_n_sliders attrs)"
proof -
  note g = osu_generate_cases [OF assms(2,1)]
  have h: "os_large_tick_hits s = od_n_sliders attrs + od_n_large_ticks attrs"
    unfolding g(3) using assms(3-5) by (simp add: osu_slider_hits_of_def osu_slider_hits_def)
  have "n_large_tick_miss attrs s = - od_n_sliders attrs" by (simp add: n_large_tick_miss_def h)
  moreover have "unat (- od_n_sliders attrs) = 2 ^ 32 - unat (od_n_sliders attrs)"
    using assms(6) by (simp add: unat_sub_if' [of 0, simplified] word_less_nat_alt)
  moreover have "od_n_large_ticks attrs < os_large_tick_hits s"
    using assms(6,7) by (simp add: h word_less_nat_alt unat_add_small)
  ultimately show ?thesis by simp
qed

section \<open>Witnesses\<close>

definition osu_score :: "mod_name list \<Rightarrow> ((mod_name list, mod_name list, mod_name list) game_mods, unit) osu_performance" where
  "osu_score ms = (osu_from_map_or_attrs (Lazer ms) (FromAttrs osu_example_attrs))\<lparr>op_misses := Some 2\<rparr>"

definition osu_example_state :: osu_score_state where
  "osu_example_state = \<lparr>os_max_combo = 13, os_large_tick_hits = 2, os_small_tick_hits = 0,
     os_slider_end_hits = 3, os_n300 = 8, os_n100 = 0, os_n50 = 0, os_misses = 2\<rparr>"

definition osu_unconverted ::
  "(mod_name list, mod_name list, mod_name list) game_mods difficulty \<Rightarrow> unit
    \<Rightarrow> convert_error + osu_difficulty_attributes" where
  "osu_unconverted _ _ = Inl AlreadyConverted"

lemma osu_score_resolve:
  "resolve_attrs (osu_unconverted (op_difficulty (osu_score ms))) (op_map_or_attrs (osu_score ms))
    = Inr (osu_example_attrs, FromAttrs osu_example_attrs)"
  by (simp add: resolve_attrs_def osu_score_def osu_from_map_or_attrs_def)

lemma osu_score_lazer [simp]:
  "get_lazer (op_difficulty (osu_score ms))" "d_mods (op_difficulty (osu_score ms)) = Lazer ms"
  "op_large_tick_hits (osu_score ms) = None"
  by (simp_all add: osu_score_def osu_from_map_or_attrs_def get_lazer_def difficulty_new_def)

lemma osu_score_state:
  assumes "Classic \<notin> set ms"
  obtains self' where "osu_generate_state (no_slider_head_acc listed_mods) osu_unconverted (osu_score ms)
    = Inr (osu_example_state, self')"
proof -
  have sel: "op_acc (osu_score ms) = None" "op_combo (osu_score ms) = None" "op_n300 (osu_score ms) = None"
    "op_n100 (osu_score ms) = None" "op_n50 (osu_score ms) = None" "op_misses (osu_score ms) = Some 2"
    "op_slider_end_hits (osu_score ms) = None" "op_small_tick_hits (osu_score ms) = None"
    "op_priority (osu_score ms) = BestCase" "get_passed_objects (op_difficulty (osu_score ms)) = - 1"
    by (simp_all add: osu_score_def osu_from_map_or_attrs_def get_passed_objects_def difficulty_new_def)
  have "\<exists>self'. osu_generate_state (no_slider_head_acc listed_mods) osu_unconverted (osu_score ms)
    = Inr (osu_example_state, self')"
    using assms unfolding osu_generate_state_def osu_score_resolve
    by (simp add: Let_def sel osu_hits_def osu_hits_no_acc_def osu_slider_hits_def
      ucast_max osu_n_objects_def min_def word_le_nat_alt osu_example_attrs_def
      unsigned_minus_1_eq_mask mask_eq_exp_minus_1 saturating_sub_def osu_example_state_def)
  then show ?thesis using that by blast
qed

theorem osu_effective_misses_witness:
  "\<forall>lm. \<exists>r. osu_performance_calculate listed_mods lm osu_unconverted (osu_score []) = Inr r
    \<and> f64_of_u32 2 \<le> oa_effective_miss_count r \<and> oa_effective_miss_count r \<le> f64_of_u32 10"
proof
  fix lm
  obtain self' where g: "osu_generate_state (no_slider_head_acc listed_mods) osu_unconverted (osu_score [])
    = Inr (osu_example_state, self')" by (rule osu_score_state [of "[]"]) simp
  show "\<exists>r. osu_performance_calculate listed_mods lm osu_unconverted (osu_score []) = Inr r
    \<and> f64_of_u32 2 \<le> oa_effective_miss_count r \<and> oa_effective_miss_count r \<le> f64_of_u32 10"
    using osu_effective_misses [OF osu_score_resolve g, of lm]
    by (simp add: osu_example_state_def osu_total_hits_def)
qed

theorem osu_subtractions_do_not_wrap_witness:
  "\<exists>self'. osu_generate_state (no_slider_head_acc listed_mods) osu_unconverted (osu_score []) = Inr (osu_example_state, self')
    \<and> os_max_combo osu_example_state \<le> od_max_combo osu_example_attrs"
proof -
  obtain self' where g: "osu_generate_state (no_slider_head_acc listed_mods) osu_unconverted (osu_score [])
    = Inr (osu_example_state, self')" by (rule osu_score_state [of "[]"]) simp
  show ?thesis using osu_subtractions_do_not_wrap [OF osu_score_resolve g] g by simp
qed

theorem osu_classic_tick_misses_wrap_witness:
  "\<exists>s self'. osu_generate_state (no_slider_head_acc listed_mods) osu_unconverted (osu_score [Classic]) = Inr (s, self')
    \<and> unat (n_large_tick_miss osu_example_attrs s) = 4294967293"
proof -
  obtain s self' where g: "osu_generate_state (no_slider_head_acc listed_mods) osu_unconverted (osu_score [Classic])
    = Inr (s, self')" using osu_generate_returns [of osu_unconverted, OF osu_score_resolve] by blast
  show ?thesis using osu_classic_tick_misses_wrap [OF osu_score_resolve g] g
    by (simp add: osu_example_attrs_def)
qed

definition osu_relax_example :: "libm \<Rightarrow> (mod_name list, mod_name list, mod_name list) osu_calculator" where
  "osu_relax_example lm = (osu_calculator_of listed_mods lm (osu_score [Relax]) osu_example_attrs osu_example_state)
     \<lparr>oc_mods := Lazer [Relax, Autopilot]\<rparr>"

theorem osu_relax_without_speed_witness:
  "\<forall>lm. oa_pp_speed (osu_calculate listed_mods lm (osu_relax_example lm)) = lit 0 1"
proof
  fix lm
  have "\<not> compute_aim_value listed_mods lm (osu_relax_example lm) < lit 0 1"
    by (simp add: compute_aim_value_def osu_relax_example_def ap_def less_f64_def)
  then show "oa_pp_speed (osu_calculate listed_mods lm (osu_relax_example lm)) = lit 0 1"
    using osu_relax_without_speed [of listed_mods "osu_relax_example lm" lm]
    by (simp add: osu_relax_example_def osu_calculator_of_def Let_def rx_def osu_example_state_def osu_total_hits_def)
qed

end
