(* ===== verification/Taiko_Performance.thy ===== *)
theory Taiko_Performance
  imports Hit_Results
begin

text \<open>
  The performance settings of osu!taiko and the generation of a score state from partial
  information (\<open>src/taiko/performance/mod.rs\<close>). The difficulty calculation that runs for
  a map is the argument \<open>calculate_for_mode\<close>.
\<close>

record taiko_difficulty_attributes =
  td_stamina :: f64
  td_rhythm :: f64
  td_color :: f64
  td_reading :: f64
  td_great_hit_window :: f64
  td_ok_hit_window :: f64
  td_mono_stamina_factor :: f64
  td_mechanical_difficulty :: f64
  td_stamina_top_strains :: f64
  td_consistency_factor :: f64
  td_stars :: f64
  td_max_combo :: u32
  td_is_convert :: bool

record ('mods, 'map) taiko_performance =
  tp_map_or_attrs :: "('map, taiko_difficulty_attributes) map_or_attrs"
  tp_difficulty :: "'mods difficulty"
  tp_combo :: "u32 option"
  tp_acc :: "f64 option"
  tp_priority :: hit_result_priority
  tp_n300 :: "u32 option"
  tp_n100 :: "u32 option"
  tp_misses :: "u32 option"

section \<open>Settings\<close>

definition taiko_set_combo ::
  "u32 \<Rightarrow> ('mods, 'map) taiko_performance \<Rightarrow> ('mods, 'map) taiko_performance" where
  "taiko_set_combo v self = self\<lparr>tp_combo := Some v\<rparr>"

definition taiko_set_n300 ::
  "u32 \<Rightarrow> ('mods, 'map) taiko_performance \<Rightarrow> ('mods, 'map) taiko_performance" where
  "taiko_set_n300 v self = self\<lparr>tp_n300 := Some v\<rparr>"

definition taiko_set_n100 ::
  "u32 \<Rightarrow> ('mods, 'map) taiko_performance \<Rightarrow> ('mods, 'map) taiko_performance" where
  "taiko_set_n100 v self = self\<lparr>tp_n100 := Some v\<rparr>"

definition taiko_set_misses ::
  "u32 \<Rightarrow> ('mods, 'map) taiko_performance \<Rightarrow> ('mods, 'map) taiko_performance" where
  "taiko_set_misses v self = self\<lparr>tp_misses := Some v\<rparr>"

definition taiko_set_difficulty ::
  "'mods difficulty \<Rightarrow> ('mods, 'map) taiko_performance \<Rightarrow> ('mods, 'map) taiko_performance" where
  "taiko_set_difficulty v self = self\<lparr>tp_difficulty := v\<rparr>"

definition taiko_set_mods ::
  "'mods \<Rightarrow> ('mods, 'map) taiko_performance \<Rightarrow> ('mods, 'map) taiko_performance" where
  "taiko_set_mods v self = self\<lparr>tp_difficulty := set_mods v (tp_difficulty self)\<rparr>"

definition taiko_set_passed_objects ::
  "u32 \<Rightarrow> ('mods, 'map) taiko_performance \<Rightarrow> ('mods, 'map) taiko_performance" where
  "taiko_set_passed_objects v self = self\<lparr>tp_difficulty := set_passed_objects v (tp_difficulty self)\<rparr>"

definition taiko_set_clock_rate ::
  "f64 \<Rightarrow> ('mods, 'map) taiko_performance \<Rightarrow> ('mods, 'map) taiko_performance" where
  "taiko_set_clock_rate v self = self\<lparr>tp_difficulty := set_clock_rate v (tp_difficulty self)\<rparr>"

definition taiko_set_hp ::
  "f32 \<Rightarrow> bool \<Rightarrow> ('mods, 'map) taiko_performance \<Rightarrow> ('mods, 'map) taiko_performance" where
  "taiko_set_hp v with_mods self = self\<lparr>tp_difficulty := set_hp v with_mods (tp_difficulty self)\<rparr>"

definition taiko_set_od ::
  "f32 \<Rightarrow> bool \<Rightarrow> ('mods, 'map) taiko_performance \<Rightarrow> ('mods, 'map) taiko_performance" where
  "taiko_set_od v with_mods self = self\<lparr>tp_difficulty := set_od v with_mods (tp_difficulty self)\<rparr>"

definition taiko_set_priority ::
  "hit_result_priority \<Rightarrow> ('mods, 'map) taiko_performance \<Rightarrow> ('mods, 'map) taiko_performance" where
  "taiko_set_priority v self = self\<lparr>tp_priority := v\<rparr>"

definition taiko_set_accuracy ::
  "f64 \<Rightarrow> ('mods, 'map) taiko_performance \<Rightarrow> ('mods, 'map) taiko_performance" where
  "taiko_set_accuracy acc self = self\<lparr>tp_acc := Some (acc_fraction acc)\<rparr>"

definition taiko_set_state ::
  "taiko_score_state \<Rightarrow> ('mods, 'map) taiko_performance \<Rightarrow> ('mods, 'map) taiko_performance" where
  "taiko_set_state s self = self\<lparr>tp_combo := Some (ts_max_combo s), tp_n300 := Some (ts_n300 s),
     tp_n100 := Some (ts_n100 s), tp_misses := Some (ts_misses s)\<rparr>"

definition taiko_from_map_or_attrs ::
  "'mods \<Rightarrow> ('map, taiko_difficulty_attributes) map_or_attrs \<Rightarrow> ('mods, 'map) taiko_performance" where
  "taiko_from_map_or_attrs default_mods m = \<lparr>tp_map_or_attrs = m,
     tp_difficulty = difficulty_new default_mods, tp_combo = None, tp_acc = None,
     tp_priority = BestCase, tp_n300 = None, tp_n100 = None, tp_misses = None\<rparr>"

section \<open>Generating a state\<close>

definition taiko_hit_accuracy :: "u32 \<Rightarrow> u32 \<Rightarrow> u32 \<Rightarrow> f64" where
  "taiko_hit_accuracy n300 n100 misses =
    (if n300 + n100 + misses = 0 then lit 0 1
     else let numerator = 2 * n300 + n100;
              denominator = 2 * (n300 + n100 + misses)
          in f64_of_u32 numerator / f64_of_u32 denominator)"

text \<open>
  The closest split of the remaining hits into 300s and 100s, where neither was given. The
  pair is \<open>(n300, n100)\<close>.
\<close>

definition taiko_candidates :: "f64 \<Rightarrow> u32 \<Rightarrow> u32 \<Rightarrow> (u32 \<times> u32) list" where
  "taiko_candidates acc tot n_remaining =
    (let target_total = acc * f64_of_u32 (2 * tot);
         raw_n300 = target_total - f64_of_u32 n_remaining;
         min_n300 = min n_remaining (as_u32 (ffloor raw_n300));
         max_n300 = min n_remaining (as_u32 (fceil raw_n300))
     in map (\<lambda>new300. (new300, n_remaining - new300)) (u32_range min_n300 max_n300))"

definition taiko_closest :: "f64 \<Rightarrow> u32 \<Rightarrow> u32 \<Rightarrow> u32 \<Rightarrow> u32 \<times> u32 \<Rightarrow> u32 \<times> u32" where
  "taiko_closest acc tot n_remaining misses =
    closest f64_max (\<lambda>(new300, new100). abs (acc - taiko_hit_accuracy new300 new100 misses))
      (taiko_candidates acc tot n_remaining)"

definition taiko_hits ::
  "u32 \<Rightarrow> hit_result_priority \<Rightarrow> f64 option \<Rightarrow> u32 option \<Rightarrow> u32 option \<Rightarrow> u32 option \<Rightarrow> u32 \<times> u32 \<times> u32" where
  "taiko_hits tot priority acc0 given300 given100 given_misses =
    (let misses = map_or 0 (\<lambda>n. min n tot) given_misses;
         n_remaining = tot - misses;
         n300 = map_or 0 (\<lambda>n. min n n_remaining) given300;
         n100 = map_or 0 (\<lambda>n. min n n_remaining) given100
     in case acc0 of
        Some acc \<Rightarrow> (case (given300, given100) of
            (Some _, Some _) \<Rightarrow>
              (let remaining = saturating_sub tot (n300 + n100 + misses)
               in case priority of
                  BestCase \<Rightarrow> (n300 + remaining, n100, misses)
                | WorstCase \<Rightarrow> (n300, n100 + remaining, misses))
          | (Some _, None) \<Rightarrow> (n300, n100 + saturating_sub tot (n300 + misses), misses)
          | (None, Some _) \<Rightarrow> (n300 + saturating_sub tot (n100 + misses), n100, misses)
          | (None, None) \<Rightarrow>
              (case taiko_closest acc tot n_remaining misses (n300, n100) of
                 (n300, n100) \<Rightarrow> (n300, n100, misses)))
      | None \<Rightarrow>
          (let remaining = saturating_sub tot (n300 + n100 + misses)
           in case priority of
              BestCase \<Rightarrow> (case (given300, given100) of
                  (None, _) \<Rightarrow> (remaining, n100, misses)
                | (_, None) \<Rightarrow> (n300, remaining, misses)
                | _ \<Rightarrow> (n300 + remaining, n100, misses))
            | WorstCase \<Rightarrow> (case (given100, given300) of
                  (None, _) \<Rightarrow> (n300, remaining, misses)
                | (_, None) \<Rightarrow> (remaining, n100, misses)
                | _ \<Rightarrow> (n300, n100 + remaining, misses))))"

definition taiko_generate_state ::
  "('mods difficulty \<Rightarrow> 'map \<Rightarrow> 'e + taiko_difficulty_attributes)
    \<Rightarrow> ('mods, 'map) taiko_performance
    \<Rightarrow> 'e + taiko_score_state \<times> ('mods, 'map) taiko_performance" where
  "taiko_generate_state calculate_for_mode self =
    (case resolve_attrs (calculate_for_mode (tp_difficulty self)) (tp_map_or_attrs self) of
       Inl e \<Rightarrow> Inl e
     | Inr (attrs, map_or_attrs') \<Rightarrow>
        (let max_combo = td_max_combo attrs;
             total_result_count = min (ucast (get_passed_objects (tp_difficulty self))) max_combo;
             (n300, n100, misses) = taiko_hits total_result_count (tp_priority self) (tp_acc self)
               (tp_n300 self) (tp_n100 self) (tp_misses self);
             max_possible_combo = saturating_sub max_combo misses;
             max_combo = map_or max_possible_combo (\<lambda>combo. min combo max_possible_combo) (tp_combo self)
         in Inr (\<lparr>ts_max_combo = max_combo, ts_n300 = n300, ts_n100 = n100, ts_misses = misses\<rparr>,
              self\<lparr>tp_map_or_attrs := map_or_attrs', tp_combo := Some max_combo,
                tp_n300 := Some n300, tp_n100 := Some n100, tp_misses := Some misses\<rparr>)))"

section \<open>Totals\<close>

lemma taiko_candidates_set:
  "c \<in> set (taiko_candidates acc tot r) \<Longrightarrow> fst c \<le> r \<and> snd c = r - fst c"
  by (auto simp: taiko_candidates_def Let_def)

lemma taiko_candidates_nonempty: "taiko_candidates acc tot r \<noteq> []"
proof -
  let ?x = "acc * f64_of_u32 (2 * tot) - f64_of_u32 r"
  have "as_u32 (ffloor ?x) \<le> as_u32 (fceil ?x)"
    using floor_le_ceil as_u32_nan by (cases "is_nan ?x") auto
  then have "min r (as_u32 (ffloor ?x)) \<le> min r (as_u32 (fceil ?x))"
    by (simp add: word_le_nat_alt)
  then show ?thesis unfolding taiko_candidates_def Let_def
    using u32_range_nonempty by simp
qed

lemma taiko_hit_accuracy_unit:
  assumes "2 * (unat n300 + unat n100 + unat misses) < 4294967296"
  shows "unit_fin (taiko_hit_accuracy n300 n100 misses)"
proof (cases "n300 + n100 + misses = 0")
  case True
  then show ?thesis using lit_nat [of 0] by (simp add: taiko_hit_accuracy_def unit_fin_def)
next
  case False
  let ?t = "unat n300 + unat n100 + unat misses"
  have "unat (n300 + n100 + misses) = ?t" using assms by (simp add: unat_arith_small)
  then have "?t \<noteq> 0" using False by (metis unat_eq_zero)
  then show ?thesis unfolding taiko_hit_accuracy_def Let_def if_not_P [OF False] using assms
    by (intro unit_ratio [of _ "2 * ?t" _ "2 * unat n300 + unat n100"]) (auto simp: unat_arith_small)
qed

definition taiko_clamped :: "u32 \<Rightarrow> u32 option \<Rightarrow> nat" where
  "taiko_clamped limit given = (case given of None \<Rightarrow> 0 | Some n \<Rightarrow> min (unat n) (unat limit))"

lemma taiko_closest_split:
  assumes "unit_fin acc" "misses \<le> tot" "3 * unat tot < 4294967296" "r = tot - misses"
    and c: "taiko_closest acc tot r misses start = (n300, n100)"
  shows "unat n300 + unat n100 = unat r"
proof -
  let ?cs = "taiko_candidates acc tot r"
  let ?d = "\<lambda>(new300, new100). abs (acc - taiko_hit_accuracy new300 new100 misses)"
  have sum: "unat (fst c) + unat (snd c) = unat r" if "c \<in> set ?cs" for c
    using taiko_candidates_set [OF that] by (simp add: word_le_nat_alt unat_sub_le)
  have r: "unat r + unat misses = unat tot" using assms(2,4) by (simp add: word_le_nat_alt unat_sub_le)
  have "closest f64_max ?d ?cs start \<in> set ?cs"
  proof (rule closest_all(1) [OF taiko_candidates_nonempty])
    fix c assume "c \<in> set ?cs"
    then have "unit_fin (taiko_hit_accuracy (fst c) (snd c) misses)"
      using sum [of c] r assms(3) by (intro taiko_hit_accuracy_unit) simp
    then show "?d c < f64_max" using unit_dist assms(1) by (simp add: case_prod_unfold)
  qed
  then show ?thesis using sum c by (force simp: taiko_closest_def)
qed

text \<open>
  The branches of the code in one equation: what remains goes to the 300s or to the 100s,
  except where an accuracy alone was given.
\<close>

definition taiko_fills_300 :: "hit_result_priority \<Rightarrow> u32 option \<Rightarrow> u32 option \<Rightarrow> bool" where
  "taiko_fills_300 pr a b \<longleftrightarrow>
    (if (a = None) = (b = None) then pr = BestCase else a = None)"

lemma taiko_hits_eq:
  assumes "ms = map_or 0 (\<lambda>n. min n tot) m" and "r = tot - ms"
    and "x = map_or 0 (\<lambda>n. min n r) a" and "y = map_or 0 (\<lambda>n. min n r) b"
    and "rem = saturating_sub tot (x + y + ms)"
  shows "taiko_hits tot pr acc a b m =
    (if acc \<noteq> None \<and> a = None \<and> b = None
     then case taiko_closest (the acc) tot r ms (0, 0) of (n300, n100) \<Rightarrow> (n300, n100, ms)
     else if taiko_fills_300 pr a b then (x + rem, y, ms) else (x, y + rem, ms))"
  unfolding taiko_hits_def Let_def assms(1) [symmetric] assms(2) [symmetric]
    assms(3) [symmetric] assms(4) [symmetric] taiko_fills_300_def
  by (cases acc; cases a; cases b; cases pr; simp add: assms(3-5))

lemma taiko_hits_total:
  assumes small: "3 * unat tot < 4294967296" and acc: "acc_ok acc"
    and h: "taiko_hits tot pr acc a b m = (n300, n100, misses)"
  shows "unat misses = taiko_clamped tot m"
    and "unat n300 + unat misses \<le> unat tot" "unat n100 + unat misses \<le> unat tot"
    and "unat n300 + unat n100 + unat misses =
      max (unat tot) (taiko_clamped (tot - misses) a + taiko_clamped (tot - misses) b + unat misses)"
proof -
  define ms where "ms = map_or 0 (\<lambda>n. min n tot) m"
  define r where "r = tot - ms"
  define x where "x = map_or 0 (\<lambda>n. min n r) a"
  define y where "y = map_or 0 (\<lambda>n. min n r) b"
  have ms: "ms \<le> tot" by (cases m) (simp_all add: ms_def word_le_nat_alt)
  then have r: "unat r + unat ms = unat tot" by (simp add: r_def word_le_nat_alt unat_sub_le)
  have xy: "unat x = taiko_clamped r a" "unat y = taiko_clamped r b"
    by (cases a; cases b; simp add: x_def y_def taiko_clamped_def)+
  have le: "unat x \<le> unat r" "unat y \<le> unat r"
    by (cases a; cases b; simp add: x_def y_def)+
  have s1: "unat (x + y + ms) = unat x + unat y + unat ms"
    using le r small by (simp add: unat_arith_small)
  let ?rem = "saturating_sub tot (x + y + ms)"
  have rem: "unat ?rem = unat tot - (unat x + unat y + unat ms)" by (simp add: s1)
  have p: "unat (x + ?rem) = unat x + unat ?rem" "unat (y + ?rem) = unat y + unat ?rem"
    using le r small rem by (simp_all add: unat_arith_small)
  have mc: "unat ms = taiko_clamped tot m" by (cases m) (simp_all add: ms_def taiko_clamped_def)
  note eq = taiko_hits_eq [OF ms_def r_def x_def y_def refl, of pr acc, unfolded h]
  have "misses = ms" using eq by (auto split: if_splits prod.splits)
  then show "unat misses = taiko_clamped tot m" by (simp add: mc)
  have *: "misses = ms \<and> unat n300 + unat ms \<le> unat tot \<and> unat n100 + unat ms \<le> unat tot \<and>
    unat n300 + unat n100 + unat ms = max (unat tot) (unat x + unat y + unat ms)"
  proof (cases "acc \<noteq> None \<and> a = None \<and> b = None")
    case True
    then obtain v where v: "acc = Some v" by auto
    have c: "misses = ms" "taiko_closest v tot r ms (0, 0) = (n300, n100)"
      using eq True v by (auto split: prod.splits)
    have "unat n300 + unat n100 = unat r"
      using taiko_closest_split [OF _ ms small r_def c(2)] acc v by (simp add: acc_ok_def)
    then show ?thesis using True r c(1) by (simp add: x_def y_def)
  next
    case F: False
    show ?thesis
    proof (cases "taiko_fills_300 pr a b")
      case True
      then have e: "misses = ms" "n300 = x + ?rem" "n100 = y" using eq F by auto
      show ?thesis unfolding e p rem using le r by (intro conjI refl) linarith+
    next
      case False
      then have e: "misses = ms" "n300 = x" "n100 = y + ?rem" using eq F by auto
      show ?thesis unfolding e p rem using le r by (intro conjI refl) linarith+
    qed
  qed
  then show "unat n300 + unat misses \<le> unat tot" "unat n100 + unat misses \<le> unat tot"
    "unat n300 + unat n100 + unat misses =
      max (unat tot) (taiko_clamped (tot - misses) a + taiko_clamped (tot - misses) b + unat misses)"
    using xy by (simp_all add: r_def)
qed





section \<open>The closest accuracy\<close>

lemma taiko_hit_accuracy_rounds:
  assumes t: "unat n300 + unat n100 + unat misses = T" and T: "0 < T" "2 * T < 4294967296"
  shows "rounds_to (taiko_hit_accuracy n300 n100 misses)
    (real (unat n300 + (unat n300 + unat n100)) / real (2 * T))"
proof -
  have u: "unat (n300 + n100 + misses) = T" using t T by (simp add: unat_arith_small)
  then have nz: "n300 + n100 + misses \<noteq> 0" using T by auto
  have n: "unat (2 * n300 + n100) = unat n300 + (unat n300 + unat n100)"
    and d: "unat (2 * (n300 + n100 + misses)) = 2 * T"
    using t T u by (simp_all add: unat_arith_small)
  have "fval (f64_of_u32 (2 * (n300 + n100 + misses))) = real (2 * T)"
    unfolding f64_of_u32_exact d ..
  then have nzd: "fval (f64_of_u32 (2 * (n300 + n100 + misses))) \<noteq> 0" using T by simp
  have "rounds_to (taiko_hit_accuracy n300 n100 misses)
    (fval (f64_of_u32 (2 * n300 + n100)) / fval (f64_of_u32 (2 * (n300 + n100 + misses))))"
    unfolding taiko_hit_accuracy_def Let_def if_not_P [OF nz]
    by (intro fdiv_rounds f64_of_u32_exact(2) nzd)
  then show ?thesis unfolding f64_of_u32_exact n d .
qed

lemma taiko_window:
  assumes acc: "unit_fin acc" and T: "0 < unat tot" "3 * unat tot < 4294967296"
    and rm: "unat r + unat misses = unat tot" and a: "unat a \<le> unat r"
  obtains j where "(j, r - j) \<in> set (taiko_candidates acc tot r)" "unat j \<le> unat r"
    "\<bar>fval acc - fval (taiko_hit_accuracy j (r - j) misses)\<bar>
      \<le> \<bar>fval acc - fval (taiko_hit_accuracy a (r - a) misses)\<bar>"
proof -
  let ?t = "acc * f64_of_u32 (2 * tot) - f64_of_u32 r"
  let ?acc = "\<lambda>k. taiko_hit_accuracy (word_of_nat k) (r - word_of_nat k) misses"
  have rnd: "rounds_to (?acc k) (real (k + unat r) / real (2 * unat tot))" if "k \<le> unat r" for k
    using taiko_hit_accuracy_rounds [of "word_of_nat k" "r - word_of_nat k" misses "unat tot"]
      u32_below [OF that] that T rm by simp
  have d: "fval (f64_of_u32 (2 * tot)) = real (2 * unat tot)"
    unfolding f64_of_u32_exact using T by (simp add: unat_arith_small)
  have N: "0 < 2 * unat tot" "2 * unat tot < 3000000000" "unat r + unat r \<le> 2 * unat tot"
    using T rm by linarith+
  obtain j where j: "min (unat r) (unat (as_u32 (ffloor ?t))) \<le> j" "j \<le> min (unat r) (unat (as_u32 (fceil ?t)))"
    "\<bar>fval acc - fval (?acc j)\<bar> \<le> \<bar>fval acc - fval (?acc (unat a))\<bar>"
    by (rule count_window [OF acc N rnd f64_of_u32_exact(2) d f64_of_u32_exact(2) f64_of_u32_exact(1) a])
  have jr: "j \<le> unat r" using j(2) by simp
  have "word_of_nat j \<in> set (u32_range (min r (as_u32 (ffloor ?t))) (min r (as_u32 (fceil ?t))))"
    using j(1,2) u32_below(1) [OF jr] by (simp add: word_le_nat_alt)
  then have "(word_of_nat j, r - word_of_nat j) \<in> set (taiko_candidates acc tot r)"
    unfolding taiko_candidates_def Let_def by simp
  then show ?thesis using that [of "word_of_nat j"] j(3) u32_below(1) [OF jr] jr by simp
qed

lemma taiko_closest_closest:
  assumes acc: "unit_fin acc" and m: "misses \<le> tot" and small: "3 * unat tot < 4294967296"
    and r: "r = tot - misses" and c: "taiko_closest acc tot r misses start = (n300, n100)"
    and ab: "unat a + unat b = unat r"
  shows "fval (abs (acc - taiko_hit_accuracy n300 n100 misses))
    \<le> fval (abs (acc - taiko_hit_accuracy a b misses))"
proof (cases "tot = 0")
  case True
  then have "r = 0" "misses = 0" using m r by simp_all
  moreover from this have "n300 = 0" "n100 = 0" "a = 0" "b = 0"
    using taiko_closest_split [OF acc m small r c] ab by (simp_all add: u32_zero)
  ultimately show ?thesis by simp
next
  case False
  let ?f = "\<lambda>(new300, new100). taiko_hit_accuracy new300 new100 misses"
  have T: "0 < unat tot" using False by (simp add: unat_gt_0)
  have rm: "unat r + unat misses = unat tot" using m r by (simp add: word_le_nat_alt unat_sub_le)
  have u: "unit_fin (taiko_hit_accuracy p q misses)" if "unat p + unat q = unat r" for p q
    using that rm small by (intro taiko_hit_accuracy_unit) simp
  have b: "b = r - a" using ab by (simp add: word_unat_eq_iff unat_sub_le word_le_nat_alt)
  obtain j where j: "(j, r - j) \<in> set (taiko_candidates acc tot r)" "unat j \<le> unat r"
    "\<bar>fval acc - fval (taiko_hit_accuracy j (r - j) misses)\<bar>
      \<le> \<bar>fval acc - fval (taiko_hit_accuracy a b misses)\<bar>"
    using taiko_window [OF acc T small rm, of a] ab b by auto
  have uc: "unit_fin (?f c)" if "c \<in> set (taiko_candidates acc tot r)" for c
    using taiko_candidates_set [OF that] u [of "fst c" "snd c"]
    by (simp add: case_prod_unfold word_le_nat_alt unat_sub_le)
  have "(\<lambda>c. \<bar>acc - ?f c\<bar>) = (\<lambda>(new300, new100). \<bar>acc - taiko_hit_accuracy new300 new100 misses\<bar>)"
    by auto
  then have cl: "closest f64_max (\<lambda>c. \<bar>acc - ?f c\<bar>) (taiko_candidates acc tot r) start = (n300, n100)"
    using c by (simp add: taiko_closest_def)
  have "fval (abs (acc - taiko_hit_accuracy n300 n100 misses))
      \<le> fval (abs (acc - taiko_hit_accuracy j (r - j) misses))"
    using closest_unit(2) [of acc f64_max _ ?f _ start, OF acc f64_max_le(1) uc j(1), unfolded cl] by simp
  also have "\<dots> \<le> fval (abs (acc - taiko_hit_accuracy a b misses))"
    using unit_dist_mono [OF acc uc [OF j(1)] u [OF ab]] j(3) by simp
  finally show ?thesis .
qed

section \<open>The properties\<close>

definition taiko_total_of :: "('mods, 'map) taiko_performance \<Rightarrow> taiko_difficulty_attributes \<Rightarrow> u32" where
  "taiko_total_of self attrs = min (ucast (get_passed_objects (tp_difficulty self))) (td_max_combo attrs)"

lemma taiko_generate_state_eq:
  assumes "resolve_attrs (calc (tp_difficulty self)) (tp_map_or_attrs self) = Inr (attrs, m)"
    and "taiko_hits (taiko_total_of self attrs) (tp_priority self) (tp_acc self)
      (tp_n300 self) (tp_n100 self) (tp_misses self) = (n300, n100, misses)"
    and "combo = map_or (saturating_sub (td_max_combo attrs) misses)
      (\<lambda>c. min c (saturating_sub (td_max_combo attrs) misses)) (tp_combo self)"
  shows "taiko_generate_state calc self =
    Inr (\<lparr>ts_max_combo = combo, ts_n300 = n300, ts_n100 = n100, ts_misses = misses\<rparr>,
      self\<lparr>tp_map_or_attrs := m, tp_combo := Some combo, tp_n300 := Some n300, tp_n100 := Some n100,
        tp_misses := Some misses\<rparr>)"
  unfolding taiko_generate_state_def assms(1) sum.case prod.case Let_def
    assms(2) [unfolded taiko_total_of_def] assms(3) [symmetric] by simp

lemma taiko_hits_again:
  assumes small: "3 * unat tot < 4294967296" and acc: "acc_ok acc"
    and h: "taiko_hits tot pr acc a b m = (n300, n100, misses)"
  shows "taiko_hits tot pr acc (Some n300) (Some n100) (Some misses) = (n300, n100, misses)"
proof -
  note t = taiko_hits_total [OF small acc h]
  have m: "unat misses \<le> unat tot" using t(2) by linarith
  have r: "unat (tot - misses) = unat tot - unat misses" using m by (simp add: unat_sub_le word_le_nat_alt)
  have le: "n300 \<le> tot - misses" "n100 \<le> tot - misses" "misses \<le> tot"
    using t(2,3) m r by (simp_all add: word_le_nat_alt)
  have "unat (n300 + n100 + misses) = unat n300 + unat n100 + unat misses"
    using t(2,3) small by (simp add: unat_arith_small)
  then have rem: "saturating_sub tot (n300 + n100 + misses) = 0"
    using t(4) by (simp add: word_unat_eq_iff)
  show ?thesis
    using taiko_hits_eq [of misses tot "Some misses" "tot - misses" n300 "Some n300" n100 "Some n100" 0 pr acc]
      le rem by (simp add: min_absorb1)
qed


text \<open>
  C4. Generating a state again changes nothing: the counts that \<open>generate_state\<close> stores in
  the calculator give the same state and the same calculator, so \<open>calculate\<close> after
  \<open>generate_state\<close> sees the state that was shown.
\<close>

theorem taiko_generate_idempotent:
  assumes "taiko_generate_state calc self = Inr (s, self')"
    and "resolve_attrs (calc (tp_difficulty self)) (tp_map_or_attrs self) = Inr (attrs, m)"
    and "acc_ok (tp_acc self)" and "3 * unat (taiko_total_of self attrs) < 4294967296"
  shows "taiko_generate_state calc self' = Inr (s, self')"
proof -
  obtain n300 n100 misses where h: "taiko_hits (taiko_total_of self attrs) (tp_priority self)
    (tp_acc self) (tp_n300 self) (tp_n100 self) (tp_misses self) = (n300, n100, misses)"
    by (metis surj_pair)
  define combo where "combo = map_or (saturating_sub (td_max_combo attrs) misses)
      (\<lambda>c. min c (saturating_sub (td_max_combo attrs) misses)) (tp_combo self)"
  have c: "min combo (saturating_sub (td_max_combo attrs) misses) = combo"
    unfolding combo_def by (cases "tp_combo self") simp_all
  have self': "self' = self\<lparr>tp_map_or_attrs := m, tp_combo := Some combo, tp_n300 := Some n300,
      tp_n100 := Some n100, tp_misses := Some misses\<rparr>"
    and s: "s = \<lparr>ts_max_combo = combo, ts_n300 = n300, ts_n100 = n100, ts_misses = misses\<rparr>"
    using assms(1) taiko_generate_state_eq [of calc, OF assms(2) h combo_def] by simp_all
  have tot: "taiko_total_of self' attrs = taiko_total_of self attrs"
    unfolding self' by (simp add: taiko_total_of_def)
  have r: "resolve_attrs (calc (tp_difficulty self')) (tp_map_or_attrs self') = Inr (attrs, m)"
    unfolding self' using resolve_attrs_again [OF assms(2)] by simp
  have "taiko_hits (taiko_total_of self' attrs) (tp_priority self') (tp_acc self')
      (tp_n300 self') (tp_n100 self') (tp_misses self') = (n300, n100, misses)"
    unfolding tot unfolding self' using taiko_hits_again [OF assms(4,3) h] by simp
  from taiko_generate_state_eq [of calc, OF r this, of combo] show ?thesis
    unfolding s by (simp add: self' c)
qed

text \<open>
  C2. With an accuracy and no counts given, the generated state is the best one: no way at all
  of splitting the hits that are not misses into 300s and 100s has an accuracy closer to
  the requested one. The code searches only the window between the floor and the ceiling of an estimate
  computed in floating point; the theorem covers the rounding of the estimate, of the accuracies and of their distances.
\<close>

theorem taiko_accuracy_closest:
  assumes "taiko_generate_state calc self = Inr (s, self')"
    and "resolve_attrs (calc (tp_difficulty self)) (tp_map_or_attrs self) = Inr (attrs, m)"
    and "tp_acc self = Some acc" "unit_fin acc" "tp_n300 self = None" "tp_n100 self = None"
    and "3 * unat (taiko_total_of self attrs) < 4294967296"
    and "unat n300 + unat n100 + unat (ts_misses s) = unat (taiko_total_of self attrs)"
  shows "fval (abs (acc - taiko_hit_accuracy (ts_n300 s) (ts_n100 s) (ts_misses s)))
    \<le> fval (abs (acc - taiko_hit_accuracy n300 n100 (ts_misses s)))"
proof -
  let ?tot = "taiko_total_of self attrs"
  define ms where "ms = map_or 0 (\<lambda>n. min n ?tot) (tp_misses self)"
  have ms: "ms \<le> ?tot" by (cases "tp_misses self") (simp_all add: ms_def word_le_nat_alt)
  obtain x y where c: "taiko_closest acc ?tot (?tot - ms) ms (0, 0) = (x, y)" by (metis surj_pair)
  have "taiko_hits ?tot (tp_priority self) (tp_acc self) (tp_n300 self) (tp_n100 self) (tp_misses self) = (x, y, ms)"
    using taiko_hits_eq [OF ms_def refl refl refl refl, of "tp_priority self" "tp_acc self" "tp_n300 self" "tp_n100 self"] c
    by (simp add: assms)
  from taiko_generate_state_eq [of calc, OF assms(2) this refl]
  have s: "ts_n300 s = x" "ts_n100 s = y" "ts_misses s = ms" using assms(1) by auto
  have "unat n300 + unat n100 = unat (?tot - ms)"
    using assms(8) ms unfolding s by (simp add: unat_sub_le word_le_nat_alt)
  from taiko_closest_closest [OF assms(4) ms assms(7) refl c this] show ?thesis unfolding s .
qed

section \<open>Witnesses\<close>

text \<open>Ten hits, one miss given, and an accuracy of 9/10 or none.\<close>

definition taiko_example_attrs :: taiko_difficulty_attributes where
  "taiko_example_attrs = \<lparr>td_stamina = lit 1 1, td_rhythm = lit 1 1, td_color = lit 1 1,
     td_reading = lit 1 1, td_great_hit_window = lit 30 1, td_ok_hit_window = lit 80 1,
     td_mono_stamina_factor = lit 1 1, td_mechanical_difficulty = lit 1 1,
     td_stamina_top_strains = lit 1 1, td_consistency_factor = lit 1 1, td_stars = lit 1 1,
     td_max_combo = 10, td_is_convert = False\<rparr>"

definition taiko_example :: "f64 option \<Rightarrow> u32 option \<Rightarrow> (unit, unit) taiko_performance" where
  "taiko_example acc given300 = (taiko_from_map_or_attrs () (FromAttrs taiko_example_attrs))
     \<lparr>tp_acc := acc, tp_misses := Some 1, tp_n300 := given300\<rparr>"

definition no_calculation :: "unit difficulty \<Rightarrow> unit \<Rightarrow> convert_error + taiko_difficulty_attributes" where
  "no_calculation _ _ = Inl AlreadyConverted"

lemma taiko_example_resolve:
  "resolve_attrs (no_calculation (tp_difficulty (taiko_example acc n))) (tp_map_or_attrs (taiko_example acc n))
    = Inr (taiko_example_attrs, FromAttrs taiko_example_attrs)"
  by (simp add: resolve_attrs_def taiko_example_def taiko_from_map_or_attrs_def)

lemma taiko_example_total: "taiko_total_of (taiko_example acc n) taiko_example_attrs = 10"
  by (simp add: taiko_total_of_def taiko_example_def taiko_from_map_or_attrs_def get_passed_objects_def ucast_max
      difficulty_new_def taiko_example_attrs_def min_def word_le_nat_alt unsigned_minus_1_eq_mask mask_eq_exp_minus_1)

lemma taiko_example_sel [simp]: "tp_acc (taiko_example acc n) = acc" "tp_n300 (taiko_example acc n) = n"
  "tp_n100 (taiko_example acc n) = None" "tp_misses (taiko_example acc n) = Some 1"
  "tp_combo (taiko_example acc n) = None" "tp_priority (taiko_example acc n) = BestCase"
  by (simp_all add: taiko_example_def taiko_from_map_or_attrs_def)

lemma taiko_example_given:
  "taiko_generate_state no_calculation (taiko_example None (Some 5)) =
    Inr (\<lparr>ts_max_combo = 9, ts_n300 = 5, ts_n100 = 4, ts_misses = 1\<rparr>,
      (taiko_example None (Some 5))\<lparr>tp_combo := Some 9, tp_n100 := Some 4\<rparr>)"
proof -
  let ?ex = "taiko_example None (Some 5)"
  have "taiko_hits 10 BestCase None (Some 5) None (Some 1) = (5, 4, 1)"
    by (simp add: taiko_hits_def saturating_sub_def min_def)
  then have h: "taiko_hits (taiko_total_of ?ex taiko_example_attrs) (tp_priority ?ex) (tp_acc ?ex)
    (tp_n300 ?ex) (tp_n100 ?ex) (tp_misses ?ex) = (5, 4, 1)"
    by (simp add: taiko_example_total)
  have c: "9 = map_or (saturating_sub (td_max_combo taiko_example_attrs) 1)
      (\<lambda>c. min c (saturating_sub (td_max_combo taiko_example_attrs) 1)) (tp_combo ?ex)"
    by (simp add: taiko_example_attrs_def saturating_sub_def)
  have "?ex\<lparr>tp_map_or_attrs := FromAttrs taiko_example_attrs, tp_combo := Some 9, tp_n300 := Some 5,
      tp_n100 := Some 4, tp_misses := Some 1\<rparr> = ?ex\<lparr>tp_combo := Some 9, tp_n100 := Some 4\<rparr>"
    by (simp add: taiko_example_def taiko_from_map_or_attrs_def)
  with taiko_generate_state_eq [of no_calculation, OF taiko_example_resolve h c] show ?thesis by simp
qed


theorem taiko_generate_idempotent_witness:
  "taiko_generate_state no_calculation
    ((taiko_example None (Some 5))\<lparr>tp_combo := Some 9, tp_n100 := Some 4\<rparr>) =
    Inr (\<lparr>ts_max_combo = 9, ts_n300 = 5, ts_n100 = 4, ts_misses = 1\<rparr>,
      (taiko_example None (Some 5))\<lparr>tp_combo := Some 9, tp_n100 := Some 4\<rparr>)"
  by (rule taiko_generate_idempotent [OF taiko_example_given taiko_example_resolve])
    (simp_all add: taiko_example_total acc_ok_def)

theorem taiko_accuracy_closest_witness:
  "\<exists>s self'. taiko_generate_state no_calculation (taiko_example (Some (acc_fraction (lit 95 1))) None) = Inr (s, self')
    \<and> fval (abs (acc_fraction (lit 95 1) - taiko_hit_accuracy (ts_n300 s) (ts_n100 s) (ts_misses s)))
      \<le> fval (abs (acc_fraction (lit 95 1) - taiko_hit_accuracy 7 2 (ts_misses s)))"
proof -
  let ?acc = "acc_fraction (lit 95 1)"
  let ?ex = "taiko_example (Some ?acc) None"
  have acc: "unit_fin ?acc" by (rule acc_fraction_ok) (simp add: lit_def)
  obtain n300 n100 misses where h: "taiko_hits (taiko_total_of ?ex taiko_example_attrs) (tp_priority ?ex)
    (tp_acc ?ex) (tp_n300 ?ex) (tp_n100 ?ex) (tp_misses ?ex) = (n300, n100, misses)"
    by (metis surj_pair)
  note s = taiko_generate_state_eq [of no_calculation, OF taiko_example_resolve h refl]
  have "misses = 1" using taiko_hits_total(1) [OF _ _ h] acc
    by (simp add: taiko_example_total taiko_clamped_def acc_ok_def word_unat_eq_iff)
  then show ?thesis
    using taiko_accuracy_closest [OF s taiko_example_resolve _ acc, of 7 2] s
    by (simp add: taiko_example_total)
qed

end
