(* ===== verification/Catch_Performance.thy ===== *)
theory Catch_Performance
  imports Hit_Results
begin

text \<open>
  The performance settings of osu!catch, its attributes and object counts
  (\<open>src/catch/attributes.rs\<close>) and the generation of a score state
  (\<open>src/catch/performance/mod.rs\<close>). The difficulty calculation that runs for a map is
  the argument \<open>calculate_for_mode\<close>.
\<close>

record catch_difficulty_attributes =
  cd_stars :: f64
  cd_ar :: f64
  cd_n_fruits :: u32
  cd_n_droplets :: u32
  cd_n_tiny_droplets :: u32
  cd_is_convert :: bool

definition catch_max_combo :: "catch_difficulty_attributes \<Rightarrow> u32" where
  "catch_max_combo a = cd_n_fruits a + cd_n_droplets a"

record ('mods, 'map) catch_performance =
  cp_map_or_attrs :: "('map, catch_difficulty_attributes) map_or_attrs"
  cp_difficulty :: "'mods difficulty"
  cp_acc :: "f64 option"
  cp_combo :: "u32 option"
  cp_fruits :: "u32 option"
  cp_droplets :: "u32 option"
  cp_tiny_droplets :: "u32 option"
  cp_tiny_droplet_misses :: "u32 option"
  cp_misses :: "u32 option"

section \<open>Settings\<close>

definition catch_set_combo ::
  "u32 \<Rightarrow> ('mods, 'map) catch_performance \<Rightarrow> ('mods, 'map) catch_performance" where
  "catch_set_combo v self = self\<lparr>cp_combo := Some v\<rparr>"

definition catch_set_fruits ::
  "u32 \<Rightarrow> ('mods, 'map) catch_performance \<Rightarrow> ('mods, 'map) catch_performance" where
  "catch_set_fruits v self = self\<lparr>cp_fruits := Some v\<rparr>"

definition catch_set_droplets ::
  "u32 \<Rightarrow> ('mods, 'map) catch_performance \<Rightarrow> ('mods, 'map) catch_performance" where
  "catch_set_droplets v self = self\<lparr>cp_droplets := Some v\<rparr>"

definition catch_set_tiny_droplets ::
  "u32 \<Rightarrow> ('mods, 'map) catch_performance \<Rightarrow> ('mods, 'map) catch_performance" where
  "catch_set_tiny_droplets v self = self\<lparr>cp_tiny_droplets := Some v\<rparr>"

definition catch_set_tiny_droplet_misses ::
  "u32 \<Rightarrow> ('mods, 'map) catch_performance \<Rightarrow> ('mods, 'map) catch_performance" where
  "catch_set_tiny_droplet_misses v self = self\<lparr>cp_tiny_droplet_misses := Some v\<rparr>"

definition catch_set_misses ::
  "u32 \<Rightarrow> ('mods, 'map) catch_performance \<Rightarrow> ('mods, 'map) catch_performance" where
  "catch_set_misses v self = self\<lparr>cp_misses := Some v\<rparr>"

definition catch_set_difficulty ::
  "'mods difficulty \<Rightarrow> ('mods, 'map) catch_performance \<Rightarrow> ('mods, 'map) catch_performance" where
  "catch_set_difficulty v self = self\<lparr>cp_difficulty := v\<rparr>"

definition catch_set_mods ::
  "'mods \<Rightarrow> ('mods, 'map) catch_performance \<Rightarrow> ('mods, 'map) catch_performance" where
  "catch_set_mods v self = self\<lparr>cp_difficulty := set_mods v (cp_difficulty self)\<rparr>"

definition catch_set_passed_objects ::
  "u32 \<Rightarrow> ('mods, 'map) catch_performance \<Rightarrow> ('mods, 'map) catch_performance" where
  "catch_set_passed_objects v self = self\<lparr>cp_difficulty := set_passed_objects v (cp_difficulty self)\<rparr>"

definition catch_set_clock_rate ::
  "f64 \<Rightarrow> ('mods, 'map) catch_performance \<Rightarrow> ('mods, 'map) catch_performance" where
  "catch_set_clock_rate v self = self\<lparr>cp_difficulty := set_clock_rate v (cp_difficulty self)\<rparr>"

definition catch_set_ar ::
  "f32 \<Rightarrow> bool \<Rightarrow> ('mods, 'map) catch_performance \<Rightarrow> ('mods, 'map) catch_performance" where
  "catch_set_ar v with_mods self = self\<lparr>cp_difficulty := set_ar v with_mods (cp_difficulty self)\<rparr>"

definition catch_set_cs ::
  "f32 \<Rightarrow> bool \<Rightarrow> ('mods, 'map) catch_performance \<Rightarrow> ('mods, 'map) catch_performance" where
  "catch_set_cs v with_mods self = self\<lparr>cp_difficulty := set_cs v with_mods (cp_difficulty self)\<rparr>"

definition catch_set_hp ::
  "f32 \<Rightarrow> bool \<Rightarrow> ('mods, 'map) catch_performance \<Rightarrow> ('mods, 'map) catch_performance" where
  "catch_set_hp v with_mods self = self\<lparr>cp_difficulty := set_hp v with_mods (cp_difficulty self)\<rparr>"

definition catch_set_od ::
  "f32 \<Rightarrow> bool \<Rightarrow> ('mods, 'map) catch_performance \<Rightarrow> ('mods, 'map) catch_performance" where
  "catch_set_od v with_mods self = self\<lparr>cp_difficulty := set_od v with_mods (cp_difficulty self)\<rparr>"

definition catch_set_hardrock_offsets ::
  "bool \<Rightarrow> ('mods, 'map) catch_performance \<Rightarrow> ('mods, 'map) catch_performance" where
  "catch_set_hardrock_offsets v self = self\<lparr>cp_difficulty := set_hardrock_offsets v (cp_difficulty self)\<rparr>"

definition catch_set_accuracy ::
  "f64 \<Rightarrow> ('mods, 'map) catch_performance \<Rightarrow> ('mods, 'map) catch_performance" where
  "catch_set_accuracy acc self = self\<lparr>cp_acc := Some (acc_fraction acc)\<rparr>"

definition catch_set_state ::
  "catch_score_state \<Rightarrow> ('mods, 'map) catch_performance \<Rightarrow> ('mods, 'map) catch_performance" where
  "catch_set_state s self = self\<lparr>cp_combo := Some (cs_max_combo s), cp_fruits := Some (cs_fruits s),
     cp_droplets := Some (cs_droplets s), cp_tiny_droplets := Some (cs_tiny_droplets s),
     cp_tiny_droplet_misses := Some (cs_tiny_droplet_misses s), cp_misses := Some (cs_misses s)\<rparr>"

definition catch_from_map_or_attrs ::
  "'mods \<Rightarrow> ('map, catch_difficulty_attributes) map_or_attrs \<Rightarrow> ('mods, 'map) catch_performance" where
  "catch_from_map_or_attrs default_mods m = \<lparr>cp_map_or_attrs = m,
     cp_difficulty = difficulty_new default_mods, cp_acc = None, cp_combo = None, cp_fruits = None,
     cp_droplets = None, cp_tiny_droplets = None, cp_tiny_droplet_misses = None, cp_misses = None\<rparr>"

section \<open>Counting objects\<close>

text \<open>
  \<open>ObjectCountBuilder\<close>: either the counts of the first \<open>take\<close> objects, or the list of
  what every object adds, for gradual calculations.
\<close>

record object_count =
  oc_fruits :: u32
  oc_droplets :: u32
  oc_tiny_droplets :: u32

record gradual_object_count =
  gc_fruit :: bool
  gc_tiny_droplets :: u32

datatype object_count_builder =
    Regular object_count nat
  | Gradual gradual_object_count "gradual_object_count list"

definition new_regular :: "nat \<Rightarrow> object_count_builder" where
  "new_regular n = Regular \<lparr>oc_fruits = 0, oc_droplets = 0, oc_tiny_droplets = 0\<rparr> n"

definition gradual_default :: gradual_object_count where
  "gradual_default = \<lparr>gc_fruit = False, gc_tiny_droplets = 0\<rparr>"

definition new_gradual :: object_count_builder where
  "new_gradual = Gradual gradual_default []"

fun record_fruit :: "object_count_builder \<Rightarrow> object_count_builder" where
  "record_fruit (Regular c n) =
    (if 0 < n then Regular (c\<lparr>oc_fruits := oc_fruits c + 1\<rparr>) (n - 1) else Regular c n)"
| "record_fruit (Gradual c cs) = Gradual gradual_default (cs @ [c\<lparr>gc_fruit := True\<rparr>])"

fun record_droplet :: "object_count_builder \<Rightarrow> object_count_builder" where
  "record_droplet (Regular c n) =
    (if 0 < n then Regular (c\<lparr>oc_droplets := oc_droplets c + 1\<rparr>) (n - 1) else Regular c n)"
| "record_droplet (Gradual c cs) = Gradual gradual_default (cs @ [c])"

fun record_tiny_droplets :: "u32 \<Rightarrow> object_count_builder \<Rightarrow> object_count_builder" where
  "record_tiny_droplets k (Regular c n) =
    (if 0 < n then Regular (c\<lparr>oc_tiny_droplets := oc_tiny_droplets c + k\<rparr>) n else Regular c n)"
| "record_tiny_droplets k (Gradual c cs) =
    Gradual (c\<lparr>gc_tiny_droplets := gc_tiny_droplets c + k\<rparr>) cs"

definition set_object_count :: "object_count \<Rightarrow> catch_difficulty_attributes \<Rightarrow> catch_difficulty_attributes" where
  "set_object_count c a = a\<lparr>cd_n_fruits := oc_fruits c, cd_n_droplets := oc_droplets c,
     cd_n_tiny_droplets := oc_tiny_droplets c\<rparr>"

definition add_object_count ::
  "gradual_object_count \<Rightarrow> catch_difficulty_attributes \<Rightarrow> catch_difficulty_attributes" where
  "add_object_count c a =
    (let a = (if gc_fruit c then a\<lparr>cd_n_fruits := cd_n_fruits a + 1\<rparr>
              else a\<lparr>cd_n_droplets := cd_n_droplets a + 1\<rparr>)
     in a\<lparr>cd_n_tiny_droplets := cd_n_tiny_droplets a + gc_tiny_droplets c\<rparr>)"

section \<open>Generating a state\<close>

definition catch_hit_accuracy :: "u32 \<Rightarrow> u32 \<Rightarrow> u32 \<Rightarrow> u32 \<Rightarrow> u32 \<Rightarrow> f64" where
  "catch_hit_accuracy n_fruits n_droplets n_tiny_droplets n_tiny_droplet_misses misses =
    (let numerator = n_fruits + n_droplets + n_tiny_droplets;
         denominator = numerator + n_tiny_droplet_misses + misses
     in f64_of_u32 numerator / f64_of_u32 denominator)"

text \<open>The fruits and droplets: both are counts that the combo sees.\<close>

definition catch_fruits_droplets ::
  "catch_difficulty_attributes \<Rightarrow> u32 \<Rightarrow> u32 option \<Rightarrow> u32 option \<Rightarrow> u32 \<times> u32" where
  "catch_fruits_droplets attrs misses given_fruits given_droplets =
    (let all_fruits = cd_n_fruits attrs; all_droplets = cd_n_droplets attrs
     in case (given_fruits, given_droplets) of
        (Some n_fruits, Some n_droplets) \<Rightarrow>
          (let n_remaining = saturating_sub (all_fruits + all_droplets) (n_fruits + n_droplets + misses);
               new_droplets = min n_remaining (saturating_sub all_droplets n_droplets);
               n_droplets = n_droplets + new_droplets;
               n_fruits = n_fruits + (n_remaining - new_droplets);
               n_fruits = min n_fruits (saturating_sub (all_fruits + all_droplets) (n_droplets + misses));
               n_droplets = min n_droplets (all_fruits + all_droplets - n_fruits - misses)
           in (n_fruits, n_droplets))
      | (Some n_fruits, None) \<Rightarrow>
          (let n_droplets = saturating_sub all_droplets
                 (saturating_sub misses (saturating_sub all_fruits n_fruits))
           in (all_fruits + all_droplets - misses - n_droplets, n_droplets))
      | (None, Some n_droplets) \<Rightarrow>
          (let n_fruits = saturating_sub all_fruits
                 (saturating_sub misses (saturating_sub all_droplets n_droplets))
           in (n_fruits, all_fruits + all_droplets - misses - n_fruits))
      | (None, None) \<Rightarrow>
          (let n_droplets = saturating_sub all_droplets misses;
               n_fruits = all_fruits - (misses - saturating_sub all_droplets n_droplets)
           in (n_fruits, n_droplets)))"

text \<open>
  The closure \<open>find_best_tiny_droplets\<close>; the pair is the tiny droplets and their misses.
\<close>

definition catch_tiny_candidates ::
  "catch_difficulty_attributes \<Rightarrow> f64 \<Rightarrow> u32 \<Rightarrow> u32 \<Rightarrow> (u32 \<times> u32) list" where
  "catch_tiny_candidates attrs acc n_fruits n_droplets =
    (let raw = acc * f64_of_u32 (cd_n_fruits attrs + cd_n_droplets attrs + cd_n_tiny_droplets attrs)
           - f64_of_u32 (n_fruits + n_droplets);
         min_tiny = min (cd_n_tiny_droplets attrs) (as_u32 (ffloor raw));
         max_tiny = min (cd_n_tiny_droplets attrs) (as_u32 (fceil raw))
     in map (\<lambda>n. (n, cd_n_tiny_droplets attrs - n)) (u32_range min_tiny max_tiny))"

definition find_best_tiny_droplets ::
  "catch_difficulty_attributes \<Rightarrow> f64 \<Rightarrow> u32 \<Rightarrow> u32 \<Rightarrow> u32 \<Rightarrow> u32 \<times> u32" where
  "find_best_tiny_droplets attrs acc n_fruits n_droplets misses =
    closest f64_infinity
      (\<lambda>(n_tiny, n_tiny_misses). abs (acc - catch_hit_accuracy n_fruits n_droplets n_tiny n_tiny_misses misses))
      (catch_tiny_candidates attrs acc n_fruits n_droplets) (0, 0)"

definition catch_tiny ::
  "catch_difficulty_attributes \<Rightarrow> f64 option \<Rightarrow> u32 \<Rightarrow> u32 \<Rightarrow> u32 \<Rightarrow> u32 option \<Rightarrow> u32 option \<Rightarrow> u32 \<times> u32" where
  "catch_tiny attrs acc n_fruits n_droplets misses given_tiny given_tiny_misses =
    (let all_tiny = cd_n_tiny_droplets attrs
     in case (given_tiny, given_tiny_misses) of
        (Some n_tiny, Some n_tiny_misses) \<Rightarrow> (case acc of
            Some a \<Rightarrow> (if n_tiny + n_tiny_misses = all_tiny then (n_tiny, n_tiny_misses)
              else find_best_tiny_droplets attrs a n_fruits n_droplets misses)
          | None \<Rightarrow> (let n_remaining = saturating_sub all_tiny (n_tiny + n_tiny_misses)
              in (n_tiny + n_remaining, n_tiny_misses)))
      | (Some n_tiny, None) \<Rightarrow> (min all_tiny n_tiny, saturating_sub all_tiny n_tiny)
      | (None, Some n_tiny_misses) \<Rightarrow> (saturating_sub all_tiny n_tiny_misses, min all_tiny n_tiny_misses)
      | (None, None) \<Rightarrow> (case acc of
            Some a \<Rightarrow> find_best_tiny_droplets attrs a n_fruits n_droplets misses
          | None \<Rightarrow> (all_tiny, 0)))"

definition catch_generate_state ::
  "('mods difficulty \<Rightarrow> 'map \<Rightarrow> 'e + catch_difficulty_attributes)
    \<Rightarrow> ('mods, 'map) catch_performance
    \<Rightarrow> 'e + catch_score_state \<times> ('mods, 'map) catch_performance" where
  "catch_generate_state calculate_for_mode self =
    (case resolve_attrs (calculate_for_mode (cp_difficulty self)) (cp_map_or_attrs self) of
       Inl e \<Rightarrow> Inl e
     | Inr (attrs, map_or_attrs') \<Rightarrow>
        (let misses = map_or 0 (\<lambda>n. min n (cd_n_fruits attrs + cd_n_droplets attrs)) (cp_misses self);
             max_combo = unwrap_or (catch_max_combo attrs - misses) (cp_combo self);
             (n_fruits, n_droplets) = catch_fruits_droplets attrs misses (cp_fruits self) (cp_droplets self);
             (n_tiny, n_tiny_misses) = catch_tiny attrs (cp_acc self) n_fruits n_droplets misses
               (cp_tiny_droplets self) (cp_tiny_droplet_misses self)
         in Inr (\<lparr>cs_max_combo = max_combo, cs_fruits = n_fruits, cs_droplets = n_droplets,
                cs_tiny_droplets = n_tiny, cs_tiny_droplet_misses = n_tiny_misses, cs_misses = misses\<rparr>,
              self\<lparr>cp_map_or_attrs := map_or_attrs', cp_combo := Some max_combo,
                cp_fruits := Some n_fruits, cp_droplets := Some n_droplets,
                cp_tiny_droplets := Some n_tiny, cp_tiny_droplet_misses := Some n_tiny_misses,
                cp_misses := Some misses\<rparr>)))"

section \<open>Regular and gradual counts\<close>

datatype count_event = Fruit | Droplet | Tiny u32

fun run_event :: "count_event \<Rightarrow> object_count_builder \<Rightarrow> object_count_builder" where
  "run_event Fruit = record_fruit"
| "run_event Droplet = record_droplet"
| "run_event (Tiny n) = record_tiny_droplets n"

definition count_add :: "object_count \<Rightarrow> gradual_object_count \<Rightarrow> object_count" where
  "count_add c g = \<lparr>oc_fruits = oc_fruits c + (if gc_fruit g then 1 else 0),
     oc_droplets = oc_droplets c + (if gc_fruit g then 0 else 1),
     oc_tiny_droplets = oc_tiny_droplets c + gc_tiny_droplets g\<rparr>"

definition counts_of :: "gradual_object_count list \<Rightarrow> object_count" where
  "counts_of cs = foldl count_add \<lparr>oc_fruits = 0, oc_droplets = 0, oc_tiny_droplets = 0\<rparr> cs"

text \<open>The regular builder as a function of the gradual one.\<close>

definition regular_view :: "nat \<Rightarrow> gradual_object_count \<Rightarrow> gradual_object_count list \<Rightarrow> object_count_builder" where
  "regular_view n pending cs = Regular
     (if length cs < n then counts_of cs\<lparr>oc_tiny_droplets := oc_tiny_droplets (counts_of cs) + gc_tiny_droplets pending\<rparr>
      else counts_of (take n cs)) (n - length cs)"

lemma counts_of_snoc: "counts_of (cs @ [g]) = count_add (counts_of cs) g"
  by (simp add: counts_of_def)

lemma regular_view_less:
  "length cs < n \<Longrightarrow> regular_view n p cs = Regular
    (counts_of cs\<lparr>oc_tiny_droplets := oc_tiny_droplets (counts_of cs) + gc_tiny_droplets p\<rparr>) (n - length cs)"
  by (simp add: regular_view_def)

lemma regular_view_ge: "n \<le> length cs \<Longrightarrow> regular_view n p cs = Regular (counts_of (take n cs)) 0"
  by (simp add: regular_view_def)

lemma regular_view_snoc:
  "length cs < n \<Longrightarrow> regular_view n gradual_default (cs @ [g]) =
    Regular (count_add (counts_of cs) g) (n - Suc (length cs))"
  by (cases "Suc (length cs) < n")
    (simp_all add: regular_view_less regular_view_ge counts_of_snoc gradual_default_def)

lemma run_event_regular:
  assumes "\<not> gc_fruit p"
  shows "run_event e (regular_view n p cs) =
    (case e of
       Fruit \<Rightarrow> regular_view n gradual_default (cs @ [p\<lparr>gc_fruit := True\<rparr>])
     | Droplet \<Rightarrow> regular_view n gradual_default (cs @ [p])
     | Tiny k \<Rightarrow> regular_view n (p\<lparr>gc_tiny_droplets := gc_tiny_droplets p + k\<rparr>) cs)"
proof (cases "length cs < n")
  case True
  then show ?thesis using assms
    by (cases e) (simp_all add: regular_view_snoc, simp_all add: regular_view_less count_add_def add.assoc)
next
  case False
  then show ?thesis by (cases e) (simp_all add: regular_view_ge)
qed

lemma run_event_view:
  "\<exists>p cs. fold run_event es new_gradual = Gradual p cs \<and> \<not> gc_fruit p
    \<and> fold run_event es (new_regular n) = regular_view n p cs"
proof (induction es rule: rev_induct)
  case Nil
  show ?case by (simp add: new_gradual_def new_regular_def regular_view_def counts_of_def gradual_default_def)
next
  case (snoc e es)
  then obtain p cs where p: "fold run_event es new_gradual = Gradual p cs" "\<not> gc_fruit p"
    "fold run_event es (new_regular n) = regular_view n p cs" by blast
  show ?case using run_event_regular [OF p(2), of e n cs] p
    by (cases e) (simp_all add: gradual_default_def)
qed

lemma set_object_count_foldl:
  "fold add_object_count gs (set_object_count c a) = set_object_count (foldl count_add c gs) a"
proof (induction gs arbitrary: c)
  case (Cons g gs)
  have "add_object_count g (set_object_count c a) = set_object_count (count_add c g) a"
    by (simp add: add_object_count_def set_object_count_def count_add_def Let_def)
  then show ?case using Cons by simp
qed simp

text \<open>
  C28. The two modes of the object counter agree. For every sequence of fruits, droplets
  and tiny droplets, adding up what the gradual counter lists for the first \<open>n\<close> objects gives the
  attributes that the regular counter, stopped after \<open>n\<close> objects, gives: partial difficulty
  attributes are the same whichever way they are computed. (There must be \<open>n\<close> objects;
  tiny droplets after the last object are counted by the regular counter only.)
\<close>

theorem gradual_counts_are_regular:
  assumes "fold run_event es new_gradual = Gradual pending cs" and "n \<le> length cs"
    and "fold run_event es (new_regular n) = Regular c k"
  shows "fold add_object_count (take n cs)
      (set_object_count \<lparr>oc_fruits = 0, oc_droplets = 0, oc_tiny_droplets = 0\<rparr> attrs)
    = set_object_count c attrs \<and> k = 0"
proof -
  obtain p cs' where "fold run_event es new_gradual = Gradual p cs'"
    "fold run_event es (new_regular n) = regular_view n p cs'" using run_event_view by blast
  then have "regular_view n p cs = Regular c k" using assms(1,3) by simp
  then have "c = counts_of (take n cs)" "k = 0" using assms(2) by (simp_all add: regular_view_ge)
  then show ?thesis by (simp add: set_object_count_foldl counts_of_def)
qed

theorem gradual_counts_are_regular_witness:
  "fold add_object_count [\<lparr>gc_fruit = True, gc_tiny_droplets = 0\<rparr>, \<lparr>gc_fruit = False, gc_tiny_droplets = 3\<rparr>]
      (set_object_count \<lparr>oc_fruits = 0, oc_droplets = 0, oc_tiny_droplets = 0\<rparr>
        \<lparr>cd_stars = lit 1 1, cd_ar = lit 9 1, cd_n_fruits = 7, cd_n_droplets = 0, cd_n_tiny_droplets = 0, cd_is_convert = False\<rparr>)
    = set_object_count \<lparr>oc_fruits = 1, oc_droplets = 1, oc_tiny_droplets = 3\<rparr>
        \<lparr>cd_stars = lit 1 1, cd_ar = lit 9 1, cd_n_fruits = 7, cd_n_droplets = 0, cd_n_tiny_droplets = 0, cd_is_convert = False\<rparr>"
  using gradual_counts_are_regular [of "[Fruit, Tiny 3, Droplet, Tiny 2, Fruit]" gradual_default
      "[\<lparr>gc_fruit = True, gc_tiny_droplets = 0\<rparr>, \<lparr>gc_fruit = False, gc_tiny_droplets = 3\<rparr>, \<lparr>gc_fruit = True, gc_tiny_droplets = 2\<rparr>]"
      2 "\<lparr>oc_fruits = 1, oc_droplets = 1, oc_tiny_droplets = 3\<rparr>" 0]
  by (simp add: new_gradual_def new_regular_def gradual_default_def numeral_2_eq_2)

section \<open>Totals\<close>

text \<open>The given counts, as far as they are given together, do not overflow.\<close>

definition catch_given_small :: "u32 \<Rightarrow> u32 option \<Rightarrow> u32 option \<Rightarrow> bool" where
  "catch_given_small misses a b \<longleftrightarrow> (case (a, b) of
      (Some x, Some y) \<Rightarrow> unat x + unat y + unat misses < 4294967296 | _ \<Rightarrow> True)"

lemma catch_fruits_droplets_total:
  assumes all: "unat (cd_n_fruits attrs) + unat (cd_n_droplets attrs) < 4294967296"
    and m: "unat misses \<le> unat (cd_n_fruits attrs) + unat (cd_n_droplets attrs)"
    and small: "catch_given_small misses a b"
    and h: "catch_fruits_droplets attrs misses a b = (f, d)"
  shows "unat f + unat d + unat misses = unat (cd_n_fruits attrs) + unat (cd_n_droplets attrs)"
proof -
  let ?F = "unat (cd_n_fruits attrs)" and ?D = "unat (cd_n_droplets attrs)"
  have fd: "unat (cd_n_fruits attrs + cd_n_droplets attrs) = ?F + ?D" using all by (simp add: unat_arith_small)
  have sub: "unat (x - y) = unat x - unat y" if "unat y \<le> unat x" for x y :: u32
    using that by (simp add: unat_sub_le word_le_nat_alt)
  show ?thesis
  proof (cases a; cases b)
    fix x y assume ab: "a = Some x" "b = Some y"
    define rem where "rem = saturating_sub (cd_n_fruits attrs + cd_n_droplets attrs) (x + y + misses)"
    define new where "new = min rem (saturating_sub (cd_n_droplets attrs) y)"
    define x' where "x' = min (x + (rem - new))
      (saturating_sub (cd_n_fruits attrs + cd_n_droplets attrs) (y + new + misses))"
    define y' where "y' = min (y + new) (cd_n_fruits attrs + cd_n_droplets attrs - x' - misses)"
    have fd': "f = x'" "d = y'"
      using h unfolding ab catch_fruits_droplets_def Let_def option.case prod.case
        rem_def [symmetric] new_def [symmetric] x'_def [symmetric] y'_def [symmetric] by simp_all
    have xyz: "unat x + unat y + unat misses < 4294967296"
      using small unfolding ab by (simp add: catch_given_small_def)
    have rem: "unat rem = ?F + ?D - (unat x + unat y + unat misses)"
      unfolding rem_def using xyz by (simp add: fd unat_arith_small)
    have new: "unat new = min (unat rem) (?D - unat y)" unfolding new_def by simp
    have sum: "unat (y + new) = unat y + unat new" "unat (y + new + misses) = unat y + unat new + unat misses"
      "unat (rem - new) = unat rem - unat new" "unat (x + (rem - new)) = unat x + (unat rem - unat new)"
      using xyz rem new all by (simp_all add: unat_arith_small sub)
    have x': "unat x' = min (unat x + (unat rem - unat new)) (?F + ?D - (unat y + unat new + unat misses))"
      unfolding x'_def by (simp only: unat_min unat_saturating_sub fd sum)
    have le: "unat x' + unat misses \<le> ?F + ?D" using x' m by linarith
    have "unat (cd_n_fruits attrs + cd_n_droplets attrs - x' - misses) = ?F + ?D - unat x' - unat misses"
      using le fd by (simp add: sub)
    then have y': "unat y' = min (unat y + unat new) (?F + ?D - unat x' - unat misses)"
      unfolding y'_def by (simp only: unat_min sum)
    show ?thesis unfolding fd' using x' y' rem new m by linarith
  next
    fix x assume ab: "a = Some x" "b = None"
    have d: "unat d = ?D - (unat misses - (?F - unat x))"
      and f: "f = cd_n_fruits attrs + cd_n_droplets attrs - misses - d"
      using h unfolding ab catch_fruits_droplets_def Let_def by auto
    have "unat d + unat misses \<le> ?F + ?D" using d m by linarith
    then have "unat f = ?F + ?D - unat misses - unat d" unfolding f using m fd by (simp add: sub)
    then show ?thesis using d m by linarith
  next
    fix y assume ab: "a = None" "b = Some y"
    have f: "unat f = ?F - (unat misses - (?D - unat y))"
      and d: "d = cd_n_fruits attrs + cd_n_droplets attrs - misses - f"
      using h unfolding ab catch_fruits_droplets_def Let_def by auto
    have "unat f + unat misses \<le> ?F + ?D" using f m by linarith
    then have "unat d = ?F + ?D - unat misses - unat f" unfolding d using m fd by (simp add: sub)
    then show ?thesis using f m by linarith
  next
    assume ab: "a = None" "b = None"
    have d: "unat d = ?D - unat misses"
      and f: "f = cd_n_fruits attrs - (misses - saturating_sub (cd_n_droplets attrs) d)"
      using h unfolding ab catch_fruits_droplets_def Let_def by auto
    have "unat (misses - saturating_sub (cd_n_droplets attrs) d) = unat misses - (?D - (?D - unat misses))"
      using d by (simp add: sub)
    then have "unat f = ?F - (unat misses - (?D - (?D - unat misses)))" unfolding f using m by (simp add: sub)
    then show ?thesis using d m by linarith
  qed
qed

section \<open>The closest accuracy\<close>

definition catch_objects :: "catch_difficulty_attributes \<Rightarrow> nat" where
  "catch_objects attrs = unat (cd_n_fruits attrs) + unat (cd_n_droplets attrs) + unat (cd_n_tiny_droplets attrs)"

lemma catch_hit_accuracy_rounds:
  assumes N: "unat f + unat d + unat t + unat tm + unat m = N" "0 < N" "N < 4294967296"
  shows "rounds_to (catch_hit_accuracy f d t tm m) (real (unat t + (unat f + unat d)) / real N)"
    "unit_fin (catch_hit_accuracy f d t tm m)"
proof -
  have n: "unat (f + d + t) = unat t + (unat f + unat d)" using N by (simp add: unat_arith_small)
  then have dn: "unat (f + d + t + tm + m) = N" using N by (simp add: unat_arith_small)
  have "fval (f64_of_u32 (f + d + t + tm + m)) = real N" unfolding f64_of_u32_exact dn ..
  then have nz: "fval (f64_of_u32 (f + d + t + tm + m)) \<noteq> 0" using N by simp
  have "rounds_to (catch_hit_accuracy f d t tm m)
      (fval (f64_of_u32 (f + d + t)) / fval (f64_of_u32 (f + d + t + tm + m)))"
    unfolding catch_hit_accuracy_def Let_def by (intro fdiv_rounds f64_of_u32_exact(2) nz)
  then show "rounds_to (catch_hit_accuracy f d t tm m) (real (unat t + (unat f + unat d)) / real N)"
    unfolding f64_of_u32_exact n dn .
  show "unit_fin (catch_hit_accuracy f d t tm m)"
    unfolding catch_hit_accuracy_def Let_def using N
    by (intro unit_ratio [OF dn n]) linarith+
qed

lemma catch_tiny_candidates_set:
  "c \<in> set (catch_tiny_candidates attrs acc f d) \<Longrightarrow>
    fst c \<le> cd_n_tiny_droplets attrs \<and> snd c = cd_n_tiny_droplets attrs - fst c"
  by (auto simp: catch_tiny_candidates_def Let_def)

lemma catch_window:
  assumes acc: "unit_fin acc" and N: "0 < catch_objects attrs" "catch_objects attrs < 3000000000"
    and fd: "unat f + unat d + unat m = unat (cd_n_fruits attrs) + unat (cd_n_droplets attrs)"
    and a: "unat a \<le> unat (cd_n_tiny_droplets attrs)"
  obtains j where "(j, cd_n_tiny_droplets attrs - j) \<in> set (catch_tiny_candidates attrs acc f d)"
    "unat j \<le> unat (cd_n_tiny_droplets attrs)"
    "\<bar>fval acc - fval (catch_hit_accuracy f d j (cd_n_tiny_droplets attrs - j) m)\<bar>
      \<le> \<bar>fval acc - fval (catch_hit_accuracy f d a (cd_n_tiny_droplets attrs - a) m)\<bar>"
proof -
  let ?T = "cd_n_tiny_droplets attrs"
  let ?all = "cd_n_fruits attrs + cd_n_droplets attrs + ?T"
  let ?t = "acc * f64_of_u32 ?all - f64_of_u32 (f + d)"
  let ?acc = "\<lambda>k. catch_hit_accuracy f d (word_of_nat k) (?T - word_of_nat k) m"
  have all: "unat ?all = catch_objects attrs" "unat (f + d) = unat f + unat d"
    using N fd by (simp_all add: unat_arith_small catch_objects_def)
  have rnd: "rounds_to (?acc k) (real (k + (unat f + unat d)) / real (catch_objects attrs))" if "k \<le> unat ?T" for k
    using catch_hit_accuracy_rounds(1) [of f d "word_of_nat k" "?T - word_of_nat k" m "catch_objects attrs"]
      u32_below [OF that] that N fd by (simp add: catch_objects_def)
  have e: "fval (f64_of_u32 ?all) = real (catch_objects attrs)" "fval (f64_of_u32 (f + d)) = real (unat f + unat d)"
    unfolding f64_of_u32_exact all by simp_all
  have le: "unat ?T + (unat f + unat d) \<le> catch_objects attrs" using fd by (simp add: catch_objects_def)
  obtain j where j: "min (unat ?T) (unat (as_u32 (ffloor ?t))) \<le> j" "j \<le> min (unat ?T) (unat (as_u32 (fceil ?t)))"
    "\<bar>fval acc - fval (?acc j)\<bar> \<le> \<bar>fval acc - fval (?acc (unat a))\<bar>"
    by (rule count_window [OF acc N le rnd f64_of_u32_exact(2) e(1) f64_of_u32_exact(2) e(2) a])
  have jr: "j \<le> unat ?T" using j(2) by simp
  have "word_of_nat j \<in> set (u32_range (min ?T (as_u32 (ffloor ?t))) (min ?T (as_u32 (fceil ?t))))"
    using j(1,2) u32_below(1) [OF jr] by (simp add: word_le_nat_alt)
  then have "(word_of_nat j, ?T - word_of_nat j) \<in> set (catch_tiny_candidates attrs acc f d)"
    unfolding catch_tiny_candidates_def Let_def by simp
  then show ?thesis using that [of "word_of_nat j"] j(3) u32_below(1) [OF jr] jr by simp
qed

lemma find_best_tiny_closest:
  assumes acc: "unit_fin acc" and N: "0 < catch_objects attrs" "catch_objects attrs < 3000000000"
    and fd: "unat f + unat d + unat m = unat (cd_n_fruits attrs) + unat (cd_n_droplets attrs)"
    and b: "find_best_tiny_droplets attrs acc f d m = (t, tm)"
  shows "unat t + unat tm = unat (cd_n_tiny_droplets attrs)"
    and "unat x + unat y = unat (cd_n_tiny_droplets attrs) \<Longrightarrow>
      fval (abs (acc - catch_hit_accuracy f d t tm m)) \<le> fval (abs (acc - catch_hit_accuracy f d x y m))"
proof -
  let ?T = "cd_n_tiny_droplets attrs" and ?cs = "catch_tiny_candidates attrs acc f d"
  let ?f = "\<lambda>(n_tiny, n_tiny_misses). catch_hit_accuracy f d n_tiny n_tiny_misses m"
  have u: "unit_fin (catch_hit_accuracy f d p q m)" if "unat p + unat q = unat ?T" for p q
    using that fd N by (intro catch_hit_accuracy_rounds(2) [of _ _ _ _ _ "catch_objects attrs"])
      (simp_all add: catch_objects_def)
  have sum: "unat (fst c) + unat (snd c) = unat ?T" if "c \<in> set ?cs" for c
    using catch_tiny_candidates_set [OF that] by (simp add: word_le_nat_alt unat_sub_le)
  have uc: "unit_fin (?f c)" if "c \<in> set ?cs" for c
    using u [OF sum [OF that]] by (simp add: case_prod_unfold)
  have "(\<lambda>c. \<bar>acc - ?f c\<bar>) = (\<lambda>(n_tiny, n_tiny_misses). \<bar>acc - catch_hit_accuracy f d n_tiny n_tiny_misses m\<bar>)"
    by auto
  then have cl: "closest f64_infinity (\<lambda>c. \<bar>acc - ?f c\<bar>) ?cs (0, 0) = (t, tm)"
    using b by (simp add: find_best_tiny_droplets_def)
  obtain j0 where j0: "(j0, ?T - j0) \<in> set ?cs" using catch_window [OF acc N fd, of 0] by auto
  show tt: "unat t + unat tm = unat ?T"
    using closest_unit(1) [of acc f64_infinity _ ?f _ "(0, 0)", OF acc f64_max_le(2) uc j0, unfolded cl] sum by force
  show "fval (abs (acc - catch_hit_accuracy f d t tm m)) \<le> fval (abs (acc - catch_hit_accuracy f d x y m))"
    if xy: "unat x + unat y = unat ?T"
  proof -
    have y: "y = ?T - x" using xy by (simp add: word_unat_eq_iff unat_sub_le word_le_nat_alt)
    obtain j where j: "(j, ?T - j) \<in> set ?cs" "\<bar>fval acc - fval (catch_hit_accuracy f d j (?T - j) m)\<bar>
      \<le> \<bar>fval acc - fval (catch_hit_accuracy f d x y m)\<bar>"
      using catch_window [OF acc N fd, of x] xy y by auto
    have "fval (abs (acc - catch_hit_accuracy f d t tm m)) \<le> fval (abs (acc - catch_hit_accuracy f d j (?T - j) m))"
      using closest_unit(2) [of acc f64_infinity _ ?f _ "(0, 0)", OF acc f64_max_le(2) uc j(1), unfolded cl] by simp
    also have "\<dots> \<le> fval (abs (acc - catch_hit_accuracy f d x y m))"
      using unit_dist_mono [OF acc uc [OF j(1)] u [OF xy]] j(2) by simp
    finally show ?thesis .
  qed
qed

lemma find_best_tiny_none:
  "cd_n_tiny_droplets attrs = 0 \<Longrightarrow> find_best_tiny_droplets attrs acc f d m = (0, 0)"
proof -
  assume z: "cd_n_tiny_droplets attrs = 0"
  have "find_best_tiny_droplets attrs acc f d m = (0, 0) \<or>
    find_best_tiny_droplets attrs acc f d m \<in> set (catch_tiny_candidates attrs acc f d)"
    unfolding find_best_tiny_droplets_def by (rule closest_cases)
  then show ?thesis
    using catch_tiny_candidates_set [of "find_best_tiny_droplets attrs acc f d m" attrs acc f d] z
    by (auto simp: prod_eq_iff)
qed

lemma catch_tiny_total:
  assumes acc: "acc_ok acc" and N: "catch_objects attrs < 3000000000"
    and fd: "unat f + unat d + unat m = unat (cd_n_fruits attrs) + unat (cd_n_droplets attrs)"
    and small: "catch_given_small 0 a b"
    and h: "catch_tiny attrs acc f d m a b = (t, tm)"
  shows "unat t + unat tm = (case (acc, a, b) of
      (None, Some x, Some y) \<Rightarrow> max (unat (cd_n_tiny_droplets attrs)) (unat x + unat y)
    | _ \<Rightarrow> unat (cd_n_tiny_droplets attrs))"
proof -
  let ?T = "cd_n_tiny_droplets attrs"
  have best: "unat t + unat tm = unat ?T" if "acc = Some v" "find_best_tiny_droplets attrs v f d m = (t, tm)" for v
  proof (cases "?T = 0")
    case True
    then show ?thesis using that(2) find_best_tiny_none by simp
  next
    case False
    then have "0 < catch_objects attrs" by (simp add: catch_objects_def unat_gt_0)
    then show ?thesis using find_best_tiny_closest(1) [OF _ _ N fd that(2)] acc that(1) by (simp add: acc_ok_def)
  qed
  have given: "unat (x + y) = unat x + unat y" "unat (x + (saturating_sub ?T (x + y))) = unat x + (unat ?T - (unat x + unat y))"
    if "a = Some x" "b = Some y" for x y
  proof -
    have xy: "unat x + unat y < 4294967296" using small that by (simp add: catch_given_small_def)
    then show s: "unat (x + y) = unat x + unat y" by (simp add: unat_arith_small)
    have "unat ?T < 4294967296" using N by (simp add: catch_objects_def)
    then have "unat x + (unat ?T - (unat x + unat y)) < 4294967296" using xy by linarith
    then show "unat (x + (saturating_sub ?T (x + y))) = unat x + (unat ?T - (unat x + unat y))"
      using s by (simp add: unat_arith_small)
  qed
  show ?thesis
  proof (cases a; cases b)
    fix x y assume ab: "a = Some x" "b = Some y"
    show ?thesis
    proof (cases acc)
      case None
      then have "t = x + saturating_sub ?T (x + y)" "tm = y"
        using h unfolding ab catch_tiny_def Let_def by auto
      then show ?thesis using given [OF ab] unfolding None ab by simp
    next
      case (Some v)
      show ?thesis
      proof (cases "x + y = ?T")
        case True
        then have "t = x" "tm = y" using h Some unfolding ab catch_tiny_def Let_def by auto
        then show ?thesis using given(1) [OF ab] True Some unfolding ab by simp
      next
        case False
        then show ?thesis using h best [OF Some] Some unfolding ab catch_tiny_def Let_def by auto
      qed
    qed
  next
    fix x assume ab: "a = Some x" "b = None"
    then have "t = min ?T x" "tm = saturating_sub ?T x" using h unfolding ab catch_tiny_def Let_def by auto
    then show ?thesis unfolding ab by (cases acc) auto
  next
    fix y assume ab: "a = None" "b = Some y"
    then have "t = saturating_sub ?T y" "tm = min ?T y" using h unfolding ab catch_tiny_def Let_def by auto
    then show ?thesis unfolding ab by (cases acc) auto
  next
    assume ab: "a = None" "b = None"
    show ?thesis
    proof (cases acc)
      case None
      then have "t = ?T" "tm = 0" using h unfolding ab catch_tiny_def Let_def by auto
      then show ?thesis unfolding ab None by simp
    next
      case (Some v)
      then show ?thesis using h best [OF Some] unfolding ab catch_tiny_def Let_def by auto
    qed
  qed
qed

section \<open>The properties\<close>

definition catch_misses_of :: "('mods, 'map) catch_performance \<Rightarrow> catch_difficulty_attributes \<Rightarrow> u32" where
  "catch_misses_of self attrs = map_or 0 (\<lambda>n. min n (cd_n_fruits attrs + cd_n_droplets attrs)) (cp_misses self)"

text \<open>No sum of counts wraps: neither those of the map nor those given.\<close>

definition catch_small :: "('mods, 'map) catch_performance \<Rightarrow> catch_difficulty_attributes \<Rightarrow> bool" where
  "catch_small self attrs \<longleftrightarrow> catch_objects attrs < 3000000000
     \<and> catch_given_small (catch_misses_of self attrs) (cp_fruits self) (cp_droplets self)
     \<and> catch_given_small 0 (cp_tiny_droplets self) (cp_tiny_droplet_misses self)"

lemma catch_generate_cases:
  assumes "catch_generate_state calc self = Inr (s, self')"
    and "resolve_attrs (calc (cp_difficulty self)) (cp_map_or_attrs self) = Inr (attrs, m)"
  shows "cs_misses s = catch_misses_of self attrs"
    "catch_fruits_droplets attrs (cs_misses s) (cp_fruits self) (cp_droplets self) = (cs_fruits s, cs_droplets s)"
    "catch_tiny attrs (cp_acc self) (cs_fruits s) (cs_droplets s) (cs_misses s)
      (cp_tiny_droplets self) (cp_tiny_droplet_misses self) = (cs_tiny_droplets s, cs_tiny_droplet_misses s)"
    "cs_max_combo s = unwrap_or (catch_max_combo attrs - cs_misses s) (cp_combo self)"
    "self' = self\<lparr>cp_map_or_attrs := m, cp_combo := Some (cs_max_combo s), cp_fruits := Some (cs_fruits s),
      cp_droplets := Some (cs_droplets s), cp_tiny_droplets := Some (cs_tiny_droplets s),
      cp_tiny_droplet_misses := Some (cs_tiny_droplet_misses s), cp_misses := Some (cs_misses s)\<rparr>"
  using assms unfolding catch_generate_state_def Let_def catch_misses_of_def
  by (auto split: prod.splits)

lemma catch_generate_returns:
  "resolve_attrs (calc (cp_difficulty self)) (cp_map_or_attrs self) = Inr (attrs, m) \<Longrightarrow>
    \<exists>s self'. catch_generate_state calc self = Inr (s, self')"
  by (simp add: catch_generate_state_def Let_def split: prod.splits)

lemma catch_misses_le:
  "catch_objects attrs < 3000000000 \<Longrightarrow>
    unat (catch_misses_of self attrs) \<le> unat (cd_n_fruits attrs) + unat (cd_n_droplets attrs)"
  by (cases "cp_misses self") (simp_all add: catch_misses_of_def unat_arith_small catch_objects_def)

lemma catch_state_complete_aux:
  assumes "catch_generate_state calc self = Inr (s, self')"
    and "resolve_attrs (calc (cp_difficulty self)) (cp_map_or_attrs self) = Inr (attrs, m)"
    and "acc_ok (cp_acc self)" and "catch_small self attrs"
  shows "unat (cs_fruits s) + unat (cs_droplets s) + unat (cs_misses s)
      = unat (cd_n_fruits attrs) + unat (cd_n_droplets attrs)"
    "unat (cs_tiny_droplets s) + unat (cs_tiny_droplet_misses s) =
      (case (cp_acc self, cp_tiny_droplets self, cp_tiny_droplet_misses self) of
        (None, Some x, Some y) \<Rightarrow> max (unat (cd_n_tiny_droplets attrs)) (unat x + unat y)
      | _ \<Rightarrow> unat (cd_n_tiny_droplets attrs))"
proof -
  note g = catch_generate_cases [OF assms(1,2)]
  have sm: "catch_objects attrs < 3000000000" "unat (cd_n_fruits attrs) + unat (cd_n_droplets attrs) < 4294967296"
    using assms(4) by (simp_all add: catch_small_def catch_objects_def)
  have f: "unat (cs_fruits s) + unat (cs_droplets s) + unat (cs_misses s)
      = unat (cd_n_fruits attrs) + unat (cd_n_droplets attrs)"
    using catch_fruits_droplets_total [OF sm(2) _ _ g(2)] assms(4) catch_misses_le [OF sm(1), of self]
    unfolding g(1) by (simp add: catch_small_def)
  show "unat (cs_fruits s) + unat (cs_droplets s) + unat (cs_misses s)
      = unat (cd_n_fruits attrs) + unat (cd_n_droplets attrs)" by (rule f)
  show "unat (cs_tiny_droplets s) + unat (cs_tiny_droplet_misses s) =
      (case (cp_acc self, cp_tiny_droplets self, cp_tiny_droplet_misses self) of
        (None, Some x, Some y) \<Rightarrow> max (unat (cd_n_tiny_droplets attrs)) (unat x + unat y)
      | _ \<Rightarrow> unat (cd_n_tiny_droplets attrs))" using catch_tiny_total [OF assms(3) sm(1) f _ g(3)] assms(4) by (simp add: catch_small_def)
qed

lemma catch_tiny_again:
  assumes "catch_objects attrs < 3000000000"
    and t: "unat t + unat tm = (case (acc, a, b) of
        (None, Some x, Some y) \<Rightarrow> max (unat (cd_n_tiny_droplets attrs)) (unat x + unat y)
      | _ \<Rightarrow> unat (cd_n_tiny_droplets attrs))"
    and small: "catch_given_small 0 a b"
  shows "catch_tiny attrs acc f d m (Some t) (Some tm) = (t, tm)"
proof -
  let ?T = "cd_n_tiny_droplets attrs"
  have T: "unat ?T < 4294967296" using assms(1) by (simp add: catch_objects_def)
  have l: "unat t + unat tm < 4294967296"
    using t T small by (auto simp: catch_given_small_def split: option.splits)
  show ?thesis
  proof (cases acc)
    case None
    have "unat ?T \<le> unat t + unat tm" using t by (auto split: option.splits)
    then have "saturating_sub ?T (t + tm) = 0" using l by (simp add: word_unat_eq_iff unat_arith_small)
    then show ?thesis by (simp add: catch_tiny_def None)
  next
    case (Some v)
    then have "t + tm = ?T" using t l by (simp add: word_unat_eq_iff unat_arith_small)
    then show ?thesis by (simp add: catch_tiny_def Some)
  qed
qed

text \<open>
  C27. A generated osu!catch state accounts for every object of the map: fruits, droplets and misses
  together are the fruits and droplets of the map, whatever was given; caught and missed tiny
  droplets together are the tiny droplets of the map, except that two given counts without
  an accuracy are kept where they ask for more.
\<close>

theorem catch_state_complete:
  assumes "catch_generate_state calc self = Inr (s, self')"
    and "resolve_attrs (calc (cp_difficulty self)) (cp_map_or_attrs self) = Inr (attrs, m)"
    and "acc_ok (cp_acc self)" and "catch_small self attrs"
  shows "unat (cs_fruits s) + unat (cs_droplets s) + unat (cs_misses s)
      = unat (cd_n_fruits attrs) + unat (cd_n_droplets attrs) \<and>
    unat (cs_tiny_droplets s) + unat (cs_tiny_droplet_misses s) =
      (case (cp_acc self, cp_tiny_droplets self, cp_tiny_droplet_misses self) of
        (None, Some x, Some y) \<Rightarrow> max (unat (cd_n_tiny_droplets attrs)) (unat x + unat y)
      | _ \<Rightarrow> unat (cd_n_tiny_droplets attrs))"
  using catch_state_complete_aux [OF assms] by simp

text \<open>
  C25. With an accuracy and no tiny droplets given, no other number of caught tiny droplets
  has an accuracy closer to the requested one, rounding included.
\<close>

theorem catch_accuracy_closest:
  assumes "catch_generate_state calc self = Inr (s, self')"
    and "resolve_attrs (calc (cp_difficulty self)) (cp_map_or_attrs self) = Inr (attrs, m)"
    and "cp_acc self = Some acc" "unit_fin acc" "cp_tiny_droplets self = None" "cp_tiny_droplet_misses self = None"
    and "catch_small self attrs" and "0 < catch_objects attrs"
    and "unat t + unat tm = unat (cd_n_tiny_droplets attrs)"
  shows "fval (abs (acc - catch_hit_accuracy (cs_fruits s) (cs_droplets s) (cs_tiny_droplets s)
        (cs_tiny_droplet_misses s) (cs_misses s)))
    \<le> fval (abs (acc - catch_hit_accuracy (cs_fruits s) (cs_droplets s) t tm (cs_misses s)))"
proof -
  note g = catch_generate_cases [OF assms(1,2)]
  have "catch_objects attrs < 3000000000" using assms(7) by (simp add: catch_small_def)
  moreover have "unat (cs_fruits s) + unat (cs_droplets s) + unat (cs_misses s)
      = unat (cd_n_fruits attrs) + unat (cd_n_droplets attrs)"
    using catch_fruits_droplets_total [OF _ _ _ g(2)] assms(7) catch_misses_le [OF calculation, of self]
    unfolding g(1) by (simp add: catch_small_def catch_objects_def)
  moreover have "find_best_tiny_droplets attrs acc (cs_fruits s) (cs_droplets s) (cs_misses s)
      = (cs_tiny_droplets s, cs_tiny_droplet_misses s)"
    using g(3) by (simp add: assms catch_tiny_def)
  ultimately show ?thesis using find_best_tiny_closest(2) [OF assms(4,8)] assms(9) by blast
qed

lemma catch_fruits_droplets_again:
  assumes "unat (cd_n_fruits attrs) + unat (cd_n_droplets attrs) < 4294967296"
    and "unat f + unat d + unat m = unat (cd_n_fruits attrs) + unat (cd_n_droplets attrs)"
  shows "catch_fruits_droplets attrs m (Some f) (Some d) = (f, d)"
proof -
  have e: "f + d + m = cd_n_fruits attrs + cd_n_droplets attrs"
    unfolding word_unat_eq_iff using assms by (simp add: unat_arith_small)
  have s: "saturating_sub x x = (0 :: u32)" for x by (simp add: saturating_sub_def)
  have "unat (d + m) = unat d + unat m" using assms by (simp add: unat_arith_small)
  then have f: "saturating_sub (cd_n_fruits attrs + cd_n_droplets attrs) (d + m) = f"
    unfolding word_unat_eq_iff using assms by (simp add: unat_arith_small)
  have "cd_n_fruits attrs + cd_n_droplets attrs - f - m = d" unfolding e [symmetric] by simp
  then show ?thesis unfolding catch_fruits_droplets_def Let_def option.case prod.case e s
    by (simp add: f)
qed

text \<open>
  Generating a catch state again changes nothing, in the state nor in the calculator.
\<close>

theorem catch_generate_idempotent:
  assumes "catch_generate_state calc self = Inr (s, self')"
    and "resolve_attrs (calc (cp_difficulty self)) (cp_map_or_attrs self) = Inr (attrs, m)"
    and "acc_ok (cp_acc self)" and "catch_small self attrs"
  shows "catch_generate_state calc self' = Inr (s, self')"
proof -
  note g = catch_generate_cases [OF assms(1,2)]
  note t = catch_state_complete_aux [OF assms]
  have sm: "catch_objects attrs < 3000000000" "unat (cd_n_fruits attrs) + unat (cd_n_droplets attrs) < 4294967296"
    using assms(4) by (simp_all add: catch_small_def catch_objects_def)
  have fd: "catch_fruits_droplets attrs (cs_misses s) (Some (cs_fruits s)) (Some (cs_droplets s))
      = (cs_fruits s, cs_droplets s)"
    by (rule catch_fruits_droplets_again [OF sm(2) t(1)])
  have tt: "catch_tiny attrs (cp_acc self) (cs_fruits s) (cs_droplets s) (cs_misses s)
      (Some (cs_tiny_droplets s)) (Some (cs_tiny_droplet_misses s))
      = (cs_tiny_droplets s, cs_tiny_droplet_misses s)"
    by (rule catch_tiny_again [OF sm(1) t(2)]) (use assms(4) in \<open>simp add: catch_small_def\<close>)
  have mm: "map_or 0 (\<lambda>n. min n (cd_n_fruits attrs + cd_n_droplets attrs)) (Some (cs_misses s)) = cs_misses s"
    unfolding g(1) catch_misses_of_def by (cases "cp_misses self") simp_all
  have r: "resolve_attrs (calc (cp_difficulty self')) (cp_map_or_attrs self') = Inr (attrs, m)"
    unfolding g(5) using resolve_attrs_again [OF assms(2)] by simp
  show ?thesis unfolding catch_generate_state_def r sum.case prod.case Let_def
    by (simp add: g(5) mm [simplified] fd tt)
qed

section \<open>Witnesses\<close>

text \<open>Ten fruits, five droplets and twenty tiny droplets, and two misses.\<close>

definition catch_example_attrs :: catch_difficulty_attributes where
  "catch_example_attrs = \<lparr>cd_stars = lit 3 1, cd_ar = lit 9 1, cd_n_fruits = 10, cd_n_droplets = 5,
     cd_n_tiny_droplets = 20, cd_is_convert = False\<rparr>"

definition catch_example :: "f64 option \<Rightarrow> (unit, unit) catch_performance" where
  "catch_example acc = (catch_from_map_or_attrs () (FromAttrs catch_example_attrs))
     \<lparr>cp_acc := acc, cp_misses := Some 2\<rparr>"

definition no_catch_calculation :: "unit difficulty \<Rightarrow> unit \<Rightarrow> convert_error + catch_difficulty_attributes" where
  "no_catch_calculation _ _ = Inl AlreadyConverted"

lemma catch_example_resolve:
  "resolve_attrs (no_catch_calculation (cp_difficulty (catch_example acc))) (cp_map_or_attrs (catch_example acc))
    = Inr (catch_example_attrs, FromAttrs catch_example_attrs)"
  by (simp add: resolve_attrs_def catch_example_def catch_from_map_or_attrs_def)

lemma catch_example_small: "catch_small (catch_example acc) catch_example_attrs"
  "catch_objects catch_example_attrs = 35"
  by (simp_all add: catch_small_def catch_objects_def catch_given_small_def catch_example_def
      catch_from_map_or_attrs_def catch_example_attrs_def)

lemma catch_example_sel [simp]: "cp_acc (catch_example acc) = acc" "cp_tiny_droplets (catch_example acc) = None"
  "cp_tiny_droplet_misses (catch_example acc) = None"
  by (simp_all add: catch_example_def catch_from_map_or_attrs_def)

lemma catch_example_runs:
  obtains s self' where "catch_generate_state no_catch_calculation (catch_example acc) = Inr (s, self')"
  using catch_generate_returns [of no_catch_calculation, OF catch_example_resolve] by blast

theorem catch_state_complete_witness:
  "\<exists>s self'. catch_generate_state no_catch_calculation (catch_example (Some (acc_fraction (lit 95 1)))) = Inr (s, self')
    \<and> unat (cs_fruits s) + unat (cs_droplets s) + unat (cs_misses s) = 15
    \<and> unat (cs_tiny_droplets s) + unat (cs_tiny_droplet_misses s) = 20"
proof -
  have acc: "acc_ok (Some (acc_fraction (lit 95 1)))"
    unfolding acc_ok_def by (simp, rule acc_fraction_ok) (simp add: lit_def)
  obtain s self' where g: "catch_generate_state no_catch_calculation
    (catch_example (Some (acc_fraction (lit 95 1)))) = Inr (s, self')" by (rule catch_example_runs)
  show ?thesis using catch_state_complete [OF g catch_example_resolve _ catch_example_small(1)] acc g
    by (simp add: catch_example_attrs_def)
qed

theorem catch_accuracy_closest_witness:
  "\<exists>s self'. catch_generate_state no_catch_calculation (catch_example (Some (acc_fraction (lit 95 1)))) = Inr (s, self')
    \<and> fval (abs (acc_fraction (lit 95 1) - catch_hit_accuracy (cs_fruits s) (cs_droplets s) (cs_tiny_droplets s)
        (cs_tiny_droplet_misses s) (cs_misses s)))
      \<le> fval (abs (acc_fraction (lit 95 1) - catch_hit_accuracy (cs_fruits s) (cs_droplets s) 15 5 (cs_misses s)))"
proof -
  have acc: "unit_fin (acc_fraction (lit 95 1))" by (rule acc_fraction_ok) (simp add: lit_def)
  obtain s self' where g: "catch_generate_state no_catch_calculation
    (catch_example (Some (acc_fraction (lit 95 1)))) = Inr (s, self')" by (rule catch_example_runs)
  show ?thesis using catch_accuracy_closest [OF g catch_example_resolve _ acc _ _ catch_example_small(1), of 15 5] g
    by (simp add: catch_example_small(2)) (simp add: catch_example_attrs_def)
qed

theorem catch_generate_idempotent_witness:
  "\<exists>s self'. catch_generate_state no_catch_calculation (catch_example None) = Inr (s, self')
    \<and> catch_generate_state no_catch_calculation self' = Inr (s, self')"
proof -
  obtain s self' where g: "catch_generate_state no_catch_calculation (catch_example None) = Inr (s, self')"
    by (rule catch_example_runs)
  show ?thesis using catch_generate_idempotent [OF g catch_example_resolve _ catch_example_small(1)] g
    by (simp add: acc_ok_def)
qed

end
