(* ===== verification/Mania_Performance.thy ===== *)
theory Mania_Performance
  imports Hit_Results
begin

text \<open>
  The performance settings of osu!mania and the generation of a score state from partial
  information (\<open>src/mania/performance/mod.rs\<close>). Where an accuracy is given, the code has
  one branch for every set of given counts; the branches that search make nested loops over
  windows around estimates. A candidate of a search is the quadruple of the 320s and 300s
  together, the 200s, the 100s and the 50s, and each branch lists its candidates in the
  order of the loops.
\<close>

record mania_difficulty_attributes =
  md_stars :: f64
  md_n_objects :: u32
  md_n_hold_notes :: u32
  md_max_combo :: u32
  md_is_convert :: bool

record ('mods, 'map) mania_performance =
  mp_map_or_attrs :: "('map, mania_difficulty_attributes) map_or_attrs"
  mp_difficulty :: "'mods difficulty"
  mp_n320 :: "u32 option"
  mp_n300 :: "u32 option"
  mp_n200 :: "u32 option"
  mp_n100 :: "u32 option"
  mp_n50 :: "u32 option"
  mp_misses :: "u32 option"
  mp_acc :: "f64 option"
  mp_priority :: hit_result_priority

section \<open>Settings\<close>

definition mania_set_n320 ::
  "u32 \<Rightarrow> ('mods, 'map) mania_performance \<Rightarrow> ('mods, 'map) mania_performance" where
  "mania_set_n320 v self = self\<lparr>mp_n320 := Some v\<rparr>"

definition mania_set_n300 ::
  "u32 \<Rightarrow> ('mods, 'map) mania_performance \<Rightarrow> ('mods, 'map) mania_performance" where
  "mania_set_n300 v self = self\<lparr>mp_n300 := Some v\<rparr>"

definition mania_set_n200 ::
  "u32 \<Rightarrow> ('mods, 'map) mania_performance \<Rightarrow> ('mods, 'map) mania_performance" where
  "mania_set_n200 v self = self\<lparr>mp_n200 := Some v\<rparr>"

definition mania_set_n100 ::
  "u32 \<Rightarrow> ('mods, 'map) mania_performance \<Rightarrow> ('mods, 'map) mania_performance" where
  "mania_set_n100 v self = self\<lparr>mp_n100 := Some v\<rparr>"

definition mania_set_n50 ::
  "u32 \<Rightarrow> ('mods, 'map) mania_performance \<Rightarrow> ('mods, 'map) mania_performance" where
  "mania_set_n50 v self = self\<lparr>mp_n50 := Some v\<rparr>"

definition mania_set_misses ::
  "u32 \<Rightarrow> ('mods, 'map) mania_performance \<Rightarrow> ('mods, 'map) mania_performance" where
  "mania_set_misses v self = self\<lparr>mp_misses := Some v\<rparr>"

definition mania_set_difficulty ::
  "'mods difficulty \<Rightarrow> ('mods, 'map) mania_performance \<Rightarrow> ('mods, 'map) mania_performance" where
  "mania_set_difficulty v self = self\<lparr>mp_difficulty := v\<rparr>"

definition mania_set_mods ::
  "'mods \<Rightarrow> ('mods, 'map) mania_performance \<Rightarrow> ('mods, 'map) mania_performance" where
  "mania_set_mods v self = self\<lparr>mp_difficulty := set_mods v (mp_difficulty self)\<rparr>"

definition mania_set_passed_objects ::
  "u32 \<Rightarrow> ('mods, 'map) mania_performance \<Rightarrow> ('mods, 'map) mania_performance" where
  "mania_set_passed_objects v self = self\<lparr>mp_difficulty := set_passed_objects v (mp_difficulty self)\<rparr>"

definition mania_set_clock_rate ::
  "f64 \<Rightarrow> ('mods, 'map) mania_performance \<Rightarrow> ('mods, 'map) mania_performance" where
  "mania_set_clock_rate v self = self\<lparr>mp_difficulty := set_clock_rate v (mp_difficulty self)\<rparr>"

definition mania_set_hp ::
  "f32 \<Rightarrow> bool \<Rightarrow> ('mods, 'map) mania_performance \<Rightarrow> ('mods, 'map) mania_performance" where
  "mania_set_hp v with_mods self = self\<lparr>mp_difficulty := set_hp v with_mods (mp_difficulty self)\<rparr>"

definition mania_set_od ::
  "f32 \<Rightarrow> bool \<Rightarrow> ('mods, 'map) mania_performance \<Rightarrow> ('mods, 'map) mania_performance" where
  "mania_set_od v with_mods self = self\<lparr>mp_difficulty := set_od v with_mods (mp_difficulty self)\<rparr>"

definition mania_set_lazer ::
  "bool \<Rightarrow> ('mods, 'map) mania_performance \<Rightarrow> ('mods, 'map) mania_performance" where
  "mania_set_lazer v self = self\<lparr>mp_difficulty := set_lazer v (mp_difficulty self)\<rparr>"

definition mania_set_priority ::
  "hit_result_priority \<Rightarrow> ('mods, 'map) mania_performance \<Rightarrow> ('mods, 'map) mania_performance" where
  "mania_set_priority v self = self\<lparr>mp_priority := v\<rparr>"

definition mania_set_accuracy ::
  "f64 \<Rightarrow> ('mods, 'map) mania_performance \<Rightarrow> ('mods, 'map) mania_performance" where
  "mania_set_accuracy acc self = self\<lparr>mp_acc := Some (acc_fraction acc)\<rparr>"

definition mania_set_state ::
  "mania_score_state \<Rightarrow> ('mods, 'map) mania_performance \<Rightarrow> ('mods, 'map) mania_performance" where
  "mania_set_state s self = self\<lparr>mp_n320 := Some (ms_n320 s), mp_n300 := Some (ms_n300 s),
     mp_n200 := Some (ms_n200 s), mp_n100 := Some (ms_n100 s), mp_n50 := Some (ms_n50 s),
     mp_misses := Some (ms_misses s)\<rparr>"

definition mania_from_map_or_attrs ::
  "'mods \<Rightarrow> ('map, mania_difficulty_attributes) map_or_attrs \<Rightarrow> ('mods, 'map) mania_performance" where
  "mania_from_map_or_attrs default_mods m = \<lparr>mp_map_or_attrs = m,
     mp_difficulty = difficulty_new default_mods, mp_n320 = None, mp_n300 = None, mp_n200 = None,
     mp_n100 = None, mp_n50 = None, mp_misses = None, mp_acc = None, mp_priority = BestCase\<rparr>"

section \<open>Searching hit results\<close>

definition mania_hit_accuracy :: "u32 \<Rightarrow> u32 \<Rightarrow> u32 \<Rightarrow> u32 \<Rightarrow> u32 \<Rightarrow> u32 \<Rightarrow> f64" where
  "mania_hit_accuracy n320 n300 n200 n100 n50 misses =
    (let numerator = 6 * (n320 + n300) + 4 * n200 + 2 * n100 + n50;
         denominator = 6 * (n320 + n300 + n200 + n100 + n50 + misses)
     in f64_of_u32 numerator / f64_of_u32 denominator)"

type_synonym mania_candidate = "u32 \<times> u32 \<times> u32 \<times> u32"

definition mania_dist :: "f64 \<Rightarrow> u32 \<Rightarrow> mania_candidate \<Rightarrow> f64" where
  "mania_dist acc misses = (\<lambda>(new3x0, new200, new100, new50).
     abs (acc - mania_hit_accuracy new3x0 0 new200 new100 new50 misses))"

text \<open>
  The given 320s and 300s, each with its clamped count, restrict the range of their sum;
  \<open>both\<close> is the sum where both are given.
\<close>

record mania_given =
  mg_320 :: "u32 option"
  mg_300 :: "u32 option"
  mg_n320 :: u32
  mg_n300 :: u32

definition mania_range :: "mania_given \<Rightarrow> u32 \<Rightarrow> u32 \<Rightarrow> u32 \<Rightarrow> u32 list" where
  "mania_range g both min_n3x0 max_n3x0 = (case (mg_320 g, mg_300 g) of
      (Some _, Some _) \<Rightarrow> u32_range both both
    | (Some _, None) \<Rightarrow> u32_range (max min_n3x0 (mg_n320 g)) (max max_n3x0 (mg_n320 g))
    | (None, Some _) \<Rightarrow> u32_range (max min_n3x0 (mg_n300 g)) (max max_n3x0 (mg_n300 g))
    | (None, None) \<Rightarrow> u32_range min_n3x0 max_n3x0)"

text \<open>Clamped floor and ceiling of an estimate.\<close>

definition floor_at_most :: "u32 \<Rightarrow> f64 \<Rightarrow> u32" where
  "floor_at_most limit raw = min (as_u32 (ffloor raw)) limit"

definition ceil_at_most :: "u32 \<Rightarrow> f64 \<Rightarrow> u32" where
  "ceil_at_most limit raw = min (as_u32 (fceil raw)) limit"

text \<open>Given 100s and 50s.\<close>

definition mania_cands_100_50 :: "f64 \<Rightarrow> mania_given \<Rightarrow> u32 \<Rightarrow> u32 \<Rightarrow> u32 \<Rightarrow> mania_candidate list" where
  "mania_cands_100_50 target_total g n_remaining n100 n50 =
    (let raw_n3x0 = (target_total - f64_of_u32 (4 * n_remaining) + f64_of_u32 (2 * n100 + 3 * n50)) / lit 2 1;
         limit = saturating_sub n_remaining (n100 + n50)
     in map (\<lambda>new3x0. (new3x0, saturating_sub n_remaining (new3x0 + n100 + n50), n100, n50))
          (mania_range g (mg_n320 g + mg_n300 g) (floor_at_most limit raw_n3x0) (ceil_at_most limit raw_n3x0)))"

text \<open>Given 200s and 50s.\<close>

definition mania_cands_200_50 :: "f64 \<Rightarrow> mania_given \<Rightarrow> u32 \<Rightarrow> u32 \<Rightarrow> u32 \<Rightarrow> mania_candidate list" where
  "mania_cands_200_50 target_total g n_remaining n200 n50 =
    (let raw_n3x0 = (target_total - f64_of_u32 (2 * (n_remaining + n200) - n50)) / lit 4 1;
         limit = saturating_sub n_remaining (n200 + n50)
     in map (\<lambda>new3x0. (new3x0, n200, saturating_sub n_remaining (new3x0 + n200 + n50), n50))
          (mania_range g (mg_n320 g + mg_n300 g) (floor_at_most limit raw_n3x0) (ceil_at_most limit raw_n3x0)))"

text \<open>Given 200s and 100s.\<close>

definition mania_cands_200_100 :: "f64 \<Rightarrow> mania_given \<Rightarrow> u32 \<Rightarrow> u32 \<Rightarrow> u32 \<Rightarrow> mania_candidate list" where
  "mania_cands_200_100 target_total g n_remaining n200 n100 =
    (let raw_n3x0 = (target_total - f64_of_u32 (n_remaining + 3 * n200 + n100)) / lit 5 1;
         limit = saturating_sub n_remaining (n200 + n100)
     in map (\<lambda>new3x0. (new3x0, n200, n100, saturating_sub n_remaining (new3x0 + n200 + n100)))
          (mania_range g (mg_n320 g + mg_n300 g) (floor_at_most limit raw_n3x0) (ceil_at_most limit raw_n3x0)))"

text \<open>Given 200s: the second loop is over the 100s.\<close>

definition mania_inner_200 :: "f64 \<Rightarrow> u32 \<Rightarrow> u32 \<Rightarrow> u32 \<Rightarrow> mania_candidate list" where
  "mania_inner_200 target_total n_remaining n200 new3x0 =
    (let raw_n100 = target_total - f64_of_u32 (n_remaining + 5 * new3x0 + 3 * n200);
         limit = saturating_sub n_remaining (new3x0 + n200)
     in map (\<lambda>new100. (new3x0, n200, new100, saturating_sub n_remaining (new3x0 + n200 + new100)))
          (u32_range (floor_at_most limit raw_n100) (ceil_at_most limit raw_n100)))"

definition mania_cands_200 :: "f64 \<Rightarrow> mania_given \<Rightarrow> u32 \<Rightarrow> u32 \<Rightarrow> mania_candidate list" where
  "mania_cands_200 target_total g n_remaining n200 =
    (let min_n3x0 = floor_at_most (n_remaining - n200)
           ((target_total - f64_of_u32 (2 * (n_remaining + n200))) / lit 4 1);
         max_n3x0 = ceil_at_most (n_remaining - n200)
           ((target_total - f64_of_u32 (n_remaining + 3 * n200)) / lit 5 1)
     in concat (map (mania_inner_200 target_total n_remaining n200)
          (mania_range g (min n_remaining (mg_n320 g + mg_n300 g)) min_n3x0 max_n3x0)))"

text \<open>Given 100s: the second loop is over the 200s.\<close>

definition mania_inner_100 :: "f64 \<Rightarrow> u32 \<Rightarrow> u32 \<Rightarrow> u32 \<Rightarrow> mania_candidate list" where
  "mania_inner_100 target_total n_remaining n100 new3x0 =
    (let raw_n200 = (target_total - f64_of_u32 (n_remaining + 5 * new3x0 + n100)) / lit 3 1;
         limit = saturating_sub n_remaining (new3x0 + n100)
     in map (\<lambda>new200. (new3x0, new200, n100, saturating_sub n_remaining (new3x0 + new200 + n100)))
          (u32_range (floor_at_most limit raw_n200) (ceil_at_most limit raw_n200)))"

definition mania_cands_100 :: "f64 \<Rightarrow> f64 \<Rightarrow> mania_given \<Rightarrow> u32 \<Rightarrow> u32 \<Rightarrow> mania_candidate list" where
  "mania_cands_100 acc target_total g n_remaining n100 =
    (let min_n3x0 = floor_at_most (n_remaining - n100)
           (acc * f64_of_u32 (3 * n_remaining) - f64_of_u32 (2 * n_remaining - n100));
         max_n3x0 = ceil_at_most (n_remaining - n100)
           ((target_total - f64_of_u32 (n_remaining + n100)) / lit 5 1)
     in concat (map (mania_inner_100 target_total n_remaining n100)
          (mania_range g (min n_remaining (mg_n320 g + mg_n300 g)) min_n3x0 max_n3x0)))"

text \<open>Given 50s: the second loop is over the 200s.\<close>

definition mania_inner_50 :: "f64 \<Rightarrow> u32 \<Rightarrow> u32 \<Rightarrow> u32 \<Rightarrow> mania_candidate list" where
  "mania_inner_50 target_total n_remaining n50 new3x0 =
    (let raw_n200 = (target_total - f64_of_u32 (2 * n_remaining + 4 * new3x0) + f64_of_u32 n50) / lit 2 1;
         limit = saturating_sub n_remaining (new3x0 + n50)
     in map (\<lambda>new200. (new3x0, new200, saturating_sub n_remaining (new3x0 + new200 + n50), n50))
          (u32_range (floor_at_most limit raw_n200) (ceil_at_most limit raw_n200)))"

definition mania_cands_50 :: "f64 \<Rightarrow> mania_given \<Rightarrow> u32 \<Rightarrow> u32 \<Rightarrow> mania_candidate list" where
  "mania_cands_50 target_total g n_remaining n50 =
    (let min_n3x0 = floor_at_most (n_remaining - n50)
           ((target_total - f64_of_u32 (4 * n_remaining - 3 * n50)) / lit 2 1);
         max_n3x0 = ceil_at_most (n_remaining - n50)
           ((target_total - f64_of_u32 (2 * n_remaining - n50)) / lit 4 1)
     in concat (map (mania_inner_50 target_total n_remaining n50)
          (mania_range g (min n_remaining (mg_n320 g + mg_n300 g)) min_n3x0 max_n3x0)))"

text \<open>None of the three given: three nested loops.\<close>

definition mania_innermost :: "f64 \<Rightarrow> u32 \<Rightarrow> u32 \<Rightarrow> u32 \<Rightarrow> mania_candidate list" where
  "mania_innermost target_total n_remaining new3x0 new200 =
    (let raw_n100 = target_total - f64_of_u32 (n_remaining + 5 * new3x0 + 3 * new200);
         limit = n_remaining - (new3x0 + new200)
     in map (\<lambda>new100. (new3x0, new200, new100, n_remaining - new3x0 - new200 - new100))
          (u32_range (floor_at_most limit raw_n100) (ceil_at_most limit raw_n100)))"

definition mania_inner_none :: "f64 \<Rightarrow> f64 \<Rightarrow> u32 \<Rightarrow> u32 \<Rightarrow> u32 \<Rightarrow> mania_candidate list" where
  "mania_inner_none acc target_total n_objects n_remaining new3x0 =
    (let min_n200 = floor_at_most (n_remaining - new3x0)
           (acc * f64_of_u32 (3 * n_objects) - f64_of_u32 (n_remaining + 2 * new3x0));
         max_n200 = ceil_at_most (n_remaining - new3x0)
           ((target_total - f64_of_u32 (n_remaining + 5 * new3x0)) / lit 3 1)
     in concat (map (mania_innermost target_total n_remaining new3x0) (u32_range min_n200 max_n200)))"

definition mania_cands_none :: "f64 \<Rightarrow> f64 \<Rightarrow> mania_given \<Rightarrow> u32 \<Rightarrow> u32 \<Rightarrow> mania_candidate list" where
  "mania_cands_none acc target_total g n_objects n_remaining =
    (let min_n3x0 = floor_at_most n_remaining ((target_total - f64_of_u32 (4 * n_remaining)) / lit 5 1);
         max_n3x0 = ceil_at_most n_remaining
           (fmin ((target_total - f64_of_u32 n_remaining) / lit 5 1)
             (acc * f64_of_u32 (3 * n_objects) - f64_of_u32 n_remaining))
     in concat (map (mania_inner_none acc target_total n_objects n_remaining)
          (mania_range g (min n_remaining (mg_n320 g + mg_n300 g)) min_n3x0 max_n3x0)))"

section \<open>Generating a state\<close>

type_synonym mania_counts = "u32 \<times> u32 \<times> u32 \<times> u32 \<times> u32"

text \<open>The best candidate, its 3x0s split into 320s and 300s.\<close>

definition mania_split :: "hit_result_priority \<Rightarrow> mania_given \<Rightarrow> u32 \<Rightarrow> u32 \<times> u32" where
  "mania_split priority g n3x0 = (case (mg_320 g, mg_300 g) of
      (None, None) \<Rightarrow> (case priority of
          BestCase \<Rightarrow> (n3x0, mg_n300 g)
        | WorstCase \<Rightarrow> (mg_n320 g, n3x0))
    | (Some _, None) \<Rightarrow> (mg_n320 g, n3x0 - mg_n320 g)
    | (None, Some _) \<Rightarrow> (n3x0 - mg_n300 g, mg_n300 g)
    | (Some _, Some _) \<Rightarrow> (mg_n320 g, mg_n300 g))"

definition mania_search ::
  "f64 \<Rightarrow> u32 \<Rightarrow> hit_result_priority \<Rightarrow> mania_given \<Rightarrow> mania_candidate list \<Rightarrow> mania_candidate \<Rightarrow> mania_counts" where
  "mania_search acc misses priority g cs start =
    (let (n3x0, n200, n100, n50) = closest f64_infinity (mania_dist acc misses) cs start;
         (n320, n300) = mania_split priority g n3x0
     in (n320, n300, n200, n100, n50))"

text \<open>Distribute 200s onto 320s and 100s.\<close>

definition mania_distribute :: "hit_result_priority \<Rightarrow> mania_given \<Rightarrow> mania_counts \<Rightarrow> mania_counts" where
  "mania_distribute priority g = (\<lambda>(n320, n300, n200, n100, n50).
    if mg_320 g = None \<and> priority = BestCase then
      (let n = n200 div 2 in (n320 + n, n300, n200 - 2 * n, n100 + n, n50))
    else (n320, n300, n200, n100, n50))"

definition mania_hits_acc ::
  "f64 \<Rightarrow> hit_result_priority \<Rightarrow> u32 \<Rightarrow> u32 \<Rightarrow> mania_given
    \<Rightarrow> u32 \<Rightarrow> u32 \<Rightarrow> u32 \<Rightarrow> u32 option \<Rightarrow> u32 option \<Rightarrow> u32 option \<Rightarrow> mania_counts" where
  "mania_hits_acc acc priority n_objects misses g n200 n100 n50 given200 given100 given50 =
    (let n_remaining = n_objects - misses;
         n320 = mg_n320 g; n300 = mg_n300 g;
         target_total = acc * f64_of_u32 (6 * n_objects);
         search = mania_search acc misses priority g;
         rest = saturating_sub n_objects
     in case (given200, given100, given50) of
        (Some _, Some _, Some _) \<Rightarrow> (case (mg_320 g, mg_300 g) of
            (Some _, Some _) \<Rightarrow>
              (let remaining = rest (n320 + n300 + n200 + n100 + n50 + misses)
               in case priority of
                  BestCase \<Rightarrow> (n320 + remaining, n300, n200, n100, n50)
                | WorstCase \<Rightarrow> (n320, n300, n200, n100, n50 + remaining))
          | (None, Some _) \<Rightarrow> (rest (n300 + n200 + n100 + n50 + misses), n300, n200, n100, n50)
          | (Some _, None) \<Rightarrow> (n320, rest (n320 + n200 + n100 + n50 + misses), n200, n100, n50)
          | (None, None) \<Rightarrow>
              (let remaining = rest (n320 + n300 + n200 + n100 + n50 + misses)
               in case priority of
                  BestCase \<Rightarrow> (remaining, n300, n200, n100, n50)
                | WorstCase \<Rightarrow> (n320, remaining, n200, n100, n50)))
      | (None, Some _, Some _) \<Rightarrow>
          (if mg_320 g \<noteq> None \<and> mg_300 g \<noteq> None
           then (n320, n300, rest (n320 + n300 + n100 + n50 + misses), n100, n50)
           else search (mania_cands_100_50 target_total g n_remaining n100 n50)
             (rest (n320 + n300 + n100 + n50 + misses), n200, n100, n50))
      | (Some _, None, Some _) \<Rightarrow>
          (if mg_320 g \<noteq> None \<and> mg_300 g \<noteq> None
           then (n320, n300, n200, rest (n320 + n300 + n200 + n50 + misses), n50)
           else search (mania_cands_200_50 target_total g n_remaining n200 n50)
             (rest (n320 + n300 + n200 + n50 + misses), n200, n100, n50))
      | (Some _, Some _, None) \<Rightarrow>
          (if mg_320 g \<noteq> None \<and> mg_300 g \<noteq> None
           then (n320, n300, n200, n100, rest (n320 + n300 + n200 + n100 + misses))
           else search (mania_cands_200_100 target_total g n_remaining n200 n100)
             (rest (n320 + n300 + n200 + n100 + misses), n200, n100, n50))
      | (Some _, None, None) \<Rightarrow>
          search (mania_cands_200 target_total g n_remaining n200)
            (rest (n320 + n300 + n200 + misses), n200, n100, n50)
      | (None, Some _, None) \<Rightarrow>
          search (mania_cands_100 acc target_total g n_remaining n100)
            (rest (n320 + n300 + n100 + misses), n200, n100, n50)
      | (None, None, Some _) \<Rightarrow>
          mania_distribute priority g
            (search (mania_cands_50 target_total g n_remaining n50)
              (rest (n320 + n300 + n50 + misses), n200, n100, n50))
      | (None, None, None) \<Rightarrow>
          mania_distribute priority g
            (search (mania_cands_none acc target_total g n_objects n_remaining)
              (rest (n320 + n300 + n200 + n100 + misses), n200, n100, n50)))"

definition mania_hits_no_acc ::
  "hit_result_priority \<Rightarrow> u32 \<Rightarrow> u32 \<Rightarrow> mania_counts
    \<Rightarrow> u32 option \<Rightarrow> u32 option \<Rightarrow> u32 option \<Rightarrow> u32 option \<Rightarrow> u32 option \<Rightarrow> mania_counts" where
  "mania_hits_no_acc priority n_objects misses = (\<lambda>(n320, n300, n200, n100, n50) g320 g300 g200 g100 g50.
    (let remaining = saturating_sub n_objects (n320 + n300 + n200 + n100 + n50 + misses)
     in case priority of
        BestCase \<Rightarrow>
          (if g320 = None then (remaining, n300, n200, n100, n50)
           else if g300 = None then (n320, remaining, n200, n100, n50)
           else if g200 = None then (n320, n300, remaining, n100, n50)
           else if g100 = None then (n320, n300, n200, remaining, n50)
           else if g50 = None then (n320, n300, n200, n100, remaining)
           else (n320 + remaining, n300, n200, n100, n50))
      | WorstCase \<Rightarrow>
          (if g50 = None then (n320, n300, n200, n100, remaining)
           else if g100 = None then (n320, n300, n200, remaining, n50)
           else if g200 = None then (n320, n300, remaining, n100, n50)
           else if g300 = None then (n320, remaining, n200, n100, n50)
           else if g320 = None then (remaining, n300, n200, n100, n50)
           else (n320, n300, n200, n100, n50 + remaining))))"

definition mania_generate_state ::
  "('mods difficulty \<Rightarrow> 'map \<Rightarrow> 'e + mania_difficulty_attributes)
    \<Rightarrow> ('mods, 'map) mania_performance
    \<Rightarrow> 'e + mania_score_state \<times> ('mods, 'map) mania_performance" where
  "mania_generate_state calculate_for_mode self =
    (case resolve_attrs (calculate_for_mode (mp_difficulty self)) (mp_map_or_attrs self) of
       Inl e \<Rightarrow> Inl e
     | Inr (attrs, map_or_attrs') \<Rightarrow>
        (let n_objects = min (ucast (get_passed_objects (mp_difficulty self))) (md_n_objects attrs);
             misses = map_or 0 (\<lambda>n. min n n_objects) (mp_misses self);
             n_objects = (if get_lazer (mp_difficulty self) then n_objects + md_n_hold_notes attrs else n_objects);
             n_remaining = n_objects - misses;
             clamped = map_or 0 (\<lambda>n. min n n_remaining);
             n320 = clamped (mp_n320 self); n300 = clamped (mp_n300 self); n200 = clamped (mp_n200 self);
             n100 = clamped (mp_n100 self); n50 = clamped (mp_n50 self);
             (n320, n300, n200, n100, n50) = (case mp_acc self of
                 Some acc \<Rightarrow> mania_hits_acc acc (mp_priority self) n_objects misses
                   \<lparr>mg_320 = mp_n320 self, mg_300 = mp_n300 self, mg_n320 = n320, mg_n300 = n300\<rparr>
                   n200 n100 n50 (mp_n200 self) (mp_n100 self) (mp_n50 self)
               | None \<Rightarrow> mania_hits_no_acc (mp_priority self) n_objects misses (n320, n300, n200, n100, n50)
                   (mp_n320 self) (mp_n300 self) (mp_n200 self) (mp_n100 self) (mp_n50 self))
         in Inr (\<lparr>ms_n320 = n320, ms_n300 = n300, ms_n200 = n200, ms_n100 = n100, ms_n50 = n50, ms_misses = misses\<rparr>,
              self\<lparr>mp_map_or_attrs := map_or_attrs', mp_n320 := Some n320, mp_n300 := Some n300,
                mp_n200 := Some n200, mp_n100 := Some n100, mp_n50 := Some n50, mp_misses := Some misses\<rparr>)))"

end
