(* ===== verification/Mode_PP.thy ===== *)
theory Mode_PP
  imports Difficulty_Math Mods Taiko_Performance Catch_Performance Mania_Performance Accuracy
begin

text \<open>
  Performance points of osu!taiko, osu!catch and osu!mania: the calculators in
  \<open>src/taiko/performance/calculator.rs\<close>, \<open>src/catch/performance/calculator.rs\<close> and
  \<open>src/mania/performance/calculator.rs\<close>, and the \<open>calculate\<close> of each mode.
\<close>

section \<open>osu!taiko\<close>

record taiko_performance_attributes =
  ta_difficulty :: taiko_difficulty_attributes
  ta_pp :: f64
  ta_pp_acc :: f64
  ta_pp_difficulty :: f64
  ta_effective_miss_count :: f64
  ta_estimated_unstable_rate :: "f64 option"

record ('l, 'i, 'g) taiko_calculator =
  tc_attrs :: taiko_difficulty_attributes
  tc_mods :: "('l, 'i, 'g) game_mods"
  tc_state :: taiko_score_state

definition taiko_total :: "('l, 'i, 'g) taiko_calculator \<Rightarrow> f64" where
  "taiko_total self = f64_of_u32 (taiko_total_hits (tc_state self))"

text \<open>The 99 percent critical value of the normal distribution.\<close>

definition taiko_z :: f64 where
  "taiko_z = lit 232634787404 100000000000"

definition deviation_upper_bound :: "libm \<Rightarrow> ('l, 'i, 'g) taiko_calculator \<Rightarrow> f64 \<Rightarrow> f64" where
  "deviation_upper_bound lm self p =
    (let z = taiko_z; n = taiko_total self;
         p_lower_bound = (n * p + z * z / lit 2 1) / (n + z * z)
           - z / (n + z * z) * fsqrt (n * p * (lit 1 1 - p) + z * z / lit 4 1)
     in td_great_hit_window (tc_attrs self) / (fsqrt (lit 2 1) * erf_inv lm p_lower_bound))"

definition taiko_rhythm_penalty :: "libm \<Rightarrow> ('l, 'i, 'g) taiko_calculator \<Rightarrow> f64 \<Rightarrow> f64" where
  "taiko_rhythm_penalty lm self unstable_rate =
    (let attrs = tc_attrs self;
         expected = deviation_upper_bound lm self (lit 1 1) * lit 10 1;
         maximum = deviation_upper_bound lm self (lit 8 10) * lit 10 1;
         rhythm_factor = (if lit 0 1 < td_stars attrs
           then reverse_lerp (td_rhythm attrs / td_stars attrs) (lit 15 100) (lit 4 10) else lit 0 1);
         mid = (expected + maximum) / lit 2 1;
         range = maximum - expected
     in if lit 0 1 < range
        then lit 1 1 - logistic lm unstable_rate mid (lit 10 1 / range)
          (Some (lit 25 100 * lm_powi lm rhythm_factor 3))
        else lit 1 1)"

definition taiko_hidden_bonus :: "('l, 'i, 'g) rosu_mods \<Rightarrow> ('l, 'i, 'g) game_mods \<Rightarrow> bool \<Rightarrow> bool \<Rightarrow> f64" where
  "taiko_hidden_bonus api m is_convert is_classic =
    (let bonus = (if is_convert then lit 25 1000 else lit 1 10)
     in if fl api m then bonus
        else let bonus = (if \<not> is_classic then bonus * lit 2 10 else bonus)
             in if ez api m \<and> is_classic then bonus * lit 5 10 else bonus)"

definition taiko_difficulty_value ::
  "('l, 'i, 'g) rosu_mods \<Rightarrow> libm \<Rightarrow> ('l, 'i, 'g) taiko_calculator \<Rightarrow> f64 option \<Rightarrow> f64 \<Rightarrow> bool \<Rightarrow> bool \<Rightarrow> f64" where
  "taiko_difficulty_value api lm self estimated_unstable_rate total_difficult_hits is_convert is_classic =
    (case estimated_unstable_rate of None \<Rightarrow> lit 0 1
     | Some unstable_rate \<Rightarrow>
         if total_difficult_hits \<le> lit 0 1 then lit 0 1
         else let attrs = tc_attrs self; m = tc_mods self;
                  base = lit 5 1 * fmax (lit 1 1) (td_stars attrs * taiko_rhythm_penalty lm self unstable_rate / lit 110 1000)
                    - lit 4 1;
                  value = fmin (lm_powi lm base 3 / lit 6905251 100) (lm_powf lm base (lit 225 100) / lit 1250 1);
                  value = value * (lit 1 1 + lit 10 100 * fmax (lit 0 1) (td_stars attrs - lit 10 1));
                  length_bonus = lit 1 1 + lit 25 100 * total_difficult_hits / (total_difficult_hits + lit 4000 1);
                  value = value * length_bonus;
                  miss_penalty = lit 97 100 + lit 3 100 * total_difficult_hits / (total_difficult_hits + lit 1500 1);
                  value = value * lm_powf lm miss_penalty (f64_of_u32 (ts_misses (tc_state self)));
                  value = (if hd_mod api m
                    then value * (lit 1 1 + taiko_hidden_bonus api m is_convert is_classic) else value);
                  value = (if fl api m
                    then value * fmax (lit 1 1)
                      (lit 1050 1000 - fmin (td_mono_stamina_factor attrs / lit 50 1) (lit 1 1) * length_bonus)
                    else value);
                  scaling_exp = lit 2 1 + td_mono_stamina_factor attrs;
                  scaling_shift = lit 500 1 - lit 100 1 * (td_mono_stamina_factor attrs * lit 3 1)
              in value * lm_powf lm (erf lm (scaling_shift / (fsqrt (lit 2 1) * unstable_rate))) scaling_exp)"

definition taiko_accuracy_value ::
  "('l, 'i, 'g) rosu_mods \<Rightarrow> libm \<Rightarrow> ('l, 'i, 'g) taiko_calculator \<Rightarrow> f64 option \<Rightarrow> f64 \<Rightarrow> bool \<Rightarrow> f64" where
  "taiko_accuracy_value api lm self estimated_unstable_rate total_difficult_hits is_convert =
    (let attrs = tc_attrs self; m = tc_mods self in
     if td_great_hit_window attrs \<le> lit 0 1 then lit 0 1
     else case estimated_unstable_rate of None \<Rightarrow> lit 0 1
     | Some unstable_rate \<Rightarrow>
         let value = lit 470 1 * lm_powf lm (lit 9885 10000) unstable_rate;
             value = value * (lit 1 1 + lm_powi lm (lit 50 1 / unstable_rate) 2
               * lm_powf lm (td_stars attrs) (lit 28 10) / lit 600 1);
             value = (if hd_mod api m \<and> \<not> is_convert then value * lit 1075 1000 else value);
             value = value * (lit 1 1 + lit 3 10 * total_difficult_hits / (total_difficult_hits + lit 4000 1));
             memory_length_bonus = fmin (lit 115 100) (lm_powf lm (taiko_total self / lit 1500 1) (lit 3 10))
         in if fl api m \<and> hd_mod api m \<and> \<not> is_convert
            then value * fmax (lit 1 1) (lit 105 100 * memory_length_bonus) else value)"

definition taiko_unstable_rate :: "libm \<Rightarrow> ('l, 'i, 'g) taiko_calculator \<Rightarrow> f64 option" where
  "taiko_unstable_rate lm self =
    (if ts_n300 (tc_state self) = 0 \<or> td_great_hit_window (tc_attrs self) \<le> lit 0 1 then None
     else let accuracy = f64_of_u32 (ts_n300 (tc_state self)) / taiko_total self
          in Some (deviation_upper_bound lm self accuracy * lit 10 1))"

definition taiko_calculate ::
  "('l, 'i, 'g) rosu_mods \<Rightarrow> libm \<Rightarrow> ('l, 'i, 'g) taiko_calculator \<Rightarrow> taiko_performance_attributes" where
  "taiko_calculate api lm self =
    (let attrs = tc_attrs self;
         total_hits = taiko_total self;
         unstable_rate = taiko_unstable_rate lm self;
         total_difficult_hits = total_hits * td_consistency_factor attrs;
         is_convert = td_is_convert attrs;
         is_classic = cl api (tc_mods self);
         difficulty_value = taiko_difficulty_value api lm self unstable_rate total_difficult_hits is_convert is_classic
           * lit 108 100;
         accuracy_value = taiko_accuracy_value api lm self unstable_rate total_difficult_hits is_convert * lit 11 10
     in \<lparr>ta_difficulty = attrs, ta_pp = difficulty_value + accuracy_value, ta_pp_acc = accuracy_value,
          ta_pp_difficulty = difficulty_value, ta_effective_miss_count = f64_of_u32 (ts_misses (tc_state self)),
          ta_estimated_unstable_rate = unstable_rate\<rparr>)"

definition taiko_performance_calculate ::
  "('l, 'i, 'g) rosu_mods \<Rightarrow> libm
    \<Rightarrow> (('l, 'i, 'g) game_mods difficulty \<Rightarrow> 'map \<Rightarrow> 'e + taiko_difficulty_attributes)
    \<Rightarrow> (('l, 'i, 'g) game_mods, 'map) taiko_performance \<Rightarrow> 'e + taiko_performance_attributes" where
  "taiko_performance_calculate api lm calculate_for_mode =
    calculate_with (taiko_generate_state calculate_for_mode) tp_map_or_attrs tp_difficulty calculate_for_mode
      (\<lambda>self attrs s. taiko_calculate api lm \<lparr>tc_attrs = attrs, tc_mods = d_mods (tp_difficulty self), tc_state = s\<rparr>)"

section \<open>osu!catch\<close>

record catch_performance_attributes =
  ca_difficulty :: catch_difficulty_attributes
  ca_pp :: f64

record ('l, 'i, 'g) catch_calculator =
  cc_attrs :: catch_difficulty_attributes
  cc_mods :: "('l, 'i, 'g) game_mods"
  cc_state :: catch_score_state

definition combo_hits :: "('l, 'i, 'g) catch_calculator \<Rightarrow> u32" where
  "combo_hits self = cs_fruits (cc_state self) + cs_droplets (cc_state self) + cs_misses (cc_state self)"

definition catch_calculate ::
  "('l, 'i, 'g) rosu_mods \<Rightarrow> libm \<Rightarrow> ('l, 'i, 'g) catch_calculator \<Rightarrow> catch_performance_attributes" where
  "catch_calculate api lm self =
    (let attrs = cc_attrs self; m = cc_mods self; s = cc_state self;
         max_combo = catch_max_combo attrs;
         pp = lm_powf lm (lit 5 1 * fmax (cd_stars attrs / lit 49 10000) (lit 1 1) - lit 4 1) (lit 2 1) / lit 100000 1;
         hits = combo_hits self;
         len_bonus = lit 95 100 + lit 3 10 * fmin (f64_of_u32 hits / lit 2500 1) (lit 1 1);
         len_bonus = (if 2500 < hits
           then len_bonus + lm_log10 lm (f64_of_u32 hits / lit 2500 1) * lit 475 1000 else len_bonus);
         pp = pp * len_bonus;
         pp = pp * lm_powf lm (lit 97 100) (f64_of_u32 (cs_misses s));
         pp = (if max_combo \<noteq> 0
           then pp * fmin (lm_powf lm (f64_of_u32 (cs_max_combo s)) (lit 35 100)
             / lm_powf lm (f64_of_u32 max_combo) (lit 35 100)) (lit 1 1)
           else pp);
         ar = cd_ar attrs;
         ar_factor = lit 1 1;
         ar_factor = (if lit 9 1 < ar
           then ar_factor + (lit 1 10 * (ar - lit 9 1)
             + (if lit 10 1 < ar then lit 1 1 else lit 0 1) * lit 1 10 * (ar - lit 10 1))
           else if ar < lit 8 1 then ar_factor + lit 25 1000 * (lit 8 1 - ar) else ar_factor);
         pp = pp * ar_factor;
         pp = (if hd_mod api m
           then (if ar \<le> lit 10 1 then pp * (lit 105 100 + lit 75 1000 * (lit 10 1 - ar))
             else if lit 10 1 < ar then pp * (lit 101 100 + lit 4 100 * (lit 11 1 - fmin ar (lit 11 1)))
             else pp)
           else pp);
         pp = (if fl api m then pp * (lit 135 100 * len_bonus) else pp);
         pp = pp * lm_powf lm (catch_accuracy s) (lit 55 10);
         pp = (if nf api m
           then pp * fmax (lit 1 1 - lit 2 100 * f64_of_u32 (cs_misses s)) (lit 9 10) else pp)
     in \<lparr>ca_difficulty = attrs, ca_pp = pp\<rparr>)"

definition catch_performance_calculate ::
  "('l, 'i, 'g) rosu_mods \<Rightarrow> libm
    \<Rightarrow> (('l, 'i, 'g) game_mods difficulty \<Rightarrow> 'map \<Rightarrow> 'e + catch_difficulty_attributes)
    \<Rightarrow> (('l, 'i, 'g) game_mods, 'map) catch_performance \<Rightarrow> 'e + catch_performance_attributes" where
  "catch_performance_calculate api lm calculate_for_mode =
    calculate_with (catch_generate_state calculate_for_mode) cp_map_or_attrs cp_difficulty calculate_for_mode
      (\<lambda>self attrs s. catch_calculate api lm \<lparr>cc_attrs = attrs, cc_mods = d_mods (cp_difficulty self), cc_state = s\<rparr>)"

section \<open>osu!mania\<close>

record mania_performance_attributes =
  ma_difficulty :: mania_difficulty_attributes
  ma_pp :: f64
  ma_pp_difficulty :: f64

record ('l, 'i, 'g) mania_calculator =
  mc_attrs :: mania_difficulty_attributes
  mc_mods :: "('l, 'i, 'g) game_mods"
  mc_state :: mania_score_state

definition custom_accuracy :: "u32 \<Rightarrow> u32 \<Rightarrow> u32 \<Rightarrow> u32 \<Rightarrow> u32 \<Rightarrow> u32 \<Rightarrow> f64" where
  "custom_accuracy n320 n300 n200 n100 n50 hits =
    f64_of_u32 (n320 * 32 + n300 * 30 + n200 * 20 + n100 * 10 + n50 * 5) / f64_of_u32 (hits * 32)"

definition mania_custom_accuracy :: "mania_score_state \<Rightarrow> f64" where
  "mania_custom_accuracy s =
    (if mania_total_hits s = 0 then lit 0 1
     else custom_accuracy (ms_n320 s) (ms_n300 s) (ms_n200 s) (ms_n100 s) (ms_n50 s) (mania_total_hits s))"

definition mania_difficulty_value :: "libm \<Rightarrow> ('l, 'i, 'g) mania_calculator \<Rightarrow> f64" where
  "mania_difficulty_value lm self =
    lit 8 1 * lm_powf lm (fmax (md_stars (mc_attrs self) - lit 15 100) (lit 5 100)) (lit 22 10)
      * fmax (lit 0 1) (lit 5 1 * mania_custom_accuracy (mc_state self) - lit 4 1)
      * (lit 1 1 + lit 1 10 * fmin (lit 1 1) (f64_of_u32 (mania_total_hits (mc_state self)) / lit 1500 1))"

definition mania_calculate ::
  "('l, 'i, 'g) rosu_mods \<Rightarrow> libm \<Rightarrow> ('l, 'i, 'g) mania_calculator \<Rightarrow> mania_performance_attributes" where
  "mania_calculate api lm self =
    (let multiplier = lit 1 1;
         multiplier = (if nf api (mc_mods self) then multiplier * lit 75 100 else multiplier);
         multiplier = (if ez api (mc_mods self) then multiplier * lit 5 10 else multiplier);
         difficulty_value = mania_difficulty_value lm self
     in \<lparr>ma_difficulty = mc_attrs self, ma_pp = difficulty_value * multiplier, ma_pp_difficulty = difficulty_value\<rparr>)"

definition mania_performance_calculate ::
  "('l, 'i, 'g) rosu_mods \<Rightarrow> libm
    \<Rightarrow> (('l, 'i, 'g) game_mods difficulty \<Rightarrow> 'map \<Rightarrow> 'e + mania_difficulty_attributes)
    \<Rightarrow> (('l, 'i, 'g) game_mods, 'map) mania_performance \<Rightarrow> 'e + mania_performance_attributes" where
  "mania_performance_calculate api lm calculate_for_mode =
    calculate_with (mania_generate_state calculate_for_mode) mp_map_or_attrs mp_difficulty calculate_for_mode
      (\<lambda>self attrs s. mania_calculate api lm \<lparr>mc_attrs = attrs, mc_mods = d_mods (mp_difficulty self), mc_state = s\<rparr>)"

section \<open>Errors\<close>

interpretation taiko_generator: mode_generator taiko_generate_state tp_map_or_attrs tp_difficulty
  by unfold_locales (simp_all add: taiko_generate_state_def Let_def split: prod.splits)

interpretation catch_generator: mode_generator catch_generate_state cp_map_or_attrs cp_difficulty
  by unfold_locales (simp_all add: catch_generate_state_def Let_def split: prod.splits)

interpretation mania_generator: mode_generator mania_generate_state mp_map_or_attrs mp_difficulty
  by unfold_locales (simp_all add: mania_generate_state_def Let_def split: prod.splits)

text \<open>
  C36. In taiko, catch and mania a calculation fails exactly when the conversion of the map
  does, and with its error; given attributes never fail.
\<close>

theorem mode_calculate_errors:
  "(taiko_performance_calculate api lm ct t = Inl e \<longleftrightarrow> (\<exists>bm. tp_map_or_attrs t = FromMap bm \<and> ct (tp_difficulty t) bm = Inl e))
    \<and> (catch_performance_calculate api lm cc c = Inl e \<longleftrightarrow> (\<exists>bm. cp_map_or_attrs c = FromMap bm \<and> cc (cp_difficulty c) bm = Inl e))
    \<and> (mania_performance_calculate api lm cm m = Inl e \<longleftrightarrow> (\<exists>bm. mp_map_or_attrs m = FromMap bm \<and> cm (mp_difficulty m) bm = Inl e))"
  unfolding taiko_performance_calculate_def catch_performance_calculate_def mania_performance_calculate_def
  by (intro conjI taiko_generator.error_iff catch_generator.error_iff mania_generator.error_iff)

text \<open>
  A taiko score without a perfect hit, or on a map without a hit window, is worth nothing,
  for all mods and whatever the mathematical functions return; and exactly then there is no
  estimate of the unstable rate.
\<close>

theorem taiko_without_greats:
  "(ta_estimated_unstable_rate (taiko_calculate api lm c) = None
      \<longleftrightarrow> ts_n300 (tc_state c) = 0 \<or> td_great_hit_window (tc_attrs c) \<le> lit 0 1)
    \<and> (ta_estimated_unstable_rate (taiko_calculate api lm c) = None
      \<longrightarrow> ta_pp (taiko_calculate api lm c) = lit 0 1)"
proof -
  have z: "lit 0 1 * lit 108 100 = lit 0 1" "lit 0 1 * lit 11 10 = lit 0 1" "lit 0 1 + lit 0 1 = lit 0 1"
    by (simp_all add: lit_def f64_eval)
  show ?thesis
    by (auto simp: taiko_calculate_def Let_def taiko_difficulty_value_def taiko_accuracy_value_def
        z [unfolded One_nat_def]) (auto simp: taiko_unstable_rate_def Let_def split: if_splits)
qed

text \<open>The custom accuracy of mania as a rounded ratio.\<close>

lemma u32_div_rounds: "unat y \<noteq> 0 \<Longrightarrow> rounds_to (f64_of_u32 x / f64_of_u32 y) (real (unat x) / real (unat y))"
  by (rule fdiv_rounds [OF f64_of_u32_exact(2) f64_of_u32_exact(2), of y x, unfolded f64_of_u32_exact])
    (simp only: of_nat_eq_0_iff not_False_eq_True)

lemma rounds_between: "rounds_to x r \<Longrightarrow> is_fin a \<Longrightarrow> is_fin b \<Longrightarrow> fval a \<le> r \<Longrightarrow> r \<le> fval b \<Longrightarrow>
    is_fin x \<and> fval a \<le> fval x \<and> fval x \<le> fval b"
  using rounds_to_between by blast

definition mania_points :: "mania_score_state \<Rightarrow> nat" where
  "mania_points s = 32 * unat (ms_n320 s) + 30 * unat (ms_n300 s) + 20 * unat (ms_n200 s)
     + 10 * unat (ms_n100 s) + 5 * unat (ms_n50 s)"

lemma mania_custom_accuracy_rounds:
  assumes "hits_bounded 32 0 [ms_n320 s, ms_n300 s, ms_n200 s, ms_n100 s, ms_n50 s, ms_misses s]"
    and "mania_total_hits s \<noteq> 0"
  shows "rounds_to (mania_custom_accuracy s) (real (mania_points s) / real (32 * unat (mania_total_hits s)))"
proof -
  let ?t = "unat (ms_n320 s) + unat (ms_n300 s) + unat (ms_n200 s) + unat (ms_n100 s)
    + unat (ms_n50 s) + unat (ms_misses s)"
  let ?n = "ms_n320 s * 32 + ms_n300 s * 30 + ms_n200 s * 20 + ms_n100 s * 10 + ms_n50 s * 5"
  let ?d = "mania_total_hits s * 32"
  have b: "32 * ?t < 4294967296" using assms(1) by (simp add: hits_bounded_def algebra_simps)
  then have t: "unat (mania_total_hits s) = ?t" by (simp add: unat_arith_small mania_total_hits_def)
  have d: "unat ?d = 32 * unat (mania_total_hits s)" using b by (simp add: unat_word_ariths t)
  have n: "unat ?n = mania_points s" using b by (simp add: unat_word_ariths mania_points_def)
  have "?t \<noteq> 0" using assms(2) t by (metis unat_eq_zero)
  then have "unat ?d \<noteq> 0" unfolding d t by simp
  note r = u32_div_rounds [OF this, of ?n, unfolded d n]
  show ?thesis using r assms(2) by (simp only: mania_custom_accuracy_def custom_accuracy_def if_False)
qed

lemma times_zero:
  assumes "is_fin a" "is_fin b" "fval a = 0 \<or> fval b = 0"
  shows "is_fin (a * b) \<and> fval (a * b) = 0"
proof -
  have "rounds_to (a * b) 0" using fmul_rounds [OF assms(1,2)] assms(3) by auto
  from rounds_between [OF this, of "fzero False" "fzero False"] show ?thesis by simp
qed

lemma fmin_one:
  assumes "is_fin a" "fval a = 1" "\<not> is_nan q" "0 \<le> fval q"
  shows "is_fin (fmin a q) \<and> 0 \<le> fval (fmin a q) \<and> fval (fmin a q) \<le> 1"
proof (cases "a < q")
  case True
  then show ?thesis using assms fin_not(1) [OF assms(1)] by (simp add: fmin_def)
next
  case False
  then have "fval q \<le> fval a" using assms(3) fin_not(1) [OF assms(1)] by (simp add: less_f64_def fval_le_key)
  then have "is_fin q" using fin_between [OF class_fzero(1) assms(1), where x = q] assms(4) by simp
  then show ?thesis using False assms fin_not(1) [OF assms(1)] \<open>fval q \<le> fval a\<close> by (simp add: fmin_def)
qed

lemma four_fifths: "t \<noteq> 0 \<Longrightarrow> 5 * n \<le> 4 * (32 * t) \<Longrightarrow> real n / real (32 * t) \<le> 8 / 10"
  by (simp add: field_simps)

lemma mania_accuracy_part:
  assumes "is_fin a" "fval a \<le> fval (lit 8 10)" "0 \<le> fval a"
  shows "is_fin (fmax (lit 0 1) (lit 5 1 * a - lit 4 1)) \<and> fval (fmax (lit 0 1) (lit 5 1 * a - lit 4 1)) = 0"
proof -
  have v: "is_fin (lit 8 10)" "is_fin (lit 5 1)" "is_fin (lit 4 1)" "is_fin (lit 0 1)" "fval (lit 5 1) = 5"
    "fval (lit 4 1) = 4" "fval (lit 0 1) = 0" "lit 5 1 * lit 8 10 = lit 4 1" "\<not> is_nan (lit 0 1)"
    by (simp_all add: lit_def f64_eval fval_def gval_def man_def ex_def is_fin_def)
  let ?y = "lit 5 1 * a"
  have y: "rounds_to ?y (5 * fval a)" using fmul_rounds [OF v(2) assms(1)] unfolding v(5) .
  have "rounds_to (lit 4 1) (5 * fval (lit 8 10))" using fmul_rounds [OF v(2,1)] unfolding v(5,8) .
  from rounds_to_mono [OF y this] have y4: "fval ?y \<le> 4" using assms(2) unfolding v(6) by simp
  have y0: "0 \<le> fval ?y" using rounds_to_ge [OF y v(9)] assms(3) unfolding v(7) by simp
  have yf: "is_fin ?y" by (rule fin_between [OF v(4,3)]) (unfold v(6,7), use y0 y4 in simp_all)
  have z: "rounds_to (?y - lit 4 1) (fval ?y - 4)" using fsub_rounds [OF yf v(3)] unfolding v(6) .
  have z4: "fval (?y - lit 4 1) \<le> 0" using rounds_to_le [OF z v(9)] y4 unfolding v(7) by simp
  have m: "is_fin (- lit 4 1)" "fval (- lit 4 1) = -4" unfolding uminus_f64_def class_fneg fval_fneg v(6) using v(3) by simp_all
  have zf: "is_fin (?y - lit 4 1)" using rounds_between [OF z m(1) v(4)] y0 y4 unfolding m(2) v(7) by simp
  then show ?thesis using z4 v(4,7,9) unfolding fmax_def less_f64_fin [OF zf v(4)] by auto
qed

text \<open>
  A mania score whose custom accuracy is at most 80 percent is worth nothing, provided that
  the star part is finite: exactly four fifths of the points are still rounded to nothing.
\<close>

theorem mania_up_to_80_percent:
  assumes "hits_bounded 32 0 [ms_n320 s, ms_n300 s, ms_n200 s, ms_n100 s, ms_n50 s, ms_misses s]"
    and "5 * mania_points s \<le> 4 * (32 * unat (mania_total_hits s))"
    and "is_fin (lit 8 1 * lm_powf lm (fmax (md_stars attrs - lit 15 100) (lit 5 100)) (lit 22 10))"
  shows "is_fin (ma_pp (mania_calculate api lm \<lparr>mc_attrs = attrs, mc_mods = m, mc_state = s\<rparr>))
    \<and> fval (ma_pp (mania_calculate api lm \<lparr>mc_attrs = attrs, mc_mods = m, mc_state = s\<rparr>)) = 0"
proof -
  let ?c = "\<lparr>mc_attrs = attrs, mc_mods = m, mc_state = s\<rparr>" and ?t = "unat (mania_total_hits s)"
  have v: "is_fin (lit 8 10)" "is_fin (lit 0 1)" "fval (lit 0 1) = 0" "is_fin (lit 1 1)" "fval (lit 1 1) = 1"
    "is_fin (lit 75 100)" "is_fin (lit 5 10)" "is_fin (lit 1500 1)" "fval (lit 1500 1) = 1500"
    "is_fin (lit 1 10)" "is_fin (lit 2 1)" "fval (lit 2 1) = 2" "0 \<le> fval (lit 1 10)" "fval (lit 1 10) \<le> 1"
    "is_fin (lit 1 1 * lit 75 100)" "is_fin (lit 1 1 * lit 5 10)" "is_fin (lit 1 1 * lit 75 100 * lit 5 10)"
    by (simp_all add: lit_def f64_eval fval_def gval_def man_def ex_def is_fin_def)
  have acc: "is_fin (mania_custom_accuracy s) \<and> fval (mania_custom_accuracy s) \<le> fval (lit 8 10)
      \<and> 0 \<le> fval (mania_custom_accuracy s)"
  proof (cases "mania_total_hits s = 0")
    case True
    have "0 \<le> fval (lit 8 10)" by (simp add: lit_def f64_eval fval_def gval_def)
    with True show ?thesis using v(2,3) unfolding mania_custom_accuracy_def if_P [OF True] by simp
  next
    case False
    note r = mania_custom_accuracy_rounds [OF assms(1) False]
    have "?t \<noteq> 0" using False by (simp add: unat_eq_zero)
    then have "real (mania_points s) / real (32 * ?t) \<le> 8 / 10" using assms(2) by (rule four_fifths)
    moreover have "rounds_to (lit 8 10) (8 / 10)"
      using rounds_to_ratio [of 10 False 8] by (simp add: lit_def signed_def)
    ultimately have "fval (mania_custom_accuracy s) \<le> fval (lit 8 10)" using rounds_to_mono r by blast
    moreover have "0 \<le> fval (mania_custom_accuracy s)"
      by (rule rounds_to_ge [OF r fin_not(1) [OF v(2)], unfolded v(3)]) (intro divide_nonneg_nonneg of_nat_0_le_iff)
    ultimately show ?thesis using fin_between [OF v(2,1)] unfolding v(3) by simp
  qed
  let ?x = "fmax (lit 0 1) (lit 5 1 * mania_custom_accuracy s - lit 4 1)"
  let ?q = "f64_of_u32 (mania_total_hits s) / lit 1500 1"
  let ?l = "lit 1 1 + lit 1 10 * fmin (lit 1 1) ?q"
  have x: "is_fin ?x" "fval ?x = 0" using mania_accuracy_part acc by blast+
  have q: "rounds_to ?q (real ?t / 1500)"
    using fdiv_rounds [OF f64_of_u32_exact(2) v(8), of "mania_total_hits s"] unfolding v(9) f64_of_u32_exact by simp
  have "0 \<le> fval ?q"
    by (rule rounds_to_ge [OF q fin_not(1) [OF v(2)], unfolded v(3)]) (intro divide_nonneg_nonneg of_nat_0_le_iff; simp)
  then have mi: "is_fin (fmin (lit 1 1) ?q)" "0 \<le> fval (fmin (lit 1 1) ?q)" "fval (fmin (lit 1 1) ?q) \<le> 1"
    using fmin_one [OF v(4,5) rounds_to_not_nan [OF q]] by blast+
  have p: "rounds_to (lit 1 10 * fmin (lit 1 1) ?q) (fval (lit 1 10) * fval (fmin (lit 1 1) ?q))"
    by (rule fmul_rounds [OF v(10) mi(1)])
  have "fval (lit 1 10) * fval (fmin (lit 1 1) ?q) \<le> 1 * 1" by (rule mult_mono) (use v(13,14) mi in simp_all)
  then have p1: "is_fin (lit 1 10 * fmin (lit 1 1) ?q) \<and> 0 \<le> fval (lit 1 10 * fmin (lit 1 1) ?q)
      \<and> fval (lit 1 10 * fmin (lit 1 1) ?q) \<le> 1"
    using rounds_between [OF p v(2,4)] v(13) mi(2) unfolding v(3,5) by simp
  have l: "is_fin ?l"
    using rounds_between [OF fadd_rounds [OF v(4) conjunct1 [OF p1]] v(2,11)] p1 unfolding v(3,5,12) by simp
  note d1 = times_zero [OF assms(3) x(1) disjI2 [OF x(2)]]
  note d2 = times_zero [OF conjunct1 [OF d1] l disjI1 [OF conjunct2 [OF d1]]]
  have d: "mania_difficulty_value lm ?c = lit 8 1 * lm_powf lm (fmax (md_stars attrs - lit 15 100) (lit 5 100)) (lit 22 10) * ?x * ?l"
    by (simp add: mania_difficulty_value_def)
  have "is_fin (mania_difficulty_value lm ?c * k) \<and> fval (mania_difficulty_value lm ?c * k) = 0" if "is_fin k" for k
    unfolding d by (rule times_zero [OF conjunct1 [OF d2] that disjI1 [OF conjunct2 [OF d2]]])
  then show ?thesis using v(4,15,16,17) unfolding mania_calculate_def Let_def by auto
qed

section \<open>Witnesses\<close>

theorem taiko_without_greats_witness:
  "\<forall>lm. ta_pp (taiko_calculate listed_mods lm \<lparr>tc_attrs = taiko_example_attrs, tc_mods = Lazer [Hidden],
     tc_state = \<lparr>ts_max_combo = 5, ts_n300 = 0, ts_n100 = 8, ts_misses = 2\<rparr>\<rparr>) = lit 0 1"
proof
  fix lm
  show "ta_pp (taiko_calculate listed_mods lm \<lparr>tc_attrs = taiko_example_attrs, tc_mods = Lazer [Hidden],
     tc_state = \<lparr>ts_max_combo = 5, ts_n300 = 0, ts_n100 = 8, ts_misses = 2\<rparr>\<rparr>) = lit 0 1"
    using taiko_without_greats [of listed_mods lm "\<lparr>tc_attrs = taiko_example_attrs, tc_mods = Lazer [Hidden],
      tc_state = \<lparr>ts_max_combo = 5, ts_n300 = 0, ts_n100 = 8, ts_misses = 2\<rparr>\<rparr>"] by simp
qed

text \<open>Functions that are constantly one stand in for the mathematical ones.\<close>

definition unit_libm :: libm where
  "unit_libm = \<lparr>lm_exp = \<lambda>x. lit 1 1, lm_ln = \<lambda>x. lit 1 1, lm_log10 = \<lambda>x. lit 1 1, lm_powf = \<lambda>x y. lit 1 1,
     lm_powi = \<lambda>x n. lit 1 1, lm_sin = \<lambda>x. lit 1 1, lm_cos = \<lambda>x. lit 1 1, lm_atan2 = \<lambda>x y. lit 1 1, lm_cbrt = \<lambda>x. lit 1 1\<rparr>"

definition mania_example_attrs :: mania_difficulty_attributes where
  "mania_example_attrs = \<lparr>md_stars = lit 3 1, md_n_objects = 10, md_n_hold_notes = 2, md_max_combo = 12, md_is_convert = False\<rparr>"

theorem mania_up_to_80_percent_witness:
  "fval (ma_pp (mania_calculate listed_mods unit_libm \<lparr>mc_attrs = mania_example_attrs, mc_mods = Lazer [NoFail],
     mc_state = \<lparr>ms_n320 = 8, ms_n300 = 0, ms_n200 = 0, ms_n100 = 0, ms_n50 = 0, ms_misses = 2\<rparr>\<rparr>)) = 0"
proof -
  have "is_fin (lit 8 1 * lm_powf unit_libm (fmax (md_stars mania_example_attrs - lit 15 100) (lit 5 100)) (lit 22 10))"
    by (simp add: unit_libm_def) (simp add: lit_def f64_eval is_fin_def)
  then show ?thesis
    using mania_up_to_80_percent [of "\<lparr>ms_n320 = 8, ms_n300 = 0, ms_n200 = 0, ms_n100 = 0, ms_n50 = 0, ms_misses = 2\<rparr>"
      unit_libm mania_example_attrs listed_mods "Lazer [NoFail]"]
    by (simp add: hits_bounded_def mania_points_def mania_total_hits_def)
qed

end
