(* ===== verification/Beatmap.thy ===== *)
theory Beatmap
  imports Control_Points Settings Mods Hit_Results Libm
begin

text \<open>
  Beatmaps and their hit objects (\<open>src/model/beatmap/mod.rs\<close>,
  \<open>src/model/hit_object.rs\<close>), the most common BPM (\<open>src/model/beatmap/bpm.rs\<close>) and the
  conversion between modes. Control points of slider paths and hit sounds are types of the crate
  rosu-map, the type variables \<open>'p\<close> and \<open>'s\<close>; positions and break periods are pairs of its
  public fields. The converters of the three modes are arguments.
\<close>

record pos =
  px :: f32
  py :: f32

record ('p, 's) slider =
  sl_expected_dist :: "f64 option"
  sl_repeats :: usize
  sl_control_points :: "'p list"
  sl_node_sounds :: "'s list"

datatype ('p, 's) hit_object_kind = Circle | Slider "('p, 's) slider" | Spinner f64 | Hold f64

record ('p, 's) hit_object =
  ho_pos :: pos
  ho_start_time :: f64
  ho_kind :: "('p, 's) hit_object_kind"

definition is_circle :: "('p, 's) hit_object \<Rightarrow> bool" where
  "is_circle h = (case ho_kind h of Circle \<Rightarrow> True | _ \<Rightarrow> False)"

definition is_slider :: "('p, 's) hit_object \<Rightarrow> bool" where
  "is_slider h = (case ho_kind h of Slider _ \<Rightarrow> True | _ \<Rightarrow> False)"

definition is_spinner :: "('p, 's) hit_object \<Rightarrow> bool" where
  "is_spinner h = (case ho_kind h of Spinner _ \<Rightarrow> True | _ \<Rightarrow> False)"

definition object_end_time :: "('p, 's) hit_object \<Rightarrow> f64" where
  "object_end_time h = (case ho_kind h of
      Circle \<Rightarrow> ho_start_time h
    | Slider _ \<Rightarrow> ho_start_time h
    | Spinner duration \<Rightarrow> ho_start_time h + duration
    | Hold duration \<Rightarrow> ho_start_time h + duration)"

definition span_count :: "('p, 's) slider \<Rightarrow> usize" where
  "span_count s = sl_repeats s + 1"

record break_period =
  bk_start :: f64
  bk_end :: f64

record ('p, 's) beatmap =
  bm_version :: i32
  bm_is_convert :: bool
  bm_stack_leniency :: f32
  bm_mode :: game_mode
  bm_ar :: f32
  bm_cs :: f32
  bm_hp :: f32
  bm_od :: f32
  bm_slider_multiplier :: f64
  bm_slider_tick_rate :: f64
  bm_breaks :: "break_period list"
  bm_timing_points :: "timing_point list"
  bm_difficulty_points :: "difficulty_point list"
  bm_effect_points :: "effect_point list"
  bm_hit_objects :: "('p, 's) hit_object list"
  bm_hit_sounds :: "'s list"

text \<open>The default; the latest format version is a constant of the crate rosu-map.\<close>

definition beatmap_default :: "i32 \<Rightarrow> ('p, 's) beatmap" where
  "beatmap_default latest_format_version = \<lparr>bm_version = latest_format_version, bm_is_convert = False,
     bm_stack_leniency = lit32 7 10, bm_mode = Osu, bm_ar = lit32 5 1, bm_cs = lit32 5 1, bm_hp = lit32 5 1,
     bm_od = lit32 5 1, bm_slider_multiplier = lit 14 10, bm_slider_tick_rate = lit 1 1, bm_breaks = [],
     bm_timing_points = [], bm_difficulty_points = [], bm_effect_points = [], bm_hit_objects = [], bm_hit_sounds = []\<rparr>"

definition beatmap_timing_point_at :: "('p, 's) beatmap \<Rightarrow> f64 \<Rightarrow> timing_point option" where
  "beatmap_timing_point_at bm = timing_point_at (bm_timing_points bm)"

definition beatmap_difficulty_point_at :: "('p, 's) beatmap \<Rightarrow> f64 \<Rightarrow> difficulty_point option" where
  "beatmap_difficulty_point_at bm = difficulty_point_at (bm_difficulty_points bm)"

definition beatmap_effect_point_at :: "('p, 's) beatmap \<Rightarrow> f64 \<Rightarrow> effect_point option" where
  "beatmap_effect_point_at bm = effect_point_at (bm_effect_points bm)"

text \<open>The length of a break is the difference of its times.\<close>

definition total_break_time :: "('p, 's) beatmap \<Rightarrow> f64" where
  "total_break_time bm = fsum (map (\<lambda>b. bk_end b - bk_start b) (bm_breaks bm))"

section \<open>Beats per minute\<close>

text \<open>
  Durations by rounded beat length. The code's hash map is an association list with one entry
  per key; the order in which the hash map is iterated is not specified, so that it is an
  argument of the maximum.
\<close>

fun add_duration :: "u64 \<Rightarrow> f64 \<Rightarrow> (u64 \<times> f64) list \<Rightarrow> (u64 \<times> f64) list" where
  "add_duration k d [] = [(k, lit 0 1 + d)]"
| "add_duration k d ((k', d') # xs) = (if k = k' then (k', d' + d) # xs else (k', d') # add_duration k d xs)"

fun or_default :: "u64 \<Rightarrow> (u64 \<times> f64) list \<Rightarrow> (u64 \<times> f64) list" where
  "or_default k [] = [(k, lit 0 1)]"
| "or_default k ((k', d') # xs) = (if k = k' then (k', d') # xs else (k', d') # or_default k xs)"

definition beat_key :: "f64 \<Rightarrow> u64" where
  "beat_key beat_len = to_bits (fround (lit 1000 1 * beat_len) / lit 1000 1)"

definition bpm_add :: "f64 \<Rightarrow> f64 \<Rightarrow> f64 \<Rightarrow> f64 \<Rightarrow> (u64 \<times> f64) list \<Rightarrow> (u64 \<times> f64) list" where
  "bpm_add last_time beat_len curr_time next_time m =
    (if curr_time \<le> last_time then add_duration (beat_key beat_len) (next_time - curr_time) m
     else or_default (beat_key beat_len) m)"

fun bpm_middle :: "f64 \<Rightarrow> timing_point list \<Rightarrow> (u64 \<times> f64) list \<Rightarrow> (u64 \<times> f64) list" where
  "bpm_middle last_time (cur # nxt # ps) m =
    bpm_middle last_time (nxt # ps) (bpm_add last_time (tp_beat_len cur) (tp_time cur) (tp_time nxt) m)"
| "bpm_middle last_time _ m = m"

definition bpm_durations :: "f64 \<Rightarrow> timing_point list \<Rightarrow> (u64 \<times> f64) list" where
  "bpm_durations last_time ps =
    (let m = (case ps of
           [] \<Rightarrow> []
         | [cur] \<Rightarrow> bpm_add last_time (tp_beat_len cur) (lit 0 1) last_time []
         | cur # nxt # _ \<Rightarrow> bpm_add last_time (tp_beat_len cur) (lit 0 1) (tp_time nxt) []);
         m = bpm_middle last_time (drop 1 ps) m
     in if 2 \<le> length ps
        then bpm_add last_time (tp_beat_len (last ps)) (tp_time (last ps)) last_time m else m)"

text \<open>\<open>Iterator::max_by\<close> with \<open>total_cmp\<close>: the last of the greatest.\<close>

definition later_max :: "u64 \<times> f64 \<Rightarrow> u64 \<times> f64 \<Rightarrow> u64 \<times> f64" where
  "later_max a b = (if tkey (snd a) \<le> tkey (snd b) then b else a)"

definition most_common :: "(u64 \<times> f64) list \<Rightarrow> (u64 \<times> f64) option" where
  "most_common xs = (case xs of [] \<Rightarrow> None
     | x # xs \<Rightarrow> Some (foldl later_max x xs))"

definition bpm_last_time :: "('p, 's) hit_object option \<Rightarrow> timing_point list \<Rightarrow> f64" where
  "bpm_last_time last_hit_object ps = (case last_hit_object of
      Some h \<Rightarrow> object_end_time h
    | None \<Rightarrow> if ps = [] then lit 0 1 else tp_time (last ps))"

definition bpm :: "((u64 \<times> f64) list \<Rightarrow> (u64 \<times> f64) list) \<Rightarrow> ('p, 's) hit_object option \<Rightarrow> timing_point list \<Rightarrow> f64" where
  "bpm iteration_order last_hit_object ps =
    lit 60000 1 / (case most_common (iteration_order (bpm_durations (bpm_last_time last_hit_object ps) ps)) of
      None \<Rightarrow> lit 0 1
    | Some (beat_len, _) \<Rightarrow> F64 beat_len)"

definition beatmap_bpm :: "((u64 \<times> f64) list \<Rightarrow> (u64 \<times> f64) list) \<Rightarrow> ('p, 's) beatmap \<Rightarrow> f64" where
  "beatmap_bpm iteration_order bm =
    bpm iteration_order (if bm_hit_objects bm = [] then None else Some (last (bm_hit_objects bm))) (bm_timing_points bm)"

section \<open>Conversion between modes\<close>

record ('p, 's, 'mods) converters =
  convert_taiko :: "('p, 's) beatmap \<Rightarrow> ('p, 's) beatmap"
  convert_catch :: "('p, 's) beatmap \<Rightarrow> ('p, 's) beatmap"
  convert_mania :: "'mods \<Rightarrow> ('p, 's) beatmap \<Rightarrow> ('p, 's) beatmap"

text \<open>
  Whether a map can be converted; the conversion to osu!standard itself is unreachable, as a
  map of another mode is rejected before.
\<close>

definition check_convert :: "game_mode \<Rightarrow> ('p, 's) beatmap \<Rightarrow> convert_error option" where
  "check_convert mode bm =
    (if bm_mode bm = mode then None
     else if bm_is_convert bm then Some AlreadyConverted
     else if bm_mode bm \<noteq> Osu then Some (ConvertFromTo (bm_mode bm) mode)
     else None)"

definition convert_mut ::
  "('p, 's, 'mods) converters \<Rightarrow> game_mode \<Rightarrow> 'mods \<Rightarrow> ('p, 's) beatmap \<Rightarrow> convert_error + ('p, 's) beatmap" where
  "convert_mut cv mode m bm =
    (case check_convert mode bm of Some e \<Rightarrow> Inl e
     | None \<Rightarrow> if bm_mode bm = mode then Inr bm
         else (case mode of
            Taiko \<Rightarrow> Inr (convert_taiko cv bm)
          | Catch \<Rightarrow> Inr (convert_catch cv bm)
          | Mania \<Rightarrow> Inr (convert_mania cv m bm)
          | Osu \<Rightarrow> Inr bm))"

text \<open>\<open>convert_ref\<close> tells whether the result is the borrowed map itself.\<close>

datatype 'a cow = Borrowed 'a | Owned 'a

definition cow_get :: "'a cow \<Rightarrow> 'a" where
  "cow_get c = (case c of Borrowed a \<Rightarrow> a | Owned a \<Rightarrow> a)"

definition convert_ref ::
  "('p, 's, 'mods) converters \<Rightarrow> game_mode \<Rightarrow> 'mods \<Rightarrow> ('p, 's) beatmap \<Rightarrow> convert_error + ('p, 's) beatmap cow" where
  "convert_ref cv mode m bm =
    (if bm_mode bm = mode then Inr (Borrowed bm)
     else if bm_is_convert bm then Inl AlreadyConverted
     else if bm_mode bm \<noteq> Osu then Inl (ConvertFromTo (bm_mode bm) mode)
     else (case mode of
        Taiko \<Rightarrow> Inr (Owned (convert_taiko cv bm))
      | Catch \<Rightarrow> Inr (Owned (convert_catch cv bm))
      | Mania \<Rightarrow> Inr (Owned (convert_mania cv m bm))
      | Osu \<Rightarrow> Inr (Owned bm)))"

definition convert ::
  "('p, 's, 'mods) converters \<Rightarrow> game_mode \<Rightarrow> 'mods \<Rightarrow> ('p, 's) beatmap \<Rightarrow> convert_error + ('p, 's) beatmap" where
  "convert cv mode m bm = convert_mut cv mode m bm"

section \<open>What is proved\<close>

lemma foldl_max:
  "foldl later_max x xs \<in> insert x (set xs)
    \<and> (\<forall>y\<in>insert x (set xs). tkey (snd y) \<le> tkey (snd (foldl later_max x xs)))"
proof (induction xs arbitrary: x)
  case (Cons a xs)
  have m: "later_max x a \<in> {x, a}" "tkey (snd x) \<le> tkey (snd (later_max x a))" "tkey (snd a) \<le> tkey (snd (later_max x a))"
    by (auto simp: later_max_def)
  show ?case using Cons.IH [of "later_max x a"] m by fastforce
qed simp

lemma most_common_max:
  assumes "xs \<noteq> []"
  obtains k d where "most_common xs = Some (k, d)" "(k, d) \<in> set xs" "\<forall>(k', d')\<in>set xs. tkey d' \<le> tkey d"
proof -
  obtain y ys where xs: "xs = y # ys" using assms by (cases xs) auto
  obtain k d where f: "foldl later_max y ys = (k, d)" by (cases "foldl later_max y ys")
  show thesis by (rule that [of k d]) (use foldl_max [of y ys] in \<open>auto simp: most_common_def xs f\<close>)
qed

lemma keys_add_duration: "fst ` set (add_duration k d m) = insert k (fst ` set m)"
  by (induction k d m rule: add_duration.induct) auto

lemma keys_or_default: "fst ` set (or_default k m) = insert k (fst ` set m)"
  by (induction k m rule: or_default.induct) auto

lemma distinct_add_duration: "distinct (map fst m) \<Longrightarrow> distinct (map fst (add_duration k d m))"
  by (induction k d m rule: add_duration.induct) (simp_all add: keys_add_duration split: if_splits)

lemma distinct_or_default: "distinct (map fst m) \<Longrightarrow> distinct (map fst (or_default k m))"
  by (induction k m rule: or_default.induct) (simp_all add: keys_or_default split: if_splits)

lemma bpm_add_keys:
  "fst ` set (bpm_add l b c n m) = insert (beat_key b) (fst ` set m)"
  "distinct (map fst m) \<Longrightarrow> distinct (map fst (bpm_add l b c n m))"
  by (simp_all add: bpm_add_def keys_add_duration keys_or_default distinct_add_duration distinct_or_default)

lemma bpm_middle_keys:
  "distinct (map fst m) \<Longrightarrow> distinct (map fst (bpm_middle l ps m))"
  "fst ` set (bpm_middle l ps m) = fst ` set m \<union> (beat_key \<circ> tp_beat_len) ` set (butlast ps)"
  by (induction l ps m rule: bpm_middle.induct) (auto simp: bpm_add_keys)

text \<open>The keys are the rounded beat lengths of all timing points, each once.\<close>

lemma bpm_durations_keys:
  "distinct (map fst (bpm_durations l ps))"
  "fst ` set (bpm_durations l ps) = (beat_key \<circ> tp_beat_len) ` set ps"
proof -
  show "distinct (map fst (bpm_durations l ps))"
    by (auto simp: bpm_durations_def Let_def intro!: bpm_add_keys(2) bpm_middle_keys(1) split: list.splits)
  show "fst ` set (bpm_durations l ps) = (beat_key \<circ> tp_beat_len) ` set ps"
  proof (cases ps)
    case (Cons p qs)
    show ?thesis
    proof (cases "qs = []")
      case True
      then show ?thesis by (simp add: Cons bpm_durations_def bpm_add_keys)
    next
      case False
      then have "set qs = insert (last qs) (set (butlast qs))"
        by (metis append_butlast_last_id list.simps(15) rotate1.simps(2) set_rotate1)
      moreover have "fst ` set (bpm_durations l ps) = insert (beat_key (tp_beat_len (last qs)))
          (insert (beat_key (tp_beat_len p)) ((beat_key \<circ> tp_beat_len) ` set (butlast qs)))"
        using False by (cases qs) (simp_all add: Cons bpm_durations_def bpm_add_keys bpm_middle_keys insert_commute)
      ultimately show ?thesis by (simp add: Cons insert_commute)
    qed
  qed (simp add: bpm_durations_def)
qed

text \<open>
  In whatever order the hash map is iterated, the BPM is that of a timing point whose
  rounded beat length lasts longest in total; a map without timing points has an infinite BPM.
\<close>

theorem bpm_is_most_common:
  assumes "\<And>xs. set (order xs) = set xs"
  shows "if ps = [] then bpm order h ps = lit 60000 1 / lit 0 1
    else \<exists>p\<in>set ps. \<exists>d. bpm order h ps = lit 60000 1 / F64 (beat_key (tp_beat_len p))
      \<and> (beat_key (tp_beat_len p), d) \<in> set (bpm_durations (bpm_last_time h ps) ps)
      \<and> (\<forall>(k', d')\<in>set (bpm_durations (bpm_last_time h ps) ps). tkey d' \<le> tkey d)"
proof (cases "ps = []")
  case True
  then have "set (order (bpm_durations (bpm_last_time h ps) ps)) = {}" by (simp add: assms bpm_durations_def)
  then show ?thesis using True by (simp add: bpm_def most_common_def)
next
  case False
  let ?xs = "bpm_durations (bpm_last_time h ps) ps"
  have "fst ` set ?xs \<noteq> {}" using False by (simp add: bpm_durations_keys)
  then have "order ?xs \<noteq> []" using assms by (metis image_is_empty set_empty)
  from most_common_max [OF this] obtain k d where m: "most_common (order ?xs) = Some (k, d)" "(k, d) \<in> set ?xs"
    "\<forall>(k', d')\<in>set ?xs. tkey d' \<le> tkey d" unfolding assms .
  have "k \<in> fst ` set ?xs" using m(2) by force
  then obtain p where "p \<in> set ps" "k = beat_key (tp_beat_len p)" unfolding bpm_durations_keys by auto
  with m False show ?thesis by (auto simp: bpm_def)
qed

theorem bpm_is_most_common_witness:
  "\<exists>d. bpm rev (None :: (unit, unit) hit_object option) [timing_point_new (lit 0 1) (lit 500 1)]
      = lit 60000 1 / F64 (beat_key (lit 500 1))
    \<and> (beat_key (lit 500 1), d) \<in> set (bpm_durations (lit 0 1) [timing_point_new (lit 0 1) (lit 500 1)])"
proof -
  have "tp_beat_len (timing_point_new (lit 0 1) (lit 500 1)) = lit 500 1"
    "tp_time (timing_point_new (lit 0 1) (lit 500 1)) = lit 0 1"
    by (simp_all add: timing_point_new_def fclamp_def) (simp add: lit_def f64_eval)
  then show ?thesis
    using bpm_is_most_common [of rev "[timing_point_new (lit 0 1) (lit 500 1)]" "None :: (unit, unit) hit_object option"]
    by (auto simp: bpm_last_time_def)
qed

lemma rounded_lits: "fround (lit 500000 1) = lit 500000 1" "fround (lit 250000 1) = lit 250000 1"
proof -
  have c: "lit 500000 1 = F64 4692333547057315840" "lit 250000 1 = F64 4687829947429945344"
    by (simp_all add: lit_def f64_eval)
  show "fround (lit 500000 1) = lit 500000 1" "fround (lit 250000 1) = lit 250000 1"
    unfolding c by (simp_all add: fround_def frac_num_def frac_den_def f64_eval)
qed

text \<open>
  Where two beat lengths last equally long, the order of the hash map decides: the same map
  has two values of BPM.
\<close>

theorem bpm_depends_on_order:
  "bpm id (None :: (unit, unit) hit_object option)
      [\<lparr>tp_time = lit 0 1, tp_beat_len = lit 500 1\<rparr>, \<lparr>tp_time = lit 1000 1, tp_beat_len = lit 250 1\<rparr>,
       \<lparr>tp_time = lit 2000 1, tp_beat_len = lit 250 1\<rparr>] = lit 240 1
    \<and> bpm rev (None :: (unit, unit) hit_object option)
      [\<lparr>tp_time = lit 0 1, tp_beat_len = lit 500 1\<rparr>, \<lparr>tp_time = lit 1000 1, tp_beat_len = lit 250 1\<rparr>,
       \<lparr>tp_time = lit 2000 1, tp_beat_len = lit 250 1\<rparr>] = lit 120 1"
proof -
  let ?ps = "[\<lparr>tp_time = lit 0 1, tp_beat_len = lit 500 1\<rparr>, \<lparr>tp_time = lit 1000 1, tp_beat_len = lit 250 1\<rparr>,
       \<lparr>tp_time = lit 2000 1, tp_beat_len = lit 250 1\<rparr>]"
  have k': "lit 1000 1 * lit 500 1 = lit 500000 1" "lit 1000 1 * lit 250 1 = lit 250000 1"
    "lit 500000 1 / lit 1000 1 = lit 500 1" "lit 250000 1 / lit 1000 1 = lit 250 1"
    by (simp_all add: lit_def f64_eval)
  have k: "beat_key (lit 500 1) = to_bits (lit 500 1)" "beat_key (lit 250 1) = to_bits (lit 250 1)"
    "to_bits (lit 500 1) \<noteq> to_bits (lit 250 1)"
    unfolding beat_key_def k' rounded_lits by (simp_all add: lit_def f64_eval)
  have fin: "is_fin (lit 1000 1)" "magn (lit 1000 1) \<noteq> 0" "magn (lit 0 1) = 0" "is_fin (lit 2000 1)"
    "lit 2000 1 - lit 1000 1 = lit 1000 1" "fzero False = lit 0 1"
    "lit 0 1 \<le> lit 2000 1" "lit 1000 1 \<le> lit 2000 1" "lit 2000 1 \<le> lit 2000 1"
    by (simp_all add: lit_def f64_eval is_fin_def)
  have d: "lit 1000 1 - lit 0 1 = lit 1000 1" "lit 2000 1 - lit 1000 1 = lit 1000 1" "lit 2000 1 - lit 2000 1 = lit 0 1"
    "lit 0 1 + lit 1000 1 = lit 1000 1" "lit 1000 1 + lit 0 1 = lit 1000 1"
    "lit 0 1 \<le> lit 2000 1" "lit 1000 1 \<le> lit 2000 1" "lit 2000 1 \<le> lit 2000 1"
    using fin plus_zero [OF fin(1,2), of "lit 0 1"] minus_self [OF fin(4)] by simp_all
  have q: "lit 60000 1 / lit 500 1 = lit 120 1" "lit 60000 1 / lit 250 1 = lit 240 1"
    by (simp_all add: lit_def f64_eval)
  have "bpm_durations (lit 2000 1) ?ps = [(to_bits (lit 500 1), lit 1000 1), (to_bits (lit 250 1), lit 1000 1)]"
    using k(3) by (simp add: bpm_durations_def bpm_add_def k(1,2) [unfolded One_nat_def] d [unfolded One_nat_def])
  then show ?thesis
    by (simp add: bpm_def bpm_last_time_def most_common_def later_max_def q [unfolded One_nat_def])
qed

text \<open>
  C38. \<open>convert_ref\<close>, \<open>convert_mut\<close> and \<open>convert\<close> agree, on results and errors; the
  map is borrowed exactly when it has the mode already.
\<close>

theorem convert_ref_is_convert:
  "map_sum id cow_get (convert_ref cv mode m bm) = convert cv mode m bm
    \<and> ((\<exists>b. convert_ref cv mode m bm = Inr (Borrowed b)) \<longleftrightarrow> bm_mode bm = mode)
    \<and> (convert_ref cv mode m bm = Inr (Borrowed bm) \<longleftrightarrow> bm_mode bm = mode)"
  by (cases mode) (auto simp: convert_ref_def convert_def convert_mut_def check_convert_def cow_get_def)

text \<open>
  C37. Where the converters set the mode and the mark of a conversion: a conversion succeeds
  exactly from osu!standard on an original map, or to the mode the map has; it gives a map of
  the mode; converting that again to the mode changes nothing, and to another mode fails.
\<close>

theorem convert_outcome:
  assumes "\<And>b. bm_mode (convert_taiko cv b) = Taiko \<and> bm_is_convert (convert_taiko cv b)"
    and "\<And>b. bm_mode (convert_catch cv b) = Catch \<and> bm_is_convert (convert_catch cv b)"
    and "\<And>m b. bm_mode (convert_mania cv m b) = Mania \<and> bm_is_convert (convert_mania cv m b)"
  shows "case convert cv mode m bm of
      Inl e \<Rightarrow> bm_mode bm \<noteq> mode \<and> (bm_is_convert bm \<and> e = AlreadyConverted
        \<or> \<not> bm_is_convert bm \<and> bm_mode bm \<noteq> Osu \<and> e = ConvertFromTo (bm_mode bm) mode)
    | Inr bm' \<Rightarrow> bm_mode bm' = mode \<and> (bm_mode bm = mode \<and> bm' = bm
          \<or> bm_mode bm = Osu \<and> \<not> bm_is_convert bm \<and> bm_is_convert bm')
        \<and> convert cv mode m' bm' = Inr bm'
        \<and> (bm_mode bm \<noteq> mode \<longrightarrow> mode' \<noteq> mode \<longrightarrow> convert cv mode' m' bm' = Inl AlreadyConverted)"
  using assms by (cases mode) (auto simp: convert_def convert_mut_def check_convert_def)

text \<open>Converters that only set the mode, as the one for catch does.\<close>

definition set_mode_converters :: "('p, 's, 'mods) converters" where
  "set_mode_converters = \<lparr>convert_taiko = \<lambda>b. b\<lparr>bm_mode := Taiko, bm_is_convert := True\<rparr>,
     convert_catch = \<lambda>b. b\<lparr>bm_mode := Catch, bm_is_convert := True\<rparr>,
     convert_mania = \<lambda>m b. b\<lparr>bm_mode := Mania, bm_is_convert := True\<rparr>\<rparr>"

theorem convert_outcome_witness:
  "\<exists>bm'. convert set_mode_converters Catch () (beatmap_default 14 :: (unit, unit) beatmap) = Inr bm'
    \<and> convert set_mode_converters Mania () bm' = Inl AlreadyConverted"
proof -
  have m: "bm_mode (beatmap_default 14 :: (unit, unit) beatmap) = Osu" by (simp add: beatmap_default_def)
  obtain bm' where c: "convert set_mode_converters Catch () (beatmap_default 14 :: (unit, unit) beatmap) = Inr bm'"
    by (simp add: convert_def convert_mut_def check_convert_def beatmap_default_def)
  have laws: "\<And>b. bm_mode (convert_taiko set_mode_converters b) = Taiko \<and> bm_is_convert (convert_taiko set_mode_converters b)"
    "\<And>b. bm_mode (convert_catch set_mode_converters b) = Catch \<and> bm_is_convert (convert_catch set_mode_converters b)"
    "\<And>m b. bm_mode (convert_mania set_mode_converters m b) = Mania \<and> bm_is_convert (convert_mania set_mode_converters m b)"
    by (simp_all add: set_mode_converters_def)
  show ?thesis
    using convert_outcome [of set_mode_converters, OF laws, where bm = "beatmap_default 14 :: (unit, unit) beatmap" and mode = Catch
      and m = "()" and m' = "()" and mode' = Mania] c m by simp
qed

end
