(* ===== verification/F64_Values.thy ===== *)
theory F64_Values
  imports Libm
begin

text \<open>
  Facts on the numbers that 64-bit patterns stand for: integers and binary fractions of few digits
  are exact, casts to integers truncate, \<open>floor\<close> and \<open>ceil\<close> are those of the reals.
\<close>

section \<open>Exact values\<close>

lemma f64_int: "\<bar>k\<bar> < 2 ^ 53 \<Longrightarrow> \<exists>y. is_fin y \<and> fval y = real_of_int k"
  using f64_grid [of "nat \<bar>k\<bar>" 0 "k < 0"] by (auto simp: signed_def nat_less_iff split: if_splits)

lemma lit_int: "n < 2 ^ 53 \<Longrightarrow> fval (lit n 1) = real n" "n < 2 ^ 53 \<Longrightarrow> is_fin (lit n 1)"
  using f64_of_nat_exact [of n] by (simp_all add: lit_def f64_of_nat_def)

text \<open>A real number with few enough digits is rounded to itself.\<close>

lemma rounds_to_grid:
  assumes "rounds_to x (real_of_int k / 2 ^ j)" "\<bar>k\<bar> < 2 ^ 53" "j \<le> 1000"
  shows "fval x = real_of_int k / 2 ^ j" "is_fin x"
proof -
  have "nat \<bar>k\<bar> < 2 ^ 53" using assms(2) by (simp add: nat_less_iff)
  then obtain y where y: "is_fin y" "fval y = signed (k < 0) (real (nat \<bar>k\<bar>) / 2 ^ j)"
    using f64_grid assms(3) by blast
  have "fval y = real_of_int k / 2 ^ j" unfolding y(2) by (auto simp: signed_def)
  then show "fval x = real_of_int k / 2 ^ j" "is_fin x"
    using rounds_to_exact [of x y] rounds_to_between [of x "real_of_int k / 2 ^ j" y y] assms(1) y(1) by simp_all
qed

lemma f64_of_i32_exact [simp]: "fval (f64_of_i32 w) = real_of_int (sint w)" "is_fin (f64_of_i32 w)"
proof -
  have "- (2 ^ 31) \<le> sint w" "sint w < 2 ^ 31" using sint_greater_eq [of w] sint_less [of w] by simp_all
  then have n: "nat \<bar>sint w\<bar> < 2 ^ 53" by (simp add: nat_less_iff)
  show "fval (f64_of_i32 w) = real_of_int (sint w)" "is_fin (f64_of_i32 w)"
    unfolding f64_of_i32_def f64_of_int_def using round_ratio_of_nat [OF n, of "sint w < 0", unfolded signed_nat_abs] by simp_all
qed

text \<open>Sums, differences and products of integers below \<open>2 ^ 53\<close> are exact.\<close>

lemma int_arith:
  assumes "is_fin a" "fval a = real_of_int m" "is_fin b" "fval b = real_of_int n"
  shows "\<bar>m + n\<bar> < 2 ^ 53 \<Longrightarrow> fval (a + b) = real_of_int (m + n) \<and> is_fin (a + b)"
    and "\<bar>m - n\<bar> < 2 ^ 53 \<Longrightarrow> fval (a - b) = real_of_int (m - n) \<and> is_fin (a - b)"
    and "\<bar>m * n\<bar> < 2 ^ 53 \<Longrightarrow> fval (a * b) = real_of_int (m * n) \<and> is_fin (a * b)"
proof -
  have g: "\<bar>k\<bar> < 2 ^ 53 \<Longrightarrow> rounds_to x (real_of_int k) \<Longrightarrow> fval x = real_of_int k \<and> is_fin x" for x k
    using rounds_to_grid [of x k 0] by simp
  show "\<bar>m + n\<bar> < 2 ^ 53 \<Longrightarrow> fval (a + b) = real_of_int (m + n) \<and> is_fin (a + b)"
    by (rule g) (use fadd_rounds [OF assms(1,3)] assms(2,4) in simp_all)
  show "\<bar>m - n\<bar> < 2 ^ 53 \<Longrightarrow> fval (a - b) = real_of_int (m - n) \<and> is_fin (a - b)"
    by (rule g) (use fsub_rounds [OF assms(1,3)] assms(2,4) in simp_all)
  show "\<bar>m * n\<bar> < 2 ^ 53 \<Longrightarrow> fval (a * b) = real_of_int (m * n) \<and> is_fin (a * b)"
    by (rule g) (use fmul_rounds [OF assms(1,3)] assms(2,4) in simp_all)
qed

section \<open>Integer parts\<close>

lemma ipart_floor: "int (ipart x) = \<lfloor>\<bar>fval x\<bar>\<rfloor>"
proof -
  have v: "\<bar>fval x\<bar> = real (fman x) * 2 ^ fex x / 2 ^ 1074"
    unfolding fval_man_ex fint_def by (simp add: abs_mult)
  show ?thesis
  proof (cases "1074 \<le> fex x")
    case True
    have e: "(2::real) ^ fex x = 2 ^ (fex x - 1074) * 2 ^ 1074" unfolding power_add [symmetric] using True by simp
    have "\<bar>fval x\<bar> = real (ipart x)" unfolding v ipart_def e using True by simp
    then show ?thesis by simp
  next
    case False
    have e: "(2::real) ^ 1074 = 2 ^ (1074 - fex x) * 2 ^ fex x" unfolding power_add [symmetric] using False by simp
    have "\<bar>fval x\<bar> = real (fman x) / real (2 ^ (1074 - fex x))" unfolding v e by simp
    then show ?thesis unfolding ipart_def using False floor_divide_of_nat_eq [where ?'a = real, of "fman x" "2 ^ (1074 - fex x)"] by simp
  qed
qed

lemma as_i32_val:
  assumes "is_fin x" "0 \<le> fval x" "fval x < 2 ^ 31"
  shows "sint (as_i32 x) = \<lfloor>fval x\<rfloor>"
proof -
  have f: "0 \<le> \<lfloor>fval x\<rfloor>" "\<lfloor>fval x\<rfloor> < 2 ^ 31" using assms(2,3) by (simp_all add: floor_less_iff)
  have "as_int 32 x = \<lfloor>fval x\<rfloor>"
  proof (cases "sgn_bit x")
    case True
    then have "fval x = 0" using assms(2) gval_nonneg [of 52 1074 "magn x"] by (simp add: fval_def)
    then show ?thesis using ipart_floor [of x] True assms(1) by (simp add: as_int_def)
  next
    case False
    then show ?thesis using ipart_floor [of x] assms f by (simp add: as_int_def)
  qed
  moreover have "sint (word_of_int \<lfloor>fval x\<rfloor> :: 32 word) = \<lfloor>fval x\<rfloor>"
    unfolding sint_sbintrunc' using f by (intro signed_take_bit_int_eq_self) simp_all
  ultimately show ?thesis by (simp add: as_i32_def)
qed

lemma div_real_iff: "0 < d \<Longrightarrow> n mod d \<noteq> 0 \<longleftrightarrow> real (n div d) \<noteq> real n / real d"
proof -
  assume d: "0 < d"
  have n: "real n = real (n div d) * real d + real (n mod d)"
    unfolding of_nat_mult [symmetric] of_nat_add [symmetric] div_mult_mod_eq ..
  have "real n / real d = real (n div d) + real (n mod d) / real d" unfolding n using d by (simp add: add_divide_distrib)
  then show ?thesis using d by simp
qed

lemma has_frac_iff: "has_frac x \<longleftrightarrow> real (ipart x) \<noteq> \<bar>fval x\<bar>"
proof -
  have v: "\<bar>fval x\<bar> = real (fman x) * 2 ^ fex x / 2 ^ 1074"
    unfolding fval_man_ex fint_def by (simp add: abs_mult)
  show ?thesis
  proof (cases "1074 \<le> fex x")
    case True
    have e: "(2::real) ^ fex x = 2 ^ (fex x - 1074) * 2 ^ 1074" unfolding power_add [symmetric] using True by simp
    have "\<bar>fval x\<bar> = real (ipart x)" unfolding v ipart_def e using True by simp
    then show ?thesis using True by (simp add: has_frac_def)
  next
    case False
    have e: "(2::real) ^ 1074 = 2 ^ (1074 - fex x) * 2 ^ fex x" unfolding power_add [symmetric] using False by simp
    have "\<bar>fval x\<bar> = real (fman x) / real (2 ^ (1074 - fex x))" unfolding v e by simp
    then show ?thesis unfolding has_frac_def ipart_def using False div_real_iff [of "2 ^ (1074 - fex x)" "fman x"] by simp
  qed
qed

lemma fval_sign: "sgn_bit x \<Longrightarrow> fval x \<le> 0" "\<not> sgn_bit x \<Longrightarrow> 0 \<le> fval x"
  using gval_nonneg [of 52 1074 "magn x"] by (simp_all add: fval_def)

lemma ceil_floor_val:
  assumes "is_fin x" "\<bar>fval x\<bar> < 2 ^ 52"
  shows "fval (fceil x) = real_of_int \<lceil>fval x\<rceil>" "is_fin (fceil x)" "fval (ffloor x) = real_of_int \<lfloor>fval x\<rfloor>" "is_fin (ffloor x)"
proof -
  have i: "int (ipart x) = \<lfloor>\<bar>fval x\<bar>\<rfloor>" by (rule ipart_floor)
  have "real (ipart x) \<le> \<bar>fval x\<bar>" by (subst of_int_of_nat_eq [symmetric], subst i) simp
  then have "real (ipart x) < real (2 ^ 52)" using assms(2) by simp
  then have "ipart x < 2 ^ 52" by (simp only: of_nat_less_iff)
  then have p: "ipart x + (if b then 1 else 0) < 2 ^ 53" for b by simp
  have r: "real (ipart x) = real_of_int \<lfloor>\<bar>fval x\<bar>\<rfloor>" by (subst of_int_of_nat_eq [symmetric], subst i) simp
  have one: "signed False y = y" "signed True y = - y" for y by (simp_all add: signed_def)
  have up: "real (ipart x + (if has_frac x then 1 else 0)) = real_of_int \<lceil>\<bar>fval x\<bar>\<rceil>"
    unfolding has_frac_iff using r by (auto simp: ceiling_altdef)
  show "is_fin (fceil x)" "is_fin (ffloor x)" using round_ratio_of_nat(2) [OF p] assms(1) by (simp_all add: fceil_def ffloor_def)
  show "fval (fceil x) = real_of_int \<lceil>fval x\<rceil>"
  proof (cases "sgn_bit x")
    case True
    then show ?thesis using round_ratio_of_nat(1) [OF p, of True False] fval_sign(1) [OF True] r assms(1)
      by (simp add: fceil_def one ceiling_def del: of_nat_add)
  next
    case False
    then show ?thesis using round_ratio_of_nat(1) [OF p, of False "has_frac x"] fval_sign(2) [OF False] up assms(1)
      by (simp add: fceil_def one del: of_nat_add)
  qed
  show "fval (ffloor x) = real_of_int \<lfloor>fval x\<rfloor>"
  proof (cases "sgn_bit x")
    case True
    then show ?thesis using round_ratio_of_nat(1) [OF p, of True "has_frac x"] fval_sign(1) [OF True] up assms(1)
      by (simp add: ffloor_def one ceiling_minus del: of_nat_add)
  next
    case False
    then show ?thesis using round_ratio_of_nat(1) [OF p, of False False] fval_sign(2) [OF False] r assms(1)
      by (simp add: ffloor_def one del: of_nat_add)
  qed
qed

end
