(* ===== verification/Map_Attributes.thy ===== *)
theory Map_Attributes
  imports Beatmap F64_Values
begin

text \<open>
  The attributes of a map under mods (\<open>src/model/beatmap/attributes.rs\<close>): approach rate,
  overall difficulty, circle size and drain rate, their hit windows, and the builder. Values
  are \<open>f32\<close> and windows \<open>f64\<close>, as in the code.
\<close>

datatype mods_dependent_kind = DefaultValue mods_dependent | CustomValue mods_dependent

fun kind_with_mods :: "mods_dependent_kind \<Rightarrow> bool" where
  "kind_with_mods (DefaultValue v) = md_with_mods v"
| "kind_with_mods (CustomValue v) = md_with_mods v"

fun kind_value :: "'mods \<Rightarrow> ('mods \<Rightarrow> f64 option) \<Rightarrow> mods_dependent_kind \<Rightarrow> f32" where
  "kind_value m mods_fn (DefaultValue v) = map_or (md_value v) f32_of_f64 (mods_fn m)"
| "kind_value m mods_fn (CustomValue v) = md_value v"

definition kind_default :: mods_dependent_kind where
  "kind_default = DefaultValue (mods_dependent_new (lit32 5 1))"

record hit_windows =
  hw_ar :: f64
  hw_od_great :: f64
  hw_od_ok :: "f64 option"
  hw_od_meh :: "f64 option"

record beatmap_attributes =
  ba_ar :: f64
  ba_od :: f64
  ba_cs :: f64
  ba_hp :: f64
  ba_clock_rate :: f64
  ba_hit_windows :: hit_windows

record 'mods attributes_builder =
  ab_mode :: game_mode
  ab_is_convert :: bool
  ab_ar :: mods_dependent_kind
  ab_od :: mods_dependent_kind
  ab_cs :: mods_dependent_kind
  ab_hp :: mods_dependent_kind
  ab_mods :: 'mods
  ab_clock_rate :: "f64 option"

section \<open>Settings\<close>

definition builder_new :: "'mods \<Rightarrow> 'mods attributes_builder" where
  "builder_new default_mods = \<lparr>ab_mode = Osu, ab_is_convert = False, ab_ar = kind_default, ab_od = kind_default,
     ab_cs = kind_default, ab_hp = kind_default, ab_mods = default_mods, ab_clock_rate = None\<rparr>"

definition builder_map :: "('p, 's) beatmap \<Rightarrow> 'mods attributes_builder \<Rightarrow> 'mods attributes_builder" where
  "builder_map bm self = self\<lparr>ab_mode := bm_mode bm,
     ab_ar := DefaultValue (mods_dependent_new (clamp32 (bm_ar bm) (lit32 0 1) (lit32 10 1))),
     ab_od := DefaultValue (mods_dependent_new (clamp32 (bm_od bm) (lit32 0 1) (lit32 10 1))),
     ab_cs := DefaultValue (mods_dependent_new (bm_cs bm)),
     ab_hp := DefaultValue (mods_dependent_new (bm_hp bm)),
     ab_is_convert := bm_is_convert bm\<rparr>"

definition builder_ar :: "f32 \<Rightarrow> bool \<Rightarrow> 'mods attributes_builder \<Rightarrow> 'mods attributes_builder" where
  "builder_ar v with_mods self = self\<lparr>ab_ar := CustomValue \<lparr>md_value = v, md_with_mods = with_mods\<rparr>\<rparr>"

definition builder_od :: "f32 \<Rightarrow> bool \<Rightarrow> 'mods attributes_builder \<Rightarrow> 'mods attributes_builder" where
  "builder_od v with_mods self = self\<lparr>ab_od := CustomValue \<lparr>md_value = v, md_with_mods = with_mods\<rparr>\<rparr>"

definition builder_cs :: "f32 \<Rightarrow> bool \<Rightarrow> 'mods attributes_builder \<Rightarrow> 'mods attributes_builder" where
  "builder_cs v with_mods self = self\<lparr>ab_cs := CustomValue \<lparr>md_value = v, md_with_mods = with_mods\<rparr>\<rparr>"

definition builder_hp :: "f32 \<Rightarrow> bool \<Rightarrow> 'mods attributes_builder \<Rightarrow> 'mods attributes_builder" where
  "builder_hp v with_mods self = self\<lparr>ab_hp := CustomValue \<lparr>md_value = v, md_with_mods = with_mods\<rparr>\<rparr>"

definition builder_mods :: "'mods \<Rightarrow> 'mods attributes_builder \<Rightarrow> 'mods attributes_builder" where
  "builder_mods m self = self\<lparr>ab_mods := m\<rparr>"

definition builder_clock_rate :: "f64 \<Rightarrow> 'mods attributes_builder \<Rightarrow> 'mods attributes_builder" where
  "builder_clock_rate rate self = self\<lparr>ab_clock_rate := Some rate\<rparr>"

definition builder_mode :: "game_mode \<Rightarrow> bool \<Rightarrow> 'mods attributes_builder \<Rightarrow> 'mods attributes_builder" where
  "builder_mode mode is_convert self = self\<lparr>ab_mode := mode, ab_is_convert := is_convert\<rparr>"

definition builder_difficulty ::
  "('mods \<Rightarrow> f64) \<Rightarrow> 'mods difficulty \<Rightarrow> 'mods attributes_builder \<Rightarrow> 'mods attributes_builder" where
  "builder_difficulty rate_of_mods d self = self\<lparr>
     ab_ar := map_or (ab_ar self) CustomValue (d_ar d), ab_od := map_or (ab_od self) CustomValue (d_od d),
     ab_cs := map_or (ab_cs self) CustomValue (d_cs d), ab_hp := map_or (ab_hp self) CustomValue (d_hp d),
     ab_mods := d_mods d, ab_clock_rate := Some (get_clock_rate rate_of_mods d)\<rparr>"

section \<open>Hit windows\<close>

text \<open>Minimum, average and maximum of a window, which shrinks with the difficulty.\<close>

record mode_hit_windows =
  w_min :: f64
  w_avg :: f64
  w_max :: f64

definition osu_great :: mode_hit_windows where
  "osu_great = \<lparr>w_min = lit 80 1, w_avg = lit 50 1, w_max = lit 20 1\<rparr>"

definition osu_ok :: mode_hit_windows where
  "osu_ok = \<lparr>w_min = lit 140 1, w_avg = lit 100 1, w_max = lit 60 1\<rparr>"

definition osu_meh :: mode_hit_windows where
  "osu_meh = \<lparr>w_min = lit 200 1, w_avg = lit 150 1, w_max = lit 100 1\<rparr>"

definition taiko_great :: mode_hit_windows where
  "taiko_great = \<lparr>w_min = lit 50 1, w_avg = lit 35 1, w_max = lit 20 1\<rparr>"

definition taiko_ok :: mode_hit_windows where
  "taiko_ok = \<lparr>w_min = lit 120 1, w_avg = lit 80 1, w_max = lit 50 1\<rparr>"

definition ar_windows :: mode_hit_windows where
  "ar_windows = \<lparr>w_min = lit 1800 1, w_avg = lit 1200 1, w_max = lit 450 1\<rparr>"

definition difficulty_range :: "f64 \<Rightarrow> mode_hit_windows \<Rightarrow> f64" where
  "difficulty_range d w =
    (if lit 5 1 < d then w_avg w + (w_max w - w_avg w) * (d - lit 5 1) / lit 5 1
     else if d < lit 5 1 then w_avg w - (w_avg w - w_min w) * (lit 5 1 - d) / lit 5 1
     else w_avg w)"

definition mod_mult :: "('l, 'i, 'g) rosu_mods \<Rightarrow> ('l, 'i, 'g) game_mods \<Rightarrow> f32 \<Rightarrow> f32" where
  "mod_mult api m val =
    (if hr api m then fmin32 (val * lit32 14 10) (lit32 10 1)
     else if ez api m then val * lit32 5 10 else val)"

definition raw_value ::
  "('l, 'i, 'g) rosu_mods \<Rightarrow> ('l, 'i, 'g) game_mods \<Rightarrow> (('l, 'i, 'g) game_mods \<Rightarrow> f64 option)
    \<Rightarrow> mods_dependent_kind \<Rightarrow> f32" where
  "raw_value api m mods_fn k =
    (if kind_with_mods k then kind_value m mods_fn k else mod_mult api m (kind_value m mods_fn k))"

definition round_even32 :: "f32 \<Rightarrow> f32" where
  "round_even32 x = f32_of_f64 (fround_even (f64_of_f32 x))"

definition mania_window ::
  "('l, 'i, 'g) rosu_mods \<Rightarrow> ('l, 'i, 'g) game_mods \<Rightarrow> bool \<Rightarrow> mods_dependent_kind \<Rightarrow> f64 \<Rightarrow> f64" where
  "mania_window api m is_convert od od_clock_rate =
    (let v = kind_value m (mods_od api) od;
         value = (if \<not> is_convert
           then lit32 34 1 + lit32 3 1 * clamp32 (lit32 10 1 - v) (lit32 0 1) (lit32 10 1)
           else if lit32 4 1 < round_even32 v then lit32 34 1 else lit32 47 1);
         value = (if \<not> kind_with_mods od
           then (if hr api m then value / lit32 14 10 else if ez api m then value * lit32 14 10 else value)
           else value)
     in fceil (ffloor (f64_of_f32 value * od_clock_rate) / od_clock_rate))"

definition builder_rate :: "('l, 'i, 'g) rosu_mods \<Rightarrow> ('l, 'i, 'g) game_mods attributes_builder \<Rightarrow> f64" where
  "builder_rate api self = unwrap_or (mods_clock_rate api (ab_mods self)) (ab_clock_rate self)"

definition hit_windows_of ::
  "('l, 'i, 'g) rosu_mods \<Rightarrow> ('l, 'i, 'g) game_mods attributes_builder \<Rightarrow> hit_windows" where
  "hit_windows_of api self =
    (let m = ab_mods self;
         clock_rate = builder_rate api self;
         ar_clock_rate = (if kind_with_mods (ab_ar self) then lit 1 1 else clock_rate);
         od_clock_rate = (if kind_with_mods (ab_od self) then lit 1 1 else clock_rate);
         preempt = difficulty_range (f64_of_f32 (raw_value api m (mods_ar api) (ab_ar self))) ar_windows / ar_clock_rate;
         raw_od = f64_of_f32 (raw_value api m (mods_od api) (ab_od self));
         osu_windows = (difficulty_range raw_od osu_great / od_clock_rate,
           Some (difficulty_range raw_od osu_ok / od_clock_rate), Some (difficulty_range raw_od osu_meh / od_clock_rate));
         (great, ok, meh) = (case ab_mode self of
             Osu \<Rightarrow> osu_windows
           | Catch \<Rightarrow> osu_windows
           | Taiko \<Rightarrow> ((ffloor (difficulty_range raw_od taiko_great) - lit 5 10) / od_clock_rate,
               Some ((ffloor (difficulty_range raw_od taiko_ok) - lit 5 10) / od_clock_rate), None)
           | Mania \<Rightarrow> (mania_window api m (ab_is_convert self) (ab_od self) od_clock_rate, None, None))
     in \<lparr>hw_ar = preempt, hw_od_great = great, hw_od_ok = ok, hw_od_meh = meh\<rparr>)"

definition osu_great_hit_window_to_od :: "f64 \<Rightarrow> f64" where
  "osu_great_hit_window_to_od w = (w_min osu_great - w) / lit 6 1"

section \<open>Attributes\<close>

definition build_hp :: "('l, 'i, 'g) rosu_mods \<Rightarrow> ('l, 'i, 'g) game_mods attributes_builder \<Rightarrow> f32" where
  "build_hp api self =
    (let hp = kind_value (ab_mods self) (mods_hp api) (ab_hp self);
         hp = (if \<not> kind_with_mods (ab_hp self) then hp * f32_of_f64 (od_ar_hp_multiplier api (ab_mods self)) else hp)
     in fmin32 hp (lit32 10 1))"

definition build_cs :: "('l, 'i, 'g) rosu_mods \<Rightarrow> ('l, 'i, 'g) game_mods attributes_builder \<Rightarrow> f32" where
  "build_cs api self =
    (let cs = kind_value (ab_mods self) (mods_cs api) (ab_cs self)
     in if \<not> kind_with_mods (ab_cs self)
        then (if hr api (ab_mods self) then fmin32 (cs * lit32 13 10) (lit32 10 1)
          else if ez api (ab_mods self) then cs * lit32 5 10 else cs)
        else cs)"

definition build_attributes ::
  "('l, 'i, 'g) rosu_mods \<Rightarrow> ('l, 'i, 'g) game_mods attributes_builder \<Rightarrow> beatmap_attributes" where
  "build_attributes api self =
    (let w = hit_windows_of api self;
         preempt = hw_ar w;
         ar = (if lit 1200 1 < preempt then (lit 1800 1 - preempt) / lit 120 1
           else (lit 1200 1 - preempt) / lit 150 1 + lit 5 1);
         od = (case ab_mode self of
             Osu \<Rightarrow> osu_great_hit_window_to_od (hw_od_great w)
           | Taiko \<Rightarrow> (w_min taiko_great - hw_od_great w) / (w_min taiko_great - w_avg taiko_great) * lit 5 1
           | _ \<Rightarrow> f64_of_f32 (kind_value (ab_mods self) (mods_od api) (ab_od self)))
     in \<lparr>ba_ar = ar, ba_od = od, ba_cs = f64_of_f32 (build_cs api self), ba_hp = f64_of_f32 (build_hp api self),
          ba_clock_rate = builder_rate api self, ba_hit_windows = w\<rparr>)"

definition beatmap_attributes_of :: "'mods \<Rightarrow> ('p, 's) beatmap \<Rightarrow> 'mods attributes_builder" where
  "beatmap_attributes_of default_mods bm = builder_map bm (builder_new default_mods)"

section \<open>Windows shrink with the difficulty\<close>

definition fin_upto :: "nat \<Rightarrow> f64 \<Rightarrow> bool" where
  "fin_upto n x \<longleftrightarrow> is_fin x \<and> \<bar>fval x\<bar> \<le> real n"

lemma rounds_upto:
  assumes "rounds_to x r" "\<bar>r\<bar> \<le> real n" "n < 2 ^ 53"
  shows "fin_upto n x"
proof -
  have a: "is_fin (f64_of_nat n)" "fval (f64_of_nat n) = real n" using f64_of_nat_exact [OF assms(3)] by blast+
  then have b: "is_fin (fneg (f64_of_nat n))" "fval (fneg (f64_of_nat n)) = - real n" by simp_all
  show ?thesis using rounds_to_between [OF assms(1) b(1) a(1)] assms(2) unfolding fin_upto_def a(2) b(2) by linarith
qed

lemma rounds_sign:
  "rounds_to x r \<Longrightarrow> 0 \<le> r \<Longrightarrow> 0 \<le> fval x" "rounds_to x r \<Longrightarrow> r \<le> 0 \<Longrightarrow> fval x \<le> 0"
  using rounds_to_ge [of x r "fzero False"] rounds_to_le [of x r "fzero False"] fin_not(1) [OF class_fzero(1) [of False]]
  by simp_all

text \<open>Arithmetic on whole numbers is exact.\<close>

lemma rounds_int:
  assumes "rounds_to x (real_of_int k)" "\<bar>k\<bar> < 2 ^ 53"
  shows "is_fin x" "fval x = real_of_int k"
proof -
  have n: "nat \<bar>k\<bar> < 2 ^ 53" using assms(2) by (simp add: nat_less_iff)
  define y where "y = (if k < 0 then fneg (f64_of_nat (nat \<bar>k\<bar>)) else f64_of_nat (nat \<bar>k\<bar>))"
  have y: "is_fin y" "fval y = real_of_int k" using f64_of_nat_exact [OF n] unfolding y_def by (cases "k < 0"; simp add: abs_if)+
  show "fval x = real_of_int k" using rounds_to_exact [of x y] assms(1) y fin_not(1) [OF y(1)] by simp
  then show "is_fin x" using fin_between [OF y(1) y(1), of x] y(2) by simp
qed

lemma lit_minus_int:
  assumes "n < 10000" "k < 10000"
  shows "is_fin (lit n 1 - lit k 1)" "fval (lit n 1 - lit k 1) = real_of_int (int n - int k)"
proof -
  have b: "n < 2 ^ 53" "k < 2 ^ 53" using assms by simp_all
  have "rounds_to (lit n 1 - lit k 1) (real_of_int (int n - int k))"
    using fsub_rounds [OF lit_int(2) [OF b(1)] lit_int(2) [OF b(2)]] unfolding lit_int(1) [OF b(1)] lit_int(1) [OF b(2)] by simp
  moreover have "\<bar>int n - int k\<bar> < 2 ^ 53" using assms by simp
  ultimately show "is_fin (lit n 1 - lit k 1)" "fval (lit n 1 - lit k 1) = real_of_int (int n - int k)"
    using rounds_int by blast+
qed

lemma five: "is_fin (lit 5 1)" "fval (lit 5 1) = 5"
  by (simp_all add: lit_def f64_eval fval_def gval_def man_def ex_def is_fin_def)

text \<open>The offset from the average, for a slope that is not positive and a distance that is not negative.\<close>

lemma window_offset:
  assumes "fin_upto 750 a" "fval a \<le> 0" "fin_upto 25 t" "0 \<le> fval t"
  shows "fin_upto 3750 (a * t / lit 5 1)" "fval (a * t / lit 5 1) \<le> 0"
    "rounds_to (a * t) (fval a * fval t)" "rounds_to (a * t / lit 5 1) (fval (a * t) / 5)"
proof -
  show p: "rounds_to (a * t) (fval a * fval t)" using assms fmul_rounds by (simp add: fin_upto_def)
  have "\<bar>fval a * fval t\<bar> \<le> 750 * 25" unfolding abs_mult using assms
    by (intro mult_mono) (simp_all add: fin_upto_def)
  then have w: "fin_upto 18750 (a * t)" by (intro rounds_upto [OF p]) simp_all
  have n: "fval (a * t) \<le> 0" using rounds_sign(2) [OF p] assms(2,4) by (simp add: mult_nonpos_nonneg)
  show q: "rounds_to (a * t / lit 5 1) (fval (a * t) / 5)"
    using fdiv_rounds [of "a * t" "lit 5 1"] w five unfolding fin_upto_def five(2) by simp
  show "fin_upto 3750 (a * t / lit 5 1)" using w by (intro rounds_upto [OF q]) (simp_all add: fin_upto_def)
  show "fval (a * t / lit 5 1) \<le> 0" using rounds_sign(2) [OF q] n by simp
qed

lemma window_offset_mono:
  assumes "fin_upto 750 a" "fval a \<le> 0" "fin_upto 25 t" "0 \<le> fval t" "fin_upto 25 u" "fval t \<le> fval u"
  shows "fval (a * u / lit 5 1) \<le> fval (a * t / lit 5 1)"
proof -
  have u: "0 \<le> fval u" using assms(4,6) by linarith
  note t = window_offset [OF assms(1-4)] and v = window_offset [OF assms(1,2,5) u]
  have "fval a * fval u \<le> fval a * fval t" using assms(6,2) by (rule mult_left_mono_neg)
  from rounds_to_mono [OF v(3) t(3) this] have "fval (a * u) / 5 \<le> fval (a * t) / 5" by simp
  then show ?thesis by (rule rounds_to_mono [OF v(4) t(4)])
qed

text \<open>What a window must satisfy; the six windows of the code do.\<close>

definition window_ok :: "mode_hit_windows \<Rightarrow> bool" where
  "window_ok w \<longleftrightarrow> fin_upto 2000 (w_avg w)
    \<and> fin_upto 750 (w_max w - w_avg w) \<and> fval (w_max w - w_avg w) \<le> 0
    \<and> fin_upto 750 (w_avg w - w_min w) \<and> fval (w_avg w - w_min w) \<le> 0"

lemma window_of_nats:
  assumes "mx \<le> av" "av \<le> mn" "mn \<le> 2000" "av - mx \<le> 750" "mn - av \<le> 750"
  shows "window_ok \<lparr>w_min = lit mn 1, w_avg = lit av 1, w_max = lit mx 1\<rparr>"
proof -
  have "real av \<le> 2000" "real av - real mx \<le> 750" "real mn - real av \<le> 750" "real mx \<le> real av" "real av \<le> real mn"
    using assms by linarith+
  then show ?thesis
    using lit_int [of av] lit_minus_int [of mx av] lit_minus_int [of av mn] assms
    unfolding window_ok_def fin_upto_def mode_hit_windows.select_convs by simp
qed

lemma windows_ok:
  "w \<in> {osu_great, osu_ok, osu_meh, taiko_great, taiko_ok, ar_windows} \<Longrightarrow> window_ok w"
  unfolding osu_great_def osu_ok_def osu_meh_def taiko_great_def taiko_ok_def ar_windows_def
  by (elim insertE emptyE) (simp_all only:, (rule window_of_nats; simp)+)

lemma difficulty_range_cases:
  assumes "window_ok w" "fin_upto 20 d"
  shows "if 5 < fval d then rounds_to (difficulty_range d w) (fval (w_avg w) + fval ((w_max w - w_avg w) * (d - lit 5 1) / lit 5 1))
       \<and> fval (difficulty_range d w) \<le> fval (w_avg w)
    else if fval d < 5 then rounds_to (difficulty_range d w) (fval (w_avg w) - fval ((w_avg w - w_min w) * (lit 5 1 - d) / lit 5 1))
       \<and> fval (w_avg w) \<le> fval (difficulty_range d w)
    else difficulty_range d w = w_avg w"
    and "5 < fval d \<Longrightarrow> fin_upto 25 (d - lit 5 1) \<and> 0 \<le> fval (d - lit 5 1) \<and> rounds_to (d - lit 5 1) (fval d - 5)"
    and "fval d < 5 \<Longrightarrow> fin_upto 25 (lit 5 1 - d) \<and> 0 \<le> fval (lit 5 1 - d) \<and> rounds_to (lit 5 1 - d) (5 - fval d)"
proof -
  have d: "is_fin d" "-20 \<le> fval d" "fval d \<le> 20" using assms(2) by (auto simp: fin_upto_def)
  note c = less_f64_fin [OF five(1) d(1)] less_f64_fin [OF d(1) five(1)]
  have u: "fin_upto 25 (d - lit 5 1) \<and> 0 \<le> fval (d - lit 5 1) \<and> rounds_to (d - lit 5 1) (fval d - 5)" if "5 < fval d"
  proof -
    have r: "rounds_to (d - lit 5 1) (fval d - 5)" using fsub_rounds [OF d(1) five(1)] unfolding five(2) .
    show ?thesis using rounds_upto [OF r, of 25] rounds_sign(1) [OF r] r d that by simp
  qed
  have l: "fin_upto 25 (lit 5 1 - d) \<and> 0 \<le> fval (lit 5 1 - d) \<and> rounds_to (lit 5 1 - d) (5 - fval d)" if "fval d < 5"
  proof -
    have r: "rounds_to (lit 5 1 - d) (5 - fval d)" using fsub_rounds [OF five(1) d(1)] unfolding five(2) .
    show ?thesis using rounds_upto [OF r, of 25] rounds_sign(1) [OF r] r d that by simp
  qed
  show "5 < fval d \<Longrightarrow> fin_upto 25 (d - lit 5 1) \<and> 0 \<le> fval (d - lit 5 1) \<and> rounds_to (d - lit 5 1) (fval d - 5)"
    and "fval d < 5 \<Longrightarrow> fin_upto 25 (lit 5 1 - d) \<and> 0 \<le> fval (lit 5 1 - d) \<and> rounds_to (lit 5 1 - d) (5 - fval d)"
    using u l by blast+
  have w: "is_fin (w_avg w)" "fin_upto 750 (w_max w - w_avg w)" "fval (w_max w - w_avg w) \<le> 0"
    "fin_upto 750 (w_avg w - w_min w)" "fval (w_avg w - w_min w) \<le> 0" using assms(1) by (auto simp: window_ok_def fin_upto_def)
  show "if 5 < fval d then rounds_to (difficulty_range d w) (fval (w_avg w) + fval ((w_max w - w_avg w) * (d - lit 5 1) / lit 5 1))
       \<and> fval (difficulty_range d w) \<le> fval (w_avg w)
    else if fval d < 5 then rounds_to (difficulty_range d w) (fval (w_avg w) - fval ((w_avg w - w_min w) * (lit 5 1 - d) / lit 5 1))
       \<and> fval (w_avg w) \<le> fval (difficulty_range d w)
    else difficulty_range d w = w_avg w"
  proof (cases "5 < fval d")
    case True
    note o = window_offset [OF w(2,3) conjunct1 [OF u [OF True]] conjunct1 [OF conjunct2 [OF u [OF True]]]]
    have e: "difficulty_range d w = w_avg w + (w_max w - w_avg w) * (d - lit 5 1) / lit 5 1"
      using True by (simp only: difficulty_range_def c five(2) if_True)
    have r: "rounds_to (difficulty_range d w) (fval (w_avg w) + fval ((w_max w - w_avg w) * (d - lit 5 1) / lit 5 1))"
      unfolding e using o(1) by (intro fadd_rounds w(1)) (simp only: fin_upto_def)
    then show ?thesis using rounds_to_le [OF r fin_not(1) [OF w(1)]] o(2) True by (simp only: if_True)
  next
    case False
    show ?thesis
    proof (cases "fval d < 5")
      case True
      note o = window_offset [OF w(4,5) conjunct1 [OF l [OF True]] conjunct1 [OF conjunct2 [OF l [OF True]]]]
      have e: "difficulty_range d w = w_avg w - (w_avg w - w_min w) * (lit 5 1 - d) / lit 5 1"
        using True False by (simp only: difficulty_range_def c five(2) if_True if_False)
      have r: "rounds_to (difficulty_range d w) (fval (w_avg w) - fval ((w_avg w - w_min w) * (lit 5 1 - d) / lit 5 1))"
        unfolding e using o(1) by (intro fsub_rounds w(1)) (simp only: fin_upto_def)
      then show ?thesis using rounds_to_ge [OF r fin_not(1) [OF w(1)]] o(2) True False
        by (simp only: if_True if_False)
    next
      case F: False
      show ?thesis using False F by (simp only: difficulty_range_def c five(2) if_False)
    qed
  qed
qed

text \<open>
  Every hit window of the code, and the preempt time, shrinks as the difficulty grows, for
  all difficulties from -20 to 20, which is the range of custom values: the rounding of floats
  never reverses two windows, and the pieces meet at the average window.
\<close>

theorem difficulty_range_antitone:
  assumes "w \<in> {osu_great, osu_ok, osu_meh, taiko_great, taiko_ok, ar_windows}"
    and "fin_upto 20 d" "fin_upto 20 e" "fval d \<le> fval e"
  shows "fval (difficulty_range e w) \<le> fval (difficulty_range d w)"
proof -
  note ok = windows_ok [OF assms(1)]
  note cd = difficulty_range_cases [OF ok assms(2)] and ce = difficulty_range_cases [OF ok assms(3)]
  have w: "fin_upto 750 (w_max w - w_avg w)" "fval (w_max w - w_avg w) \<le> 0"
    "fin_upto 750 (w_avg w - w_min w)" "fval (w_avg w - w_min w) \<le> 0" using ok by (auto simp: window_ok_def)
  consider (both) "5 < fval d" "5 < fval e" | (low) "fval d < 5" "fval e < 5" | (split) "fval d \<le> 5" "5 \<le> fval e"
    using assms(4) by linarith
  then show ?thesis
  proof cases
    case both
    note td = cd(2) [OF both(1)] and te = ce(2) [OF both(2)]
    have "fval (d - lit 5 1) \<le> fval (e - lit 5 1)"
      by (rule rounds_to_mono [of _ "fval d - 5" _ "fval e - 5"]) (use td te assms(4) in simp_all)
    from window_offset_mono [OF w(1,2) conjunct1 [OF td] conjunct1 [OF conjunct2 [OF td]] conjunct1 [OF te] this]
    show ?thesis using cd(1) ce(1) both rounds_to_mono by (simp only: if_True) (meson add_left_mono)
  next
    case low
    then have n: "\<not> 5 < fval d" "\<not> 5 < fval e" by simp_all
    note td = cd(3) [OF low(1)] and te = ce(3) [OF low(2)]
    have "fval (lit 5 1 - e) \<le> fval (lit 5 1 - d)"
      by (rule rounds_to_mono [of _ "5 - fval e" _ "5 - fval d"]) (use td te assms(4) in simp_all)
    from window_offset_mono [OF w(3,4) conjunct1 [OF te] conjunct1 [OF conjunct2 [OF te]] conjunct1 [OF td] this]
    show ?thesis using cd(1) ce(1) low n rounds_to_mono by (simp only: if_True if_False) (meson diff_left_mono)
  next
    case split
    have "fval (w_avg w) \<le> fval (difficulty_range d w)" using cd(1) split(1)
      by (auto split: if_splits)
    moreover have "fval (difficulty_range e w) \<le> fval (w_avg w)" using ce(1) split(2)
      by (auto split: if_splits)
    ultimately show ?thesis by linarith
  qed
qed

theorem difficulty_range_antitone_witness:
  "fval (difficulty_range (lit 8 1) osu_great) \<le> fval (difficulty_range (lit 3 1) osu_great)"
  by (rule difficulty_range_antitone)
    (simp_all add: fin_upto_def lit_def f64_eval fval_def gval_def man_def ex_def is_fin_def)

fun fixed_value :: "mods_dependent_kind \<Rightarrow> bool" where
  "fixed_value (CustomValue v) = md_with_mods v"
| "fixed_value (DefaultValue v) = False"

lemma fixed_value_simps: "fixed_value k \<Longrightarrow> kind_with_mods k" "fixed_value k \<Longrightarrow> kind_value m f k = kind_value n g k"
  by (cases k; simp)+

text \<open>
  Values given with mods accounted for are used as they are: with all four of them custom
  and with mods, neither the mods nor the clock rate have an effect on an attribute or a hit
  window, in any mode.
\<close>

theorem with_mods_is_final:
  assumes "fixed_value (ab_ar b)" "fixed_value (ab_od b)" "fixed_value (ab_cs b)" "fixed_value (ab_hp b)"
    and "b' = b\<lparr>ab_mods := m, ab_clock_rate := rate\<rparr>"
  shows "hit_windows_of api b' = hit_windows_of api b
    \<and> build_attributes api b' = (build_attributes api b)\<lparr>ba_clock_rate := builder_rate api b'\<rparr>"
proof -
  note v = fixed_value_simps(2) [OF assms(1), of m "mods_ar api" "ab_mods b" "mods_ar api"]
    fixed_value_simps(2) [OF assms(2), of m "mods_od api" "ab_mods b" "mods_od api"]
    fixed_value_simps(2) [OF assms(3), of m "mods_cs api" "ab_mods b" "mods_cs api"]
    fixed_value_simps(2) [OF assms(4), of m "mods_hp api" "ab_mods b" "mods_hp api"]
  note k = assms(1-4) [THEN fixed_value_simps(1)]
  have w: "hit_windows_of api b' = hit_windows_of api b"
    by (simp add: hit_windows_of_def Let_def raw_value_def mania_window_def assms(5) v k split: game_mode.splits)
  moreover have "build_cs api b' = build_cs api b" "build_hp api b' = build_hp api b"
    by (simp_all add: build_cs_def build_hp_def assms(5) v k)
  moreover have "ab_mode b' = ab_mode b" "ab_od b' = ab_od b" "ab_mods b' = m" by (simp_all add: assms(5))
  ultimately show ?thesis by (simp add: build_attributes_def Let_def v split: game_mode.splits)
qed

definition fixed_builder :: "(mod_name list, mod_name list, mod_name list) game_mods attributes_builder" where
  "fixed_builder = builder_ar (lit32 9 1) True (builder_od (lit32 8 1) True (builder_cs (lit32 4 1) True
     (builder_hp (lit32 6 1) True (builder_new (Lazer [])))))"

theorem with_mods_is_final_witness:
  "hit_windows_of listed_mods (fixed_builder\<lparr>ab_mods := Lazer [HardRock, DoubleTime], ab_clock_rate := None\<rparr>)
    = hit_windows_of listed_mods fixed_builder"
  using with_mods_is_final [OF _ _ _ _ refl, of fixed_builder listed_mods None "Lazer [HardRock, DoubleTime]"]
  by (simp add: fixed_builder_def builder_ar_def builder_od_def builder_cs_def builder_hp_def builder_new_def)

text \<open>
  The overall difficulty that is computed back from the great window of osu!standard is the
  one the window was made of, for all whole difficulties up to 20.
\<close>

theorem osu_od_roundtrip:
  assumes "n \<le> 20"
  shows "fval (osu_great_hit_window_to_od (difficulty_range (lit n 1) osu_great)) = real n"
proof -
  have c: "is_fin (lit 80 1)" "fval (lit 80 1) = 80" "is_fin (lit 50 1)" "fval (lit 50 1) = 50" "is_fin (lit 20 1)"
    "fval (lit 20 1) = 20" "is_fin (lit 6 1)" "fval (lit 6 1) = 6"
    by (simp_all add: lit_def f64_eval fval_def gval_def man_def ex_def is_fin_def)
  have d: "is_fin (lit n 1)" "fval (lit n 1) = real n"
    using lit_int [of n] assms by simp_all
  then have u: "fin_upto 20 (lit n 1)" using assms by (simp add: fin_upto_def)
  let ?r = "difficulty_range (lit n 1) osu_great"
  have a: "is_fin (lit 20 1 - lit 50 1)" "fval (lit 20 1 - lit 50 1) = real_of_int (- 30)"
    "is_fin (lit 50 1 - lit 80 1)" "fval (lit 50 1 - lit 80 1) = real_of_int (- 30)"
    using rounds_int [of "lit 20 1 - lit 50 1" "- 30"] rounds_int [of "lit 50 1 - lit 80 1" "- 30"]
      fsub_rounds [OF c(5,3)] fsub_rounds [OF c(3,1)] unfolding c by simp_all
  have off: "fval (x * t / lit 5 1) = real_of_int (- 6 * k) \<and> is_fin (x * t / lit 5 1)"
    if "is_fin x" "fval x = real_of_int (- 30)" "is_fin t" "fval t = real_of_int k" "\<bar>k\<bar> \<le> 25" for x t k
  proof -
    have p: "rounds_to (x * t) (real_of_int (- 30 * k))" using fmul_rounds [OF that(1,3)] unfolding that(2,4) by simp
    note p' = rounds_int [OF p]
    have q: "rounds_to (x * t / lit 5 1) (real_of_int (- 6 * k))"
      using fdiv_rounds [OF _ five(1), of "x * t"] p' that(5) unfolding five(2) by simp
    show ?thesis using rounds_int [OF q] that(5) by simp
  qed
  have r: "is_fin ?r \<and> fval ?r = real_of_int (80 - 6 * int n)"
  proof -
    have ok: "window_ok osu_great" by (rule windows_ok) simp
    note g = difficulty_range_cases [OF ok u, unfolded d(2)]
    have gr: "w_avg osu_great = lit 50 1" "w_max osu_great = lit 20 1" "w_min osu_great = lit 80 1"
      by (simp_all add: osu_great_def)
    consider "5 < real n" | "real n < 5" | "real n = 5" by linarith
    then show ?thesis
    proof cases
      case 1
      have "rounds_to (lit n 1 - lit 5 1) (real_of_int (int n - 5))" using g(2) 1 by simp
      note t = rounds_int [OF this]
      note o = off [OF a(1,2) t(1,2)]
      have "rounds_to ?r (real_of_int (80 - 6 * int n))" using g(1) 1 o assms unfolding gr c by simp
      from rounds_int [OF this] assms show ?thesis by simp
    next
      case 2
      have "rounds_to (lit 5 1 - lit n 1) (real_of_int (5 - int n))" using g(3) 2 by simp
      note t = rounds_int [OF this]
      note o = off [OF a(3,4) t(1,2)]
      have "rounds_to ?r (real_of_int (80 - 6 * int n))" using g(1) 2 o assms unfolding gr c by simp
      from rounds_int [OF this] assms show ?thesis by simp
    next
      case 3
      then have "?r = lit 50 1" using g(1) unfolding gr by simp
      then show ?thesis using 3 c by simp
    qed
  qed
  have s: "rounds_to (lit 80 1 - ?r) (real_of_int (6 * int n))" using fsub_rounds [OF c(1), of ?r] r unfolding c by simp
  note s' = rounds_int [OF s]
  have "rounds_to ((lit 80 1 - ?r) / lit 6 1) (real_of_int (int n))"
    using fdiv_rounds [OF _ c(7), of "lit 80 1 - ?r"] s' assms unfolding c by simp
  from rounds_int [OF this] assms show ?thesis by (simp add: osu_great_hit_window_to_od_def osu_great_def)
qed

theorem osu_od_roundtrip_witness:
  "fval (osu_great_hit_window_to_od (difficulty_range (lit 9 1) osu_great)) = 9"
  using osu_od_roundtrip [of 9] by simp

end
