(* ===== verification/Limited_Queue.thy ===== *)
theory Limited_Queue
  imports Libm
begin

text \<open>
  The queue of limited capacity (\<open>src/util/limited_queue.rs\<close>): a ring of \<open>N\<close> slots, the
  index of the newest entry and the number of entries. The capacity is a constant of the type
  in the code and the argument \<open>N\<close> here; indices are natural numbers, as they stay below the
  size of an array in memory. Its client is the density of notes in the conversion to osu!mania
  (\<open>src/mania/convert/mod.rs\<close>).
\<close>

record 'a limited_queue =
  lq_queue :: "'a list"
  lq_end :: nat
  lq_len :: nat

definition lq_default :: "nat \<Rightarrow> 'a \<Rightarrow> 'a limited_queue" where
  "lq_default N d = \<lparr>lq_queue = replicate N d, lq_end = N - 1, lq_len = 0\<rparr>"

definition lq_new :: "nat \<Rightarrow> 'a \<Rightarrow> 'a limited_queue" where
  "lq_new N d = lq_default N d"

definition lq_push :: "nat \<Rightarrow> 'a \<Rightarrow> 'a limited_queue \<Rightarrow> 'a limited_queue" where
  "lq_push N elem q =
    (let e = (lq_end q + 1) mod N
     in q\<lparr>lq_end := e, lq_queue := (lq_queue q)[e := elem],
          lq_len := lq_len q + (if lq_len q < N then 1 else 0)\<rparr>)"

definition lq_is_empty :: "'a limited_queue \<Rightarrow> bool" where
  "lq_is_empty q = (lq_len q = 0)"

definition lq_is_full :: "nat \<Rightarrow> 'a limited_queue \<Rightarrow> bool" where
  "lq_is_full N q = (lq_len q = N)"

definition lq_last :: "'a limited_queue \<Rightarrow> 'a option" where
  "lq_last q = (if lq_is_empty q then None else Some (lq_queue q ! lq_end q))"

definition lq_as_slices :: "nat \<Rightarrow> 'a limited_queue \<Rightarrow> 'a list \<times> 'a list" where
  "lq_as_slices N q =
    (if lq_is_full N q then (drop (lq_end q + 1) (take N (lq_queue q)), take (lq_end q + 1) (lq_queue q))
     else ([], take (lq_len q) (lq_queue q)))"

definition lq_index :: "nat \<Rightarrow> 'a limited_queue \<Rightarrow> nat \<Rightarrow> 'a" where
  "lq_index N q idx = lq_queue q ! ((idx + (if lq_len q = N then 1 else 0) * (lq_end q + 1)) mod N)"

section \<open>The contract of a bounded queue\<close>

text \<open>
  What a client relies on: a queue stands for the list of its entries, oldest first; a push
  appends an entry and, when the queue is full, drops the oldest one.
\<close>

locale bounded_queue =
  fixes N :: nat
    and empty :: 'q
    and push :: "'a \<Rightarrow> 'q \<Rightarrow> 'q"
    and entries :: "'q \<Rightarrow> 'a list"
    and ok :: "'q \<Rightarrow> bool"
  assumes capacity: "0 < N"
    and ok_empty: "ok empty"
    and entries_empty: "entries empty = []"
    and ok_push: "ok q \<Longrightarrow> ok (push x q)"
    and entries_push: "ok q \<Longrightarrow>
      entries (push x q) = (if length (entries q) < N then entries q @ [x] else tl (entries q) @ [x])"
begin

lemma ok_pushes: "ok (fold push xs empty)"
proof (induction xs rule: rev_induct)
  case Nil
  show ?case by (simp add: ok_empty)
next
  case (snoc x xs)
  then show ?case by (simp add: ok_push)
qed

text \<open>After any pushes, the queue holds the newest \<open>N\<close> of them.\<close>

lemma entries_pushes: "entries (fold push xs empty) = drop (length xs - N) xs"
proof (induction xs rule: rev_induct)
  case Nil
  show ?case by (simp add: entries_empty)
next
  case (snoc x xs)
  have "tl (drop (length xs - N) xs) = drop (Suc (length xs) - N) xs" if "N \<le> length xs"
    using that by (simp add: tl_drop drop_Suc Suc_diff_le)
  then show ?case
    using capacity by (auto simp: entries_push [OF ok_pushes] snoc)
qed

lemma length_entries: "length (entries (fold push xs empty)) = min N (length xs)"
  by (simp add: entries_pushes)

end

section \<open>The ring keeps the contract\<close>

definition lq_entries :: "nat \<Rightarrow> 'a limited_queue \<Rightarrow> 'a list" where
  "lq_entries N q = (case lq_as_slices N q of (a, b) \<Rightarrow> a @ b)"

definition lq_ok :: "nat \<Rightarrow> 'a limited_queue \<Rightarrow> bool" where
  "lq_ok N q \<longleftrightarrow> length (lq_queue q) = N \<and> lq_end q < N \<and> lq_len q \<le> N
    \<and> (lq_len q < N \<longrightarrow> (lq_end q + 1) mod N = lq_len q)"

lemma lq_entries_is:
  "lq_ok N q \<Longrightarrow> lq_entries N q = (if lq_len q = N then drop (lq_end q + 1) (lq_queue q) @ take (lq_end q + 1) (lq_queue q)
     else take (lq_len q) (lq_queue q))"
  by (auto simp: lq_entries_def lq_as_slices_def lq_is_full_def lq_ok_def)

lemma take_update: "i < length xs \<Longrightarrow> take (Suc i) (xs[i := x]) = take i xs @ [x]"
  by (simp add: take_Suc_conv_app_nth)

lemma lq_push_ok:
  assumes "lq_ok N q"
  shows "lq_ok N (lq_push N x q)"
proof -
  have N: "0 < N" using assms by (auto simp: lq_ok_def)
  let ?e = "(lq_end q + 1) mod N"
  have e: "?e < N" using N by simp
  show ?thesis
  proof (cases "lq_len q < N")
    case True
    then have l: "?e = lq_len q" using assms by (simp add: lq_ok_def)
    then have "lq_len q + 1 < N \<longrightarrow> (?e + 1) mod N = lq_len q + 1" by simp
    then show ?thesis using assms e True by (simp add: lq_ok_def lq_push_def Let_def)
  next
    case False
    then show ?thesis using assms e by (simp add: lq_ok_def lq_push_def Let_def)
  qed
qed

lemma lq_push_entries:
  assumes "lq_ok N q"
  shows "lq_entries N (lq_push N x q)
    = (if length (lq_entries N q) < N then lq_entries N q @ [x] else tl (lq_entries N q) @ [x])"
proof -
  have N: "0 < N" and len: "length (lq_queue q) = N" and e: "lq_end q < N" and le: "lq_len q \<le> N"
    using assms by (auto simp: lq_ok_def)
  let ?e = "(lq_end q + 1) mod N"
  have e': "?e < N" using N by simp
  note after = lq_entries_is [OF lq_push_ok [OF assms]] and before = lq_entries_is [OF assms]
  show ?thesis
  proof (cases "lq_len q < N")
    case True
    then have l: "?e = lq_len q" using assms by (simp add: lq_ok_def)
    have "take (Suc (lq_len q)) ((lq_queue q)[lq_len q := x]) = take (lq_len q) (lq_queue q) @ [x]"
      using True len by (intro take_update) simp
    moreover have "(lq_queue q)[lq_len q := x] = take (Suc (lq_len q)) ((lq_queue q)[lq_len q := x])" if "Suc (lq_len q) = N"
      using that len by simp
    ultimately show ?thesis unfolding after before
      using True len by (auto simp: lq_push_def Let_def l [unfolded Suc_eq_plus1 [symmetric]])
  next
    case False
    then have full: "lq_len q = N" using le by simp
    let ?q = "lq_queue q"
    have "length (lq_entries N q) = N" using full len e by (simp add: before)
    moreover have "drop (?e + 1) (?q[?e := x]) @ take (?e + 1) (?q[?e := x])
        = tl (drop (lq_end q + 1) ?q @ take (lq_end q + 1) ?q) @ [x]"
    proof (cases "lq_end q + 1 = N")
      case True
      then have "?e = 0" by simp
      moreover obtain y ys where "?q = y # ys" using N len by (cases ?q) auto
      ultimately show ?thesis using True len by simp
    next
      case False
      then have ee: "?e = lq_end q + 1" using e by simp
      have "take (Suc ?e) (?q[?e := x]) = take ?e ?q @ [x]" using e' len by (intro take_update) simp
      moreover have "drop (lq_end q + 1) ?q \<noteq> []" using False e len by simp
      then have "tl (drop (lq_end q + 1) ?q @ take (lq_end q + 1) ?q) = drop (?e + 1) ?q @ take ?e ?q"
        unfolding ee by (simp add: tl_append2 tl_drop drop_Suc)
      moreover have "drop (?e + 1) (?q[?e := x]) = drop (?e + 1) ?q" by simp
      ultimately show ?thesis by (simp only: append_assoc Suc_eq_plus1 [symmetric])
    qed
    ultimately show ?thesis unfolding after
      using full by (simp add: lq_push_def Let_def before)
  qed
qed

lemma lq_new_ok: "0 < N \<Longrightarrow> lq_ok N (lq_new N d)"
  by (simp add: lq_ok_def lq_new_def lq_default_def)

lemma lq_new_entries: "0 < N \<Longrightarrow> lq_entries N (lq_new N d) = []"
  using lq_entries_is [OF lq_new_ok] by (simp add: lq_new_def lq_default_def)

interpretation lq: bounded_queue "Suc n" "lq_new (Suc n) d" "lq_push (Suc n)" "lq_entries (Suc n)" "lq_ok (Suc n)"
  for n d
  by (rule bounded_queue.intro)
    (rule zero_less_Suc lq_new_ok lq_new_entries | erule lq_push_ok lq_push_entries)+

lemma lq_index_entries:
  assumes "lq_ok N q" "i < length (lq_entries N q)"
  shows "lq_index N q i = lq_entries N q ! i"
proof -
  have len: "length (lq_queue q) = N" and e: "lq_end q < N" and le: "lq_len q \<le> N"
    using assms by (auto simp: lq_ok_def)
  show ?thesis
  proof (cases "lq_len q = N")
    case True
    then have i: "i < N" using assms len e by (simp add: lq_entries_is [OF assms(1)])
    show ?thesis
    proof (cases "i < N - (lq_end q + 1)")
      case True
      then have m: "(i + (lq_end q + 1)) mod N = lq_end q + 1 + i" by simp
      have "lq_index N q i = lq_queue q ! ((i + (lq_end q + 1)) mod N)"
        using \<open>lq_len q = N\<close> by (simp add: lq_index_def)
      also have "\<dots> = lq_queue q ! (lq_end q + 1 + i)" unfolding m ..
      also have "\<dots> = (drop (lq_end q + 1) (lq_queue q) @ take (lq_end q + 1) (lq_queue q)) ! i"
        using True len e by (subst nth_append, subst nth_drop) auto
      also have "\<dots> = lq_entries N q ! i" using \<open>lq_len q = N\<close> by (simp add: lq_entries_is [OF assms(1)])
      finally show ?thesis .
    next
      case False
      define k where "k = i - (N - (lq_end q + 1))"
      have ik: "i = k + (N - (lq_end q + 1))" "k < lq_end q + 1" using False i e by (auto simp: k_def)
      then have "i + (lq_end q + 1) = N + k" "k < N" using e by auto
      then have m: "(i + (lq_end q + 1)) mod N = k" by simp
      have "lq_index N q i = lq_queue q ! ((i + (lq_end q + 1)) mod N)"
        using \<open>lq_len q = N\<close> by (simp add: lq_index_def)
      also have "\<dots> = lq_queue q ! k" unfolding m ..
      also have "\<dots> = (drop (lq_end q + 1) (lq_queue q) @ take (lq_end q + 1) (lq_queue q)) ! i"
      proof -
        have "\<not> i < length (drop (lq_end q + 1) (lq_queue q))" "i - length (drop (lq_end q + 1) (lq_queue q)) = k"
          using ik len e by auto
        then show ?thesis using ik(2) by (simp only: nth_append nth_take if_False)
      qed
      also have "\<dots> = lq_entries N q ! i" using \<open>lq_len q = N\<close> by (simp add: lq_entries_is [OF assms(1)])
      finally show ?thesis .
    qed
  next
    case False
    then show ?thesis using assms len le by (simp add: lq_entries_is [OF assms(1)] lq_index_def)
  qed
qed

lemma lq_last_entries:
  assumes "lq_ok N q"
  shows "lq_last q = (if lq_entries N q = [] then None else Some (last (lq_entries N q)))"
proof -
  have N: "0 < N" and len: "length (lq_queue q) = N" and e: "lq_end q < N" and le: "lq_len q \<le> N"
    using assms by (auto simp: lq_ok_def)
  show ?thesis
  proof (cases "lq_len q = N")
    case True
    have "last (drop (lq_end q + 1) (lq_queue q) @ take (lq_end q + 1) (lq_queue q)) = lq_queue q ! lq_end q"
      using e len by (simp add: last_append take_Suc_conv_app_nth)
    then show ?thesis using True N len e
      by (auto simp: lq_entries_is [OF assms] lq_last_def lq_is_empty_def)
  next
    case False
    then have l: "(lq_end q + 1) mod N = lq_len q" using assms le by (simp add: lq_ok_def)
    show ?thesis
    proof (cases "lq_len q = 0")
      case True
      then show ?thesis using False by (simp add: lq_entries_is [OF assms] lq_last_def lq_is_empty_def)
    next
      case nz: False
      then have "lq_end q + 1 = lq_len q" using l e by (cases "lq_end q + 1 = N") auto
      then have "take (lq_len q) (lq_queue q) = take (lq_end q) (lq_queue q) @ [lq_queue q ! lq_end q]"
        using e len by (metis Suc_eq_plus1 take_Suc_conv_app_nth)
      then show ?thesis using False nz by (simp add: lq_entries_is [OF assms] lq_last_def lq_is_empty_def)
    qed
  qed
qed

lemma lq_pushes:
  assumes "0 < N"
  shows "lq_ok N (fold (lq_push N) xs (lq_new N d))"
    and "lq_entries N (fold (lq_push N) xs (lq_new N d)) = drop (length xs - N) xs"
    and "lq_len (fold (lq_push N) xs (lq_new N d)) = min N (length xs)"
proof -
  obtain n where N: "N = Suc n" using assms by (cases N) auto
  let ?q = "fold (lq_push N) xs (lq_new N d)"
  show ok: "lq_ok N ?q" and es: "lq_entries N ?q = drop (length xs - N) xs"
    unfolding N by (rule lq.ok_pushes, rule lq.entries_pushes)
  have "lq_len ?q = length (lq_entries N ?q)"
    using ok by (auto simp: lq_entries_is lq_ok_def)
  then show "lq_len ?q = min N (length xs)" by (simp add: es)
qed

text \<open>
  C19. The ring refines the list of the newest entries: whatever is pushed into a queue of a
  positive capacity, its two slices put together are the last \<open>N\<close> elements pushed, its length is
  their number, its newest element the last one, and its index the index in that list.
\<close>

theorem limited_queue_refines:
  assumes "0 < N"
  shows "lq_entries N (fold (lq_push N) xs (lq_new N d)) = drop (length xs - N) xs
    \<and> lq_len (fold (lq_push N) xs (lq_new N d)) = min N (length xs)
    \<and> lq_last (fold (lq_push N) xs (lq_new N d)) = (if xs = [] then None else Some (last xs))
    \<and> (\<forall>i < min N (length xs). lq_index N (fold (lq_push N) xs (lq_new N d)) i = xs ! (length xs - min N (length xs) + i))"
proof -
  let ?q = "fold (lq_push N) xs (lq_new N d)"
  note ok = lq_pushes(1) [OF assms, of xs d] and es = lq_pushes(2) [OF assms, of xs d] and l = lq_pushes(3) [OF assms, of xs d]
  have "lq_last ?q = (if xs = [] then None else Some (last xs))"
    using assms unfolding lq_last_entries [OF ok] es by (cases xs) (auto simp: last_drop)
  moreover have "lq_index N ?q i = xs ! (length xs - min N (length xs) + i)" if "i < min N (length xs)" for i
    using lq_index_entries [OF ok, of i] that unfolding es by (simp add: min_def split: if_splits)
  ultimately show ?thesis using l by (simp add: es)
qed

theorem limited_queue_refines_witness:
  "lq_entries 3 (fold (lq_push 3) [1, 2, 3, 4, 5 :: int] (lq_new 3 0)) = [3, 4, 5]"
  using limited_queue_refines [of 3 "[1, 2, 3, 4, 5 :: int]" 0] by simp

section \<open>The density of notes\<close>

text \<open>
  \<open>compute_density\<close> in the conversion to osu!mania: the average distance of the last seven
  times. The three patterns of the code are the queue with two slices, and with at least two
  entries in one of them.
\<close>

definition max_notes_for_density :: nat where
  "max_notes_for_density = 7"

definition compute_density :: "f64 \<Rightarrow> f64 limited_queue \<times> f64 \<Rightarrow> f64 limited_queue \<times> f64" where
  "compute_density new_note_time = (\<lambda>(q, d).
    (let q = lq_push max_notes_for_density new_note_time q;
         len = f64_of_nat (lq_len q)
     in (q, case lq_as_slices max_notes_for_density q of
          (x # xs, y # ys) \<Rightarrow> (last (y # ys) - x) / len
        | ([], x # y # ys) \<Rightarrow> (last (y # ys) - x) / len
        | (x # y # ys, []) \<Rightarrow> (last (y # ys) - x) / len
        | _ \<Rightarrow> d)))"

definition density_start :: "f64 limited_queue \<times> f64" where
  "density_start = (lq_new max_notes_for_density (lit 0 1), f64_of_int (2 ^ 31 - 1))"

lemma compute_density_entries:
  "compute_density t (q, d) = (lq_push max_notes_for_density t q,
     let es = lq_entries max_notes_for_density (lq_push max_notes_for_density t q)
     in if length es < 2 then d else (last es - es ! 0) / f64_of_nat (lq_len (lq_push max_notes_for_density t q)))"
  by (auto simp: compute_density_def lq_entries_def Let_def split: prod.splits list.splits)

text \<open>
  The density after a sequence of notes is the distance between the last note and the seventh
  from the end (the first, while there are fewer), over the number of notes in between plus one;
  it is \<open>i32::MAX\<close> up to the first note.
\<close>

theorem density_of_last_seven:
  "snd (fold compute_density ts density_start)
    = (if length ts < 2 then f64_of_int (2 ^ 31 - 1)
       else (last ts - ts ! (length ts - min 7 (length ts))) / f64_of_nat (min 7 (length ts)))"
proof -
  let ?q = "\<lambda>ts. fold (lq_push 7) ts (lq_new 7 (lit 0 1))"
  have q: "fst (fold compute_density ts density_start) = ?q ts" for ts
  proof (induction ts rule: rev_induct)
    case Nil
    show ?case by (simp add: density_start_def max_notes_for_density_def)
  next
    case (snoc t ts)
    then show ?case by (cases "fold compute_density ts density_start")
        (simp add: compute_density_entries, simp add: max_notes_for_density_def)
  qed
  show ?thesis
  proof (induction ts rule: rev_induct)
    case Nil
    show ?case by (simp add: density_start_def)
  next
    case (snoc t ts)
    obtain d where s: "fold compute_density ts density_start = (?q ts, d)"
      using q [of ts] by (cases "fold compute_density ts density_start") auto
    have p: "lq_push 7 t (?q ts) = ?q (ts @ [t])" by simp
    have es: "lq_entries 7 (?q (ts @ [t])) = drop (length (ts @ [t]) - 7) (ts @ [t])"
      and l: "lq_len (?q (ts @ [t])) = min 7 (length (ts @ [t]))"
      by (rule lq_pushes, simp)+
    let ?es = "drop (length (ts @ [t]) - 7) (ts @ [t])"
    have n: "length ?es < 2 \<longleftrightarrow> length (ts @ [t]) < 2" "last ?es = t"
      by (auto simp: last_drop min_def split: if_splits) (cases ts; simp)
    have h: "?es ! 0 = (ts @ [t]) ! (length (ts @ [t]) - min 7 (length (ts @ [t])))"
      by (subst nth_drop) (auto simp: min_def)
    have "snd (fold compute_density (ts @ [t]) density_start)
        = (let es = lq_entries 7 (lq_push 7 t (?q ts))
           in if length es < 2 then d else (last es - es ! 0) / f64_of_nat (lq_len (lq_push 7 t (?q ts))))"
      unfolding fold_append comp_apply s fold_simps compute_density_entries max_notes_for_density_def by simp
    then show ?case unfolding p es Let_def n h l using snoc.IH s by auto
  qed
qed

end
