(* ===== verification/Strains_Vec.thy ===== *)
theory Strains_Vec
  imports Libm
begin

text \<open>
  The list of strain peaks (\<open>src/util/strains_vec.rs\<close>), in the two forms the crate can be
  built with: the plain list of the feature \<open>raw_strains\<close>, and the compact one, whose
  entries are 64 bits that hold either a positive number or, with the sign bit set, how many
  zeros follow each other. The union of the code is its bits; the lengths are natural numbers.
  The fields that only debug builds have are left out.
\<close>

type_synonym strains_entry = u64

definition zero_count_mask :: u64 where
  "zero_count_mask = drop_bit 1 (- 1)"

definition entry_new_value :: "f64 \<Rightarrow> strains_entry" where
  "entry_new_value v = to_bits v"

definition entry_new_zero :: strains_entry where
  "entry_new_zero = NOT zero_count_mask + 1"

definition entry_is_zero :: "strains_entry \<Rightarrow> bool" where
  "entry_is_zero e = sgn_bit (F64 e)"

definition entry_is_value :: "strains_entry \<Rightarrow> bool" where
  "entry_is_value e = (\<not> entry_is_zero e)"

definition entry_value :: "strains_entry \<Rightarrow> f64" where
  "entry_value e = F64 e"

definition entry_try_as_value :: "strains_entry \<Rightarrow> f64 option" where
  "entry_try_as_value e = (if entry_is_value e then Some (entry_value e) else None)"

definition entry_zero_count :: "strains_entry \<Rightarrow> u64" where
  "entry_zero_count e = e AND zero_count_mask"

definition entry_incr :: "strains_entry \<Rightarrow> strains_entry" where
  "entry_incr e = e + 1"

definition entry_decr :: "strains_entry \<Rightarrow> strains_entry" where
  "entry_decr e = e - 1"

record strains_vec =
  sv_inner :: "strains_entry list"
  sv_len :: nat

definition sv_new :: strains_vec where
  "sv_new = \<lparr>sv_inner = [], sv_len = 0\<rparr>"

definition sv_push :: "f64 \<Rightarrow> strains_vec \<Rightarrow> strains_vec" where
  "sv_push v sv = sv\<lparr>sv_inner :=
       (if 0 < to_bits v \<and> \<not> sgn_bit v then sv_inner sv @ [entry_new_value v]
        else if sv_inner sv \<noteq> [] \<and> entry_is_zero (last (sv_inner sv))
        then butlast (sv_inner sv) @ [entry_incr (last (sv_inner sv))]
        else sv_inner sv @ [entry_new_zero]),
     sv_len := sv_len sv + 1\<rparr>"

text \<open>The stable sort by \<open>total_cmp\<close>, descending.\<close>

definition sv_sort_desc :: "strains_vec \<Rightarrow> strains_vec" where
  "sv_sort_desc sv = sv\<lparr>sv_inner := sort_key (\<lambda>e. - tkey (entry_value e)) (sv_inner sv)\<rparr>"

definition sv_retain_non_zero :: "strains_vec \<Rightarrow> strains_vec" where
  "sv_retain_non_zero sv = sv\<lparr>sv_inner := filter entry_is_value (sv_inner sv)\<rparr>"

definition sv_retain_non_zero_and_sort :: "strains_vec \<Rightarrow> strains_vec" where
  "sv_retain_non_zero_and_sort sv = sv_sort_desc (sv_retain_non_zero sv)"

definition sv_sum :: "strains_vec \<Rightarrow> f64" where
  "sv_sum sv = fsum (List.map_filter entry_try_as_value (sv_inner sv))"

definition sv_transmute :: "strains_vec \<Rightarrow> f64 list" where
  "sv_transmute sv = map F64 (sv_inner sv)"

text \<open>
  \<open>into_vec\<close>: \<open>copy_non_zero\<close> copies the entries up to the next zero count and returns it
  with the rest of the entries.
\<close>

definition copy_non_zero :: "strains_entry list \<Rightarrow> f64 list \<times> (u64 \<times> strains_entry list) option" where
  "copy_non_zero es =
    (map F64 (takeWhile entry_is_value es),
     case dropWhile entry_is_value es of [] \<Rightarrow> None | e # rest \<Rightarrow> Some (entry_zero_count e, rest))"

lemma copy_non_zero_shorter:
  assumes "copy_non_zero es = (copied, Some (z, rest))"
  shows "length rest < length es"
proof -
  obtain e where "dropWhile entry_is_value es = e # rest"
    using assms by (cases "dropWhile entry_is_value es") (simp_all add: copy_non_zero_def del: dropWhile_eq_Nil_conv)
  then have "length rest < length (dropWhile entry_is_value es)" by simp
  also have "\<dots> \<le> length es" by (rule length_dropWhile_le)
  finally show ?thesis .
qed

function into_vec_loop :: "strains_entry list \<Rightarrow> f64 list \<Rightarrow> f64 list" where
  "into_vec_loop es vec = (case copy_non_zero es of
      (copied, None) \<Rightarrow> vec @ copied
    | (copied, Some (zero_count, rest)) \<Rightarrow> into_vec_loop rest (vec @ copied @ replicate (unat zero_count) (fzero False)))"
  by pat_completeness auto
termination
  by (relation "measure (length \<circ> fst)") (auto dest!: copy_non_zero_shorter [OF sym])

declare into_vec_loop.simps [simp del]

definition sv_into_vec :: "strains_vec \<Rightarrow> f64 list" where
  "sv_into_vec sv = into_vec_loop (sv_inner sv) []"

text \<open>
  The iterator: the entries that remain, the current one, and the number of elements it promises.
  The loop of \<open>next\<close> moves on while the current entry is a spent count.
\<close>

record strains_iter =
  si_inner :: "strains_entry list"
  si_curr :: "strains_entry option"
  si_len :: nat

definition si_new :: "strains_vec \<Rightarrow> strains_iter" where
  "si_new sv = \<lparr>si_inner = tl (sv_inner sv),
     si_curr = (case sv_inner sv of [] \<Rightarrow> None | e # _ \<Rightarrow> Some e), si_len = sv_len sv\<rparr>"

fun si_loop :: "strains_entry list \<Rightarrow> strains_entry option \<Rightarrow> nat \<Rightarrow> (f64 \<times> strains_iter) option" where
  "si_loop inner None len = None"
| "si_loop inner (Some e) len =
    (if entry_is_value e
     then Some (entry_value e, \<lparr>si_inner = tl inner, si_curr = (case inner of [] \<Rightarrow> None | d # _ \<Rightarrow> Some d), si_len = len - 1\<rparr>)
     else if 0 < entry_zero_count e
     then Some (fzero False, \<lparr>si_inner = inner, si_curr = Some (entry_decr e), si_len = len - 1\<rparr>)
     else (case inner of [] \<Rightarrow> None | d # ds \<Rightarrow> si_loop ds (Some d) len))"

declare si_loop.simps(2) [simp del]

definition si_next :: "strains_iter \<Rightarrow> (f64 \<times> strains_iter) option" where
  "si_next it = si_loop (si_inner it) (si_curr it) (si_len it)"

text \<open>What a loop over the iterator sees, up to a number of calls of \<open>next\<close>.\<close>

fun si_take :: "nat \<Rightarrow> strains_iter \<Rightarrow> f64 list \<times> strains_iter" where
  "si_take 0 it = ([], it)"
| "si_take (Suc n) it = (case si_next it of None \<Rightarrow> ([], it)
    | Some (v, it) \<Rightarrow> (case si_take n it of (vs, it) \<Rightarrow> (v # vs, it)))"

section \<open>The plain list\<close>

definition raw_push :: "f64 \<Rightarrow> f64 list \<Rightarrow> f64 list" where
  "raw_push v xs = xs @ [v]"

definition raw_sort_desc :: "f64 list \<Rightarrow> f64 list" where
  "raw_sort_desc xs = sort_key (\<lambda>x. - tkey x) xs"

definition raw_retain_non_zero :: "f64 list \<Rightarrow> f64 list" where
  "raw_retain_non_zero xs = filter (\<lambda>a. lit 0 1 < a) xs"

definition raw_retain_non_zero_and_sort :: "f64 list \<Rightarrow> f64 list" where
  "raw_retain_non_zero_and_sort xs = raw_sort_desc (raw_retain_non_zero xs)"

section \<open>Entries as the values they stand for\<close>

definition entry_values :: "strains_entry \<Rightarrow> f64 list" where
  "entry_values e = (if entry_is_value e then [entry_value e] else replicate (unat (entry_zero_count e)) (fzero False))"

definition sv_values :: "strains_vec \<Rightarrow> f64 list" where
  "sv_values sv = concat (map entry_values (sv_inner sv))"

text \<open>Numbers are positive, counts are not zero, and the length is that of the values.\<close>

definition entry_ok :: "strains_entry \<Rightarrow> bool" where
  "entry_ok e \<longleftrightarrow> 0 < e \<and> (entry_is_zero e \<longrightarrow> 0 < entry_zero_count e)"

definition sv_ok :: "strains_vec \<Rightarrow> bool" where
  "sv_ok sv \<longleftrightarrow> (\<forall>e\<in>set (sv_inner sv). entry_ok e) \<and> sv_len sv = length (sv_values sv)"

lemma entry_is_zero_unat: "entry_is_zero e \<longleftrightarrow> 2 ^ 63 \<le> unat e"
  by (simp add: entry_is_zero_def sgn_bit_def)

lemma zero_count_mask_is: "zero_count_mask = mask 63"
  by (simp add: zero_count_mask_def mask_eq_exp_minus_1)

lemma unat_zero_count: "unat (entry_zero_count e) = unat e mod 2 ^ 63"
  unfolding entry_zero_count_def zero_count_mask_is take_bit_eq_mask [symmetric] unsigned_take_bit_eq
  by (simp add: take_bit_eq_mod)

lemma unat_new_zero: "unat entry_new_zero = 2 ^ 63 + 1"
  by (simp add: entry_new_zero_def zero_count_mask_is mask_eq_exp_minus_1)

lemma new_zero_ok: "entry_ok entry_new_zero" "entry_values entry_new_zero = [fzero False]"
  by (simp_all add: entry_ok_def entry_values_def entry_is_value_def entry_is_zero_unat unat_zero_count unat_new_zero
      word_less_unat)

lemma zero_entry:
  assumes "entry_is_zero e" "unat (entry_zero_count e) + 1 < 2 ^ 63"
  shows "entry_is_zero (entry_incr e)" "unat (entry_zero_count (entry_incr e)) = unat (entry_zero_count e) + 1"
proof -
  have e: "unat e < 2 ^ 64" "2 ^ 63 \<le> unat e" using unsigned_less [where ?'a = nat, of e] assms(1)
    by (simp_all add: entry_is_zero_unat)
  then have "unat e mod 2 ^ 63 = unat e - 2 ^ 63" by (subst le_mod_geq) auto
  then have c: "unat e - 2 ^ 63 + 1 < 2 ^ 63" using assms(2) unfolding unat_zero_count by simp
  then have u: "unat (entry_incr e) = unat e + 1" using e
    unfolding entry_incr_def by (subst unat_add_small) auto
  show "entry_is_zero (entry_incr e)" using e u by (simp add: entry_is_zero_unat)
  show "unat (entry_zero_count (entry_incr e)) = unat (entry_zero_count e) + 1"
    unfolding unat_zero_count u using e c by (subst (1 2) le_mod_geq) auto
qed

lemma zero_entry_decr:
  assumes "entry_is_zero e" "0 < entry_zero_count e"
  shows "entry_is_zero (entry_decr e)" "unat (entry_zero_count (entry_decr e)) = unat (entry_zero_count e) - 1"
proof -
  have e: "unat e < 2 ^ 64" "2 ^ 63 \<le> unat e" using unsigned_less [where ?'a = nat, of e] assms(1)
    by (simp_all add: entry_is_zero_unat)
  then have m: "unat e mod 2 ^ 63 = unat e - 2 ^ 63" by (subst le_mod_geq) auto
  then have c: "2 ^ 63 < unat e" using assms(2) e unfolding word_less_unat unat_zero_count by simp
  then have u: "unat (entry_decr e) = unat e - 1"
    unfolding entry_decr_def by (subst unat_sub_le) (auto simp: word_le_unat)
  show "entry_is_zero (entry_decr e)" using c u by (simp add: entry_is_zero_unat)
  show "unat (entry_zero_count (entry_decr e)) = unat (entry_zero_count e) - 1"
    unfolding unat_zero_count u using e c by (subst (1 2) le_mod_geq) auto
qed

text \<open>What is pushed: a number, or zero for everything that is not positive.\<close>

definition strain_of :: "f64 \<Rightarrow> f64" where
  "strain_of v = (if 0 < to_bits v \<and> \<not> sgn_bit v then v else fzero False)"

lemma length_entry_values: "entry_is_zero e \<Longrightarrow> length (entry_values e) = unat (entry_zero_count e)"
  by (simp add: entry_values_def entry_is_value_def)

lemma sv_push_values:
  assumes "sv_ok sv" "sv_len sv + 1 < 2 ^ 63"
  shows "sv_ok (sv_push v sv)" "sv_values (sv_push v sv) = sv_values sv @ [strain_of v]"
proof -
  have "sv_ok (sv_push v sv) \<and> sv_values (sv_push v sv) = sv_values sv @ [strain_of v]"
  proof (cases "0 < to_bits v \<and> \<not> sgn_bit v")
    case True
    then have "entry_ok (to_bits v)" "entry_values (to_bits v) = [v]"
      by (auto simp: entry_ok_def entry_values_def entry_is_value_def entry_is_zero_def entry_value_def)
    then show ?thesis using assms(1) True
      by (simp add: sv_ok_def sv_push_def sv_values_def strain_of_def entry_new_value_def)
  next
    case False
    then have v: "strain_of v = fzero False" by (auto simp: strain_of_def)
    show ?thesis
    proof (cases "sv_inner sv \<noteq> [] \<and> entry_is_zero (last (sv_inner sv))")
      case True
      then obtain es e where es: "sv_inner sv = es @ [e]" "entry_is_zero e"
        by (cases "sv_inner sv" rule: rev_cases) auto
      have "length (entry_values e) \<le> sv_len sv" using assms(1) es by (simp add: sv_ok_def sv_values_def)
      then have c: "unat (entry_zero_count e) + 1 < 2 ^ 63" using assms(2) es(2) by (simp add: length_entry_values)
      note z = zero_entry [OF es(2) c]
      have "entry_values (entry_incr e) = entry_values e @ [fzero False]"
        using es(2) z by (simp add: entry_values_def entry_is_value_def replicate_append_same)
      moreover have "entry_ok (entry_incr e)"
        using z by (simp add: entry_ok_def word_less_unat entry_is_zero_unat)
      ultimately show ?thesis using assms(1) False es v
        by (auto simp: sv_ok_def sv_push_def sv_values_def)
    next
      case nz: False
      have "sv_push v sv = sv\<lparr>sv_inner := sv_inner sv @ [entry_new_zero], sv_len := sv_len sv + 1\<rparr>"
        using False nz unfolding sv_push_def by (simp only: if_False)
      then show ?thesis using assms(1) v by (simp add: sv_ok_def sv_values_def new_zero_ok)
    qed
  qed
  then show "sv_ok (sv_push v sv)" "sv_values (sv_push v sv) = sv_values sv @ [strain_of v]" by simp_all
qed

lemma sv_pushes:
  "length vs < 2 ^ 63 \<Longrightarrow> sv_ok (fold sv_push vs sv_new) \<and> sv_values (fold sv_push vs sv_new) = map strain_of vs"
proof (induction vs rule: rev_induct)
  case Nil
  show ?case by (simp add: sv_new_def sv_ok_def sv_values_def)
next
  case (snoc v vs)
  then have ih: "sv_ok (fold sv_push vs sv_new)" "sv_values (fold sv_push vs sv_new) = map strain_of vs" by auto
  then have "sv_len (fold sv_push vs sv_new) = length vs" by (simp add: sv_ok_def)
  then show ?case using sv_push_values [OF ih(1), of v] ih snoc.prems by simp
qed

section \<open>Reading\<close>

lemma into_vec_loop_values: "into_vec_loop es vec = vec @ concat (map entry_values es)"
proof (induction es vec rule: into_vec_loop.induct)
  case (1 es vec)
  have vals: "concat (map entry_values es)
    = map F64 (takeWhile entry_is_value es) @ concat (map entry_values (dropWhile entry_is_value es))"
  proof (induction es)
    case (Cons e es)
    then show ?case by (simp add: entry_values_def entry_value_def)
  qed simp
  show ?case
  proof (cases "dropWhile entry_is_value es")
    case Nil
    then have "copy_non_zero es = (map F64 (takeWhile entry_is_value es), None)"
      by (simp add: copy_non_zero_def del: dropWhile_eq_Nil_conv)
    then show ?thesis using Nil by (simp add: into_vec_loop.simps [of es vec] vals del: dropWhile_eq_Nil_conv)
  next
    case (Cons e rest)
    then have c: "copy_non_zero es = (map F64 (takeWhile entry_is_value es), Some (entry_zero_count e, rest))"
      by (simp add: copy_non_zero_def)
    have "\<not> entry_is_value e" using Cons by (metis dropWhile_eq_Cons_conv)
    then have "entry_values e = replicate (unat (entry_zero_count e)) (fzero False)" by (simp add: entry_values_def)
    then show ?thesis using Cons "1.IH" [OF c [symmetric] refl refl]
      by (simp add: into_vec_loop.simps [of es vec] vals c)
  qed
qed

definition si_values :: "strains_iter \<Rightarrow> f64 list" where
  "si_values it = concat (map entry_values (case si_curr it of None \<Rightarrow> [] | Some e \<Rightarrow> e # si_inner it))"

lemma si_loop_values:
  "case si_loop inner c len of
     None \<Rightarrow> concat (map entry_values (case c of None \<Rightarrow> [] | Some e \<Rightarrow> e # inner)) = []
   | Some (v, it) \<Rightarrow> concat (map entry_values (case c of None \<Rightarrow> [] | Some e \<Rightarrow> e # inner)) = v # si_values it
       \<and> si_len it = len - 1"
proof (induction inner c len rule: si_loop.induct)
  case (2 inner e len)
  have v: "entry_values e = [entry_value e]" if "entry_is_value e" using that by (simp add: entry_values_def)
  have z: "entry_values e = fzero False # entry_values (entry_decr e)"
    if nv: "\<not> entry_is_value e" and c: "0 < entry_zero_count e"
  proof -
    have ez: "entry_is_zero e" using nv by (simp add: entry_is_value_def)
    obtain n where "unat (entry_zero_count e) = Suc n" using c unfolding word_less_unat by (cases "unat (entry_zero_count e)") auto
    then show ?thesis using zero_entry_decr [OF ez c] nv by (simp add: entry_values_def entry_is_value_def)
  qed
  have n: "entry_values e = []" if "\<not> entry_is_value e" "\<not> 0 < entry_zero_count e"
    using that by (simp add: entry_values_def word_less_unat)
  show ?case
  proof (cases "entry_is_value e")
    case True
    then show ?thesis using v [OF True] by (cases inner) (simp_all add: si_values_def si_loop.simps(2))
  next
    case nv: False
    show ?thesis
    proof (cases "0 < entry_zero_count e")
      case True
      have "si_loop inner (Some e) len = Some (fzero False, \<lparr>si_inner = inner, si_curr = Some (entry_decr e), si_len = len - 1\<rparr>)"
        using nv True by (simp add: si_loop.simps(2))
      then show ?thesis using z [OF nv True] by (simp add: si_values_def)
    next
      case False
      then have "si_loop inner (Some e) len = (case inner of [] \<Rightarrow> None | d # ds \<Rightarrow> si_loop ds (Some d) len)"
        using nv by (subst si_loop.simps(2)) (simp only: if_False)
      moreover have "case si_loop ds (Some d) len of None \<Rightarrow> concat (map entry_values (d # ds)) = []
          | Some (v, it) \<Rightarrow> concat (map entry_values (d # ds)) = v # si_values it \<and> si_len it = len - 1"
        if "inner = d # ds" for d ds
        using "2.IH" [OF nv False that] by (simp only: option.case)
      ultimately show ?thesis using n [OF nv False] by (cases inner) (simp_all only: list.case option.case list.map concat.simps append_Nil)
    qed
  qed
qed simp

lemma si_take_values:
  "length (si_values it) < n \<Longrightarrow> fst (si_take n it) = si_values it"
proof (induction n arbitrary: it)
  case (Suc n)
  have l: "case si_next it of None \<Rightarrow> si_values it = [] | Some (v, it') \<Rightarrow> si_values it = v # si_values it'"
    using si_loop_values [of "si_inner it" "si_curr it" "si_len it"]
    by (auto simp: si_next_def si_values_def split: option.splits prod.splits)
  show ?case
  proof (cases "si_next it")
    case None
    then show ?thesis using l by simp
  next
    case (Some p)
    then obtain v it' where p: "si_next it = Some (v, it')" "si_values it = v # si_values it'"
      using l by (cases p) auto
    then show ?thesis using Suc.IH [of it'] Suc.prems by (cases "si_take n it'") simp
  qed
qed simp

section \<open>What is proved\<close>

definition positive_strain :: "f64 \<Rightarrow> bool" where
  "positive_strain v \<longleftrightarrow> \<not> is_nan v \<and> \<not> sgn_bit v"

lemma fzero_bits: "to_bits (fzero False) = 0"
  by (simp add: fzero_def mk_def)

lemma strain_of_positive: "positive_strain v \<Longrightarrow> strain_of v = v"
proof -
  assume v: "positive_strain v"
  have "v = fzero False" if "\<not> 0 < to_bits v"
    using that fzero_bits by (cases v) (metis f64.exhaust_sel word_gt_0)
  then show ?thesis using v by (auto simp: strain_of_def positive_strain_def)
qed

lemma filter_values:
  assumes "\<forall>e\<in>set es. entry_ok e" "\<forall>v\<in>set (concat (map entry_values es)). \<not> is_nan v"
  shows "map F64 (filter entry_is_value es) = raw_retain_non_zero (concat (map entry_values es))"
  using assms
proof (induction es)
  case (Cons e es)
  have "raw_retain_non_zero (entry_values e) = (if entry_is_value e then [F64 e] else [])"
  proof (cases "entry_is_value e")
    case True
    then have "\<not> sgn_bit (F64 e)" "0 < e" "\<not> is_nan (F64 e)"
      using Cons.prems by (auto simp: entry_is_value_def entry_is_zero_def entry_ok_def entry_values_def entry_value_def)
    moreover have "magn (F64 e) \<noteq> 0"
    proof
      assume "magn (F64 e) = 0"
      then have "F64 e = fzero False" using calculation by (intro f64_eqI) (simp_all add: fzero_def)
      then show False using fzero_bits calculation by (metis f64.sel less_irrefl)
    qed
    moreover have "key (lit 0 1) = 0" "\<not> is_nan (lit 0 1)" by (simp_all add: lit_def f64_eval)
    ultimately have "lit 0 1 < F64 e" unfolding less_f64_def key_def [of "F64 e"] by simp
    then show ?thesis using True by (simp add: raw_retain_non_zero_def entry_values_def entry_value_def)
  next
    case False
    have "\<not> lit 0 1 < fzero False" by (simp add: less_f64_def key_def lit_def f64_eval)
    then show ?thesis using False by (auto simp: raw_retain_non_zero_def entry_values_def)
  qed
  then show ?case using Cons by (simp add: raw_retain_non_zero_def)
qed (simp add: raw_retain_non_zero_def)

lemma map_sort_key: "map f (sort_key (\<lambda>x. g (f x)) xs) = sort_key g (map f xs)"
proof (induction xs)
  case (Cons x xs)
  have "map f (insort_key (\<lambda>x. g (f x)) x ys) = insort_key g (f x) (map f ys)" for ys
    by (induction ys) auto
  then show ?case using Cons by simp
qed simp

lemma sort_values: "sv_transmute (sv_sort_desc sv) = raw_sort_desc (sv_transmute sv)"
  using map_sort_key [of F64 "\<lambda>x. - tkey x"] by (simp add: sv_transmute_def sv_sort_desc_def raw_sort_desc_def entry_value_def)

text \<open>
  C18. The compact list is the plain one. After any number of non-negative strains below
  \<open>2 ^ 63\<close>: its length is that of the plain list; \<open>into_vec\<close> gives the plain list; the iterator
  yields the plain list in order, then ends, and promises that many elements; and the values
  that remain, sorted, once the zeros are removed are those of the plain list.
\<close>

theorem strains_vec_is_plain_list:
  assumes "length vs < 2 ^ 63" "\<forall>v\<in>set vs. positive_strain v"
  shows "fold raw_push vs [] = vs
    \<and> sv_len (fold sv_push vs sv_new) = length vs
    \<and> sv_into_vec (fold sv_push vs sv_new) = vs
    \<and> si_len (si_new (fold sv_push vs sv_new)) = length vs
    \<and> (\<forall>n > length vs. fst (si_take n (si_new (fold sv_push vs sv_new))) = vs)
    \<and> sv_transmute (sv_retain_non_zero_and_sort (fold sv_push vs sv_new)) = raw_retain_non_zero_and_sort vs"
proof -
  let ?sv = "fold sv_push vs sv_new"
  have ok: "sv_ok ?sv" and m: "sv_values ?sv = map strain_of vs" using sv_pushes [OF assms(1)] by auto
  have "map strain_of vs = vs" using assms(2) strain_of_positive by (intro map_idI) auto
  with m have vals: "sv_values ?sv = vs" by simp
  have raw: "fold raw_push vs xs = xs @ vs" for xs by (induction vs arbitrary: xs) (simp_all add: raw_push_def)
  have si: "si_values (si_new ?sv) = vs"
    using vals by (cases "sv_inner ?sv") (auto simp: si_values_def si_new_def sv_values_def)
  have "map F64 (filter entry_is_value (sv_inner ?sv)) = raw_retain_non_zero vs"
    using filter_values [of "sv_inner ?sv", folded sv_values_def, unfolded vals] ok assms(2)
    by (simp add: sv_ok_def positive_strain_def)
  then have "sv_transmute (sv_retain_non_zero_and_sort ?sv) = raw_retain_non_zero_and_sort vs"
    by (simp add: sv_retain_non_zero_and_sort_def sort_values raw_retain_non_zero_and_sort_def)
      (simp add: sv_transmute_def sv_retain_non_zero_def)
  then show ?thesis using ok vals si raw [of "[]"] si_take_values [of "si_new ?sv"]
    by (simp add: sv_ok_def sv_into_vec_def into_vec_loop_values sv_values_def) (simp add: si_new_def)
qed

theorem strains_vec_is_plain_list_witness:
  "sv_into_vec (fold sv_push [lit 1 1, lit 0 1, lit 0 1, lit 5 1] sv_new) = [lit 1 1, lit 0 1, lit 0 1, lit 5 1]"
proof -
  have "\<forall>v\<in>set [lit 1 1, lit 0 1, lit 0 1, lit 5 1]. positive_strain v"
    by (simp add: positive_strain_def lit_def f64_eval)
  then show ?thesis using strains_vec_is_plain_list [of "[lit 1 1, lit 0 1, lit 0 1, lit 5 1]"] by simp
qed

text \<open>
  The length is not kept by the removal of zeros: it still counts them, so that the iterator
  promises more elements than it yields.
\<close>

theorem retained_length_is_stale:
  "sv_len (sv_retain_non_zero sv) = sv_len sv
    \<and> si_len (si_new (sv_retain_non_zero (fold sv_push [lit 1 1, lit 0 1, lit 0 1] sv_new))) = 3
    \<and> fst (si_take 3 (si_new (sv_retain_non_zero (fold sv_push [lit 1 1, lit 0 1, lit 0 1] sv_new)))) = [lit 1 1]"
proof -
  have c: "lit 1 1 = F64 4607182418800017408" "lit 0 1 = F64 0" by (simp_all add: lit_def f64_eval)
  have "sv_retain_non_zero (fold sv_push [lit 1 1, lit 0 1, lit 0 1] sv_new) = \<lparr>sv_inner = [4607182418800017408], sv_len = 3\<rparr>"
    unfolding c
    by (simp add: sv_push_def sv_new_def sv_retain_non_zero_def entry_is_value_def entry_is_zero_unat sgn_bit_def
        entry_new_value_def entry_incr_def unat_new_zero word_less_unat unat_add_small)
  then show ?thesis unfolding c
    by (simp add: si_new_def sv_retain_non_zero_def si_next_def si_loop.simps(2) entry_is_value_def entry_is_zero_unat
        entry_value_def numeral_3_eq_3)
qed

end
