(* ===== verification/Sorting.thy ===== *)
theory Sorting
  imports F64 "HOL-Library.Monad_Syntax"
begin

text \<open>
  The sorting routines of the crate: the port of C#'s introspective sort with its insertion
  sort and heap sort (\<open>src/util/sort/csharp.rs\<close>, \<open>src/util/sort/mod.rs\<close>). They work in
  place on a slice; an access outside of it panics. Here the slice is a list, and \<open>None\<close> is a
  panic or a loop that never ends; indices are natural numbers.
\<close>

datatype ordering = Less | Equal | Greater

text \<open>Reading and swapping elements of a slice.\<close>

definition slot :: "'a list \<Rightarrow> nat \<Rightarrow> 'a option" where
  "slot xs i = (if i < length xs then Some (xs ! i) else None)"

definition slice_swap :: "'a list \<Rightarrow> nat \<Rightarrow> nat \<Rightarrow> 'a list option" where
  "slice_swap xs i j = (if i < length xs \<and> j < length xs then Some (xs[i := xs ! j, j := xs ! i]) else None)"

text \<open>A loop over a list of indices.\<close>

fun for_each :: "nat list \<Rightarrow> (nat \<Rightarrow> 's \<Rightarrow> 's option) \<Rightarrow> 's \<Rightarrow> 's option" where
  "for_each [] f s = Some s"
| "for_each (i # is) f s = do { s' \<leftarrow> f i s; for_each is f s' }"

section \<open>Heap sort\<close>

definition swap_keys :: "'a list \<Rightarrow> nat \<Rightarrow> nat \<Rightarrow> 'a list option" where
  "swap_keys keys i j = (if i \<noteq> j then slice_swap keys i j else Some keys)"

definition swap_if_greater :: "('a \<Rightarrow> 'a \<Rightarrow> ordering) \<Rightarrow> 'a list \<Rightarrow> nat \<Rightarrow> nat \<Rightarrow> 'a list option" where
  "swap_if_greater cmp keys a b =
    (if a \<noteq> b then do {
       x \<leftarrow> slot keys a; y \<leftarrow> slot keys b;
       if cmp x y = Greater then slice_swap keys a b else Some keys
     } else Some keys)"

partial_function (option) down_heap ::
  "('a \<Rightarrow> 'a \<Rightarrow> ordering) \<Rightarrow> 'a list \<Rightarrow> nat \<Rightarrow> nat \<Rightarrow> nat \<Rightarrow> 'a list option" where
  "down_heap cmp keys i n lo =
    (if i \<le> n div 2 then do {
       left \<leftarrow> (if lo + 2 * i = 0 then None else slot keys (lo + 2 * i - 1));
       right \<leftarrow> (if 2 * i < n then slot keys (lo + 2 * i) else Some left);
       let child = (if 2 * i < n \<and> cmp left right = Less then 2 * i + 1 else 2 * i);
       x \<leftarrow> (if lo + i = 0 then None else slot keys (lo + i - 1));
       y \<leftarrow> slot keys (lo + child - 1);
       (if cmp x y \<noteq> Less then Some keys
        else do { keys' \<leftarrow> slice_swap keys (lo + i - 1) (lo + child - 1); down_heap cmp keys' child n lo })
     } else Some keys)"

definition heap_sort :: "('a \<Rightarrow> 'a \<Rightarrow> ordering) \<Rightarrow> 'a list \<Rightarrow> nat \<Rightarrow> nat \<Rightarrow> 'a list option" where
  "heap_sort cmp keys lo hi =
    (let n = hi - lo + 1 in do {
       keys \<leftarrow> for_each (rev [1..<n div 2 + 1]) (\<lambda>i keys. down_heap cmp keys i n lo) keys;
       for_each (rev [2..<n + 1]) (\<lambda>i keys. do {
         keys \<leftarrow> swap_keys keys lo (lo + i - 1);
         down_heap cmp keys 1 (i - 1) lo }) keys
     })"

section \<open>Introspective sort\<close>

text \<open>
  \<open>insertion_sort\<close>: the slice from the place of insertion up to the element is rotated to the
  right by one.
\<close>

definition rotate_right_one :: "'a list \<Rightarrow> nat \<Rightarrow> nat \<Rightarrow> 'a list" where
  "rotate_right_one keys a b = take a keys @ [keys ! b] @ drop a (take b keys) @ drop (b + 1) keys"

definition insertion_step :: "('a \<Rightarrow> 'a \<Rightarrow> ordering) \<Rightarrow> nat \<Rightarrow> nat \<Rightarrow> 'a list \<Rightarrow> 'a list option" where
  "insertion_step cmp lo i keys = do {
     t \<leftarrow> slot keys (i + 1);
     let shift = length (takeWhile (\<lambda>c. cmp t c = Less) (rev (drop lo (take (i + 1) keys))));
     Some (rotate_right_one keys (i + 1 - shift) (i + 1))
   }"

definition insertion_sort :: "('a \<Rightarrow> 'a \<Rightarrow> ordering) \<Rightarrow> 'a list \<Rightarrow> nat \<Rightarrow> nat \<Rightarrow> 'a list option" where
  "insertion_sort cmp keys lo hi = for_each [lo..<hi] (insertion_step cmp lo) keys"

partial_function (option) scan_up :: "('a \<Rightarrow> 'a \<Rightarrow> ordering) \<Rightarrow> 'a list \<Rightarrow> nat \<Rightarrow> nat \<Rightarrow> nat option" where
  "scan_up cmp keys pivot_idx left = do {
     x \<leftarrow> slot keys (left + 1); p \<leftarrow> slot keys pivot_idx;
     if cmp x p = Less then scan_up cmp keys pivot_idx (left + 1) else Some (left + 1)
   }"

partial_function (option) scan_down :: "('a \<Rightarrow> 'a \<Rightarrow> ordering) \<Rightarrow> 'a list \<Rightarrow> nat \<Rightarrow> nat \<Rightarrow> nat option" where
  "scan_down cmp keys pivot_idx right =
    (if right = 0 then None else do {
       p \<leftarrow> slot keys pivot_idx; x \<leftarrow> slot keys (right - 1);
       if cmp p x = Less then scan_down cmp keys pivot_idx (right - 1) else Some (right - 1)
     })"

partial_function (option) partition_loop ::
  "('a \<Rightarrow> 'a \<Rightarrow> ordering) \<Rightarrow> 'a list \<Rightarrow> nat \<Rightarrow> nat \<Rightarrow> nat \<Rightarrow> ('a list \<times> nat) option" where
  "partition_loop cmp keys pivot_idx left right =
    (if left < right then do {
       left' \<leftarrow> scan_up cmp keys pivot_idx left;
       right' \<leftarrow> scan_down cmp keys pivot_idx right;
       (if right' \<le> left' then Some (keys, left')
        else do { keys' \<leftarrow> swap_keys keys left' right'; partition_loop cmp keys' pivot_idx left' right' })
     } else Some (keys, left))"

definition pick_pivot_and_partition ::
  "('a \<Rightarrow> 'a \<Rightarrow> ordering) \<Rightarrow> 'a list \<Rightarrow> nat \<Rightarrow> nat \<Rightarrow> ('a list \<times> nat) option" where
  "pick_pivot_and_partition cmp keys lo hi = do {
     let mid = lo + (hi - lo) div 2;
     keys \<leftarrow> swap_if_greater cmp keys lo mid;
     keys \<leftarrow> swap_if_greater cmp keys lo hi;
     keys \<leftarrow> swap_if_greater cmp keys mid hi;
     keys \<leftarrow> swap_keys keys mid (hi - 1);
     (keys, left) \<leftarrow> partition_loop cmp keys (hi - 1) lo (hi - 1);
     keys \<leftarrow> swap_keys keys left (hi - 1);
     Some (keys, left)
   }"

text \<open>
  \<open>intro_sort\<close>: the loop sorts the upper part by recursion and goes on with the lower part. The
  depth limit decreases on both ways.
\<close>

function intro_sort ::
  "('a \<Rightarrow> 'a \<Rightarrow> ordering) \<Rightarrow> 'a list \<Rightarrow> nat \<Rightarrow> nat \<Rightarrow> nat \<Rightarrow> 'a list option" where
  "intro_sort cmp keys lo hi depth_limit =
    (if hi \<le> lo then Some keys
     else if hi - lo + 1 \<le> 16 then
       (if hi - lo + 1 = 2 then swap_if_greater cmp keys lo hi
        else if hi - lo + 1 = 3 then do {
          keys \<leftarrow> swap_if_greater cmp keys lo (hi - 1);
          keys \<leftarrow> swap_if_greater cmp keys lo hi;
          swap_if_greater cmp keys (hi - 1) hi }
        else insertion_sort cmp keys lo hi)
     else if depth_limit = 0 then heap_sort cmp keys lo hi
     else do {
       (keys, p) \<leftarrow> pick_pivot_and_partition cmp keys lo hi;
       keys \<leftarrow> intro_sort cmp keys (p + 1) hi (depth_limit - 1);
       if p = 0 then None else intro_sort cmp keys lo (p - 1) (depth_limit - 1)
     })"
  by pat_completeness auto
termination by (relation "measure (\<lambda>(cmp, keys, lo, hi, depth_limit). depth_limit)") auto

declare intro_sort.simps [simp del]

text \<open>The depth limit is twice the binary logarithm of the length.\<close>

definition ilog2 :: "nat \<Rightarrow> nat" where
  "ilog2 n = floorlog 2 n - 1"

definition introspective_sort ::
  "('a \<Rightarrow> 'a \<Rightarrow> ordering) \<Rightarrow> 'a list \<Rightarrow> nat \<Rightarrow> nat \<Rightarrow> 'a list option" where
  "introspective_sort cmp keys left len =
    (if 2 \<le> len then intro_sort cmp keys left (len + left - 1) (2 * ilog2 (length keys)) else Some keys)"

definition csharp_sort :: "('a \<Rightarrow> 'a \<Rightarrow> ordering) \<Rightarrow> 'a list \<Rightarrow> 'a list option" where
  "csharp_sort cmp keys = introspective_sort cmp keys 0 (length keys)"

section \<open>Slices that are permuted\<close>

text \<open>The second list is the first one with the elements from \<open>lo\<close> to \<open>hi\<close> permuted.\<close>

definition permutes_range :: "nat \<Rightarrow> nat \<Rightarrow> 'a list \<Rightarrow> 'a list \<Rightarrow> bool" where
  "permutes_range lo hi xs ys \<longleftrightarrow> length ys = length xs \<and> mset ys = mset xs
    \<and> (\<forall>i < length xs. i < lo \<or> hi < i \<longrightarrow> ys ! i = xs ! i)"

lemma permutes_range_refl [simp]: "permutes_range lo hi xs xs"
  by (simp add: permutes_range_def)

lemma permutes_range_trans [trans]:
  "permutes_range lo hi xs ys \<Longrightarrow> permutes_range lo hi ys zs \<Longrightarrow> permutes_range lo hi xs zs"
  by (simp add: permutes_range_def)

lemma permutes_range_mono:
  "permutes_range lo hi xs ys \<Longrightarrow> lo' \<le> lo \<Longrightarrow> hi \<le> hi' \<Longrightarrow> permutes_range lo' hi' xs ys"
  by (auto simp: permutes_range_def)

lemma permutes_range_length: "permutes_range lo hi xs ys \<Longrightarrow> length ys = length xs"
  by (simp add: permutes_range_def)

lemma slice_swap_permutes:
  assumes "i < length xs" "j < length xs" "lo \<le> i" "i \<le> hi" "lo \<le> j" "j \<le> hi"
  shows "permutes_range lo hi xs (xs[i := xs ! j, j := xs ! i])"
  using assms by (auto simp: permutes_range_def mset_swap_idx nth_list_update)

text \<open>The elements of the slice stay the same set.\<close>

lemma permutes_range_slice:
  assumes "permutes_range lo hi xs ys" "hi < length xs" "lo \<le> hi"
  shows "mset (drop lo (take (hi + 1) ys)) = mset (drop lo (take (hi + 1) xs))"
proof -
  have len: "length ys = length xs" and m: "mset ys = mset xs" using assms(1) by (simp_all add: permutes_range_def)
  have t: "take lo ys = take lo xs" "drop (hi + 1) ys = drop (hi + 1) xs"
    using assms(1) len by (auto simp: permutes_range_def intro!: nth_equalityI)
  have split: "mset zs = mset (take lo zs) + mset (drop lo (take (hi + 1) zs)) + mset (drop (hi + 1) zs)" for zs :: "'a list"
  proof -
    have "zs = take lo (take (hi + 1) zs) @ drop lo (take (hi + 1) zs) @ drop (hi + 1) zs"
      by (metis append_take_drop_id append_assoc)
    also have "take lo (take (hi + 1) zs) = take lo zs" using assms(3) by (simp add: min_def)
    finally show ?thesis by (metis mset_append append_assoc)
  qed
  show ?thesis using split [of xs] split [of ys] m unfolding t by simp
qed

lemma permutes_range_nth:
  assumes "permutes_range lo hi xs ys" "hi < length xs" "lo \<le> i" "i \<le> hi"
  obtains j where "lo \<le> j" "j \<le> hi" "ys ! i = xs ! j"
proof -
  have len: "length ys = length xs" using assms(1) by (rule permutes_range_length)
  have "ys ! i = drop lo (take (hi + 1) ys) ! (i - lo)" "i - lo < length (drop lo (take (hi + 1) ys))"
    using assms len by (simp_all add: nth_drop)
  then have "ys ! i \<in> set (drop lo (take (hi + 1) ys))" by (metis nth_mem)
  then have "ys ! i \<in> set (drop lo (take (hi + 1) xs))"
    using permutes_range_slice [OF assms(1,2)] assms(3,4) by (metis mset_eq_setD order_trans)
  then obtain k where "k < hi + 1 - lo" "ys ! i = xs ! (lo + k)"
    using assms(2) by (auto simp: in_set_conv_nth nth_drop)
  then show thesis using that [of "lo + k"] by simp
qed

section \<open>The contract of a comparison\<close>

text \<open>
  What the sorts rely on: the comparison is antisymmetric and its order transitive. Equal
  elements need not be identical.
\<close>

locale comparison =
  fixes cmp :: "'a \<Rightarrow> 'a \<Rightarrow> ordering"
  assumes cmp_flip: "cmp a b = Less \<longleftrightarrow> cmp b a = Greater"
    and cmp_trans: "cmp a b \<noteq> Greater \<Longrightarrow> cmp b c \<noteq> Greater \<Longrightarrow> cmp a c \<noteq> Greater"
begin

definition le :: "'a \<Rightarrow> 'a \<Rightarrow> bool" where
  "le a b \<longleftrightarrow> cmp a b \<noteq> Greater"

lemma le_total: "le a b \<or> le b a"
  using cmp_flip [of a b] by (cases "cmp a b") (auto simp: le_def)

lemma le_refl [simp]: "le a a"
  using le_total by blast

lemma le_trans [trans]: "le a b \<Longrightarrow> le b c \<Longrightarrow> le a c"
  unfolding le_def by (rule cmp_trans)

lemma cmp_less: "cmp a b = Less \<longleftrightarrow> \<not> le b a"
  using cmp_flip by (simp add: le_def)

lemma cmp_greater: "cmp a b = Greater \<longleftrightarrow> \<not> le a b"
  by (simp add: le_def)

lemma cmp_ge: "cmp a b \<noteq> Less \<longleftrightarrow> le b a"
  by (simp add: cmp_less)

definition range_sorted :: "nat \<Rightarrow> nat \<Rightarrow> 'a list \<Rightarrow> bool" where
  "range_sorted lo hi xs \<longleftrightarrow> (\<forall>i j. lo \<le> i \<longrightarrow> i \<le> j \<longrightarrow> j \<le> hi \<longrightarrow> le (xs ! i) (xs ! j))"

lemma range_sorted_trivial: "hi \<le> lo \<Longrightarrow> range_sorted lo hi xs"
  by (auto simp: range_sorted_def) (metis le_refl le_antisym order_trans)

lemma range_sorted_eq:
  "range_sorted lo hi xs \<Longrightarrow> (\<And>i. lo \<le> i \<Longrightarrow> i \<le> hi \<Longrightarrow> ys ! i = xs ! i) \<Longrightarrow> range_sorted lo hi ys"
  by (simp add: range_sorted_def)

lemma sorted_wrt_range: "sorted_wrt le xs \<longleftrightarrow> range_sorted 0 (length xs - 1) xs"
  unfolding range_sorted_def sorted_wrt_iff_nth_less
proof (intro iffI allI impI)
  fix i j assume "\<forall>i j. i < j \<longrightarrow> j < length xs \<longrightarrow> le (xs ! i) (xs ! j)" "0 \<le> i" "i \<le> j" "j \<le> length xs - 1"
  then show "le (xs ! i) (xs ! j)" by (cases "i = j") auto
qed auto

text \<open>A sort of a slice, as what it promises.\<close>

definition sorts :: "nat \<Rightarrow> nat \<Rightarrow> 'a list \<Rightarrow> 'a list option \<Rightarrow> bool" where
  "sorts lo hi xs r \<longleftrightarrow> (\<exists>ys. r = Some ys \<and> permutes_range lo hi xs ys \<and> range_sorted lo hi ys)"

lemma swap_if_greater_sorts:
  assumes "a < length xs" "b < length xs" "lo \<le> a" "a \<le> hi" "lo \<le> b" "b \<le> hi"
  obtains ys where "swap_if_greater cmp xs a b = Some ys" "permutes_range lo hi xs ys" "le (ys ! a) (ys ! b)"
    "(ys ! a, ys ! b) \<in> {(xs ! a, xs ! b), (xs ! b, xs ! a)}" "\<And>k. k \<noteq> a \<Longrightarrow> k \<noteq> b \<Longrightarrow> ys ! k = xs ! k"
    "le (ys ! a) (xs ! a)" "le (ys ! a) (xs ! b)" "le (xs ! a) (ys ! b)" "le (xs ! b) (ys ! b)"
proof (cases "a \<noteq> b \<and> cmp (xs ! a) (xs ! b) = Greater")
  case True
  let ?ys = "xs[a := xs ! b, b := xs ! a]"
  have "\<not> le (xs ! a) (xs ! b)" using True by (simp add: cmp_greater)
  then have "le (xs ! b) (xs ! a)" using le_total by blast
  moreover have "?ys ! a = xs ! b" "?ys ! b = xs ! a" using assms True by (simp_all add: nth_list_update)
  moreover have "swap_if_greater cmp xs a b = Some ?ys"
    using True assms by (simp add: swap_if_greater_def slot_def slice_swap_def)
  moreover have "permutes_range lo hi xs ?ys" using assms by (intro slice_swap_permutes)
  ultimately show thesis using that [of ?ys] by simp
next
  case False
  then have "swap_if_greater cmp xs a b = Some xs" "le (xs ! a) (xs ! b)"
    using assms by (auto simp: swap_if_greater_def slot_def cmp_greater)
  then show thesis using that [of xs] by simp
qed

lemma swap_keys_permutes:
  assumes "a < length xs" "b < length xs" "lo \<le> a" "a \<le> hi" "lo \<le> b" "b \<le> hi"
  obtains ys where "swap_keys xs a b = Some ys" "permutes_range lo hi xs ys"
    "ys ! a = xs ! b" "ys ! b = xs ! a" "\<And>k. k \<noteq> a \<Longrightarrow> k \<noteq> b \<Longrightarrow> ys ! k = xs ! k"
proof (cases "a = b")
  case True
  show thesis by (rule that [of xs]) (simp_all add: swap_keys_def True)
next
  case False
  let ?ys = "xs[a := xs ! b, b := xs ! a]"
  show thesis
    by (rule that [of ?ys]) (use assms False in \<open>simp_all add: swap_keys_def slice_swap_def slice_swap_permutes nth_list_update\<close>)
qed

subsection \<open>Insertion sort\<close>

lemma rotate_right_one_nth:
  assumes "a \<le> b" "b < length xs"
  shows "length (rotate_right_one xs a b) = length xs"
    and "k < length xs \<Longrightarrow> rotate_right_one xs a b ! k
      = (if k = a then xs ! b else if a < k \<and> k \<le> b then xs ! (k - 1) else xs ! k)"
  using assms by (auto simp: rotate_right_one_def nth_append nth_Cons' min_def)

lemma rotate_right_one_mset:
  assumes "a \<le> b" "b < length xs"
  shows "mset (rotate_right_one xs a b) = mset xs"
proof -
  have "xs = take a xs @ drop a (take b xs) @ xs ! b # drop (b + 1) xs"
    using assms by (metis Suc_eq_plus1 append_assoc append_take_drop_id id_take_nth_drop min.absorb1 take_take)
  then have "mset xs = mset (take a xs @ drop a (take b xs) @ xs ! b # drop (b + 1) xs)" by (rule arg_cong)
  then show ?thesis by (simp add: rotate_right_one_def)
qed

lemma insertion_step_sorts:
  assumes "range_sorted lo i xs" "lo \<le> i" "i + 1 \<le> hi" "hi < length xs"
  shows "\<exists>ys. insertion_step cmp lo i xs = Some ys \<and> permutes_range lo hi xs ys \<and> range_sorted lo (i + 1) ys"
proof -
  let ?t = "xs ! (i + 1)" and ?r = "rev (drop lo (take (i + 1) xs))"
  define s where "s = length (takeWhile (\<lambda>c. cmp ?t c = Less) ?r)"
  have lr: "length ?r = i + 1 - lo" using assms by simp
  have r: "?r ! k = xs ! (i - k)" if "k < i + 1 - lo" for k
    using that assms by (simp add: rev_nth nth_drop)
  have s: "s \<le> i + 1 - lo" unfolding s_def using length_takeWhile_le [of _ ?r] lr by metis
  have less: "\<not> le (xs ! k) ?t" if k: "i + 1 - s \<le> k" "k \<le> i" for k
  proof -
    have "i - k < s" using k s assms by linarith
    then have n: "i - k < length (takeWhile (\<lambda>c. cmp ?t c = Less) ?r)" by (simp add: s_def)
    have "cmp ?t (takeWhile (\<lambda>c. cmp ?t c = Less) ?r ! (i - k)) = Less"
      using set_takeWhileD [OF nth_mem [OF n]] by simp
    then have "cmp ?t (?r ! (i - k)) = Less" unfolding takeWhile_nth [OF n] .
    moreover have "?r ! (i - k) = xs ! k" using r [of "i - k"] k s by simp
    ultimately show ?thesis by (simp add: cmp_less)
  qed
  have ge: "le (xs ! k) ?t" if k: "lo \<le> k" "k < i + 1 - s" for k
  proof -
    have sl: "s < length ?r" using k s lr by linarith
    then have "\<not> cmp ?t (?r ! s) = Less" unfolding s_def by (rule nth_length_takeWhile)
    moreover have "?r ! s = xs ! (i - s)" using r sl lr by simp
    ultimately have "le (xs ! (i - s)) ?t" by (simp add: cmp_less)
    moreover have "le (xs ! k) (xs ! (i - s))" using assms(1) k by (simp add: range_sorted_def)
    ultimately show ?thesis by (rule le_trans [rotated])
  qed
  define a where "a = i + 1 - s"
  have a: "lo \<le> a" "a \<le> i + 1" using s assms by (auto simp: a_def)
  let ?ys = "rotate_right_one xs a (i + 1)"
  have b: "i + 1 < length xs" using assms by simp
  note nth = rotate_right_one_nth [OF a(2) b]
  have "insertion_step cmp lo i xs = Some ?ys"
    using b by (simp add: insertion_step_def slot_def Let_def s_def a_def)
  moreover have "permutes_range lo hi xs ?ys"
  proof -
    have "?ys ! k = xs ! k" if "k < length xs" "k < lo \<or> hi < k" for k
      unfolding nth(2) [OF that(1)] using that(2) a assms(3) by auto
    then show ?thesis using rotate_right_one_mset [OF a(2) b] nth(1) by (auto simp: permutes_range_def)
  qed
  moreover have "range_sorted lo (i + 1) ?ys"
    unfolding range_sorted_def
  proof (intro allI impI)
    fix j k assume jk: "lo \<le> j" "j \<le> k" "k \<le> i + 1"
    let ?v = "\<lambda>k. if k = a then ?t else if a < k then xs ! (k - 1) else xs ! k"
    have "j < length xs" "k < length xs" using jk b by auto
    then have v: "?ys ! j = ?v j" "?ys ! k = ?v k" using jk by (simp_all only: nth(2)) auto
    have sorted: "le (xs ! p) (xs ! q)" if "lo \<le> p" "p \<le> q" "q \<le> i" for p q
      using assms(1) that by (simp add: range_sorted_def)
    have gt: "le ?t (xs ! p)" if "a \<le> p" "p \<le> i" for p
      using less [of p] that le_total by (auto simp: a_def)
    have low: "le (xs ! p) ?t" if "lo \<le> p" "p < a" for p using ge that by (simp add: a_def)
    consider "k < a" | "j < a" "k = a" | "j < a" "a < k" | "j = a" "k = a" | "j = a" "a < k" | "a < j"
      using jk by linarith
    then show "le (?ys ! j) (?ys ! k)"
    proof cases
      case 1 then show ?thesis unfolding v using jk a sorted by auto
    next
      case 2 then show ?thesis unfolding v using jk low by auto
    next
      case 3 then show ?thesis unfolding v using jk sorted [of j "k - 1"] by auto
    next
      case 4 then show ?thesis by simp
    next
      case 5 then show ?thesis unfolding v using jk gt [of "k - 1"] by auto
    next
      case 6 then show ?thesis unfolding v using jk a sorted [of "j - 1" "k - 1"] by auto
    qed
  qed
  ultimately show ?thesis by blast
qed

lemma insertion_sort_sorts:
  assumes "lo \<le> hi" "hi < length xs"
  shows "sorts lo hi xs (insertion_sort cmp xs lo hi)"
proof -
  have "\<exists>ys. for_each [i..<hi] (insertion_step cmp lo) xs = Some ys \<and> permutes_range lo hi xs ys \<and> range_sorted lo hi ys"
    if "i \<le> hi" "lo \<le> i" "hi < length xs" "range_sorted lo i xs" for i xs
    using that
  proof (induction "hi - i" arbitrary: i xs)
    case 0
    then show ?case by simp
  next
    case (Suc n)
    then have i: "[i..<hi] = i # [i + 1..<hi]" "i + 1 \<le> hi" by (simp_all add: upt_conv_Cons)
    obtain ys where ys: "insertion_step cmp lo i xs = Some ys" "permutes_range lo hi xs ys" "range_sorted lo (i + 1) ys"
      using insertion_step_sorts [OF Suc.prems(4,2) i(2) Suc.prems(3)] by blast
    obtain zs where "for_each [i + 1..<hi] (insertion_step cmp lo) ys = Some zs" "permutes_range lo hi ys zs" "range_sorted lo hi zs"
      using Suc.hyps(1) [of "i + 1" ys] Suc.hyps(2) Suc.prems ys permutes_range_length [OF ys(2)] i(2) by fastforce
    then show ?case using ys permutes_range_trans by (auto simp: i)
  qed
  from this [of lo xs] assms show ?thesis
    by (simp add: sorts_def insertion_sort_def range_sorted_trivial)
qed

subsection \<open>Heap sort\<close>

text \<open>
  Node \<open>i\<close> of the heap, from 1 to \<open>n\<close>, lies at \<open>lo + i - 1\<close>. The heap is in order from
  node \<open>a\<close> on, but for the children of node \<open>e\<close>; these are in order with the parent of \<open>e\<close>.
\<close>

definition node :: "nat \<Rightarrow> 'a list \<Rightarrow> nat \<Rightarrow> 'a" where
  "node lo xs i = xs ! (lo + i - 1)"

definition child_of :: "nat \<Rightarrow> nat \<Rightarrow> nat \<Rightarrow> bool" where
  "child_of n c i \<longleftrightarrow> (c = 2 * i \<or> c = 2 * i + 1) \<and> c \<le> n"

definition heap_from :: "nat \<Rightarrow> nat \<Rightarrow> nat \<Rightarrow> 'a list \<Rightarrow> bool" where
  "heap_from a n lo xs \<longleftrightarrow> (\<forall>i c. a \<le> i \<longrightarrow> child_of n c i \<longrightarrow> le (node lo xs c) (node lo xs i))"

definition heap_except :: "nat \<Rightarrow> nat \<Rightarrow> nat \<Rightarrow> nat \<Rightarrow> 'a list \<Rightarrow> bool" where
  "heap_except e a n lo xs \<longleftrightarrow>
    (\<forall>i c. a \<le> i \<longrightarrow> i \<noteq> e \<longrightarrow> child_of n c i \<longrightarrow> le (node lo xs c) (node lo xs i))
    \<and> (\<forall>c p. child_of n c e \<longrightarrow> child_of n e p \<longrightarrow> a \<le> p \<longrightarrow> le (node lo xs c) (node lo xs p))"

lemma down_heap_heap:
  assumes "heap_except i a n lo xs" "1 \<le> a" "a \<le> i" "lo + n \<le> length xs"
  shows "\<exists>ys. down_heap cmp xs i n lo = Some ys \<and> permutes_range lo (lo + n - 1) xs ys \<and> heap_from a n lo ys"
  using assms
proof (induction "n + 1 - i" arbitrary: i xs rule: less_induct)
  case less
  show ?case
  proof (cases "i \<le> n div 2")
    case False
    then have "\<not> child_of n c i" for c by (auto simp: child_of_def)
    then have "heap_from a n lo xs" using less.prems(1) by (auto simp: heap_except_def heap_from_def)
    then show ?thesis using False by (simp add: down_heap.simps [of cmp xs i])
  next
    case True
    have i: "1 \<le> i" "2 * i \<le> n" using True less.prems by auto
    let ?N = "node lo xs"
    define child where "child = (if 2 * i < n \<and> cmp (?N (2 * i)) (?N (2 * i + 1)) = Less then 2 * i + 1 else 2 * i)"
    have c: "child_of n child i" "i < child" "child \<le> n" using i by (auto simp: child_def child_of_def)
    have top: "le (?N d) (?N child)" if "child_of n d i" for d
      using that le_total by (auto simp: child_def child_of_def cmp_less)
    have idx: "lo + i - 1 < length xs" "lo + child - 1 < length xs" "lo + 2 * i - 1 < length xs"
      "2 * i < n \<Longrightarrow> lo + 2 * i < length xs"
      using i c less.prems by auto
    define right where "right = (if 2 * i < n then ?N (2 * i + 1) else ?N (2 * i))"
    have step: "down_heap cmp xs i n lo = (if cmp (?N i) (?N child) \<noteq> Less then Some xs
        else do { keys' \<leftarrow> slice_swap xs (lo + i - 1) (lo + child - 1); down_heap cmp keys' child n lo })"
    proof -
      have "child = (if 2 * i < n \<and> cmp (?N (2 * i)) right = Less then 2 * i + 1 else 2 * i)"
        by (simp add: child_def right_def)
      then show ?thesis
        using i True idx by (subst down_heap.simps) (auto simp: slot_def node_def right_def Let_def)
    qed
    show ?thesis
    proof (cases "cmp (?N i) (?N child) = Less")
      case False
      then have "le (?N child) (?N i)" by (simp add: cmp_less)
      then have "le (?N d) (?N i)" if "child_of n d i" for d using top [OF that] le_trans by blast
      then have "heap_from a n lo xs" using less.prems(1) by (auto simp: heap_except_def heap_from_def)
      then show ?thesis using False by (simp add: step)
    next
      case lt: True
      let ?ys = "xs[lo + i - 1 := xs ! (lo + child - 1), lo + child - 1 := xs ! (lo + i - 1)]"
      let ?M = "node lo ?ys"
      have ne: "lo + i - 1 \<noteq> lo + child - 1" using c i by auto
      have M: "?M k = (if k = i then ?N child else if k = child then ?N i else ?N k)" if "1 \<le> k" for k
        using that idx ne i c by (auto simp: node_def nth_list_update)
      have lt': "le (?N i) (?N child)" using lt le_total by (auto simp: cmp_less)
      have "heap_except child a n lo ?ys"
        unfolding heap_except_def
      proof (intro conjI allI impI)
        fix j d assume j: "a \<le> j" "j \<noteq> child" "child_of n d j"
        have jd: "1 \<le> j" "1 \<le> d" "d \<noteq> j" using j less.prems(2) by (auto simp: child_of_def)
        show "le (?M d) (?M j)"
        proof (cases "j = i")
          case True
          then show ?thesis using M jd j top lt' by auto
        next
          case False
          then have h: "le (?N d) (?N j)" using less.prems(1) j by (auto simp: heap_except_def)
          have "d \<noteq> child" using False j c by (auto simp: child_of_def)
          moreover have "le (?N child) (?N j)" if "d = i"
            using less.prems(1) c(1) j that unfolding heap_except_def by blast
          ultimately show ?thesis using M jd False j h by auto
        qed
      next
        fix d p assume p: "child_of n d child" "child_of n child p" "a \<le> p"
        then have "p = i" using c by (auto simp: child_of_def)
        moreover have "le (?N d) (?N child)" using less.prems p c by (auto simp: heap_except_def)
        moreover have "d \<noteq> i" "d \<noteq> child" "1 \<le> d" using p c by (auto simp: child_of_def)
        ultimately show "le (?M d) (?M p)" using M i by auto
      qed
      moreover have "n + 1 - child < n + 1 - i" using c by auto
      moreover have "permutes_range lo (lo + n - 1) xs ?ys"
        using i c idx by (intro slice_swap_permutes) auto
      moreover have "slice_swap xs (lo + i - 1) (lo + child - 1) = Some ?ys" using idx by (simp add: slice_swap_def)
      ultimately show ?thesis
        using less.hyps [of child ?ys] less.prems c lt permutes_range_trans by (fastforce simp: step)
    qed
  qed
qed

lemma heap_root:
  assumes "heap_from 1 n lo xs" "1 \<le> i" "i \<le> n"
  shows "le (node lo xs i) (node lo xs 1)"
  using assms(2,3)
proof (induction i rule: less_induct)
  case (less i)
  show ?case
  proof (cases "i = 1")
    case False
    then have "1 \<le> i div 2" "i div 2 < i" "child_of n i (i div 2)" using less.prems by (auto simp: child_of_def)
    then show ?thesis using less assms(1) le_trans unfolding heap_from_def by (metis less_imp_le order_trans)
  qed simp
qed

lemma build_heap:
  assumes "lo + n \<le> length xs" "m \<le> n div 2" "heap_from (m + 1) n lo xs"
  shows "\<exists>ys. for_each (rev [1..<m + 1]) (\<lambda>i keys. down_heap cmp keys i n lo) xs = Some ys
    \<and> permutes_range lo (lo + n - 1) xs ys \<and> heap_from 1 n lo ys"
  using assms
proof (induction m arbitrary: xs)
  case (Suc m)
  have e: "heap_except (Suc m) (Suc m) n lo xs"
    using Suc.prems(3) by (auto simp: heap_except_def heap_from_def child_of_def)
  obtain ys where ys: "down_heap cmp xs (Suc m) n lo = Some ys" "permutes_range lo (lo + n - 1) xs ys" "heap_from (m + 1) n lo ys"
    using down_heap_heap [OF e _ _ Suc.prems(1)] by auto
  obtain zs where "for_each (rev [1..<m + 1]) (\<lambda>i keys. down_heap cmp keys i n lo) ys = Some zs"
    "permutes_range lo (lo + n - 1) ys zs" "heap_from 1 n lo zs"
    using Suc.IH [of ys] Suc.prems ys permutes_range_length [OF ys(2)] by auto
  moreover have "rev [1..<Suc m + 1] = Suc m # rev [1..<m + 1]" by simp
  ultimately show ?case using ys permutes_range_trans by (auto simp del: upt_Suc)
qed auto

text \<open>
  While the sorted part grows from above: nodes 1 to \<open>m\<close> are a heap, those above are sorted, and
  none of them is below a node of the heap.
\<close>

definition heap_sorted :: "nat \<Rightarrow> nat \<Rightarrow> nat \<Rightarrow> 'a list \<Rightarrow> bool" where
  "heap_sorted m n lo xs \<longleftrightarrow> heap_from 1 m lo xs
    \<and> (\<forall>i j. 1 \<le> i \<longrightarrow> i \<le> j \<longrightarrow> m < j \<longrightarrow> j \<le> n \<longrightarrow> le (node lo xs i) (node lo xs j))"

lemma heap_sorted_step:
  assumes "heap_sorted (m + 1) n lo xs" "1 \<le> m" "m + 1 \<le> n" "lo + n \<le> length xs"
  shows "\<exists>ys. do { keys \<leftarrow> swap_keys xs lo (lo + (m + 1) - 1); down_heap cmp keys 1 m lo } = Some ys
    \<and> permutes_range lo (lo + n - 1) xs ys \<and> heap_sorted m n lo ys"
proof -
  have heap: "heap_from 1 (m + 1) lo xs" using assms(1) by (simp add: heap_sorted_def)
  have above: "le (node lo xs i) (node lo xs j)" if "1 \<le> i" "i \<le> j" "m + 1 < j" "j \<le> n" for i j
    using assms(1) that unfolding heap_sorted_def by blast
  obtain ys where ys: "swap_keys xs lo (lo + m) = Some ys" "permutes_range lo (lo + m) xs ys"
    "ys ! lo = xs ! (lo + m)" "ys ! (lo + m) = xs ! lo" "\<And>k. k \<noteq> lo \<Longrightarrow> k \<noteq> lo + m \<Longrightarrow> ys ! k = xs ! k"
    using swap_keys_permutes [of lo xs "lo + m" lo "lo + m"] assms by auto
  have len: "length ys = length xs" by (rule permutes_range_length [OF ys(2)])
  have N: "node lo ys k = (if k = 1 then node lo xs (m + 1) else if k = m + 1 then node lo xs 1 else node lo xs k)"
    if "1 \<le> k" for k
    using that ys(3,4) ys(5) [of "lo + k - 1"] by (auto simp: node_def)
  have "heap_except 1 1 m lo ys"
    unfolding heap_except_def
  proof (intro conjI allI impI)
    fix i c assume i: "1 \<le> i" "i \<noteq> 1" "child_of m c i"
    then have c: "c = 2 * i \<or> c = 2 * i + 1" "c \<le> m" by (simp_all add: child_of_def)
    then have "child_of (m + 1) c i" "1 \<le> c" "c \<noteq> 1" "i \<noteq> m + 1" "c \<noteq> m + 1"
      using i(1) unfolding child_of_def by linarith+
    have "le (node lo xs c) (node lo xs i)"
      using heap i(1) \<open>child_of (m + 1) c i\<close> unfolding heap_from_def by simp
    then show "le (node lo ys c) (node lo ys i)"
      unfolding N [OF i(1)] N [OF \<open>1 \<le> c\<close>] using i(2) \<open>c \<noteq> 1\<close> \<open>i \<noteq> m + 1\<close> \<open>c \<noteq> m + 1\<close> by (simp only: if_False)
  next
    fix c p assume "child_of m 1 p" "1 \<le> p"
    then show "le (node lo ys c) (node lo ys p)" by (auto simp: child_of_def)
  qed
  then obtain zs where zs: "down_heap cmp ys 1 m lo = Some zs" "permutes_range lo (lo + m - 1) ys zs" "heap_from 1 m lo zs"
    using down_heap_heap [of 1 1 m lo ys] assms len by auto
  have same: "node lo zs j = node lo ys j" if "m < j" "j \<le> n" for j
  proof -
    have "lo + m - 1 < lo + j - 1" "lo + j - 1 < length ys" using that assms(2,4) len by linarith+
    then show ?thesis using zs(2) by (simp add: permutes_range_def node_def)
  qed
  have low: "le (node lo zs i) (node lo xs 1) \<and> (\<exists>k. 1 \<le> k \<and> k \<le> m + 1 \<and> node lo zs i = node lo xs k)" if i: "1 \<le> i" "i \<le> m" for i
  proof -
    obtain k where k: "lo \<le> k" "k \<le> lo + m - 1" "zs ! (lo + i - 1) = ys ! k"
    proof (rule permutes_range_nth [OF zs(2), of "lo + i - 1"])
      show "lo + m - 1 < length ys" "lo \<le> lo + i - 1" "lo + i - 1 \<le> lo + m - 1" using i assms len by linarith+
    qed
    define k' where "k' = k + 1 - lo"
    have k': "1 \<le> k'" "k' \<le> m" "node lo zs i = node lo ys k'" using k assms(2) by (auto simp: k'_def node_def)
    define q where "q = (if k' = 1 then m + 1 else k')"
    have q: "1 \<le> q" "q \<le> m + 1" "node lo zs i = node lo xs q" using k' N by (auto simp: q_def)
    then show ?thesis using heap_root [OF heap, of q] by auto
  qed
  have "le (node lo zs i) (node lo zs j)" if ij: "1 \<le> i" "i \<le> j" "m < j" "j \<le> n" for i j
  proof -
    consider "m < i" | "i \<le> m" by linarith
    then show ?thesis
    proof cases
      case 1
      show ?thesis
      proof (cases "i = m + 1")
        case True
        then show ?thesis using same N ij assms above [of 1 j] by (cases "j = m + 1") auto
      next
        case False
        then show ?thesis using same N ij 1 above [of i j] by auto
      qed
    next
      case 2
      note l = low [OF ij(1) 2]
      show ?thesis
      proof (cases "j = m + 1")
        case True
        then show ?thesis using l same N ij by auto
      next
        case False
        then show ?thesis using l same [of j] N ij above [of 1 j] le_trans by auto
      qed
    qed
  qed
  then have "heap_sorted m n lo zs" using zs(3) by (simp add: heap_sorted_def)
  moreover have "permutes_range lo (lo + n - 1) xs zs"
    using permutes_range_mono [OF ys(2), of lo "lo + n - 1"] permutes_range_mono [OF zs(2), of lo "lo + n - 1"] assms
      permutes_range_trans by fastforce
  ultimately show ?thesis using ys(1) zs(1) by simp
qed

lemma heap_sort_sorts:
  assumes "lo \<le> hi" "hi < length xs"
  shows "sorts lo hi xs (heap_sort cmp xs lo hi)"
proof -
  define n where "n = hi - lo + 1"
  have n: "1 \<le> n" "lo + n \<le> length xs" "lo + n - 1 = hi" using assms by (auto simp: n_def)
  have "heap_from (n div 2 + 1) n lo xs" by (auto simp: heap_from_def child_of_def)
  then obtain ys where ys: "for_each (rev [1..<n div 2 + 1]) (\<lambda>i keys. down_heap cmp keys i n lo) xs = Some ys"
    "permutes_range lo (lo + n - 1) xs ys" "heap_from 1 n lo ys"
    using build_heap [OF n(2) order_refl] by auto
  let ?body = "\<lambda>i keys. do { keys \<leftarrow> swap_keys keys lo (lo + i - 1); down_heap cmp keys 1 (i - 1) lo }"
  have loop: "\<exists>zs. for_each (rev [2..<m + 1]) ?body ys = Some zs \<and> permutes_range lo (lo + n - 1) ys zs \<and> heap_sorted 1 n lo zs"
    if "1 \<le> m" "m \<le> n" "heap_sorted m n lo ys" "lo + n \<le> length ys" for m ys
    using that
  proof (induction m arbitrary: ys)
    case (Suc m)
    show ?case
    proof (cases "m = 0")
      case True
      then show ?thesis using Suc.prems by simp
    next
      case False
      obtain zs where zs: "?body (Suc m) ys = Some zs" "permutes_range lo (lo + n - 1) ys zs" "heap_sorted m n lo zs"
        using heap_sorted_step [of m n lo ys] Suc.prems False by auto
      obtain ws where "for_each (rev [2..<m + 1]) ?body zs = Some ws" "permutes_range lo (lo + n - 1) zs ws" "heap_sorted 1 n lo ws"
        using Suc.IH [of zs] Suc.prems zs False permutes_range_length [OF zs(2)] by auto
      moreover have "rev [2..<Suc m + 1] = Suc m # rev [2..<m + 1]" using False by simp
      ultimately show ?thesis using zs permutes_range_trans by (auto simp del: upt_Suc)
    qed
  qed simp
  have "heap_sorted n n lo ys" using ys(3) by (auto simp: heap_sorted_def)
  then obtain zs where zs: "for_each (rev [2..<n + 1]) ?body ys = Some zs" "permutes_range lo (lo + n - 1) ys zs" "heap_sorted 1 n lo zs"
    using loop [of n ys] n permutes_range_length [OF ys(2)] by auto
  have "range_sorted lo hi zs"
    unfolding range_sorted_def
  proof (intro allI impI)
    fix i j assume ij: "lo \<le> i" "i \<le> j" "j \<le> hi"
    have "le (node lo zs (i - lo + 1)) (node lo zs (j - lo + 1))" if "i < j"
      using zs(3) ij that n(3) unfolding heap_sorted_def by auto
    then show "le (zs ! i) (zs ! j)" using ij by (cases "i = j") (auto simp: node_def)
  qed
  moreover have "heap_sort cmp xs lo hi = Some zs"
    unfolding heap_sort_def n_def [symmetric] Let_def ys(1) bind.bind_lunit by (rule zs(1))
  moreover have "permutes_range lo hi xs zs" using permutes_range_trans [OF ys(2) zs(2)] n(3) by simp
  ultimately show ?thesis by (auto simp: sorts_def)
qed

subsection \<open>Partition\<close>

lemma scan_up_finds:
  assumes "le p (xs ! r)" "left < r" "r < length xs" "q < length xs" "xs ! q = p"
  shows "\<exists>l. scan_up cmp xs q left = Some l \<and> left < l \<and> l \<le> r \<and> le p (xs ! l)
    \<and> (\<forall>k. left < k \<longrightarrow> k < l \<longrightarrow> le (xs ! k) p)"
  using assms(2)
proof (induction "r - left" arbitrary: left rule: less_induct)
  case less
  have i: "left + 1 < length xs" using less.prems assms(3) by simp
  show ?case
  proof (cases "cmp (xs ! (left + 1)) p = Less")
    case False
    then have "scan_up cmp xs q left = Some (left + 1)"
      using i assms(4,5) by (subst scan_up.simps) (simp add: slot_def)
    moreover have "le p (xs ! (left + 1))" using False by (simp add: cmp_less)
    ultimately show ?thesis using less.prems by auto
  next
    case True
    then have s: "scan_up cmp xs q left = scan_up cmp xs q (left + 1)"
      using i assms(4,5) by (subst scan_up.simps) (simp add: slot_def)
    have nle: "\<not> le p (xs ! (left + 1))" using True by (simp add: cmp_less)
    then have "left + 1 \<noteq> r" using assms(1) by auto
    then obtain l where l: "scan_up cmp xs q (left + 1) = Some l" "left + 1 < l" "l \<le> r" "le p (xs ! l)"
      "\<forall>k. left + 1 < k \<longrightarrow> k < l \<longrightarrow> le (xs ! k) p"
    proof -
      have "r - (left + 1) < r - left" "left + 1 < r" using less.prems \<open>left + 1 \<noteq> r\<close> by linarith+
      then show thesis using that less.hyps [of "left + 1"] by blast
    qed
    have "le (xs ! (left + 1)) p" using nle le_total by blast
    then have "le (xs ! k) p" if "left < k" "k < l" for k
      using that l(5) by (cases "k = left + 1") auto
    then show ?thesis using l s by auto
  qed
qed

lemma scan_down_finds:
  assumes "le (xs ! l) p" "l < right" "right \<le> length xs" "q < length xs" "xs ! q = p"
  shows "\<exists>r. scan_down cmp xs q right = Some r \<and> l \<le> r \<and> r < right \<and> le (xs ! r) p
    \<and> (\<forall>k. r < k \<longrightarrow> k < right \<longrightarrow> le p (xs ! k))"
  using assms(2,3)
proof (induction right rule: less_induct)
  case (less right)
  have i: "right \<noteq> 0" "right - 1 < length xs" using less.prems by auto
  show ?case
  proof (cases "cmp p (xs ! (right - 1)) = Less")
    case False
    then have "scan_down cmp xs q right = Some (right - 1)"
      using i assms(4,5) by (subst scan_down.simps) (simp add: slot_def)
    moreover have "le (xs ! (right - 1)) p" using False by (simp add: cmp_less)
    ultimately show ?thesis using less.prems by auto
  next
    case True
    then have s: "scan_down cmp xs q right = scan_down cmp xs q (right - 1)"
      using i assms(4,5) by (subst scan_down.simps) (simp add: slot_def)
    have nle: "\<not> le (xs ! (right - 1)) p" using True by (simp add: cmp_less)
    then have "l \<noteq> right - 1" using assms(1) by auto
    then obtain r where r: "scan_down cmp xs q (right - 1) = Some r" "l \<le> r" "r < right - 1" "le (xs ! r) p"
      "\<forall>k. r < k \<longrightarrow> k < right - 1 \<longrightarrow> le p (xs ! k)"
    proof -
      have "right - 1 < right" "l < right - 1" "right - 1 \<le> length xs"
        using less.prems i \<open>l \<noteq> right - 1\<close> by linarith+
      then show thesis using that less.IH [of "right - 1"] by blast
    qed
    have "le p (xs ! (right - 1))" using nle le_total by blast
    then have "le p (xs ! k)" if "r < k" "k < right" for k
      using that r(5) by (cases "k = right - 1") auto
    then show ?thesis using r s by auto
  qed
qed

lemma partition_loop_partitions:
  assumes "left < right" "right \<le> q" "q < length xs" "xs ! q = p" "lo \<le> left"
    and "\<forall>k. lo \<le> k \<longrightarrow> k \<le> left \<longrightarrow> le (xs ! k) p"
    and "\<forall>k. right \<le> k \<longrightarrow> k \<le> q \<longrightarrow> le p (xs ! k)"
  shows "\<exists>ys l. partition_loop cmp xs q left right = Some (ys, l) \<and> permutes_range (left + 1) (q - 1) xs ys
    \<and> left < l \<and> l \<le> q \<and> (\<forall>k. lo \<le> k \<longrightarrow> k < l \<longrightarrow> le (ys ! k) p) \<and> (\<forall>k. l \<le> k \<longrightarrow> k \<le> q \<longrightarrow> le p (ys ! k))"
  using assms
proof (induction "right - left" arbitrary: left right xs rule: less_induct)
  case less
  obtain l where l: "scan_up cmp xs q left = Some l" "left < l" "l \<le> right" "le p (xs ! l)"
    "\<forall>k. left < k \<longrightarrow> k < l \<longrightarrow> le (xs ! k) p"
    using scan_up_finds [of p xs right left q] less.prems by auto
  obtain r where r: "scan_down cmp xs q right = Some r" "left \<le> r" "r < right" "le (xs ! r) p"
    "\<forall>k. r < k \<longrightarrow> k < right \<longrightarrow> le p (xs ! k)"
    using scan_down_finds [of xs left p right q] less.prems by auto
  have low: "le (xs ! k) p" if "lo \<le> k" "k < l" for k
    using that less.prems(6) l(5) by (cases "k \<le> left") auto
  have high: "le p (xs ! k)" if "r < k" "k \<le> q" for k
    using that less.prems(7) r(5) by (cases "right \<le> k") auto
  show ?case
  proof (cases "r \<le> l")
    case True
    then have "partition_loop cmp xs q left right = Some (xs, l)"
      using less.prems(1) l(1) r(1) by (subst partition_loop.simps) simp
    moreover have "le p (xs ! k)" if "l \<le> k" "k \<le> q" for k
      using that l(4) high True by (cases "k = l") auto
    ultimately show ?thesis using l less.prems low by auto
  next
    case False
    have idx: "l < length xs" "r < length xs" using False l r less.prems by auto
    obtain ys where ys: "swap_keys xs l r = Some ys" "permutes_range l r xs ys" "ys ! l = xs ! r" "ys ! r = xs ! l"
      "\<And>k. k \<noteq> l \<Longrightarrow> k \<noteq> r \<Longrightarrow> ys ! k = xs ! k"
      using swap_keys_permutes [of l xs r l r] idx False by auto
    have len: "length ys = length xs" by (rule permutes_range_length [OF ys(2)])
    have step: "partition_loop cmp xs q left right = partition_loop cmp ys q l r"
      using less.prems(1) l(1) r(1) False ys(1) by (subst partition_loop.simps) simp
    have "\<exists>zs m. partition_loop cmp ys q l r = Some (zs, m) \<and> permutes_range (l + 1) (q - 1) ys zs
      \<and> l < m \<and> m \<le> q \<and> (\<forall>k. lo \<le> k \<longrightarrow> k < m \<longrightarrow> le (zs ! k) p) \<and> (\<forall>k. m \<le> k \<longrightarrow> k \<le> q \<longrightarrow> le p (zs ! k))"
    proof (rule less.hyps)
      show "r - l < right - left" "l < r" "r \<le> q" "q < length ys" "lo \<le> l" using False l r less.prems len by auto
      show "ys ! q = p" using ys(5) [of q] False r less.prems by auto
      show "\<forall>k. lo \<le> k \<longrightarrow> k \<le> l \<longrightarrow> le (ys ! k) p"
        using low ys(3,5) r(4) False by (metis le_neq_implies_less nle_le)
      show "\<forall>k. r \<le> k \<longrightarrow> k \<le> q \<longrightarrow> le p (ys ! k)"
        using high ys(4,5) l(4) False by (metis le_neq_implies_less nle_le)
    qed
    then obtain zs m where zs: "partition_loop cmp ys q l r = Some (zs, m)" "permutes_range (l + 1) (q - 1) ys zs"
      "l < m" "m \<le> q" "\<forall>k. lo \<le> k \<longrightarrow> k < m \<longrightarrow> le (zs ! k) p" "\<forall>k. m \<le> k \<longrightarrow> k \<le> q \<longrightarrow> le p (zs ! k)" by auto
    have "permutes_range (left + 1) (q - 1) xs ys" "permutes_range (left + 1) (q - 1) ys zs"
      using permutes_range_mono [OF ys(2)] permutes_range_mono [OF zs(2)] l r less.prems by auto
    then have "permutes_range (left + 1) (q - 1) xs zs" by (rule permutes_range_trans)
    then show ?thesis using zs l(2) step by auto
  qed
qed

lemma pick_pivot_and_partition_partitions:
  assumes "lo + 3 \<le> hi" "hi < length xs"
  shows "\<exists>ys p. pick_pivot_and_partition cmp xs lo hi = Some (ys, p) \<and> permutes_range lo hi xs ys
    \<and> lo < p \<and> p < hi \<and> (\<forall>k. lo \<le> k \<longrightarrow> k < p \<longrightarrow> le (ys ! k) (ys ! p)) \<and> (\<forall>k. p < k \<longrightarrow> k \<le> hi \<longrightarrow> le (ys ! p) (ys ! k))"
proof -
  let ?mid = "lo + (hi - lo) div 2"
  have mid: "lo < ?mid" "?mid < hi - 1" using assms(1) by auto
  have bd: "lo \<le> lo" "lo \<le> hi" "lo \<le> ?mid" "?mid \<le> hi" "hi \<le> hi" "lo \<le> hi - 1" "hi - 1 \<le> hi" using assms mid by auto
  have idx: "lo < length xs" "?mid < length xs" "hi - 1 < length xs" using assms mid by auto
  obtain a where a: "swap_if_greater cmp xs lo ?mid = Some a" "permutes_range lo hi xs a" "le (a ! lo) (a ! ?mid)"
    using swap_if_greater_sorts [OF idx(1,2) bd(1,2,3,4)] by metis
  have la: "length a = length xs" by (rule permutes_range_length [OF a(2)])
  obtain b where b: "swap_if_greater cmp a lo hi = Some b" "permutes_range lo hi a b" "le (b ! lo) (b ! hi)"
    "\<And>k. k \<noteq> lo \<Longrightarrow> k \<noteq> hi \<Longrightarrow> b ! k = a ! k" "le (b ! lo) (a ! lo)"
    using swap_if_greater_sorts [OF _ _ bd(1,2,2,5), of a] idx(1) assms(2) la by metis
  have lb: "length b = length xs" using permutes_range_length [OF b(2)] la by simp
  have b_mid: "le (b ! lo) (b ! ?mid)" using b(4) [of ?mid] b(5) a(3) mid le_trans by auto
  obtain c where c: "swap_if_greater cmp b ?mid hi = Some c" "permutes_range lo hi b c" "le (c ! ?mid) (c ! hi)"
    "(c ! ?mid, c ! hi) \<in> {(b ! ?mid, b ! hi), (b ! hi, b ! ?mid)}"
    "\<And>k. k \<noteq> ?mid \<Longrightarrow> k \<noteq> hi \<Longrightarrow> c ! k = b ! k"
    using swap_if_greater_sorts [OF _ _ bd(3,4,2,5), of b] idx(2) assms(2) lb by metis
  have lc: "length c = length xs" using permutes_range_length [OF c(2)] lb by simp
  have c_lo: "le (c ! lo) (c ! ?mid)" using c(4) c(5) [of lo] b(3) b_mid mid assms by auto
  obtain d where d: "swap_keys c ?mid (hi - 1) = Some d" "permutes_range lo hi c d"
    "d ! ?mid = c ! (hi - 1)" "d ! (hi - 1) = c ! ?mid" "\<And>k. k \<noteq> ?mid \<Longrightarrow> k \<noteq> hi - 1 \<Longrightarrow> d ! k = c ! k"
    using swap_keys_permutes [OF _ _ bd(3,4,6,7), of c] idx(2,3) lc by metis
  have ld: "length d = length xs" using permutes_range_length [OF d(2)] lc by simp
  define p where "p = d ! (hi - 1)"
  have d_lo: "le (d ! lo) p" using d(4) d(5) [of lo] c_lo mid by (auto simp: p_def)
  have d_hi: "le p (d ! hi)" using d(4) d(5) [of hi] c(3) mid by (auto simp: p_def)
  have "\<exists>ys l. partition_loop cmp d (hi - 1) lo (hi - 1) = Some (ys, l) \<and> permutes_range (lo + 1) (hi - 1 - 1) d ys
    \<and> lo < l \<and> l \<le> hi - 1 \<and> (\<forall>k. lo \<le> k \<longrightarrow> k < l \<longrightarrow> le (ys ! k) p) \<and> (\<forall>k. l \<le> k \<longrightarrow> k \<le> hi - 1 \<longrightarrow> le p (ys ! k))"
    by (rule partition_loop_partitions) (use mid idx ld d_lo in \<open>auto simp: p_def\<close>)
  then obtain e l where e: "partition_loop cmp d (hi - 1) lo (hi - 1) = Some (e, l)" "permutes_range (lo + 1) (hi - 1 - 1) d e"
    "lo < l" "l \<le> hi - 1" "\<forall>k. lo \<le> k \<longrightarrow> k < l \<longrightarrow> le (e ! k) p" "\<forall>k. l \<le> k \<longrightarrow> k \<le> hi - 1 \<longrightarrow> le p (e ! k)"
    by auto
  have le': "length e = length xs" using permutes_range_length [OF e(2)] ld by simp
  have e_fix: "e ! (hi - 1) = p" "e ! hi = d ! hi"
    using e(2) mid assms ld by (auto simp: permutes_range_def p_def)
  obtain f where f: "swap_keys e l (hi - 1) = Some f" "permutes_range lo hi e f"
    "f ! l = e ! (hi - 1)" "f ! (hi - 1) = e ! l" "\<And>k. k \<noteq> l \<Longrightarrow> k \<noteq> hi - 1 \<Longrightarrow> f ! k = e ! k"
  proof -
    have "l < length e" "hi - 1 < length e" "lo \<le> l" "l \<le> hi" using e(3,4) idx(3) bd(7) le' by linarith+
    from swap_keys_permutes [OF this bd(6,7)] that show thesis by metis
  qed
  have "pick_pivot_and_partition cmp xs lo hi = Some (f, l)"
    by (simp only: pick_pivot_and_partition_def Let_def a(1) b(1) c(1) d(1) e(1) f(1) bind.bind_lunit prod.case)
  moreover have "permutes_range lo hi d e" using permutes_range_mono [OF e(2)] by simp
  then have "permutes_range lo hi xs f"
    using a(2) b(2) c(2) d(2) f(2) permutes_range_trans by meson
  moreover have "f ! l = p" using f(3) e_fix by simp
  moreover have "le (f ! k) p" if "lo \<le> k" "k < l" for k
    using that e(4,5) f(5) [of k] by auto
  moreover have "le p (f ! k)" if k: "l < k" "k \<le> hi" for k
  proof -
    consider "k = hi" | "k = hi - 1" "k \<noteq> hi" | "k < hi - 1" using k by linarith
    then show ?thesis
    proof cases
      case 1
      then show ?thesis using f(5) [of hi] e_fix d_hi k mid by auto
    next
      case 2
      then show ?thesis using f(4) e(6) e(4) by auto
    next
      case 3
      then show ?thesis using f(5) [of k] e(6) k by auto
    qed
  qed
  ultimately show ?thesis using e(3,4) mid by auto
qed

subsection \<open>Introspective sort\<close>

lemma sorts_small:
  assumes "lo < hi" "hi < length xs" "hi - lo + 1 = 2"
  shows "sorts lo hi xs (swap_if_greater cmp xs lo hi)"
proof -
  have hi: "hi = lo + 1" using assms by simp
  obtain ys where ys: "swap_if_greater cmp xs lo hi = Some ys" "permutes_range lo hi xs ys" "le (ys ! lo) (ys ! hi)"
    using swap_if_greater_sorts [of lo xs hi lo hi] assms by auto
  have "le (ys ! i) (ys ! j)" if "lo \<le> i" "i \<le> j" "j \<le> hi" for i j
    using that ys(3) hi by (cases "i = j") (auto simp: le_Suc_eq)
  then show ?thesis using ys by (auto simp: sorts_def range_sorted_def)
qed

lemma sorts_three:
  assumes "hi = lo + 2" "hi < length xs"
  shows "sorts lo hi xs (do { keys \<leftarrow> swap_if_greater cmp xs lo (hi - 1); keys \<leftarrow> swap_if_greater cmp keys lo hi;
    swap_if_greater cmp keys (hi - 1) hi })"
proof -
  let ?m = "hi - 1"
  have bd: "lo \<le> lo" "lo \<le> hi" "lo \<le> ?m" "?m \<le> hi" "hi \<le> hi" using assms by auto
  have idx: "lo < length xs" "?m < length xs" using assms by auto
  obtain a where a: "swap_if_greater cmp xs lo ?m = Some a" "permutes_range lo hi xs a" "le (a ! lo) (a ! ?m)"
    using swap_if_greater_sorts [OF idx(1,2) bd(1,2,3,4)] by metis
  have la: "length a = length xs" by (rule permutes_range_length [OF a(2)])
  obtain b where b: "swap_if_greater cmp a lo hi = Some b" "permutes_range lo hi a b" "le (b ! lo) (b ! hi)"
    "\<And>k. k \<noteq> lo \<Longrightarrow> k \<noteq> hi \<Longrightarrow> b ! k = a ! k" "le (b ! lo) (a ! lo)"
    using swap_if_greater_sorts [OF _ _ bd(1,2,2,5), of a] idx(1) assms(2) la by metis
  have lb: "length b = length xs" using permutes_range_length [OF b(2)] la by simp
  have b_m: "le (b ! lo) (b ! ?m)" using b(4) [of ?m] b(5) a(3) assms(1) le_trans by auto
  obtain c where c: "swap_if_greater cmp b ?m hi = Some c" "permutes_range lo hi b c" "le (c ! ?m) (c ! hi)"
    "(c ! ?m, c ! hi) \<in> {(b ! ?m, b ! hi), (b ! hi, b ! ?m)}" "\<And>k. k \<noteq> ?m \<Longrightarrow> k \<noteq> hi \<Longrightarrow> c ! k = b ! k"
    using swap_if_greater_sorts [OF _ _ bd(3,4,2,5), of b] idx(2) assms(2) lb by metis
  have lo: "le (c ! lo) (c ! ?m)" "le (c ! lo) (c ! hi)" using c(4) c(5) [of lo] b(3) b_m assms(1) by auto
  have "le (c ! i) (c ! j)" if "lo \<le> i" "i \<le> j" "j \<le> hi" for i j
  proof -
    have "i = j \<or> i = lo \<and> j = ?m \<or> i = lo \<and> j = hi \<or> i = ?m \<and> j = hi" using that assms(1) by linarith
    then consider "i = j" | "i = lo" "j = ?m" | "i = lo" "j = hi" | "i = ?m" "j = hi" by blast
    then show ?thesis using lo c(3) by cases auto
  qed
  moreover have "permutes_range lo hi xs c" using a(2) b(2) c(2) permutes_range_trans by meson
  moreover have "range_sorted lo hi c" using calculation(1) by (simp add: range_sorted_def)
  ultimately show ?thesis unfolding sorts_def a(1) bind.bind_lunit b(1) c(1) by blast
qed

lemma intro_sort_sorts: "lo \<le> hi \<Longrightarrow> hi < length xs \<Longrightarrow> sorts lo hi xs (intro_sort cmp xs lo hi d)"
proof (induction d arbitrary: lo hi xs)
  have base: "sorts lo hi xs (intro_sort cmp xs lo hi d)" if "lo \<le> hi" "hi < length xs" "hi - lo + 1 \<le> 16" for lo hi d and xs :: "'a list"
  proof -
    have "hi = lo \<or> hi = lo + 1 \<or> hi = lo + 2 \<or> lo + 3 \<le> hi" using that by linarith
    then consider "hi = lo" | "hi = lo + 1" | "hi = lo + 2" | "lo + 3 \<le> hi" by blast
    then show ?thesis
    proof cases
      case 1
      then show ?thesis by (simp add: intro_sort.simps sorts_def range_sorted_trivial)
    next
      case 2
      then show ?thesis using sorts_small [of lo hi xs] that by (simp add: intro_sort.simps [of cmp xs lo])
    next
      case 3
      then show ?thesis using sorts_three [OF 3] that by (simp add: intro_sort.simps [of cmp xs lo])
    next
      case 4
      then have "intro_sort cmp xs lo hi d = insertion_sort cmp xs lo hi"
      proof -
        have "\<not> hi \<le> lo" "hi - lo + 1 \<noteq> 2" "hi - lo + 1 \<noteq> 3" using 4 by linarith+
        then show ?thesis using that(3) by (subst intro_sort.simps) (simp only: if_False if_True)
      qed
      then show ?thesis using insertion_sort_sorts [OF that(1,2)] by simp
    qed
  qed
  {
    case 0
    show ?case
    proof (cases "hi - lo + 1 \<le> 16")
      case True
      then show ?thesis using base 0 by blast
    next
      case False
      then have "intro_sort cmp xs lo hi 0 = heap_sort cmp xs lo hi"
        by (subst intro_sort.simps) auto
      then show ?thesis using heap_sort_sorts [OF 0] by simp
    qed
  next
    case (Suc d)
    show ?case
    proof (cases "hi - lo + 1 \<le> 16")
      case True
      then show ?thesis using base Suc.prems by blast
    next
      case False
      then have "lo + 3 \<le> hi" by linarith
      then obtain a p where a: "pick_pivot_and_partition cmp xs lo hi = Some (a, p)" "permutes_range lo hi xs a"
        "lo < p" "p < hi" "\<forall>k. lo \<le> k \<longrightarrow> k < p \<longrightarrow> le (a ! k) (a ! p)" "\<forall>k. p < k \<longrightarrow> k \<le> hi \<longrightarrow> le (a ! p) (a ! k)"
        using pick_pivot_and_partition_partitions [of lo hi xs] Suc.prems by auto
      have la: "length a = length xs" by (rule permutes_range_length [OF a(2)])
      obtain b where b: "intro_sort cmp a (p + 1) hi d = Some b" "permutes_range (p + 1) hi a b" "range_sorted (p + 1) hi b"
        using Suc.IH [of "p + 1" hi a] a(4) Suc.prems(2) la by (auto simp: sorts_def)
      have lb: "length b = length xs" using permutes_range_length [OF b(2)] la by simp
      obtain c where c: "intro_sort cmp b lo (p - 1) d = Some c" "permutes_range lo (p - 1) b c" "range_sorted lo (p - 1) c"
      proof -
        have "lo \<le> p - 1" "p - 1 < length b" using a(3,4) Suc.prems(2) lb by linarith+
        from Suc.IH [OF this] that show thesis by (auto simp: sorts_def)
      qed
      have step: "intro_sort cmp xs lo hi (Suc d) = Some c"
        using False a(1,3) b(1) c(1) by (subst intro_sort.simps) auto
      have cb: "c ! k = b ! k" if "p \<le> k" "k \<le> hi" for k
        using c(2) that a(3) Suc.prems(2) lb by (auto simp: permutes_range_def)
      have ba: "b ! k = a ! k" if "k \<le> p" for k
        using b(2) that a(4) Suc.prems(2) la by (auto simp: permutes_range_def)
      have low: "le (c ! k) (a ! p)" if "lo \<le> k" "k < p" for k
      proof (rule permutes_range_nth [OF c(2), of k])
        show "p - 1 < length b" "lo \<le> k" "k \<le> p - 1" using that a(4) Suc.prems(2) lb by auto
        fix j assume "lo \<le> j" "j \<le> p - 1" "c ! k = b ! j"
        then show "le (c ! k) (a ! p)" using a(3,5) ba by auto
      qed
      have high: "le (a ! p) (c ! k)" if "p < k" "k \<le> hi" for k
      proof (rule permutes_range_nth [OF b(2), of k])
        show "hi < length a" "p + 1 \<le> k" "k \<le> hi" using that Suc.prems(2) la by auto
        fix j assume "p + 1 \<le> j" "j \<le> hi" "b ! k = a ! j"
        then show "le (a ! p) (c ! k)" using a(6) cb that by auto
      qed
      have pp: "c ! p = a ! p" using cb [of p] ba [of p] a(4) by simp
      have "le (c ! i) (c ! j)" if ij: "lo \<le> i" "i \<le> j" "j \<le> hi" for i j
      proof -
        consider "j < p" | "i < p" "p \<le> j" | "i = p" | "p < i" using ij by linarith
        then show ?thesis
        proof cases
          case 1
          then show ?thesis using c(3) ij by (simp add: range_sorted_def)
        next
          case 2
          then have "le (a ! p) (c ! j)" using high pp ij by (cases "j = p") auto
          then show ?thesis using low [OF ij(1) 2(1)] le_trans by blast
        next
          case 3
          then show ?thesis using high pp ij by (cases "j = p") auto
        next
          case 4
          then show ?thesis using b(3) cb ij by (simp add: range_sorted_def)
        qed
      qed
      moreover have "permutes_range lo hi xs c"
        using a(2) permutes_range_mono [OF b(2), of lo hi] permutes_range_mono [OF c(2), of lo hi] a(3,4)
          permutes_range_trans by (meson diff_le_self le_add1 less_imp_le order_refl order_trans)
      ultimately show ?thesis using step by (auto simp: sorts_def range_sorted_def)
    qed
  }
qed

text \<open>The sort returns, with a permutation that is in order.\<close>

lemma csharp_sorts: "\<exists>ys. csharp_sort cmp xs = Some ys \<and> mset ys = mset xs \<and> sorted_wrt le ys"
proof (cases "2 \<le> length xs")
  case True
  then have "sorts 0 (length xs - 1) xs (csharp_sort cmp xs)"
    unfolding csharp_sort_def introspective_sort_def using intro_sort_sorts [of 0 "length xs - 1" xs] by simp
  then obtain ys where "csharp_sort cmp xs = Some ys" "permutes_range 0 (length xs - 1) xs ys" "range_sorted 0 (length xs - 1) ys"
    by (auto simp: sorts_def)
  then show ?thesis using sorted_wrt_range [of ys] by (auto simp: permutes_range_def)
next
  case False
  then have "csharp_sort cmp xs = Some xs" by (simp add: csharp_sort_def introspective_sort_def)
  moreover have "sorted_wrt le xs" using False by (cases xs; cases "tl xs") auto
  ultimately show ?thesis by simp
qed

end

section \<open>Sorting by time\<close>

text \<open>\<open>total_cmp\<close> on a number that the elements have, as their start time.\<close>

definition total_cmp :: "f64 \<Rightarrow> f64 \<Rightarrow> ordering" where
  "total_cmp a b = (if tkey a < tkey b then Less else if tkey a = tkey b then Equal else Greater)"

interpretation by_time: comparison "\<lambda>a b. total_cmp (tm a) (tm b)" for tm :: "'a \<Rightarrow> f64"
  by unfold_locales (auto simp: total_cmp_def split: if_splits)

lemma by_time_le: "by_time.le tm = (\<lambda>a b. tkey (tm a) \<le> tkey (tm b))"
  by (intro ext, unfold by_time.le_def) (simp add: total_cmp_def)

text \<open>
  C13. The C# sort of elements by their times always returns, without reading outside of the slice:
  the result is a permutation of the slice, and the times are in order.
\<close>

theorem csharp_sort_correct:
  "\<exists>ys. csharp_sort (\<lambda>a b. total_cmp (tm a) (tm b)) xs = Some ys \<and> mset ys = mset xs
    \<and> sorted (map (tkey \<circ> tm) ys)"
  using by_time.csharp_sorts [of tm xs] unfolding by_time_le by (auto simp: sorted_map comp_def)

text \<open>
  So does the heap sort of a part of a slice, which the sort falls back to when its partitions
  are too uneven: that part is permuted and in order, the rest unchanged.
\<close>

theorem heap_sort_correct:
  assumes "lo \<le> hi" "hi < length xs"
  shows "\<exists>ys. heap_sort (\<lambda>a b. total_cmp (tm a) (tm b)) xs lo hi = Some ys \<and> mset ys = mset xs
    \<and> sorted (map (tkey \<circ> tm) (drop lo (take (hi + 1) ys)))
    \<and> take lo ys = take lo xs \<and> drop (hi + 1) ys = drop (hi + 1) xs"
proof -
  obtain ys where ys: "heap_sort (\<lambda>a b. total_cmp (tm a) (tm b)) xs lo hi = Some ys" "permutes_range lo hi xs ys"
    "by_time.range_sorted tm lo hi ys"
    using by_time.heap_sort_sorts [OF assms, of tm] by (auto simp: by_time.sorts_def)
  have "length ys = length xs" by (rule permutes_range_length [OF ys(2)])
  moreover from this have "take lo ys = take lo xs" "drop (hi + 1) ys = drop (hi + 1) xs"
    using ys(2) by (auto simp: permutes_range_def intro!: nth_equalityI)
  moreover have "sorted (map (tkey \<circ> tm) (drop lo (take (hi + 1) ys)))"
    using ys(3) assms \<open>length ys = length xs\<close>
    by (auto simp: by_time.range_sorted_def by_time_le sorted_iff_nth_mono nth_drop)
  ultimately show ?thesis using ys by (auto simp: permutes_range_def)
qed

theorem heap_sort_correct_witness:
  "\<exists>ys. heap_sort (\<lambda>a b. total_cmp (id a) (id b)) [lit 3 1, lit 1 1, lit 2 1] 0 2 = Some ys
    \<and> mset ys = mset [lit 3 1, lit 1 1, lit 2 1]"
  using heap_sort_correct [of 0 2 "[lit 3 1, lit 1 1, lit 2 1]" id] by auto

end
