(* ===== verification/Sorting_Legacy.thy ===== *)
theory Sorting_Legacy
  imports Sorting
begin

text \<open>
  The two sorts of hit objects: osu!'s legacy sort (\<open>src/util/sort/osu_legacy.rs\<close>) and the
  sorter that brings several lists into the order of one (\<open>src/util/sort/tandem.rs\<close>). As in
  the theory before, \<open>None\<close> is a panic or a loop that never ends; the time of an object is a
  parameter.
\<close>

section \<open>The legacy sort\<close>

text \<open>The pivot is an index, whose element can change during the partition.\<close>

partial_function (option) legacy_up :: "('a \<Rightarrow> f64) \<Rightarrow> 'a list \<Rightarrow> nat \<Rightarrow> nat \<Rightarrow> nat option" where
  "legacy_up tm keys mid i = do {
     x \<leftarrow> slot keys i; p \<leftarrow> slot keys mid;
     if tm x < tm p then legacy_up tm keys mid (i + 1) else Some i }"

partial_function (option) legacy_down :: "('a \<Rightarrow> f64) \<Rightarrow> 'a list \<Rightarrow> nat \<Rightarrow> nat \<Rightarrow> nat option" where
  "legacy_down tm keys mid j = do {
     p \<leftarrow> slot keys mid; x \<leftarrow> slot keys j;
     if tm p < tm x then (if j = 0 then None else legacy_down tm keys mid (j - 1)) else Some j }"

partial_function (option) legacy_partition ::
  "('a \<Rightarrow> f64) \<Rightarrow> 'a list \<Rightarrow> nat \<Rightarrow> nat \<Rightarrow> nat \<Rightarrow> ('a list \<times> nat \<times> nat) option" where
  "legacy_partition tm keys mid i j = do {
     i \<leftarrow> legacy_up tm keys mid i;
     j \<leftarrow> legacy_down tm keys mid j;
     if j < i then Some (keys, i, j)
     else do {
       keys \<leftarrow> (if i < j then slice_swap keys i j else Some keys);
       if j - 1 < i + 1 then Some (keys, i + 1, j - 1)
       else legacy_partition tm keys mid (i + 1) (j - 1) }
   }"

text \<open>
  One round of the outer loop goes on with the larger part after it has sorted the smaller one;
  both ways use up one of the depth. The difference \<open>right - i\<close> must not be negative.
\<close>

fun legacy_quick_sort :: "('a \<Rightarrow> f64) \<Rightarrow> nat \<Rightarrow> 'a list \<Rightarrow> nat \<Rightarrow> nat \<Rightarrow> 'a list option" where
  "legacy_quick_sort tm 0 keys left right = heap_sort (\<lambda>a b. total_cmp (tm a) (tm b)) keys left right"
| "legacy_quick_sort tm (Suc depth_limit) keys left right =
    (let cmp = (\<lambda>a b. total_cmp (tm a) (tm b)); mid = left + (right - left) div 2 in do {
       keys \<leftarrow> swap_if_greater cmp keys left mid;
       keys \<leftarrow> swap_if_greater cmp keys left right;
       keys \<leftarrow> swap_if_greater cmp keys mid right;
       (keys, i, j) \<leftarrow> legacy_partition tm keys mid left right;
       if right < i then None
       else if j - left \<le> right - i then do {
         keys \<leftarrow> (if left < j then legacy_quick_sort tm depth_limit keys left j else Some keys);
         if right \<le> i then Some keys else legacy_quick_sort tm depth_limit keys i right }
       else do {
         keys \<leftarrow> (if i < right then legacy_quick_sort tm depth_limit keys i right else Some keys);
         if j \<le> left then Some keys else legacy_quick_sort tm depth_limit keys left j }
     })"

declare legacy_quick_sort.simps(2) [simp del]

definition legacy_sort :: "('a \<Rightarrow> f64) \<Rightarrow> 'a list \<Rightarrow> 'a list option" where
  "legacy_sort tm keys =
    (if length keys < 2 then Some keys else legacy_quick_sort tm 32 keys 0 (length keys - 1))"

section \<open>The legacy sort of sorted objects\<close>

text \<open>Objects with times that are numbers, in order; and lists with the same sequence of times.\<close>

definition times_ok :: "('a \<Rightarrow> f64) \<Rightarrow> 'a list \<Rightarrow> bool" where
  "times_ok tm xs \<longleftrightarrow> (\<forall>x\<in>set xs. \<not> is_nan (tm x)) \<and> sorted (map (key \<circ> tm) xs)"

definition same_times :: "('a \<Rightarrow> f64) \<Rightarrow> 'a list \<Rightarrow> 'a list \<Rightarrow> bool" where
  "same_times tm xs ys \<longleftrightarrow> mset ys = mset xs \<and> map (key \<circ> tm) ys = map (key \<circ> tm) xs"

lemma same_times_refl [simp]: "same_times tm xs xs"
  by (simp add: same_times_def)

lemma same_times_trans: "same_times tm xs ys \<Longrightarrow> same_times tm ys zs \<Longrightarrow> same_times tm xs zs"
  by (simp add: same_times_def)

lemma same_times_ok: "same_times tm xs ys \<Longrightarrow> times_ok tm xs \<Longrightarrow> times_ok tm ys"
  using mset_eq_setD [of ys xs] by (simp add: same_times_def times_ok_def)

lemma same_times_length: "same_times tm xs ys \<Longrightarrow> length ys = length xs"
  by (rule mset_eq_length) (simp add: same_times_def)

lemma times_less:
  assumes "times_ok tm xs" "i < length xs" "j < length xs"
  shows "tm (xs ! i) < tm (xs ! j) \<longleftrightarrow> key (tm (xs ! i)) < key (tm (xs ! j))"
  using assms by (simp add: less_f64_def times_ok_def)

lemma times_mono:
  assumes "times_ok tm xs" "i \<le> j" "j < length xs"
  shows "key (tm (xs ! i)) \<le> key (tm (xs ! j))"
  using assms by (auto simp: times_ok_def sorted_iff_nth_mono)

lemma swap_same_times:
  assumes "i < length xs" "j < length xs" "key (tm (xs ! i)) = key (tm (xs ! j))"
  shows "slice_swap xs i j = Some (xs[i := xs ! j, j := xs ! i])" "same_times tm xs (xs[i := xs ! j, j := xs ! i])"
proof -
  have "map (key \<circ> tm) (xs[i := xs ! j, j := xs ! i]) = map (key \<circ> tm) xs"
    using assms by (intro nth_equalityI) (auto simp: nth_list_update)
  then show "slice_swap xs i j = Some (xs[i := xs ! j, j := xs ! i])" "same_times tm xs (xs[i := xs ! j, j := xs ! i])"
    using assms by (simp_all add: slice_swap_def same_times_def mset_swap_idx)
qed

text \<open>The order of \<open>total_cmp\<close> refines that of the numbers.\<close>

lemma tkey_key: "tkey x \<le> tkey y \<Longrightarrow> key x \<le> key y"
  by (auto simp: tkey_def key_def split: if_splits)

lemma swap_if_greater_same_times:
  assumes "times_ok tm xs" "a \<le> b" "b < length xs"
  shows "\<exists>ys. swap_if_greater (\<lambda>a b. total_cmp (tm a) (tm b)) xs a b = Some ys \<and> same_times tm xs ys"
proof (cases "a \<noteq> b \<and> total_cmp (tm (xs ! a)) (tm (xs ! b)) = Greater")
  case True
  then have "tkey (tm (xs ! b)) \<le> tkey (tm (xs ! a))" by (auto simp: total_cmp_def split: if_splits)
  then have "key (tm (xs ! a)) = key (tm (xs ! b))" using tkey_key times_mono [OF assms] by (simp add: order_antisym)
  then show ?thesis using swap_same_times [of a xs b tm] assms True
    by (auto simp: swap_if_greater_def slot_def)
next
  case False
  then show ?thesis using assms by (auto simp: swap_if_greater_def slot_def)
qed

lemma heap_sort_same_times:
  assumes "times_ok tm xs" "lo \<le> hi" "hi < length xs"
  shows "\<exists>ys. heap_sort (\<lambda>a b. total_cmp (tm a) (tm b)) xs lo hi = Some ys \<and> same_times tm xs ys"
proof -
  obtain ys where ys: "heap_sort (\<lambda>a b. total_cmp (tm a) (tm b)) xs lo hi = Some ys" "permutes_range lo hi xs ys"
    "by_time.range_sorted tm lo hi ys"
    using by_time.heap_sort_sorts [OF assms(2,3), of tm] by (auto simp: by_time.sorts_def)
  have len: "length ys = length xs" by (rule permutes_range_length [OF ys(2)])
  let ?k = "map (key \<circ> tm)"
  have m: "mset (drop lo (take (hi + 1) ys)) = mset (drop lo (take (hi + 1) xs))"
    by (rule permutes_range_slice [OF ys(2) assms(3,2)])
  have "sorted (?k (drop lo (take (hi + 1) ys)))"
    using ys(3) len assms(3) by (auto simp: by_time.range_sorted_def by_time_le sorted_iff_nth_mono nth_drop tkey_key)
  moreover have "sorted (?k (drop lo (take (hi + 1) xs)))"
    using assms(1) by (simp add: times_ok_def drop_map [symmetric] take_map [symmetric] sorted_wrt_drop sorted_wrt_take)
  moreover have "mset (?k (drop lo (take (hi + 1) ys))) = mset (?k (drop lo (take (hi + 1) xs)))"
    using m by (simp only: mset_map)
  ultimately have mid: "?k (drop lo (take (hi + 1) ys)) = ?k (drop lo (take (hi + 1) xs))"
    by (metis properties_for_sort)
  have "(key \<circ> tm) (ys ! i) = (key \<circ> tm) (xs ! i)" if "i < length xs" for i
  proof (cases "i < lo \<or> hi < i")
    case True
    then show ?thesis using ys(2) that by (auto simp: permutes_range_def)
  next
    case False
    have "?k (drop lo (take (hi + 1) ys)) ! (i - lo) = ?k (drop lo (take (hi + 1) xs)) ! (i - lo)" unfolding mid ..
    moreover have "i - lo < length (drop lo (take (hi + 1) xs))" "i - lo < length (drop lo (take (hi + 1) ys))"
      using False that assms len by auto
    ultimately show ?thesis using False assms len by (simp add: nth_drop)
  qed
  then have "?k ys = ?k xs" using len by (intro nth_equalityI) auto
  then show ?thesis using ys by (auto simp: same_times_def permutes_range_def)
qed

lemma legacy_up_sorted:
  assumes "times_ok tm xs" "mid < length xs" "i < length xs"
  shows "\<exists>i'. legacy_up tm xs mid i = Some i' \<and> i \<le> i' \<and> i' \<le> max i mid \<and> key (tm (xs ! mid)) \<le> key (tm (xs ! i'))"
  using assms(3)
proof (induction "length xs - i" arbitrary: i rule: less_induct)
  case less
  show ?case
  proof (cases "tm (xs ! i) < tm (xs ! mid)")
    case False
    then show ?thesis using less.prems assms times_less [OF assms(1)]
      by (subst legacy_up.simps) (auto simp: slot_def)
  next
    case True
    then have s: "legacy_up tm xs mid i = legacy_up tm xs mid (i + 1)"
      using less.prems assms by (subst legacy_up.simps) (simp add: slot_def)
    have "i < mid"
    proof (rule ccontr)
      assume "\<not> i < mid"
      then have "key (tm (xs ! mid)) \<le> key (tm (xs ! i))" using times_mono [OF assms(1)] less.prems by simp
      then show False using True times_less [OF assms(1)] less.prems assms(2) by simp
    qed
    then have "length xs - (i + 1) < length xs - i" "i + 1 < length xs" using assms(2) by auto
    from less.hyps [OF this] \<open>i < mid\<close> s show ?thesis by (auto simp: max_def split: if_splits)
  qed
qed

lemma legacy_down_sorted:
  assumes "times_ok tm xs" "mid < length xs" "j < length xs"
  shows "\<exists>j'. legacy_down tm xs mid j = Some j' \<and> j' \<le> j \<and> min j mid \<le> j' \<and> key (tm (xs ! j')) \<le> key (tm (xs ! mid))"
  using assms(3)
proof (induction j rule: less_induct)
  case (less j)
  show ?case
  proof (cases "tm (xs ! mid) < tm (xs ! j)")
    case False
    then show ?thesis using less.prems assms times_less [OF assms(1)]
      by (subst legacy_down.simps) (auto simp: slot_def)
  next
    case True
    have "mid < j"
    proof (rule ccontr)
      assume "\<not> mid < j"
      then have "key (tm (xs ! j)) \<le> key (tm (xs ! mid))" using times_mono [OF assms(1)] assms(2) by simp
      then show False using True times_less [OF assms(1)] less.prems assms(2) by simp
    qed
    then have s: "legacy_down tm xs mid j = legacy_down tm xs mid (j - 1)"
      using True less.prems assms by (subst legacy_down.simps) (simp add: slot_def)
    have "j - 1 < j" "j - 1 < length xs" using \<open>mid < j\<close> less.prems by auto
    from less.IH [OF this] \<open>mid < j\<close> s show ?thesis by (auto simp: min_def split: if_splits)
  qed
qed

lemma legacy_partition_sorted:
  assumes "times_ok tm xs" "right < length xs" "left \<le> mid" "mid < right"
    and "left \<le> i" "i \<le> j" "j \<le> right" "j = right \<longrightarrow> i = left"
  shows "\<exists>ys i' j'. legacy_partition tm xs mid i j = Some (ys, i', j') \<and> same_times tm xs ys \<and> i' \<le> right \<and> j' \<le> right"
  using assms
proof (induction "j - i" arbitrary: i j xs rule: less_induct)
  case less
  obtain i1 where i1: "legacy_up tm xs mid i = Some i1" "i \<le> i1" "i1 \<le> max i mid" "key (tm (xs ! mid)) \<le> key (tm (xs ! i1))"
    using legacy_up_sorted [OF less.prems(1), of mid i] less.prems by auto
  obtain j1 where j1: "legacy_down tm xs mid j = Some j1" "j1 \<le> j" "min j mid \<le> j1" "key (tm (xs ! j1)) \<le> key (tm (xs ! mid))"
    using legacy_down_sorted [OF less.prems(1), of mid j] less.prems by auto
  show ?case
  proof (cases "j1 < i1")
    case True
    then have "legacy_partition tm xs mid i j = Some (xs, i1, j1)"
      by (subst legacy_partition.simps) (simp add: i1(1) j1(1))
    then show ?thesis using i1 j1 less.prems by auto
  next
    case False
    have b: "i1 < length xs" "j1 < length xs" using False j1 less.prems by auto
    have "key (tm (xs ! i1)) \<le> key (tm (xs ! j1))" using times_mono [OF less.prems(1)] False b by simp
    then have eq: "key (tm (xs ! i1)) = key (tm (xs ! j1))" using i1(4) j1(4) by simp
    obtain ys where ys: "(if i1 < j1 then slice_swap xs i1 j1 else Some xs) = Some ys" "same_times tm xs ys"
      using swap_same_times [where tm = tm, OF b eq] by (cases "i1 < j1") auto
    have r: "i1 + 1 \<le> right"
    proof (rule ccontr)
      assume "\<not> i1 + 1 \<le> right"
      then have "j = right" using False j1 less.prems by linarith
      then show False using \<open>\<not> i1 + 1 \<le> right\<close> i1 less.prems by auto
    qed
    have step: "legacy_partition tm xs mid i j = (if j1 - 1 < i1 + 1 then Some (ys, i1 + 1, j1 - 1)
      else legacy_partition tm ys mid (i1 + 1) (j1 - 1))"
      using False ys(1) by (subst legacy_partition.simps) (simp add: i1(1) j1(1))
    show ?thesis
    proof (cases "j1 - 1 < i1 + 1")
      case True
      then show ?thesis using ys(2) r j1 less.prems by (auto simp: step)
    next
      case cont: False
      have "j1 - 1 - (i1 + 1) < j - i" "i1 + 1 \<le> j1 - 1" "j1 - 1 < right" "left \<le> i1 + 1"
        using cont i1 j1 less.prems by linarith+
      then obtain zs i' j' where "legacy_partition tm ys mid (i1 + 1) (j1 - 1) = Some (zs, i', j')" "same_times tm ys zs"
        "i' \<le> right" "j' \<le> right"
        using less.hyps [of "j1 - 1" "i1 + 1" ys] same_times_ok [OF ys(2)] same_times_length [OF ys(2)] less.prems by auto
      then show ?thesis using cont same_times_trans [OF ys(2)] by (auto simp: step)
    qed
  qed
qed

text \<open>One round of the sort.\<close>

lemma legacy_quick_sort_step:
  assumes "swap_if_greater (\<lambda>a b. total_cmp (tm a) (tm b)) xs left (left + (right - left) div 2) = Some a"
    and "swap_if_greater (\<lambda>a b. total_cmp (tm a) (tm b)) a left right = Some b"
    and "swap_if_greater (\<lambda>a b. total_cmp (tm a) (tm b)) b (left + (right - left) div 2) right = Some c"
    and "legacy_partition tm c (left + (right - left) div 2) left right = Some (e, i, j)" "i \<le> right"
  shows "legacy_quick_sort tm (Suc d) xs left right =
    (if j - left \<le> right - i then do {
         keys \<leftarrow> (if left < j then legacy_quick_sort tm d e left j else Some e);
         if i < right then legacy_quick_sort tm d keys i right else Some keys }
       else do {
         keys \<leftarrow> (if i < right then legacy_quick_sort tm d e i right else Some e);
         if left < j then legacy_quick_sort tm d keys left j else Some keys })"
  unfolding legacy_quick_sort.simps(2) Let_def assms(1-4) bind.bind_lunit prod.case
  using assms(5) by (cases "right \<le> i"; cases "j \<le> left") simp_all

lemma legacy_quick_sort_sorted:
  "times_ok tm xs \<Longrightarrow> left < right \<Longrightarrow> right < length xs \<Longrightarrow>
    \<exists>ys. legacy_quick_sort tm d xs left right = Some ys \<and> same_times tm xs ys"
proof (induction d arbitrary: xs left right)
  case 0
  then show ?case using heap_sort_same_times [of tm xs left right] by simp
next
  case (Suc d)
  let ?cmp = "\<lambda>a b. total_cmp (tm a) (tm b)" and ?mid = "left + (right - left) div 2"
  have mid: "left \<le> ?mid" "?mid < right" using Suc.prems(2) by auto
  obtain a where a: "swap_if_greater ?cmp xs left ?mid = Some a" "same_times tm xs a"
    using swap_if_greater_same_times [OF Suc.prems(1) mid(1)] mid Suc.prems by auto
  obtain b where b: "swap_if_greater ?cmp a left right = Some b" "same_times tm a b"
    using swap_if_greater_same_times [of tm a left right] same_times_ok [OF a(2)] same_times_length [OF a(2)] Suc.prems by auto
  have sb: "same_times tm xs b" using same_times_trans a(2) b(2) by blast
  obtain c where c: "swap_if_greater ?cmp b ?mid right = Some c" "same_times tm b c"
    using swap_if_greater_same_times [of tm b ?mid right] same_times_ok [OF sb] same_times_length [OF sb] Suc.prems mid by auto
  have sc: "same_times tm xs c" using same_times_trans sb c(2) by blast
  obtain e i j where e: "legacy_partition tm c ?mid left right = Some (e, i, j)" "same_times tm c e" "i \<le> right" "j \<le> right"
    using legacy_partition_sorted [of tm c right left ?mid left right] same_times_ok [OF sc] same_times_length [OF sc] Suc.prems mid by auto
  have se: "same_times tm xs e" using same_times_trans sc e(2) by blast
  have rec: "\<exists>ys. (if l < r then legacy_quick_sort tm d zs l r else Some zs) = Some ys \<and> same_times tm xs ys"
    if "same_times tm xs zs" "r \<le> right" for zs l r
    using Suc.IH [of zs l r] same_times_ok [OF that(1)] same_times_length [OF that(1)] same_times_trans [OF that(1)] Suc.prems that
    by auto
  note head = legacy_quick_sort_step [OF a(1) b(1) c(1) e(1) e(3), where d = d]
  show ?case
  proof (cases "j - left \<le> right - i")
    case True
    obtain f where f: "(if left < j then legacy_quick_sort tm d e left j else Some e) = Some f" "same_times tm xs f"
      using rec [OF se e(4)] by blast
    then show ?thesis using rec [OF f(2), of right i] True by (simp only: head if_True bind.bind_lunit order_refl)
  next
    case False
    obtain f where f: "(if i < right then legacy_quick_sort tm d e i right else Some e) = Some f" "same_times tm xs f"
      using rec [OF se order_refl] by blast
    then show ?thesis using rec [OF f(2), of j left] False e(4) by (simp only: head if_False bind.bind_lunit)
  qed
qed

text \<open>
  On objects in the order of their times, as both of its callers give it, the legacy sort
  returns without reading outside of the slice: it permutes objects of the same time at most,
  so the sequence of times is unchanged.
\<close>

theorem legacy_sort_sorted:
  assumes "\<forall>x\<in>set xs. \<not> is_nan (tm x)" "sorted (map (key \<circ> tm) xs)"
  shows "\<exists>ys. legacy_sort tm xs = Some ys \<and> mset ys = mset xs \<and> map (key \<circ> tm) ys = map (key \<circ> tm) xs"
proof (cases "length xs < 2")
  case False
  then show ?thesis using legacy_quick_sort_sorted [of tm xs 0 "length xs - 1" 32] assms
    by (auto simp: legacy_sort_def times_ok_def same_times_def)
qed (simp add: legacy_sort_def)

theorem legacy_sort_sorted_witness:
  "\<exists>ys. legacy_sort id [lit 1 1, lit 2 1] = Some ys \<and> mset ys = {#lit 1 1, lit 2 1#}"
proof -
  have "\<forall>x\<in>set [lit 1 1, lit 2 1]. \<not> is_nan (id x)" "sorted (map (key \<circ> id) [lit 1 1, lit 2 1])"
    by (simp_all add: lit_def f64_eval)
  then show ?thesis using legacy_sort_sorted [of "[lit 1 1, lit 2 1]" id] by auto
qed

section \<open>Where it does not sort\<close>

text \<open>Evaluation of the loops, one step at a time, on objects at the times 0 and 1.\<close>

lemma legacy_up_step:
  "i < length xs \<Longrightarrow> mid < length xs \<Longrightarrow>
    legacy_up tm xs mid i = (if tm (xs ! i) < tm (xs ! mid) then legacy_up tm xs mid (i + 1) else Some i)"
  by (subst legacy_up.simps) (simp add: slot_def)

lemma legacy_down_step:
  "j < length xs \<Longrightarrow> mid < length xs \<Longrightarrow>
    legacy_down tm xs mid j = (if tm (xs ! mid) < tm (xs ! j) then if j = 0 then None else legacy_down tm xs mid (j - 1) else Some j)"
  by (subst legacy_down.simps) (simp add: slot_def)

lemma legacy_partition_step:
  assumes "legacy_up tm xs mid i = Some i'" "legacy_down tm xs mid j = Some j'" "i' < length xs" "j' < length xs"
  shows "legacy_partition tm xs mid i j = (let ys = if i' < j' then xs[i' := xs ! j', j' := xs ! i'] else xs in
    if j' < i' then Some (xs, i', j') else if j' - 1 < i' + 1 then Some (ys, i' + 1, j' - 1)
    else legacy_partition tm ys mid (i' + 1) (j' - 1))"
  using assms(3,4) by (subst legacy_partition.simps) (simp add: assms(1,2) slice_swap_def Let_def)

definition on_beat :: "bool \<Rightarrow> f64" where
  "on_beat b = (if b then lit 1 1 else lit 0 1)"

lemma on_beat_less: "on_beat a < on_beat b \<longleftrightarrow> \<not> a \<and> b"
  by (cases a; cases b) (simp_all add: on_beat_def lit_def f64_eval)

lemma on_beat_greater: "total_cmp (on_beat a) (on_beat b) = Greater \<longleftrightarrow> a \<and> \<not> b"
  by (cases a; cases b) (simp_all add: on_beat_def total_cmp_def lit_def f64_eval)

lemmas legacy_eval = legacy_up_step legacy_down_step legacy_partition_step on_beat_less on_beat_greater
  swap_if_greater_def slot_def slice_swap_def

lemma legacy_example_upper:
  "legacy_quick_sort on_beat (Suc d) [False, True, False, False, True, True] 4 5 = Some [False, True, False, False, True, True]"
  by (simp add: legacy_quick_sort_step legacy_eval)

lemma legacy_example_lower:
  "legacy_quick_sort on_beat (Suc (Suc d)) [False, True, False, False, True, True] 0 2 = Some [False, False, True, False, True, True]"
  by (simp add: legacy_quick_sort_step legacy_eval)

text \<open>
  On objects out of order it need not sort, as the pivot is read again after it was swapped:
  six objects, at the time 1 where the flag is set and 0 where it is not.
\<close>

theorem legacy_sort_unsorted:
  "legacy_sort on_beat [False, True, True, False, False, True] = Some [False, False, True, False, True, True]
    \<and> \<not> sorted (map (key \<circ> on_beat) [False, False, True, False, True, True])"
proof -
  have "legacy_quick_sort on_beat (Suc (Suc (Suc d))) [False, True, True, False, False, True] 0 5 = Some [False, False, True, False, True, True]"
    for d by (simp add: legacy_quick_sort_step legacy_eval legacy_example_upper legacy_example_lower)
  from this [of 29] have "legacy_quick_sort on_beat 32 [False, True, True, False, False, True] 0 5
    = Some [False, False, True, False, True, True]" by simp
  moreover have "\<not> key (on_beat True) \<le> key (on_beat False)" by (simp add: on_beat_def lit_def f64_eval)
  moreover have "legacy_sort on_beat [False, True, True, False, False, True]
      = legacy_quick_sort on_beat 32 [False, True, True, False, False, True] 0 5"
    by (simp add: legacy_sort_def numeral_eq_Suc)
  ultimately show ?thesis by simp
qed

section \<open>Sorting several lists alike\<close>

text \<open>
  The sorter keeps, for every place, the index of the element that belongs there; the first bit of an
  index marks the places that are done. The comparison of the code is by a key here, whose order
  its callers use (\<open>total_cmp\<close> of the start times).
\<close>

record tandem_sorter =
  ts_indices :: "usize list"
  ts_should_reset :: bool

definition toggle_mark_idx :: "usize \<Rightarrow> usize" where
  "toggle_mark_idx idx = idx XOR NOT (drop_bit 1 (- 1))"

definition idx_is_marked :: "usize \<Rightarrow> bool" where
  "idx_is_marked idx = bit idx 63"

definition tandem_new_stable :: "('a \<Rightarrow> 'k::linorder) \<Rightarrow> 'a list \<Rightarrow> tandem_sorter" where
  "tandem_new_stable k keys = \<lparr>ts_indices = sort_key (\<lambda>i. k (keys ! unat i)) (map word_of_nat [0..<length keys]),
     ts_should_reset = False\<rparr>"

definition toggle_marks :: "usize list \<Rightarrow> usize list" where
  "toggle_marks = map toggle_mark_idx"

text \<open>Following the cycle of place \<open>i\<close>, from the place \<open>j\<close> on.\<close>

partial_function (option) follow_cycle ::
  "nat \<Rightarrow> nat \<Rightarrow> usize \<Rightarrow> usize list \<Rightarrow> 'a list \<Rightarrow> (usize list \<times> 'a list) option" where
  "follow_cycle i j j_idx indices keys =
    (if j_idx \<noteq> word_of_nat i then do {
       indices \<leftarrow> (if j < length indices then Some (indices[j := toggle_mark_idx j_idx]) else None);
       keys \<leftarrow> slice_swap keys j (unat j_idx);
       j_idx' \<leftarrow> slot indices (unat j_idx);
       follow_cycle i (unat j_idx) j_idx' indices keys }
     else if j < length indices then Some (indices[j := toggle_mark_idx j_idx], keys) else None)"

definition tandem_step :: "nat \<Rightarrow> usize list \<times> 'a list \<Rightarrow> (usize list \<times> 'a list) option" where
  "tandem_step i = (\<lambda>(indices, keys). do {
     i_idx \<leftarrow> slot indices i;
     if idx_is_marked i_idx then Some (indices, keys) else follow_cycle i i i_idx indices keys })"

definition tandem_sort :: "tandem_sorter \<Rightarrow> 'a list \<Rightarrow> (tandem_sorter \<times> 'a list) option" where
  "tandem_sort self keys =
    (let indices = (if ts_should_reset self then toggle_marks (ts_indices self) else ts_indices self) in do {
       (indices, keys) \<leftarrow> for_each [0..<length indices] tandem_step (indices, keys);
       Some (\<lparr>ts_indices = indices, ts_should_reset = True\<rparr>, keys) })"

section \<open>Marks\<close>

lemma toggle_toggle [simp]: "toggle_mark_idx (toggle_mark_idx i) = i"
  by (simp add: toggle_mark_idx_def xor.assoc)

lemma toggle_marks_twice: "toggle_marks (toggle_marks is) = is"
  by (simp add: toggle_marks_def comp_def)

lemma small_not_marked: "n < 2 ^ 63 \<Longrightarrow> \<not> idx_is_marked (word_of_nat n)"
proof -
  assume n: "n < 2 ^ 63"
  then have u: "unat (word_of_nat n :: usize) = n" by (simp add: unat_of_nat)
  have "bit (unat (word_of_nat n :: usize)) 63 \<longleftrightarrow> bit (word_of_nat n :: usize) 63"
    by (simp only: bit_unsigned_iff) simp
  then show ?thesis using n unfolding u idx_is_marked_def by (simp add: bit_iff_odd)
qed

lemma toggle_marked: "idx_is_marked (toggle_mark_idx i) \<longleftrightarrow> \<not> idx_is_marked i"
proof -
  have "bit (NOT (drop_bit 1 (- 1)) :: usize) 63" unfolding bit_not_iff bit_drop_bit_eq by simp
  then show ?thesis unfolding idx_is_marked_def toggle_mark_idx_def bit_xor_iff by blast
qed

section \<open>The order of the places\<close>

text \<open>
  While the lists are permuted by \<open>s\<close>: the places in \<open>D\<close> are done and marked, and place \<open>j\<close>
  holds the element that place \<open>i\<close> had.
\<close>

definition marked :: "(nat \<Rightarrow> nat) \<Rightarrow> nat \<Rightarrow> nat set \<Rightarrow> usize list" where
  "marked s n D = map (\<lambda>k. if k \<in> D then toggle_mark_idx (word_of_nat (s k)) else word_of_nat (s k)) [0..<n]"

definition moved :: "(nat \<Rightarrow> nat) \<Rightarrow> nat set \<Rightarrow> nat \<Rightarrow> nat \<Rightarrow> 'a list \<Rightarrow> 'a list" where
  "moved s D i j xs = map (\<lambda>k. if k \<in> D then xs ! s k else if k = j then xs ! i else xs ! k) [0..<length xs]"

lemma follow_cycle_moves:
  assumes perm: "\<And>k. k < n \<Longrightarrow> s k < n" "inj_on s {..<n}" and n: "length xs = n" "n < 2 ^ 63"
    and D: "D \<subseteq> {..<n}" "i < n" "j < n" "j \<notin> D" "i \<in> D \<or> i = j"
    and C: "\<And>k. k < n \<Longrightarrow> s k \<in> D \<Longrightarrow> k \<in> D \<or> s k = i"
    "j \<noteq> i \<Longrightarrow> \<exists>k\<in>D. s k = j" "\<And>k. k \<in> D \<Longrightarrow> s k \<in> D \<or> s k = j"
  shows "\<exists>D'. follow_cycle i j (word_of_nat (s j)) (marked s n D) (moved s D i j xs)
      = Some (marked s n D', map (\<lambda>k. if k \<in> D' then xs ! s k else xs ! k) [0..<n])
    \<and> D \<subseteq> D' \<and> j \<in> D' \<and> D' \<subseteq> {..<n} \<and> (\<forall>k<n. s k \<in> D' \<longleftrightarrow> k \<in> D')"
  using D C
proof (induction "card ({..<n} - D)" arbitrary: j D rule: less_induct)
  case less
  have unat: "unat (word_of_nat (s k) :: usize) = s k" if "k < n" for k
    using perm(1) [OF that] n(2) by (simp add: unat_of_nat)
  have unat_i: "unat (word_of_nat i :: usize) = i" using less.prems(2) n(2) by (simp add: unat_of_nat)
  have eq_i: "(word_of_nat (s j) :: usize) = word_of_nat i \<longleftrightarrow> s j = i"
    using unat [OF less.prems(3)] unat_i by metis
  have upd: "(marked s n D)[j := toggle_mark_idx (word_of_nat (s j))] = marked s n (insert j D)"
    using less.prems(3) by (intro nth_equalityI) (auto simp: marked_def nth_list_update)
  have lm: "length (marked s n D) = n" for D by (simp add: marked_def)
  show ?case
  proof (cases "s j = i")
    case True
    have "follow_cycle i j (word_of_nat (s j)) (marked s n D) (moved s D i j xs) = Some (marked s n (insert j D), moved s D i j xs)"
      using True eq_i upd less.prems(3) lm by (subst follow_cycle.simps) simp
    moreover have "moved s D i j xs = map (\<lambda>k. if k \<in> insert j D then xs ! s k else xs ! k) [0..<n]"
      using n(1) True less.prems(4) by (auto simp: moved_def)
    moreover have "s k \<in> insert j D \<longleftrightarrow> k \<in> insert j D" if "k < n" for k
    proof
      assume "s k \<in> insert j D"
      then consider "s k = j" | "s k \<in> D" by auto
      then show "k \<in> insert j D"
      proof cases
        case 1
        show ?thesis
        proof (cases "j = i")
          case True
          then show ?thesis using 1 \<open>s j = i\<close> perm(2) that less.prems(3) by (auto dest: inj_onD)
        next
          case False
          then obtain k' where "k' \<in> D" "s k' = j" using less.prems(7) by auto
          then show ?thesis using 1 perm(2) that less.prems(1) by (auto dest: inj_onD)
        qed
      next
        case 2
        then have "k \<in> D \<or> s k = i" using less.prems(6) that by blast
        then show ?thesis using \<open>s j = i\<close> perm(2) that less.prems(3) by (auto dest: inj_onD)
      qed
    next
      assume "k \<in> insert j D"
      then show "s k \<in> insert j D" using less.prems(5,8) True by auto
    qed
    ultimately show ?thesis using less.prems(1,3) by (intro exI [of _ "insert j D"]) auto
  next
    case False
    have sj: "s j < n" using perm(1) less.prems(3) by blast
    have nd: "s j \<notin> D" using less.prems(4) less.prems(6) [of j] False less.prems(3) by blast
    have nj: "s j \<noteq> j"
    proof
      assume fp: "s j = j"
      then obtain k where "k \<in> D" "s k = j" using less.prems(7) False by auto
      then have "k = j" using fp perm(2) less.prems(1,3) by (auto dest: inj_onD)
      then show False using less.prems(4) \<open>k \<in> D\<close> by simp
    qed
    have lx: "length (moved s D i j xs) = n" using n(1) by (simp add: moved_def)
    have swap: "slice_swap (moved s D i j xs) j (s j) = Some (moved s (insert j D) i (s j) xs)"
    proof -
      have "(moved s D i j xs)[j := moved s D i j xs ! s j, s j := moved s D i j xs ! j] = moved s (insert j D) i (s j) xs"
        using sj less.prems(3,4) nd nj n(1) by (intro nth_equalityI) (auto simp: moved_def nth_list_update)
      then show ?thesis using sj less.prems(3) lx by (simp add: slice_swap_def)
    qed
    have "slot (marked s n (insert j D)) (s j) = Some (word_of_nat (s (s j)))"
      using sj nd nj by (simp add: slot_def marked_def)
    then have step: "follow_cycle i j (word_of_nat (s j)) (marked s n D) (moved s D i j xs)
      = follow_cycle i (s j) (word_of_nat (s (s j))) (marked s n (insert j D)) (moved s (insert j D) i (s j) xs)"
      using False eq_i upd less.prems(3) lm swap unat by (subst follow_cycle.simps) simp
    have "\<exists>D'. follow_cycle i (s j) (word_of_nat (s (s j))) (marked s n (insert j D)) (moved s (insert j D) i (s j) xs)
        = Some (marked s n D', map (\<lambda>k. if k \<in> D' then xs ! s k else xs ! k) [0..<n])
      \<and> insert j D \<subseteq> D' \<and> s j \<in> D' \<and> D' \<subseteq> {..<n} \<and> (\<forall>k<n. s k \<in> D' \<longleftrightarrow> k \<in> D')"
    proof (rule less.hyps)
      show "card ({..<n} - insert j D) < card ({..<n} - D)"
        using less.prems(3,4) by (intro psubset_card_mono) auto
      show "insert j D \<subseteq> {..<n}" "i < n" "s j < n" "s j \<notin> insert j D" "i \<in> insert j D \<or> i = s j"
        using less.prems sj nd nj by auto
      show "k \<in> insert j D \<or> s k = i" if "k < n" "s k \<in> insert j D" for k
      proof (cases "s k = j")
        case True
        show ?thesis
        proof (cases "j = i")
          case False
          then obtain k' where "k' \<in> D" "s k' = j" using less.prems(7) by auto
          then show ?thesis using True perm(2) that less.prems(1) by (auto dest: inj_onD)
        qed (simp add: True)
      qed (use less.prems(6) that in auto)
      show "\<exists>k\<in>insert j D. s k = s j" by auto
      show "s k \<in> insert j D \<or> s k = s j" if "k \<in> insert j D" for k
        using less.prems(8) that by auto
    qed
    then obtain D' where D': "follow_cycle i (s j) (word_of_nat (s (s j))) (marked s n (insert j D)) (moved s (insert j D) i (s j) xs)
        = Some (marked s n D', map (\<lambda>k. if k \<in> D' then xs ! s k else xs ! k) [0..<n])"
      "insert j D \<subseteq> D'" "D' \<subseteq> {..<n}" "\<forall>k<n. s k \<in> D' \<longleftrightarrow> k \<in> D'" by blast
    show ?thesis unfolding step D'(1) by (rule exI [of _ D']) (use D' in simp)
  qed
qed

lemma tandem_loop:
  assumes perm: "\<And>k. k < n \<Longrightarrow> s k < n" "inj_on s {..<n}" and n: "length xs = n" "n < 2 ^ 63"
    and "m \<le> n" "{..<m} \<subseteq> D" "D \<subseteq> {..<n}" "\<forall>k<n. s k \<in> D \<longleftrightarrow> k \<in> D"
  shows "for_each [m..<n] tandem_step (marked s n D, map (\<lambda>k. if k \<in> D then xs ! s k else xs ! k) [0..<n])
    = Some (marked s n {..<n}, map (\<lambda>k. xs ! s k) [0..<n])"
  using assms(5-)
proof (induction "n - m" arbitrary: m D)
  case 0
  then have "D = {..<n}" "m = n" by auto
  then show ?case by (simp cong: map_cong)
next
  case (Suc r)
  then have m: "m < n" "[m..<n] = m # [m + 1..<n]" by (simp_all add: upt_conv_Cons)
  have sl: "slot (marked s n D) m = Some (if m \<in> D then toggle_mark_idx (word_of_nat (s m)) else word_of_nat (s m))"
    using m(1) by (simp add: slot_def marked_def)
  have nm: "\<not> idx_is_marked (word_of_nat (s m))" using perm(1) [OF m(1)] n(2) by (intro small_not_marked) simp
  have "\<exists>D'. tandem_step m (marked s n D, map (\<lambda>k. if k \<in> D then xs ! s k else xs ! k) [0..<n])
      = Some (marked s n D', map (\<lambda>k. if k \<in> D' then xs ! s k else xs ! k) [0..<n])
    \<and> {..<m + 1} \<subseteq> D' \<and> D' \<subseteq> {..<n} \<and> (\<forall>k<n. s k \<in> D' \<longleftrightarrow> k \<in> D')"
  proof (cases "m \<in> D")
    case True
    then show ?thesis using Suc.prems nm by (intro exI [of _ D]) (auto simp: tandem_step_def sl toggle_marked less_Suc_eq)
  next
    case False
    have start: "moved s D m m xs = map (\<lambda>k. if k \<in> D then xs ! s k else xs ! k) [0..<n]"
      using n(1) by (auto simp: moved_def)
    have "\<exists>D'. follow_cycle m m (word_of_nat (s m)) (marked s n D) (moved s D m m xs)
        = Some (marked s n D', map (\<lambda>k. if k \<in> D' then xs ! s k else xs ! k) [0..<n])
      \<and> D \<subseteq> D' \<and> m \<in> D' \<and> D' \<subseteq> {..<n} \<and> (\<forall>k<n. s k \<in> D' \<longleftrightarrow> k \<in> D')"
    proof (rule follow_cycle_moves [OF perm n])
      show "k \<in> D \<or> s k = m" if "k < n" "s k \<in> D" for k using Suc.prems(4) that by blast
      show "s k \<in> D \<or> s k = m" if "k \<in> D" for k using Suc.prems(3,4) that by blast
    qed (use Suc.prems m False in auto)
    then obtain D' where D': "follow_cycle m m (word_of_nat (s m)) (marked s n D) (map (\<lambda>k. if k \<in> D then xs ! s k else xs ! k) [0..<n])
        = Some (marked s n D', map (\<lambda>k. if k \<in> D' then xs ! s k else xs ! k) [0..<n])"
      "D \<subseteq> D'" "m \<in> D'" "D' \<subseteq> {..<n}" "\<forall>k<n. s k \<in> D' \<longleftrightarrow> k \<in> D'" unfolding start by blast
    show ?thesis
      by (rule exI [of _ D']) (use D' False nm Suc.prems(2) in \<open>auto simp: tandem_step_def sl less_Suc_eq\<close>)
  qed
  then obtain D' where D': "tandem_step m (marked s n D, map (\<lambda>k. if k \<in> D then xs ! s k else xs ! k) [0..<n])
      = Some (marked s n D', map (\<lambda>k. if k \<in> D' then xs ! s k else xs ! k) [0..<n])"
    "{..<m + 1} \<subseteq> D'" "D' \<subseteq> {..<n}" "\<forall>k<n. s k \<in> D' \<longleftrightarrow> k \<in> D'" by blast
  have "r = n - (m + 1)" "m + 1 \<le> n" using Suc.hyps(2) m by auto
  from Suc.hyps(1) [OF this D'(2-)] show ?case by (simp only: m(2) for_each.simps D'(1) bind.bind_lunit)
qed

lemma tandem_sort_ready:
  assumes "\<And>k. k < n \<Longrightarrow> s k < n" "inj_on s {..<n}" "length xs = n" "n < 2 ^ 63"
    and "sorter = \<lparr>ts_indices = marked s n (if reset then {..<n} else {}), ts_should_reset = reset\<rparr>"
  shows "tandem_sort sorter xs = Some (\<lparr>ts_indices = marked s n {..<n}, ts_should_reset = True\<rparr>, map (\<lambda>k. xs ! s k) [0..<n])"
proof -
  have "toggle_marks (marked s n {..<n}) = marked s n {}" by (simp add: toggle_marks_def marked_def)
  then have "(if ts_should_reset sorter then toggle_marks (ts_indices sorter) else ts_indices sorter) = marked s n {}"
    using assms(5) by simp
  moreover have "map (\<lambda>k. if k \<in> {} then xs ! s k else xs ! k) [0..<n] = xs" using map_nth [of xs] assms(3) by simp
  moreover have "length (marked s n {}) = n" by (simp add: marked_def)
  ultimately show ?thesis
    using tandem_loop [OF assms(1-4), of 0 "{}"] by (simp add: tandem_sort_def)
qed

text \<open>The sorter is made for the places in the order of a stable sort.\<close>

definition stable_order :: "('a \<Rightarrow> 'k::linorder) \<Rightarrow> 'a list \<Rightarrow> nat list" where
  "stable_order k xs = sort_key (\<lambda>i. k (xs ! i)) [0..<length xs]"

lemma map_sort_key_on:
  assumes "\<And>x. x \<in> set xs \<Longrightarrow> g (f x) = h x"
  shows "sort_key g (map f xs) = map f (sort_key h xs)"
  using assms
proof (induction xs)
  case (Cons x xs)
  have "insort_key g (f x) (map f ys) = map f (insort_key h x ys)" if "\<forall>y\<in>set ys. g (f y) = h y" for ys
    using that Cons.prems [of x] by (induction ys) auto
  then show ?case using Cons by simp
qed simp

lemma stable_order_perm:
  "length (stable_order k xs) = length xs" "i < length xs \<Longrightarrow> stable_order k xs ! i < length xs"
  "inj_on (\<lambda>i. stable_order k xs ! i) {..<length xs}"
proof -
  show l: "length (stable_order k xs) = length xs" by (simp add: stable_order_def)
  show "stable_order k xs ! i < length xs" if "i < length xs"
    using nth_mem [of i "stable_order k xs"] that l by (simp add: stable_order_def)
  have "distinct (stable_order k xs)" by (simp add: stable_order_def)
  then show "inj_on (\<lambda>i. stable_order k xs ! i) {..<length xs}"
    using l by (auto simp: inj_on_def nth_eq_iff_index_eq)
qed

lemma tandem_new_is:
  assumes "length xs < 2 ^ 63"
  shows "tandem_new_stable k xs = \<lparr>ts_indices = marked (\<lambda>i. stable_order k xs ! i) (length xs) {}, ts_should_reset = False\<rparr>"
proof -
  have "sort_key (\<lambda>i. k (xs ! unat i)) (map word_of_nat [0..<length xs] :: usize list) = map word_of_nat (stable_order k xs)"
    unfolding stable_order_def using assms by (intro map_sort_key_on) (simp add: unat_of_nat)
  also have "\<dots> = marked (\<lambda>i. stable_order k xs ! i) (length xs) {}"
    using stable_order_perm(1) [of k xs] by (intro nth_equalityI) (simp_all add: marked_def)
  finally show ?thesis by (simp add: tandem_new_stable_def)
qed

lemma by_stable_order:
  assumes "length ys = length xs"
  shows "map (\<lambda>i. ys ! (stable_order k xs ! i)) [0..<length xs] = map ((!) ys) (stable_order k xs)"
  using stable_order_perm(1) [of k xs] assms by (intro nth_equalityI) simp_all

lemma sort_by_stable_order: "map ((!) xs) (stable_order k xs) = sort_key k xs"
proof -
  have "sort_key k (map ((!) xs) [0..<length xs]) = map ((!) xs) (stable_order k xs)"
    unfolding stable_order_def by (intro map_sort_key_on) simp
  then show ?thesis by (simp add: map_nth)
qed

text \<open>
  C14. Sorting the list the sorter was made for, and then a second list of the same length, always
  returns, and is the stable sort of the pairs: objects keep their sounds.
\<close>

theorem tandem_sorts_pairs:
  assumes "length xs < 2 ^ 63" "length ys = length xs"
  shows "\<exists>ts ts' xs' ys'. tandem_sort (tandem_new_stable k xs) xs = Some (ts, xs') \<and> tandem_sort ts ys = Some (ts', ys')
    \<and> xs' = sort_key k xs \<and> zip xs' ys' = sort_key (k \<circ> fst) (zip xs ys) \<and> length ys' = length ys"
proof -
  let ?s = "\<lambda>i. stable_order k xs ! i" and ?n = "length xs"
  have one: "tandem_sort (tandem_new_stable k xs) xs
      = Some (\<lparr>ts_indices = marked ?s ?n {..<?n}, ts_should_reset = True\<rparr>, map (\<lambda>i. xs ! ?s i) [0..<?n])"
    by (rule tandem_sort_ready [where reset = False]) (use stable_order_perm assms tandem_new_is in auto)
  have two: "tandem_sort \<lparr>ts_indices = marked ?s ?n {..<?n}, ts_should_reset = True\<rparr> ys
      = Some (\<lparr>ts_indices = marked ?s ?n {..<?n}, ts_should_reset = True\<rparr>, map (\<lambda>i. ys ! ?s i) [0..<?n])"
    by (rule tandem_sort_ready [where reset = True]) (use stable_order_perm assms in auto)
  have "zip (map ((!) xs) (stable_order k xs)) (map ((!) ys) (stable_order k xs))
      = map (\<lambda>i. (xs ! i, ys ! i)) (stable_order k xs)"
    by (simp add: zip_map_map zip_same_conv_map)
  also have "\<dots> = map ((!) (zip xs ys)) (stable_order (k \<circ> fst) (zip xs ys))"
  proof -
    have "stable_order (k \<circ> fst) (zip xs ys) = stable_order k xs"
      unfolding stable_order_def
      using map_sort_key_on [of "[0..<length xs]" "\<lambda>i. (k \<circ> fst) (zip xs ys ! i)" id "\<lambda>i. k (xs ! i)"] assms(2) by simp
    moreover have "i \<in> set (stable_order k xs) \<Longrightarrow> i < length xs" for i by (simp add: stable_order_def)
    ultimately show ?thesis using assms(2) by (intro map_cong) auto
  qed
  also have "\<dots> = sort_key (k \<circ> fst) (zip xs ys)" by (rule sort_by_stable_order)
  finally show ?thesis using one two
    by (simp add: by_stable_order assms(2) sort_by_stable_order stable_order_perm(1))
qed

theorem tandem_sorts_pairs_witness:
  "\<exists>ts ts'. tandem_sort (tandem_new_stable id [3, 1, 2 :: nat]) [3, 1, 2 :: nat] = Some (ts, [1, 2, 3])
    \<and> tandem_sort ts [''c'', ''a'', ''b''] = Some (ts', [''a'', ''b'', ''c''])"
proof -
  obtain ts ts' xs' ys' where t: "tandem_sort (tandem_new_stable id [3, 1, 2 :: nat]) [3, 1, 2 :: nat] = Some (ts, xs')"
    "tandem_sort ts [''c'', ''a'', ''b''] = Some (ts', ys')" "xs' = sort_key id [3, 1, 2 :: nat]"
    "zip xs' ys' = sort_key (id \<circ> fst) (zip [3, 1, 2 :: nat] [''c'', ''a'', ''b''])"
    "length ys' = length [''c'', ''a'', ''b'']"
    using tandem_sorts_pairs [of "[3, 1, 2 :: nat]" "[''c'', ''a'', ''b'']" id] by auto
  have xs': "xs' = [1, 2, 3]" using t(3) by simp
  obtain a b c where "ys' = [a, b, c]" using t(5) by (auto simp: numeral_3_eq_3 length_Suc_conv)
  then have ys': "ys' = [''a'', ''b'', ''c'']" using t(4) xs' by simp
  show ?thesis using t(1,2) unfolding xs' ys' by blast
qed

end
