(* ===== verification/Any_Performance.thy ===== *)
theory Any_Performance
  imports Beatmap Osu_PP Mode_PP
begin

text \<open>
  The calculator for any mode (\<open>src/any/performance/mod.rs\<close>, \<open>src/any/performance/into.rs\<close>,
  \<open>src/any/attributes.rs\<close>): a value of one of the four calculators, whose settings, conversions and
  calculations go to that calculator. \<open>calculate\<close> and \<open>generate_state\<close> expect that no
  conversion fails; a failed expectation is \<open>None\<close>. What the difficulty calculation of a mode
  makes of a map of that mode is an argument, a partial function: \<open>None\<close> where it panics or
  does not return. That it converts the map first is modelled.
\<close>

section \<open>Attributes\<close>

datatype difficulty_attributes =
    DAOsu osu_difficulty_attributes
  | DATaiko taiko_difficulty_attributes
  | DACatch catch_difficulty_attributes
  | DAMania mania_difficulty_attributes

definition attributes_stars :: "difficulty_attributes \<Rightarrow> f64" where
  "attributes_stars self = (case self of
      DAOsu a \<Rightarrow> od_stars a
    | DATaiko a \<Rightarrow> td_stars a
    | DACatch a \<Rightarrow> cd_stars a
    | DAMania a \<Rightarrow> md_stars a)"

definition attributes_max_combo :: "difficulty_attributes \<Rightarrow> u32" where
  "attributes_max_combo self = (case self of
      DAOsu a \<Rightarrow> od_max_combo a
    | DATaiko a \<Rightarrow> td_max_combo a
    | DACatch a \<Rightarrow> catch_max_combo a
    | DAMania a \<Rightarrow> md_max_combo a)"

datatype performance_attributes =
    PAOsu osu_performance_attributes
  | PATaiko taiko_performance_attributes
  | PACatch catch_performance_attributes
  | PAMania mania_performance_attributes

definition performance_pp :: "performance_attributes \<Rightarrow> f64" where
  "performance_pp self = (case self of
      PAOsu a \<Rightarrow> oa_pp a
    | PATaiko a \<Rightarrow> ta_pp a
    | PACatch a \<Rightarrow> ca_pp a
    | PAMania a \<Rightarrow> ma_pp a)"

definition performance_stars :: "performance_attributes \<Rightarrow> f64" where
  "performance_stars self = (case self of
      PAOsu a \<Rightarrow> od_stars (oa_difficulty a)
    | PATaiko a \<Rightarrow> td_stars (ta_difficulty a)
    | PACatch a \<Rightarrow> cd_stars (ca_difficulty a)
    | PAMania a \<Rightarrow> md_stars (ma_difficulty a))"

definition performance_difficulty :: "performance_attributes \<Rightarrow> difficulty_attributes" where
  "performance_difficulty self = (case self of
      PAOsu a \<Rightarrow> DAOsu (oa_difficulty a)
    | PATaiko a \<Rightarrow> DATaiko (ta_difficulty a)
    | PACatch a \<Rightarrow> DACatch (ca_difficulty a)
    | PAMania a \<Rightarrow> DAMania (ma_difficulty a))"

definition performance_max_combo :: "performance_attributes \<Rightarrow> u32" where
  "performance_max_combo self = (case self of
      PAOsu a \<Rightarrow> od_max_combo (oa_difficulty a)
    | PATaiko a \<Rightarrow> td_max_combo (ta_difficulty a)
    | PACatch a \<Rightarrow> catch_max_combo (ca_difficulty a)
    | PAMania a \<Rightarrow> md_max_combo (ma_difficulty a))"

section \<open>The calculator and its settings\<close>

datatype ('mods, 'map) performance =
    OsuPerf "('mods, 'map) osu_performance"
  | TaikoPerf "('mods, 'map) taiko_performance"
  | CatchPerf "('mods, 'map) catch_performance"
  | ManiaPerf "('mods, 'map) mania_performance"

definition perf_set_mods :: "'mods \<Rightarrow> ('mods, 'map) performance \<Rightarrow> ('mods, 'map) performance" where
  "perf_set_mods v self = (case self of
      OsuPerf p \<Rightarrow> OsuPerf (osu_set_mods v p)
    | TaikoPerf p \<Rightarrow> TaikoPerf (taiko_set_mods v p)
    | CatchPerf p \<Rightarrow> CatchPerf (catch_set_mods v p)
    | ManiaPerf p \<Rightarrow> ManiaPerf (mania_set_mods v p))"

definition perf_set_difficulty :: "'mods difficulty \<Rightarrow> ('mods, 'map) performance \<Rightarrow> ('mods, 'map) performance" where
  "perf_set_difficulty v self = (case self of
      OsuPerf p \<Rightarrow> OsuPerf (osu_set_difficulty v p)
    | TaikoPerf p \<Rightarrow> TaikoPerf (taiko_set_difficulty v p)
    | CatchPerf p \<Rightarrow> CatchPerf (catch_set_difficulty v p)
    | ManiaPerf p \<Rightarrow> ManiaPerf (mania_set_difficulty v p))"

definition perf_set_passed_objects :: "u32 \<Rightarrow> ('mods, 'map) performance \<Rightarrow> ('mods, 'map) performance" where
  "perf_set_passed_objects v self = (case self of
      OsuPerf p \<Rightarrow> OsuPerf (osu_set_passed_objects v p)
    | TaikoPerf p \<Rightarrow> TaikoPerf (taiko_set_passed_objects v p)
    | CatchPerf p \<Rightarrow> CatchPerf (catch_set_passed_objects v p)
    | ManiaPerf p \<Rightarrow> ManiaPerf (mania_set_passed_objects v p))"

definition perf_set_clock_rate :: "f64 \<Rightarrow> ('mods, 'map) performance \<Rightarrow> ('mods, 'map) performance" where
  "perf_set_clock_rate v self = (case self of
      OsuPerf p \<Rightarrow> OsuPerf (osu_set_clock_rate v p)
    | TaikoPerf p \<Rightarrow> TaikoPerf (taiko_set_clock_rate v p)
    | CatchPerf p \<Rightarrow> CatchPerf (catch_set_clock_rate v p)
    | ManiaPerf p \<Rightarrow> ManiaPerf (mania_set_clock_rate v p))"

definition perf_set_ar :: "f32 \<Rightarrow> bool \<Rightarrow> ('mods, 'map) performance \<Rightarrow> ('mods, 'map) performance" where
  "perf_set_ar v with_mods self = (case self of
      OsuPerf p \<Rightarrow> OsuPerf (osu_set_ar v with_mods p)
    | TaikoPerf p \<Rightarrow> TaikoPerf p
    | CatchPerf p \<Rightarrow> CatchPerf (catch_set_ar v with_mods p)
    | ManiaPerf p \<Rightarrow> ManiaPerf p)"

definition perf_set_cs :: "f32 \<Rightarrow> bool \<Rightarrow> ('mods, 'map) performance \<Rightarrow> ('mods, 'map) performance" where
  "perf_set_cs v with_mods self = (case self of
      OsuPerf p \<Rightarrow> OsuPerf (osu_set_cs v with_mods p)
    | TaikoPerf p \<Rightarrow> TaikoPerf p
    | CatchPerf p \<Rightarrow> CatchPerf (catch_set_cs v with_mods p)
    | ManiaPerf p \<Rightarrow> ManiaPerf p)"

definition perf_set_hp :: "f32 \<Rightarrow> bool \<Rightarrow> ('mods, 'map) performance \<Rightarrow> ('mods, 'map) performance" where
  "perf_set_hp v with_mods self = (case self of
      OsuPerf p \<Rightarrow> OsuPerf (osu_set_hp v with_mods p)
    | TaikoPerf p \<Rightarrow> TaikoPerf (taiko_set_hp v with_mods p)
    | CatchPerf p \<Rightarrow> CatchPerf (catch_set_hp v with_mods p)
    | ManiaPerf p \<Rightarrow> ManiaPerf (mania_set_hp v with_mods p))"

definition perf_set_od :: "f32 \<Rightarrow> bool \<Rightarrow> ('mods, 'map) performance \<Rightarrow> ('mods, 'map) performance" where
  "perf_set_od v with_mods self = (case self of
      OsuPerf p \<Rightarrow> OsuPerf (osu_set_od v with_mods p)
    | TaikoPerf p \<Rightarrow> TaikoPerf (taiko_set_od v with_mods p)
    | CatchPerf p \<Rightarrow> CatchPerf (catch_set_od v with_mods p)
    | ManiaPerf p \<Rightarrow> ManiaPerf (mania_set_od v with_mods p))"

definition perf_set_hardrock_offsets :: "bool \<Rightarrow> ('mods, 'map) performance \<Rightarrow> ('mods, 'map) performance" where
  "perf_set_hardrock_offsets v self = (case self of
      OsuPerf p \<Rightarrow> OsuPerf p
    | TaikoPerf p \<Rightarrow> TaikoPerf p
    | CatchPerf p \<Rightarrow> CatchPerf (catch_set_hardrock_offsets v p)
    | ManiaPerf p \<Rightarrow> ManiaPerf p)"

definition perf_set_state :: "score_state \<Rightarrow> ('mods, 'map) performance \<Rightarrow> ('mods, 'map) performance" where
  "perf_set_state s self = (case self of
      OsuPerf p \<Rightarrow> OsuPerf (osu_set_state (to_osu s) p)
    | TaikoPerf p \<Rightarrow> TaikoPerf (taiko_set_state (to_taiko s) p)
    | CatchPerf p \<Rightarrow> CatchPerf (catch_set_state (to_catch s) p)
    | ManiaPerf p \<Rightarrow> ManiaPerf (mania_set_state (to_mania s) p))"

definition perf_set_accuracy :: "f64 \<Rightarrow> ('mods, 'map) performance \<Rightarrow> ('mods, 'map) performance" where
  "perf_set_accuracy v self = (case self of
      OsuPerf p \<Rightarrow> OsuPerf (osu_set_accuracy v p)
    | TaikoPerf p \<Rightarrow> TaikoPerf (taiko_set_accuracy v p)
    | CatchPerf p \<Rightarrow> CatchPerf (catch_set_accuracy v p)
    | ManiaPerf p \<Rightarrow> ManiaPerf (mania_set_accuracy v p))"

definition perf_set_misses :: "u32 \<Rightarrow> ('mods, 'map) performance \<Rightarrow> ('mods, 'map) performance" where
  "perf_set_misses v self = (case self of
      OsuPerf p \<Rightarrow> OsuPerf (osu_set_misses v p)
    | TaikoPerf p \<Rightarrow> TaikoPerf (taiko_set_misses v p)
    | CatchPerf p \<Rightarrow> CatchPerf (catch_set_misses v p)
    | ManiaPerf p \<Rightarrow> ManiaPerf (mania_set_misses v p))"

definition perf_set_combo :: "u32 \<Rightarrow> ('mods, 'map) performance \<Rightarrow> ('mods, 'map) performance" where
  "perf_set_combo v self = (case self of
      OsuPerf p \<Rightarrow> OsuPerf (osu_set_combo v p)
    | TaikoPerf p \<Rightarrow> TaikoPerf (taiko_set_combo v p)
    | CatchPerf p \<Rightarrow> CatchPerf (catch_set_combo v p)
    | ManiaPerf p \<Rightarrow> ManiaPerf p)"

definition perf_set_priority :: "hit_result_priority \<Rightarrow> ('mods, 'map) performance \<Rightarrow> ('mods, 'map) performance" where
  "perf_set_priority v self = (case self of
      OsuPerf p \<Rightarrow> OsuPerf (osu_set_priority v p)
    | TaikoPerf p \<Rightarrow> TaikoPerf (taiko_set_priority v p)
    | CatchPerf p \<Rightarrow> CatchPerf p
    | ManiaPerf p \<Rightarrow> ManiaPerf (mania_set_priority v p))"

definition perf_set_lazer :: "bool \<Rightarrow> ('mods, 'map) performance \<Rightarrow> ('mods, 'map) performance" where
  "perf_set_lazer v self = (case self of
      OsuPerf p \<Rightarrow> OsuPerf (osu_set_lazer v p)
    | TaikoPerf p \<Rightarrow> TaikoPerf p
    | CatchPerf p \<Rightarrow> CatchPerf p
    | ManiaPerf p \<Rightarrow> ManiaPerf (mania_set_lazer v p))"

definition perf_set_large_tick_hits :: "u32 \<Rightarrow> ('mods, 'map) performance \<Rightarrow> ('mods, 'map) performance" where
  "perf_set_large_tick_hits v self = (case self of
      OsuPerf p \<Rightarrow> OsuPerf (osu_set_large_tick_hits v p)
    | TaikoPerf p \<Rightarrow> TaikoPerf p
    | CatchPerf p \<Rightarrow> CatchPerf p
    | ManiaPerf p \<Rightarrow> ManiaPerf p)"

definition perf_set_small_tick_hits :: "u32 \<Rightarrow> ('mods, 'map) performance \<Rightarrow> ('mods, 'map) performance" where
  "perf_set_small_tick_hits v self = (case self of
      OsuPerf p \<Rightarrow> OsuPerf (osu_set_small_tick_hits v p)
    | TaikoPerf p \<Rightarrow> TaikoPerf p
    | CatchPerf p \<Rightarrow> CatchPerf p
    | ManiaPerf p \<Rightarrow> ManiaPerf p)"

definition perf_set_slider_end_hits :: "u32 \<Rightarrow> ('mods, 'map) performance \<Rightarrow> ('mods, 'map) performance" where
  "perf_set_slider_end_hits v self = (case self of
      OsuPerf p \<Rightarrow> OsuPerf (osu_set_slider_end_hits v p)
    | TaikoPerf p \<Rightarrow> TaikoPerf p
    | CatchPerf p \<Rightarrow> CatchPerf p
    | ManiaPerf p \<Rightarrow> ManiaPerf p)"

definition perf_set_n300 :: "u32 \<Rightarrow> ('mods, 'map) performance \<Rightarrow> ('mods, 'map) performance" where
  "perf_set_n300 v self = (case self of
      OsuPerf p \<Rightarrow> OsuPerf (osu_set_n300 v p)
    | TaikoPerf p \<Rightarrow> TaikoPerf (taiko_set_n300 v p)
    | CatchPerf p \<Rightarrow> CatchPerf (catch_set_fruits v p)
    | ManiaPerf p \<Rightarrow> ManiaPerf (mania_set_n300 v p))"

definition perf_set_n100 :: "u32 \<Rightarrow> ('mods, 'map) performance \<Rightarrow> ('mods, 'map) performance" where
  "perf_set_n100 v self = (case self of
      OsuPerf p \<Rightarrow> OsuPerf (osu_set_n100 v p)
    | TaikoPerf p \<Rightarrow> TaikoPerf (taiko_set_n100 v p)
    | CatchPerf p \<Rightarrow> CatchPerf (catch_set_droplets v p)
    | ManiaPerf p \<Rightarrow> ManiaPerf (mania_set_n100 v p))"

definition perf_set_n50 :: "u32 \<Rightarrow> ('mods, 'map) performance \<Rightarrow> ('mods, 'map) performance" where
  "perf_set_n50 v self = (case self of
      OsuPerf p \<Rightarrow> OsuPerf (osu_set_n50 v p)
    | TaikoPerf p \<Rightarrow> TaikoPerf p
    | CatchPerf p \<Rightarrow> CatchPerf (catch_set_tiny_droplets v p)
    | ManiaPerf p \<Rightarrow> ManiaPerf (mania_set_n50 v p))"

definition perf_set_n_katu :: "u32 \<Rightarrow> ('mods, 'map) performance \<Rightarrow> ('mods, 'map) performance" where
  "perf_set_n_katu v self = (case self of
      OsuPerf p \<Rightarrow> OsuPerf p
    | TaikoPerf p \<Rightarrow> TaikoPerf p
    | CatchPerf p \<Rightarrow> CatchPerf (catch_set_tiny_droplet_misses v p)
    | ManiaPerf p \<Rightarrow> ManiaPerf (mania_set_n200 v p))"

definition perf_set_n_geki :: "u32 \<Rightarrow> ('mods, 'map) performance \<Rightarrow> ('mods, 'map) performance" where
  "perf_set_n_geki v self = (case self of
      OsuPerf p \<Rightarrow> OsuPerf p
    | TaikoPerf p \<Rightarrow> TaikoPerf p
    | CatchPerf p \<Rightarrow> CatchPerf p
    | ManiaPerf p \<Rightarrow> ManiaPerf (mania_set_n320 v p))"

section \<open>Construction\<close>

text \<open>A map, borrowed or owned, decides the mode by its own; attributes carry their mode.\<close>

definition map_into_performance ::
  "'mods \<Rightarrow> ('p, 's) beatmap cow \<Rightarrow> ('mods, ('p, 's) beatmap cow) performance" where
  "map_into_performance default_mods bm = (case bm_mode (cow_get bm) of
      Osu \<Rightarrow> OsuPerf (osu_from_map_or_attrs default_mods (FromMap bm))
    | Taiko \<Rightarrow> TaikoPerf (taiko_from_map_or_attrs default_mods (FromMap bm))
    | Catch \<Rightarrow> CatchPerf (catch_from_map_or_attrs default_mods (FromMap bm))
    | Mania \<Rightarrow> ManiaPerf (mania_from_map_or_attrs default_mods (FromMap bm)))"

definition difficulty_into_performance :: "'mods \<Rightarrow> difficulty_attributes \<Rightarrow> ('mods, 'map) performance" where
  "difficulty_into_performance default_mods self = (case self of
      DAOsu a \<Rightarrow> OsuPerf (osu_from_map_or_attrs default_mods (FromAttrs a))
    | DATaiko a \<Rightarrow> TaikoPerf (taiko_from_map_or_attrs default_mods (FromAttrs a))
    | DACatch a \<Rightarrow> CatchPerf (catch_from_map_or_attrs default_mods (FromAttrs a))
    | DAMania a \<Rightarrow> ManiaPerf (mania_from_map_or_attrs default_mods (FromAttrs a)))"

definition performance_into_performance :: "'mods \<Rightarrow> performance_attributes \<Rightarrow> ('mods, 'map) performance" where
  "performance_into_performance default_mods self = (case self of
      PAOsu a \<Rightarrow> OsuPerf (osu_from_map_or_attrs default_mods (FromAttrs (oa_difficulty a)))
    | PATaiko a \<Rightarrow> TaikoPerf (taiko_from_map_or_attrs default_mods (FromAttrs (ta_difficulty a)))
    | PACatch a \<Rightarrow> CatchPerf (catch_from_map_or_attrs default_mods (FromAttrs (ca_difficulty a)))
    | PAMania a \<Rightarrow> ManiaPerf (mania_from_map_or_attrs default_mods (FromAttrs (ma_difficulty a))))"

definition osu_try_new :: "('mods, 'map) performance \<Rightarrow> ('mods, 'map) osu_performance option" where
  "osu_try_new into = (case into of OsuPerf calc \<Rightarrow> Some calc | _ \<Rightarrow> None)"

section \<open>Conversion\<close>

text \<open>\<open>Err\<close> is \<open>Inl\<close> and gives the calculator back.\<close>

definition try_convert_map ::
  "('p, 's, 'mods) converters \<Rightarrow> (('p, 's) beatmap cow, 'attrs) map_or_attrs \<Rightarrow> game_mode \<Rightarrow> 'mods
    \<Rightarrow> (('p, 's) beatmap cow, 'attrs) map_or_attrs + ('p, 's) beatmap cow" where
  "try_convert_map cv map_or_attrs mode mods = (case map_or_attrs of
      FromAttrs _ \<Rightarrow> Inl map_or_attrs
    | FromMap (Borrowed bm) \<Rightarrow> (case convert_ref cv mode mods bm of
          Inr converted \<Rightarrow> Inr converted
        | Inl _ \<Rightarrow> Inl (FromMap (Borrowed bm)))
    | FromMap (Owned bm) \<Rightarrow> (case convert_mut cv mode mods bm of
          Inl _ \<Rightarrow> Inl (FromMap (Owned bm))
        | Inr converted \<Rightarrow> Inr (Owned converted)))"

definition osu_try_into_taiko ::
  "('p, 's, 'mods) converters \<Rightarrow> ('mods, ('p, 's) beatmap cow) osu_performance
    \<Rightarrow> ('mods, ('p, 's) beatmap cow) osu_performance + ('mods, ('p, 's) beatmap cow) taiko_performance" where
  "osu_try_into_taiko cv osu =
    (case try_convert_map cv (op_map_or_attrs osu) Taiko (d_mods (op_difficulty osu)) of
      Inl m \<Rightarrow> Inl (osu\<lparr>op_map_or_attrs := m\<rparr>)
    | Inr bm \<Rightarrow> Inr \<lparr>tp_map_or_attrs = FromMap bm, tp_difficulty = op_difficulty osu, tp_combo = op_combo osu,
        tp_acc = op_acc osu, tp_priority = op_priority osu, tp_n300 = op_n300 osu, tp_n100 = op_n100 osu,
        tp_misses = op_misses osu\<rparr>)"

definition osu_try_into_catch ::
  "('p, 's, 'mods) converters \<Rightarrow> ('mods, ('p, 's) beatmap cow) osu_performance
    \<Rightarrow> ('mods, ('p, 's) beatmap cow) osu_performance + ('mods, ('p, 's) beatmap cow) catch_performance" where
  "osu_try_into_catch cv osu =
    (case try_convert_map cv (op_map_or_attrs osu) Catch (d_mods (op_difficulty osu)) of
      Inl m \<Rightarrow> Inl (osu\<lparr>op_map_or_attrs := m\<rparr>)
    | Inr bm \<Rightarrow> Inr \<lparr>cp_map_or_attrs = FromMap bm, cp_difficulty = op_difficulty osu, cp_acc = op_acc osu,
        cp_combo = op_combo osu, cp_fruits = op_n300 osu, cp_droplets = op_n100 osu, cp_tiny_droplets = op_n50 osu,
        cp_tiny_droplet_misses = None, cp_misses = op_misses osu\<rparr>)"

definition osu_try_into_mania ::
  "('p, 's, 'mods) converters \<Rightarrow> ('mods, ('p, 's) beatmap cow) osu_performance
    \<Rightarrow> ('mods, ('p, 's) beatmap cow) osu_performance + ('mods, ('p, 's) beatmap cow) mania_performance" where
  "osu_try_into_mania cv osu =
    (case try_convert_map cv (op_map_or_attrs osu) Mania (d_mods (op_difficulty osu)) of
      Inl m \<Rightarrow> Inl (osu\<lparr>op_map_or_attrs := m\<rparr>)
    | Inr bm \<Rightarrow> Inr \<lparr>mp_map_or_attrs = FromMap bm, mp_difficulty = op_difficulty osu, mp_n320 = None,
        mp_n300 = op_n300 osu, mp_n200 = None, mp_n100 = op_n100 osu, mp_n50 = op_n50 osu,
        mp_misses = op_misses osu, mp_acc = op_acc osu, mp_priority = op_priority osu\<rparr>)"

definition osu_try_mode ::
  "('p, 's, 'mods) converters \<Rightarrow> game_mode \<Rightarrow> ('mods, ('p, 's) beatmap cow) osu_performance
    \<Rightarrow> ('mods, ('p, 's) beatmap cow) osu_performance + ('mods, ('p, 's) beatmap cow) performance" where
  "osu_try_mode cv mode self = (case mode of
      Osu \<Rightarrow> Inr (OsuPerf self)
    | Taiko \<Rightarrow> map_sum id TaikoPerf (osu_try_into_taiko cv self)
    | Catch \<Rightarrow> map_sum id CatchPerf (osu_try_into_catch cv self)
    | Mania \<Rightarrow> map_sum id ManiaPerf (osu_try_into_mania cv self))"

definition osu_mode_or_ignore ::
  "('p, 's, 'mods) converters \<Rightarrow> game_mode \<Rightarrow> ('mods, ('p, 's) beatmap cow) osu_performance
    \<Rightarrow> ('mods, ('p, 's) beatmap cow) performance" where
  "osu_mode_or_ignore cv mode self = (case mode of
      Osu \<Rightarrow> OsuPerf self
    | Taiko \<Rightarrow> case_sum OsuPerf TaikoPerf (osu_try_into_taiko cv self)
    | Catch \<Rightarrow> case_sum OsuPerf CatchPerf (osu_try_into_catch cv self)
    | Mania \<Rightarrow> case_sum OsuPerf ManiaPerf (osu_try_into_mania cv self))"

definition perf_try_mode ::
  "('p, 's, 'mods) converters \<Rightarrow> game_mode \<Rightarrow> ('mods, ('p, 's) beatmap cow) performance
    \<Rightarrow> ('mods, ('p, 's) beatmap cow) performance + ('mods, ('p, 's) beatmap cow) performance" where
  "perf_try_mode cv mode self = (case (self, mode) of
      (OsuPerf osu, _) \<Rightarrow> map_sum OsuPerf id (osu_try_mode cv mode osu)
    | (TaikoPerf _, Taiko) \<Rightarrow> Inr self
    | (CatchPerf _, Catch) \<Rightarrow> Inr self
    | (ManiaPerf _, Mania) \<Rightarrow> Inr self
    | _ \<Rightarrow> Inl self)"

definition perf_mode_or_ignore ::
  "('p, 's, 'mods) converters \<Rightarrow> game_mode \<Rightarrow> ('mods, ('p, 's) beatmap cow) performance
    \<Rightarrow> ('mods, ('p, 's) beatmap cow) performance" where
  "perf_mode_or_ignore cv mode self = (case self of OsuPerf osu \<Rightarrow> osu_mode_or_ignore cv mode osu | _ \<Rightarrow> self)"

section \<open>Calculation\<close>

text \<open>
  What the calculation depends on: the crate of mods, the mathematical functions of the standard
  library, the converters, and what the difficulty calculation of each mode makes of a map of its
  mode, \<open>None\<close> where the calculation panics or does not return.
\<close>

record ('l, 'i, 'g, 'p, 's) environment =
  env_api :: "('l, 'i, 'g) rosu_mods"
  env_libm :: libm
  env_converters :: "('p, 's, ('l, 'i, 'g) game_mods) converters"
  env_osu :: "('l, 'i, 'g) game_mods difficulty \<Rightarrow> ('p, 's) beatmap \<Rightarrow> osu_difficulty_attributes option"
  env_taiko :: "('l, 'i, 'g) game_mods difficulty \<Rightarrow> ('p, 's) beatmap \<Rightarrow> taiko_difficulty_attributes option"
  env_catch :: "('l, 'i, 'g) game_mods difficulty \<Rightarrow> ('p, 's) beatmap \<Rightarrow> catch_difficulty_attributes option"
  env_mania :: "('l, 'i, 'g) game_mods difficulty \<Rightarrow> ('p, 's) beatmap \<Rightarrow> mania_difficulty_attributes option"

text \<open>
  \<open>IGameMode::difficulty\<close>: the map is converted to the mode, where it is not of the mode. Its
  \<open>ConvertError\<close> is \<open>Refused\<close>; \<open>Stuck\<close> stands for a calculation that panics or
  does not return, after which nothing else happens.
\<close>

datatype failure = Refused convert_error | Stuck

definition mode_difficulty ::
  "('p, 's, 'mods) converters \<Rightarrow> game_mode \<Rightarrow> ('mods difficulty \<Rightarrow> ('p, 's) beatmap \<Rightarrow> 'attrs option)
    \<Rightarrow> 'mods difficulty \<Rightarrow> ('p, 's) beatmap \<Rightarrow> failure + 'attrs" where
  "mode_difficulty cv mode values_of d bm = (case convert_ref cv mode (d_mods d) bm of
      Inl e \<Rightarrow> Inl (Refused e)
    | Inr bm' \<Rightarrow> (case values_of d (cow_get bm') of None \<Rightarrow> Inl Stuck | Some attrs \<Rightarrow> Inr attrs))"

text \<open>\<open>expect\<close> of a result: no value where the result is an error, or never comes.\<close>

definition expect :: "'e + 'a \<Rightarrow> 'a option" where
  "expect r = (case r of Inl _ \<Rightarrow> None | Inr a \<Rightarrow> Some a)"

definition difficulty_calculate ::
  "('l, 'i, 'g, 'p, 's) environment \<Rightarrow> ('l, 'i, 'g) game_mods difficulty \<Rightarrow> ('p, 's) beatmap
    \<Rightarrow> difficulty_attributes option" where
  "difficulty_calculate env self bm = (case bm_mode bm of
      Osu \<Rightarrow> map_option DAOsu (expect (mode_difficulty (env_converters env) Osu (env_osu env) self bm))
    | Taiko \<Rightarrow> map_option DATaiko (expect (mode_difficulty (env_converters env) Taiko (env_taiko env) self bm))
    | Catch \<Rightarrow> map_option DACatch (expect (mode_difficulty (env_converters env) Catch (env_catch env) self bm))
    | Mania \<Rightarrow> map_option DAMania (expect (mode_difficulty (env_converters env) Mania (env_mania env) self bm)))"

text \<open>The same for a map that a calculator holds.\<close>

definition held_difficulty ::
  "('p, 's, 'mods) converters \<Rightarrow> game_mode \<Rightarrow> ('mods difficulty \<Rightarrow> ('p, 's) beatmap \<Rightarrow> 'attrs option)
    \<Rightarrow> 'mods difficulty \<Rightarrow> ('p, 's) beatmap cow \<Rightarrow> failure + 'attrs" where
  "held_difficulty cv mode values_of d bm = mode_difficulty cv mode values_of d (cow_get bm)"

definition perf_calculate ::
  "('l, 'i, 'g, 'p, 's) environment \<Rightarrow> (('l, 'i, 'g) game_mods, ('p, 's) beatmap cow) performance
    \<Rightarrow> performance_attributes option" where
  "perf_calculate env self = (let cv = env_converters env in case self of
      OsuPerf p \<Rightarrow> map_option PAOsu
        (expect (osu_performance_calculate (env_api env) (env_libm env) (held_difficulty cv Osu (env_osu env)) p))
    | TaikoPerf p \<Rightarrow> map_option PATaiko
        (expect (taiko_performance_calculate (env_api env) (env_libm env) (held_difficulty cv Taiko (env_taiko env)) p))
    | CatchPerf p \<Rightarrow> map_option PACatch
        (expect (catch_performance_calculate (env_api env) (env_libm env) (held_difficulty cv Catch (env_catch env)) p))
    | ManiaPerf p \<Rightarrow> map_option PAMania
        (expect (mania_performance_calculate (env_api env) (env_libm env) (held_difficulty cv Mania (env_mania env)) p)))"

definition perf_generate_state ::
  "('l, 'i, 'g, 'p, 's) environment \<Rightarrow> (('l, 'i, 'g) game_mods, ('p, 's) beatmap cow) performance
    \<Rightarrow> (score_state \<times> (('l, 'i, 'g) game_mods, ('p, 's) beatmap cow) performance) option" where
  "perf_generate_state env self = (let cv = env_converters env in case self of
      OsuPerf p \<Rightarrow> map_option (map_prod of_osu OsuPerf)
        (expect (osu_generate_state (no_slider_head_acc (env_api env)) (held_difficulty cv Osu (env_osu env)) p))
    | TaikoPerf p \<Rightarrow> map_option (map_prod of_taiko TaikoPerf)
        (expect (taiko_generate_state (held_difficulty cv Taiko (env_taiko env)) p))
    | CatchPerf p \<Rightarrow> map_option (map_prod of_catch CatchPerf)
        (expect (catch_generate_state (held_difficulty cv Catch (env_catch env)) p))
    | ManiaPerf p \<Rightarrow> map_option (map_prod of_mania ManiaPerf)
        (expect (mania_generate_state (held_difficulty cv Mania (env_mania env)) p)))"

section \<open>Steps\<close>

text \<open>
  The public methods of \<open>Performance\<close>, in any order and number; \<open>legacy_total_score\<close>, which
  only \<open>OsuPerformance\<close> has, is set inside of the variant.
\<close>

inductive perf_step ::
  "('l, 'i, 'g, 'p, 's) environment \<Rightarrow> (('l, 'i, 'g) game_mods, ('p, 's) beatmap cow) performance
    \<Rightarrow> (('l, 'i, 'g) game_mods, ('p, 's) beatmap cow) performance \<Rightarrow> bool" for env where
  mods: "perf_step env p (perf_set_mods v p)"
| difficulty: "perf_step env p (perf_set_difficulty v p)"
| passed_objects: "perf_step env p (perf_set_passed_objects v p)"
| clock_rate: "perf_step env p (perf_set_clock_rate v p)"
| ar: "perf_step env p (perf_set_ar v w p)"
| cs: "perf_step env p (perf_set_cs v w p)"
| hp: "perf_step env p (perf_set_hp v w p)"
| od: "perf_step env p (perf_set_od v w p)"
| hardrock_offsets: "perf_step env p (perf_set_hardrock_offsets v p)"
| state: "perf_step env p (perf_set_state v p)"
| accuracy: "perf_step env p (perf_set_accuracy v p)"
| misses: "perf_step env p (perf_set_misses v p)"
| combo: "perf_step env p (perf_set_combo v p)"
| priority: "perf_step env p (perf_set_priority v p)"
| lazer: "perf_step env p (perf_set_lazer v p)"
| large_tick_hits: "perf_step env p (perf_set_large_tick_hits v p)"
| small_tick_hits: "perf_step env p (perf_set_small_tick_hits v p)"
| slider_end_hits: "perf_step env p (perf_set_slider_end_hits v p)"
| n300: "perf_step env p (perf_set_n300 v p)"
| n100: "perf_step env p (perf_set_n100 v p)"
| n50: "perf_step env p (perf_set_n50 v p)"
| n_katu: "perf_step env p (perf_set_n_katu v p)"
| n_geki: "perf_step env p (perf_set_n_geki v p)"
| converted: "perf_try_mode (env_converters env) mode p = Inr q \<Longrightarrow> perf_step env p q"
| not_converted: "perf_try_mode (env_converters env) mode p = Inl q \<Longrightarrow> perf_step env p q"
| mode_or_ignore: "perf_step env p (perf_mode_or_ignore (env_converters env) mode p)"
| legacy_total_score: "perf_step env (OsuPerf x) (OsuPerf (osu_set_legacy_total_score w x))"
| generated: "perf_generate_state env p = Some (s, q) \<Longrightarrow> perf_step env p q"

text \<open>
  The calculators made by \<open>Performance::new\<close> and changed by these methods. A value of the type
  can also be made from the calculator of a mode, \<open>Performance::Osu(OsuPerformance::new(map))\<close>
  or \<open>OsuPerformance::new(map).mode_or_ignore(mode)\<close>, with a map of any mode: these are not
  among them, and what is said of all calculators below is said of these, too.
\<close>

inductive perf_made ::
  "('l, 'i, 'g, 'p, 's) environment \<Rightarrow> (('l, 'i, 'g) game_mods, ('p, 's) beatmap cow) performance \<Rightarrow> bool" for env where
  of_map: "perf_made env (map_into_performance m bm)"
| of_difficulty: "perf_made env (difficulty_into_performance m a)"
| of_performance: "perf_made env (performance_into_performance m b)"
| stepped: "perf_made env p \<Longrightarrow> perf_step env p q \<Longrightarrow> perf_made env q"

section \<open>Settings\<close>

lemmas setters = perf_set_mods_def perf_set_difficulty_def perf_set_passed_objects_def perf_set_clock_rate_def perf_set_ar_def
  perf_set_cs_def perf_set_hp_def perf_set_od_def perf_set_hardrock_offsets_def perf_set_state_def
  perf_set_accuracy_def perf_set_misses_def perf_set_combo_def perf_set_priority_def perf_set_lazer_def
  perf_set_large_tick_hits_def perf_set_small_tick_hits_def perf_set_slider_end_hits_def perf_set_n300_def
  perf_set_n100_def perf_set_n50_def perf_set_n_katu_def perf_set_n_geki_def

lemmas mode_setters = catch_set_accuracy_def catch_set_ar_def catch_set_clock_rate_def catch_set_combo_def catch_set_cs_def
  catch_set_difficulty_def catch_set_droplets_def catch_set_fruits_def catch_set_hardrock_offsets_def
  catch_set_hp_def catch_set_misses_def catch_set_mods_def catch_set_od_def catch_set_passed_objects_def
  catch_set_state_def catch_set_tiny_droplet_misses_def catch_set_tiny_droplets_def mania_set_accuracy_def
  mania_set_clock_rate_def mania_set_difficulty_def mania_set_hp_def mania_set_lazer_def mania_set_misses_def
  mania_set_mods_def mania_set_n100_def mania_set_n200_def mania_set_n300_def mania_set_n320_def mania_set_n50_def
  mania_set_od_def mania_set_passed_objects_def mania_set_priority_def mania_set_state_def osu_set_accuracy_def
  osu_set_ar_def osu_set_clock_rate_def osu_set_combo_def osu_set_cs_def osu_set_difficulty_def osu_set_hp_def
  osu_set_large_tick_hits_def osu_set_legacy_total_score_def osu_set_lazer_def osu_set_misses_def osu_set_mods_def osu_set_n100_def
  osu_set_n300_def osu_set_n50_def osu_set_od_def osu_set_passed_objects_def osu_set_priority_def
  osu_set_slider_end_hits_def osu_set_small_tick_hits_def osu_set_state_def taiko_set_accuracy_def
  taiko_set_clock_rate_def taiko_set_combo_def taiko_set_difficulty_def taiko_set_hp_def taiko_set_misses_def
  taiko_set_mods_def taiko_set_n100_def taiko_set_n300_def taiko_set_od_def taiko_set_passed_objects_def
  taiko_set_priority_def taiko_set_state_def

definition perf_mode :: "('mods, 'map) performance \<Rightarrow> game_mode" where
  "perf_mode p = (case p of OsuPerf _ \<Rightarrow> Osu | TaikoPerf _ \<Rightarrow> Taiko | CatchPerf _ \<Rightarrow> Catch | ManiaPerf _ \<Rightarrow> Mania)"

definition held_map :: "('map, 'attrs) map_or_attrs \<Rightarrow> 'map option" where
  "held_map m = (case m of FromMap bm \<Rightarrow> Some bm | FromAttrs _ \<Rightarrow> None)"

definition perf_map :: "('mods, 'map) performance \<Rightarrow> 'map option" where
  "perf_map p = (case p of
      OsuPerf p \<Rightarrow> held_map (op_map_or_attrs p)
    | TaikoPerf p \<Rightarrow> held_map (tp_map_or_attrs p)
    | CatchPerf p \<Rightarrow> held_map (cp_map_or_attrs p)
    | ManiaPerf p \<Rightarrow> held_map (mp_map_or_attrs p))"

lemmas perf_views = perf_mode_def perf_map_def

text \<open>A setting changes neither the mode nor the map.\<close>

lemma setter_views:
  "perf_mode (OsuPerf (osu_set_legacy_total_score u z)) = perf_mode (OsuPerf z)"
  "perf_map (OsuPerf (osu_set_legacy_total_score u z)) = perf_map (OsuPerf z)"
  "perf_mode (perf_set_mods m p) = perf_mode p"
  "perf_mode (perf_set_difficulty d p) = perf_mode p"
  "perf_mode (perf_set_passed_objects n p) = perf_mode p"
  "perf_mode (perf_set_clock_rate x p) = perf_mode p"
  "perf_mode (perf_set_ar y w p) = perf_mode p"
  "perf_mode (perf_set_cs y w p) = perf_mode p"
  "perf_mode (perf_set_hp y w p) = perf_mode p"
  "perf_mode (perf_set_od y w p) = perf_mode p"
  "perf_mode (perf_set_hardrock_offsets w p) = perf_mode p"
  "perf_mode (perf_set_state s p) = perf_mode p"
  "perf_mode (perf_set_accuracy x p) = perf_mode p"
  "perf_mode (perf_set_misses n p) = perf_mode p"
  "perf_mode (perf_set_combo n p) = perf_mode p"
  "perf_mode (perf_set_priority r p) = perf_mode p"
  "perf_mode (perf_set_lazer w p) = perf_mode p"
  "perf_mode (perf_set_large_tick_hits n p) = perf_mode p"
  "perf_mode (perf_set_small_tick_hits n p) = perf_mode p"
  "perf_mode (perf_set_slider_end_hits n p) = perf_mode p"
  "perf_mode (perf_set_n300 n p) = perf_mode p"
  "perf_mode (perf_set_n100 n p) = perf_mode p"
  "perf_mode (perf_set_n50 n p) = perf_mode p"
  "perf_mode (perf_set_n_katu n p) = perf_mode p"
  "perf_mode (perf_set_n_geki n p) = perf_mode p"
  "perf_map (perf_set_mods m p) = perf_map p"
  "perf_map (perf_set_difficulty d p) = perf_map p"
  "perf_map (perf_set_passed_objects n p) = perf_map p"
  "perf_map (perf_set_clock_rate x p) = perf_map p"
  "perf_map (perf_set_ar y w p) = perf_map p"
  "perf_map (perf_set_cs y w p) = perf_map p"
  "perf_map (perf_set_hp y w p) = perf_map p"
  "perf_map (perf_set_od y w p) = perf_map p"
  "perf_map (perf_set_hardrock_offsets w p) = perf_map p"
  "perf_map (perf_set_state s p) = perf_map p"
  "perf_map (perf_set_accuracy x p) = perf_map p"
  "perf_map (perf_set_misses n p) = perf_map p"
  "perf_map (perf_set_combo n p) = perf_map p"
  "perf_map (perf_set_priority r p) = perf_map p"
  "perf_map (perf_set_lazer w p) = perf_map p"
  "perf_map (perf_set_large_tick_hits n p) = perf_map p"
  "perf_map (perf_set_small_tick_hits n p) = perf_map p"
  "perf_map (perf_set_slider_end_hits n p) = perf_map p"
  "perf_map (perf_set_n300 n p) = perf_map p"
  "perf_map (perf_set_n100 n p) = perf_map p"
  "perf_map (perf_set_n50 n p) = perf_map p"
  "perf_map (perf_set_n_katu n p) = perf_map p"
  "perf_map (perf_set_n_geki n p) = perf_map p"
  by (simp_all add: setters mode_setters perf_views split: performance.split)


section \<open>Conversions\<close>

text \<open>What the converters of the modes promise.\<close>

definition modes_set :: "('p, 's, 'mods) converters \<Rightarrow> bool" where
  "modes_set cv \<longleftrightarrow> (\<forall>bm. bm_mode (convert_taiko cv bm) = Taiko) \<and> (\<forall>bm. bm_mode (convert_catch cv bm) = Catch)
    \<and> (\<forall>m bm. bm_mode (convert_mania cv m bm) = Mania)"

definition perf_typed :: "('mods, ('p, 's) beatmap cow) performance \<Rightarrow> bool" where
  "perf_typed p = map_or True (\<lambda>bm. bm_mode (cow_get bm) = perf_mode p) (perf_map p)"

lemma cow_get_simps [simp]: "cow_get (Borrowed bm) = bm" "cow_get (Owned bm) = bm"
  by (simp_all add: cow_get_def)

lemma converted_mode:
  assumes "modes_set cv"
  shows "convert_ref cv mode m bm = Inr c \<Longrightarrow> bm_mode (cow_get c) = mode"
    and "convert_mut cv mode m bm = Inr b \<Longrightarrow> bm_mode b = mode"
  using assms by (auto simp: convert_ref_def convert_mut_def check_convert_def modes_set_def
    split: if_splits game_mode.splits)

lemma try_convert_map_cases:
  shows "try_convert_map cv x mode m = Inl y \<Longrightarrow> y = x"
    and "try_convert_map cv x mode m = Inr c \<Longrightarrow> modes_set cv \<Longrightarrow> bm_mode (cow_get c) = mode"
  by (auto simp: try_convert_map_def dest: converted_mode split: map_or_attrs.splits cow.splits sum.splits)

text \<open>A conversion needs a map that allows it; it fails with everything unchanged.\<close>

lemma try_convert_map_fails:
  "(\<exists>y. try_convert_map cv x mode m = Inl y) \<longleftrightarrow>
    map_or True (\<lambda>bm. check_convert mode (cow_get bm) \<noteq> None) (held_map x)"
  by (auto simp: try_convert_map_def held_map_def convert_ref_def convert_mut_def check_convert_def
    split: map_or_attrs.splits cow.splits sum.splits if_splits game_mode.splits)

lemmas try_intos = osu_try_into_taiko_def osu_try_into_catch_def osu_try_into_mania_def

lemma try_into_fails:
  shows "osu_try_into_taiko cv p = Inl q \<Longrightarrow> q = p" "osu_try_into_catch cv p = Inl q \<Longrightarrow> q = p"
    "osu_try_into_mania cv p = Inl q \<Longrightarrow> q = p"
  by (auto simp: try_intos dest: try_convert_map_cases(1) split: sum.splits)

lemma osu_try_mode_cases:
  shows "osu_try_mode cv mode p = Inl q \<Longrightarrow> q = p"
    and "osu_try_mode cv mode p = Inr r \<Longrightarrow> perf_mode r = mode"
  by (auto simp: osu_try_mode_def perf_mode_def map_sum_def dest: try_into_fails split: game_mode.splits sum.splits)

lemma perf_try_mode_cases:
  shows "perf_try_mode cv mode p = Inl q \<Longrightarrow> q = p"
    and "perf_try_mode cv mode p = Inr r \<Longrightarrow> perf_mode r = mode"
  by (auto simp: perf_try_mode_def map_sum_def perf_mode_def dest: osu_try_mode_cases
      split: performance.splits game_mode.splits sum.splits)

lemma perf_try_mode_typed:
  assumes "modes_set cv" "perf_typed p" "perf_try_mode cv mode p = Inr r"
  shows "perf_typed r"
  using assms
  by (auto simp: perf_try_mode_def osu_try_mode_def try_intos perf_typed_def perf_views held_map_def map_sum_def
      dest: try_convert_map_cases(2) split: performance.splits game_mode.splits sum.splits)

section \<open>Calculations\<close>

definition perf_difficulty :: "('mods, 'map) performance \<Rightarrow> 'mods difficulty" where
  "perf_difficulty p = (case p of OsuPerf p \<Rightarrow> op_difficulty p | TaikoPerf p \<Rightarrow> tp_difficulty p
    | CatchPerf p \<Rightarrow> cp_difficulty p | ManiaPerf p \<Rightarrow> mp_difficulty p)"

definition stored_attrs :: "('attrs \<Rightarrow> 'b) \<Rightarrow> ('map, 'attrs) map_or_attrs \<Rightarrow> 'b option" where
  "stored_attrs f m = (case m of FromMap _ \<Rightarrow> None | FromAttrs a \<Rightarrow> Some (f a))"

definition perf_attrs :: "('mods, 'map) performance \<Rightarrow> difficulty_attributes option" where
  "perf_attrs p = (case p of
      OsuPerf p \<Rightarrow> stored_attrs DAOsu (op_map_or_attrs p)
    | TaikoPerf p \<Rightarrow> stored_attrs DATaiko (tp_map_or_attrs p)
    | CatchPerf p \<Rightarrow> stored_attrs DACatch (cp_map_or_attrs p)
    | ManiaPerf p \<Rightarrow> stored_attrs DAMania (mp_map_or_attrs p))"

definition attributes_mode :: "difficulty_attributes \<Rightarrow> game_mode" where
  "attributes_mode a = (case a of DAOsu _ \<Rightarrow> Osu | DATaiko _ \<Rightarrow> Taiko | DACatch _ \<Rightarrow> Catch | DAMania _ \<Rightarrow> Mania)"

text \<open>What the calculation of a mode makes of a map of the mode.\<close>

definition env_values ::
  "('l, 'i, 'g, 'p, 's) environment \<Rightarrow> game_mode \<Rightarrow> ('l, 'i, 'g) game_mods difficulty \<Rightarrow> ('p, 's) beatmap
    \<Rightarrow> difficulty_attributes option" where
  "env_values env mode d bm = (case mode of
      Osu \<Rightarrow> map_option DAOsu (env_osu env d bm)
    | Taiko \<Rightarrow> map_option DATaiko (env_taiko env d bm)
    | Catch \<Rightarrow> map_option DACatch (env_catch env d bm)
    | Mania \<Rightarrow> map_option DAMania (env_mania env d bm))"

text \<open>
  The attributes that a calculator stands for: those it holds, or those of its map, converted to
  its mode; none where the conversion is refused or the calculation has no result.
\<close>

definition perf_attributes ::
  "('l, 'i, 'g, 'p, 's) environment \<Rightarrow> (('l, 'i, 'g) game_mods, ('p, 's) beatmap cow) performance
    \<Rightarrow> difficulty_attributes option" where
  "perf_attributes env p = (case perf_map p of
      None \<Rightarrow> perf_attrs p
    | Some bm \<Rightarrow>
        (case convert_ref (env_converters env) (perf_mode p) (d_mods (perf_difficulty p)) (cow_get bm) of
           Inl _ \<Rightarrow> None
         | Inr c \<Rightarrow> env_values env (perf_mode p) (perf_difficulty p) (cow_get c)))"

lemma calculators_keep_attrs [simp]:
  "oa_difficulty (osu_calculate api lm k) = oc_attrs k"
  "ta_difficulty (taiko_calculate api lm k') = tc_attrs k'"
  "ca_difficulty (catch_calculate api lm l) = cc_attrs l"
  "ma_difficulty (mania_calculate api lm l') = mc_attrs l'"
  by (simp_all add: osu_calculate_def calculate_relax_def calculate_vanilla_def osu_no_performance_def
      taiko_calculate_def catch_calculate_def mania_calculate_def Let_def split: prod.splits)

lemma osu_calculator_attrs [simp]: "oc_attrs (osu_calculator_of api lm self a s) = a"
  by (simp add: osu_calculator_of_def Let_def)

definition resolved :: "('d \<Rightarrow> 'map \<Rightarrow> 'e + 'attrs) \<Rightarrow> 'd \<Rightarrow> ('map, 'attrs) map_or_attrs \<Rightarrow> 'attrs option" where
  "resolved calc d m = (case m of FromMap bm \<Rightarrow> expect (calc d bm) | FromAttrs a \<Rightarrow> Some a)"

text \<open>What every mode does, whether its attributes can be resolved or not.\<close>

context mode_generator
begin

lemma runs_or_not:
  "case resolved calc (difficulty self) (map_or_attrs self) of
      None \<Rightarrow> expect (generate_state calc self) = None
        \<and> expect (calculate_with (generate_state calc) map_or_attrs difficulty calc calculator self) = None
    | Some a \<Rightarrow> \<exists>s self'. generate_state calc self = Inr (s, self') \<and> map_or_attrs self' = FromAttrs a
        \<and> calculate_with (generate_state calc) map_or_attrs difficulty calc calculator self = Inr (calculator self' a s)"
proof (cases "resolve_attrs (calc (difficulty self)) (map_or_attrs self)")
  case (Inl e)
  then obtain bm where bm: "map_or_attrs self = FromMap bm" "calc (difficulty self) bm = Inl e"
    by (auto simp: resolve_attrs_def split: map_or_attrs.splits sum.splits)
  have "calculate_with (generate_state calc) map_or_attrs difficulty calc calculator self = Inl e"
    using error_iff bm by blast
  then show ?thesis using fails [of calc self e, OF Inl] bm by (simp add: resolved_def expect_def)
next
  case (Inr x)
  then obtain a where r: "resolve_attrs (calc (difficulty self)) (map_or_attrs self) = Inr (a, FromAttrs a)"
    using resolved_attrs [of _ _ "fst x" "snd x"] by (cases x) auto
  then have "resolved calc (difficulty self) (map_or_attrs self) = Some a"
    by (auto simp: resolve_attrs_def insert_attrs_def resolved_def expect_def split: map_or_attrs.splits sum.splits)
  then show ?thesis using runs_calculator [of calc self a "FromAttrs a" calculator, OF r]
      generates [of calc self a "FromAttrs a", OF r] by fastforce
qed

end

lemma attributes_resolved:
  "perf_attributes env (OsuPerf p)
    = map_option DAOsu (resolved (held_difficulty (env_converters env) Osu (env_osu env)) (op_difficulty p) (op_map_or_attrs p))"
  "perf_attributes env (TaikoPerf q)
    = map_option DATaiko (resolved (held_difficulty (env_converters env) Taiko (env_taiko env)) (tp_difficulty q) (tp_map_or_attrs q))"
  "perf_attributes env (CatchPerf r)
    = map_option DACatch (resolved (held_difficulty (env_converters env) Catch (env_catch env)) (cp_difficulty r) (cp_map_or_attrs r))"
  "perf_attributes env (ManiaPerf t)
    = map_option DAMania (resolved (held_difficulty (env_converters env) Mania (env_mania env)) (mp_difficulty t) (mp_map_or_attrs t))"
  by (simp_all add: perf_attributes_def perf_views held_map_def perf_attrs_def stored_attrs_def resolved_def
      perf_difficulty_def env_values_def held_difficulty_def mode_difficulty_def expect_def
      split: map_or_attrs.split sum.split option.split)

text \<open>A calculator runs where it has attributes, and otherwise has no result.\<close>

definition runs :: "('l, 'i, 'g, 'p, 's) environment \<Rightarrow> (('l, 'i, 'g) game_mods, ('p, 's) beatmap cow) performance
    \<Rightarrow> difficulty_attributes option \<Rightarrow> bool" where
  "runs env p attrs = (case attrs of
      None \<Rightarrow> perf_calculate env p = None \<and> perf_generate_state env p = None
    | Some a \<Rightarrow> \<exists>r s q. perf_calculate env p = Some r \<and> performance_difficulty r = a
        \<and> perf_generate_state env p = Some (s, q) \<and> perf_attrs q = Some a \<and> perf_map q = None
        \<and> perf_mode q = perf_mode p)"

lemmas runs_simps = runs_def perf_generate_state_def perf_calculate_def perf_views held_map_def perf_attrs_def
  stored_attrs_def performance_difficulty_def

lemma osu_runs: "runs env (OsuPerf p) (perf_attributes env (OsuPerf p))"
  using osu_generator.runs_or_not [where calc = "held_difficulty (env_converters env) Osu (env_osu env)" and self = p
      and off = "no_slider_head_acc (env_api env)"
      and calculator = "\<lambda>self attrs s. osu_calculate (env_api env) (env_libm env) (osu_calculator_of (env_api env) (env_libm env) self attrs s)"]
  by (auto simp: attributes_resolved osu_performance_calculate_def runs_simps expect_def split: option.splits)

lemma taiko_runs: "runs env (TaikoPerf p) (perf_attributes env (TaikoPerf p))"
  using taiko_generator.runs_or_not [of "held_difficulty (env_converters env) Taiko (env_taiko env)" p
      "\<lambda>self attrs s. taiko_calculate (env_api env) (env_libm env)
        \<lparr>tc_attrs = attrs, tc_mods = d_mods (tp_difficulty self), tc_state = s\<rparr>"]
  by (auto simp: attributes_resolved taiko_performance_calculate_def runs_simps expect_def split: option.splits)

lemma catch_runs: "runs env (CatchPerf p) (perf_attributes env (CatchPerf p))"
  using catch_generator.runs_or_not [of "held_difficulty (env_converters env) Catch (env_catch env)" p
      "\<lambda>self attrs s. catch_calculate (env_api env) (env_libm env)
        \<lparr>cc_attrs = attrs, cc_mods = d_mods (cp_difficulty self), cc_state = s\<rparr>"]
  by (auto simp: attributes_resolved catch_performance_calculate_def runs_simps expect_def split: option.splits)

lemma mania_runs: "runs env (ManiaPerf p) (perf_attributes env (ManiaPerf p))"
  using mania_generator.runs_or_not [of "held_difficulty (env_converters env) Mania (env_mania env)" p
      "\<lambda>self attrs s. mania_calculate (env_api env) (env_libm env)
        \<lparr>mc_attrs = attrs, mc_mods = d_mods (mp_difficulty self), mc_state = s\<rparr>"]
  by (auto simp: attributes_resolved mania_performance_calculate_def runs_simps expect_def split: option.splits)

lemma perf_runs: "runs env p (perf_attributes env p)"
  by (cases p) (simp_all only: osu_runs taiko_runs catch_runs mania_runs)

lemma generated_views:
  assumes "perf_generate_state env p = Some (s, q)"
  shows "perf_map q = None" "perf_mode q = perf_mode p"
  using perf_runs [of env p] assms by (auto simp: runs_def split: option.splits)

text \<open>A map of the own mode needs no conversion, and the calculator is \<open>Difficulty::calculate\<close>.\<close>

lemma attributes_own:
  assumes "perf_typed p" "perf_map p = Some bm"
  shows "perf_attributes env p = difficulty_calculate env (perf_difficulty p) (cow_get bm)"
  using assms by (auto simp: perf_typed_def perf_attributes_def difficulty_calculate_def mode_difficulty_def convert_ref_def
      expect_def env_values_def split: game_mode.split option.split)

lemma attributes_mode_of: "perf_attributes env p = Some a \<Longrightarrow> attributes_mode a = perf_mode p"
  by (cases p) (auto simp: attributes_resolved attributes_mode_def perf_mode_def)

lemma new_typed:
  "perf_typed (map_into_performance m bm)" "perf_typed (difficulty_into_performance m a)"
  "perf_typed (performance_into_performance m b)"
  by (auto simp: map_into_performance_def difficulty_into_performance_def performance_into_performance_def perf_typed_def
      perf_views held_map_def osu_from_map_or_attrs_def taiko_from_map_or_attrs_def catch_from_map_or_attrs_def
      mania_from_map_or_attrs_def split: game_mode.split difficulty_attributes.split performance_attributes.split)

lemma mode_or_ignore_is_try:
  "perf_mode_or_ignore cv mode p = case_sum id id (perf_try_mode cv mode p)"
  by (auto simp: perf_mode_or_ignore_def osu_mode_or_ignore_def perf_try_mode_def osu_try_mode_def map_sum_def
      split: performance.split game_mode.split sum.split)

lemma step_typed:
  assumes "modes_set (env_converters env)" "perf_typed p" "perf_step env p q"
  shows "perf_typed q"
  using assms(3)
proof cases
  case (converted mode)
  then show ?thesis using perf_try_mode_typed assms(1,2) by blast
next
  case (not_converted mode)
  then show ?thesis using perf_try_mode_cases(1) assms by blast
next
  case (mode_or_ignore mode)
  then show ?thesis
  proof (cases "perf_try_mode (env_converters env) mode p")
    case (Inl r)
    then have "r = p" by (rule perf_try_mode_cases(1))
    then show ?thesis using Inl mode_or_ignore assms(2) by (simp add: mode_or_ignore_is_try)
  next
    case (Inr r)
    then show ?thesis using perf_try_mode_typed [OF assms(1,2) Inr] mode_or_ignore by (simp add: mode_or_ignore_is_try)
  qed
next
  case (generated s)
  then have "perf_map q = None" by (rule generated_views)
  then show ?thesis by (simp add: perf_typed_def)
qed (insert assms(2), simp_all only: perf_typed_def setter_views)

lemma made_typed: "perf_made env p \<Longrightarrow> modes_set (env_converters env) \<Longrightarrow> perf_typed p"
  by (induction rule: perf_made.induct) (simp_all add: new_typed step_typed)

text \<open>A step leaves the mode as it is, unless it is a conversion of an osu!standard calculator.\<close>

lemma step_mode:
  assumes "perf_step env p q"
  shows "perf_mode q = perf_mode p \<or> perf_mode p = Osu"
  using assms
proof cases
  case (converted mode)
  then show ?thesis by (auto simp: perf_try_mode_def perf_mode_def split: performance.splits game_mode.splits)
next
  case (not_converted mode)
  then show ?thesis using perf_try_mode_cases(1) by blast
next
  case (mode_or_ignore mode)
  then show ?thesis by (auto simp: perf_mode_or_ignore_def perf_mode_def split: performance.split)
next
  case (generated s)
  then show ?thesis using generated_views by blast
qed (simp_all add: setter_views)

text \<open>
  C12. Every calculator made by \<open>Performance::new\<close> and changed by the methods of
  \<open>Performance\<close> holds a map of its own mode, if it holds one, so that the conversion it expects
  not to fail is never needed: \<open>calculate\<close> gives points for the attributes that
  \<open>Difficulty::calculate\<close> gives for the map with the same settings, and has no result exactly
  where that has none. The points are those of its mode, and only osu!standard calculators ever
  change their mode.
\<close>

theorem performance_well_typed:
  assumes "perf_made env p" "modes_set (env_converters env)"
  shows "map_or True (\<lambda>bm. bm_mode (cow_get bm) = perf_mode p
        \<and> map_option performance_difficulty (perf_calculate env p)
          = difficulty_calculate env (perf_difficulty p) (cow_get bm)) (perf_map p)
    \<and> (\<forall>r. perf_calculate env p = Some r \<longrightarrow> attributes_mode (performance_difficulty r) = perf_mode p)
    \<and> (\<forall>q. perf_step env p q \<longrightarrow> perf_mode q = perf_mode p \<or> perf_mode p = Osu)"
proof -
  have t: "perf_typed p" using made_typed assms by blast
  have c: "map_option performance_difficulty (perf_calculate env p) = perf_attributes env p"
    using perf_runs [of env p] by (auto simp: runs_def split: option.splits)
  then have "attributes_mode (performance_difficulty r) = perf_mode p" if "perf_calculate env p = Some r" for r
    using attributes_mode_of [of env p] that by simp
  moreover have "\<forall>q. perf_step env p q \<longrightarrow> perf_mode q = perf_mode p \<or> perf_mode p = Osu" using step_mode by blast
  ultimately show ?thesis using t c attributes_own [OF t] by (cases "perf_map p") (auto simp: perf_typed_def)
qed

text \<open>
  C5. What any value of \<open>Performance\<close> does, however it was made. With stored attributes it
  always returns. With a map, \<open>calculate\<close> and \<open>generate_state\<close> panic where the map is not
  of the mode of the calculator and its conversion to that mode is refused, and have no result where
  the difficulty calculation of the mode has none for the converted map; in all other cases they return,
  the points come with the attributes of the converted map, and these are held instead of the map
  once a state is generated.
\<close>

theorem performance_progress:
  "case (case perf_map p of
        None \<Rightarrow> perf_attrs p
      | Some bm \<Rightarrow>
          if bm_mode (cow_get bm) = perf_mode p
          then env_values env (perf_mode p) (perf_difficulty p) (cow_get bm)
          else if bm_mode (cow_get bm) = Osu \<and> \<not> bm_is_convert (cow_get bm)
          then env_values env (perf_mode p) (perf_difficulty p)
            (case perf_mode p of
               Osu \<Rightarrow> cow_get bm
             | Taiko \<Rightarrow> convert_taiko (env_converters env) (cow_get bm)
             | Catch \<Rightarrow> convert_catch (env_converters env) (cow_get bm)
             | Mania \<Rightarrow> convert_mania (env_converters env) (d_mods (perf_difficulty p)) (cow_get bm))
          else None) of
      None \<Rightarrow> perf_calculate env p = None \<and> perf_generate_state env p = None
    | Some a \<Rightarrow> \<exists>r s q. perf_calculate env p = Some r \<and> performance_difficulty r = a
        \<and> perf_generate_state env p = Some (s, q) \<and> perf_attrs q = Some a \<and> perf_map q = None
        \<and> perf_mode q = perf_mode p"
  (is "case ?a of None \<Rightarrow> ?n | Some a \<Rightarrow> ?s a")
proof -
  have "?a = perf_attributes env p"
    by (auto simp: perf_attributes_def convert_ref_def check_convert_def split: option.split game_mode.split)
  then show ?thesis using perf_runs [of env p] unfolding runs_def by simp
qed

text \<open>
  A calculator of a mode can be given a map of another mode, and its own \<open>calculate\<close> then returns
  the error; as a value of \<open>Performance\<close> it panics instead.
\<close>

lemma specific_calculator_panics:
  assumes "bm_mode (cow_get bm) \<noteq> Osu"
  shows "perf_calculate env (osu_mode_or_ignore (env_converters env) Osu (osu_from_map_or_attrs m (FromMap bm))) = None"
    and "osu_performance_calculate api lm (held_difficulty cv Osu values_of) (osu_from_map_or_attrs m (FromMap bm))
      = Inl (Refused (if bm_is_convert (cow_get bm) then AlreadyConverted else ConvertFromTo (bm_mode (cow_get bm)) Osu))"
proof -
  have "perf_attributes env (OsuPerf (osu_from_map_or_attrs m (FromMap bm))) = None"
    using assms by (auto simp: attributes_resolved resolved_def osu_from_map_or_attrs_def held_difficulty_def mode_difficulty_def
      convert_ref_def check_convert_def expect_def)
  then show "perf_calculate env (osu_mode_or_ignore (env_converters env) Osu (osu_from_map_or_attrs m (FromMap bm))) = None"
    using perf_runs [of env "OsuPerf (osu_from_map_or_attrs m (FromMap bm))"] by (simp add: runs_def osu_mode_or_ignore_def)
  show "osu_performance_calculate api lm (held_difficulty cv Osu values_of) (osu_from_map_or_attrs m (FromMap bm))
      = Inl (Refused (if bm_is_convert (cow_get bm) then AlreadyConverted else ConvertFromTo (bm_mode (cow_get bm)) Osu))"
    unfolding osu_performance_calculate_def
    by (subst osu_generator.error_iff)
      (use assms in \<open>auto simp: osu_from_map_or_attrs_def held_difficulty_def mode_difficulty_def convert_ref_def check_convert_def\<close>)
qed

lemma osu_try_mode_outcome:
  "case osu_try_mode cv mode p of
      Inl q \<Rightarrow> mode \<noteq> Osu \<and> map_or True (\<lambda>bm. check_convert mode (cow_get bm) \<noteq> None) (held_map (op_map_or_attrs p))
    | Inr r \<Rightarrow> if mode = Osu then r = OsuPerf p
        else map_or False (\<lambda>bm. check_convert mode (cow_get bm) = None) (held_map (op_map_or_attrs p))"
  using try_convert_map_fails [of cv "op_map_or_attrs p" mode "d_mods (op_difficulty p)"]
  by (cases mode; cases "try_convert_map cv (op_map_or_attrs p) mode (d_mods (op_difficulty p))";
      cases "held_map (op_map_or_attrs p)") (auto simp: osu_try_mode_def try_intos)

text \<open>
  C39. \<open>try_mode\<close> fails exactly where the calculator is not of osu!standard and the mode is
  another one, or where the mode is another one and there is no map to convert or its conversion is refused; it then gives the
  calculator back unchanged, and \<open>mode_or_ignore\<close> is the same with the error ignored.
\<close>

theorem try_mode_outcome:
  "case perf_try_mode cv mode p of
      Inl q \<Rightarrow> q = p \<and> mode \<noteq> perf_mode p
        \<and> (perf_mode p = Osu \<longrightarrow> map_or True (\<lambda>bm. check_convert mode (cow_get bm) \<noteq> None) (perf_map p))
        \<and> perf_mode_or_ignore cv mode p = p
    | Inr q \<Rightarrow> perf_mode q = mode \<and> perf_mode_or_ignore cv mode p = q
        \<and> (perf_mode p = mode \<longrightarrow> q = p)
        \<and> (perf_mode p \<noteq> mode \<longrightarrow> perf_mode p = Osu
            \<and> map_or False (\<lambda>bm. check_convert mode (cow_get bm) = None) (perf_map p))"
proof (cases p)
  case (OsuPerf x)
  then show ?thesis
    using osu_try_mode_outcome [where cv = cv and mode = mode and p = x] perf_try_mode_cases [where cv = cv and mode = mode and p = p]
    by (auto simp: mode_or_ignore_is_try perf_try_mode_def perf_views map_or_def split: sum.splits option.splits if_splits)
qed (auto simp: perf_try_mode_def perf_mode_or_ignore_def perf_mode_def split: game_mode.split)

lemmas difficulty_setters = set_passed_objects_def set_clock_rate_def set_hp_def set_od_def

text \<open>
  The settings of hit results, accuracy, combo, priority and of the difficulty other than
  mods give the same calculator before a conversion as after it; where the conversion fails, too.
\<close>

theorem settings_survive_conversion:
  "perf_try_mode cv mode (perf_set_accuracy x p) = map_sum (perf_set_accuracy x) (perf_set_accuracy x) (perf_try_mode cv mode p)
    \<and> perf_try_mode cv mode (perf_set_misses n p) = map_sum (perf_set_misses n) (perf_set_misses n) (perf_try_mode cv mode p)
    \<and> perf_try_mode cv mode (perf_set_combo n p) = map_sum (perf_set_combo n) (perf_set_combo n) (perf_try_mode cv mode p)
    \<and> perf_try_mode cv mode (perf_set_n300 n p) = map_sum (perf_set_n300 n) (perf_set_n300 n) (perf_try_mode cv mode p)
    \<and> perf_try_mode cv mode (perf_set_n100 n p) = map_sum (perf_set_n100 n) (perf_set_n100 n) (perf_try_mode cv mode p)
    \<and> perf_try_mode cv mode (perf_set_n50 n p) = map_sum (perf_set_n50 n) (perf_set_n50 n) (perf_try_mode cv mode p)
    \<and> perf_try_mode cv mode (perf_set_priority r p) = map_sum (perf_set_priority r) (perf_set_priority r) (perf_try_mode cv mode p)
    \<and> perf_try_mode cv mode (perf_set_passed_objects n p) = map_sum (perf_set_passed_objects n) (perf_set_passed_objects n) (perf_try_mode cv mode p)
    \<and> perf_try_mode cv mode (perf_set_clock_rate x p) = map_sum (perf_set_clock_rate x) (perf_set_clock_rate x) (perf_try_mode cv mode p)
    \<and> perf_try_mode cv mode (perf_set_hp y w p) = map_sum (perf_set_hp y w) (perf_set_hp y w) (perf_try_mode cv mode p)
    \<and> perf_try_mode cv mode (perf_set_od y w p) = map_sum (perf_set_od y w) (perf_set_od y w) (perf_try_mode cv mode p)
    \<and> perf_try_mode cv mode (perf_set_slider_end_hits n p) = map_sum (perf_set_slider_end_hits n) (perf_set_slider_end_hits n) (perf_try_mode cv mode p)"
  by (cases p; cases mode) (simp_all add: setters mode_setters perf_try_mode_def osu_try_mode_def try_intos
      difficulty_setters split: sum.split)

section \<open>Witnesses\<close>

definition mania_example_attrs :: mania_difficulty_attributes where
  "mania_example_attrs = \<lparr>md_stars = lit 3 1, md_n_objects = 10, md_n_hold_notes = 2, md_max_combo = 12, md_is_convert = False\<rparr>"

text \<open>
  A calculator for the default map, converted to taiko after two misses were set, and the same
  after its state was generated.
\<close>

definition example_env :: "libm \<Rightarrow> (mod_name list, mod_name list, mod_name list, unit, unit) environment" where
  "example_env lm = \<lparr>env_api = listed_mods, env_libm = lm, env_converters = set_mode_converters,
     env_osu = \<lambda>_ _. Some osu_example_attrs, env_taiko = \<lambda>_ _. Some taiko_example_attrs,
     env_catch = \<lambda>_ _. Some catch_example_attrs, env_mania = \<lambda>_ _. Some mania_example_attrs\<rparr>"

definition example_perf ::
  "((mod_name list, mod_name list, mod_name list) game_mods, (unit, unit) beatmap cow) performance" where
  "example_perf = perf_mode_or_ignore set_mode_converters Taiko
     (perf_set_misses 2 (map_into_performance (Lazer []) (Borrowed (beatmap_default 14))))"

lemma example_made: "perf_made (example_env lm) example_perf"
proof -
  have cv: "env_converters (example_env lm) = set_mode_converters" by (simp add: example_env_def)
  show ?thesis unfolding example_perf_def
    by (rule perf_made.stepped [OF perf_made.stepped [OF perf_made.of_map perf_step.misses]
          perf_step.mode_or_ignore [of "example_env lm", unfolded cv]])
qed

lemma example_converters: "modes_set (env_converters (example_env lm))"
  by (simp add: example_env_def modes_set_def set_mode_converters_def)

lemma example_mode: "perf_mode example_perf = Taiko"
proof -
  have "bm_mode (beatmap_default 14 :: (unit, unit) beatmap) = Osu" by (simp add: beatmap_default_def)
  then show ?thesis
    by (simp add: example_perf_def map_into_performance_def perf_set_misses_def osu_set_misses_def osu_from_map_or_attrs_def
      perf_mode_or_ignore_def osu_mode_or_ignore_def osu_try_into_taiko_def try_convert_map_def convert_ref_def
      perf_mode_def beatmap_default_def)
qed

lemma example_calculates: "perf_calculate (example_env lm) example_perf \<noteq> None"
proof -
  obtain x where x: "example_perf = TaikoPerf x" using example_mode by (auto simp: perf_mode_def split: performance.splits)
  have t: "perf_typed example_perf" by (rule made_typed [OF example_made example_converters])
  have "perf_attributes (example_env lm) example_perf \<noteq> None"
    using t unfolding x by (auto simp: attributes_resolved resolved_def held_difficulty_def mode_difficulty_def convert_ref_def
      perf_typed_def perf_views held_map_def expect_def example_env_def split: map_or_attrs.split)
  then show ?thesis using perf_runs [of "example_env lm" example_perf] by (auto simp: runs_def)
qed

theorem performance_well_typed_witness:
  "\<forall>lm. \<exists>r. perf_calculate (example_env lm) example_perf = Some r \<and> attributes_mode (performance_difficulty r) = Taiko"
proof
  fix lm
  obtain r where "perf_calculate (example_env lm) example_perf = Some r" using example_calculates by auto
  then show "\<exists>r. perf_calculate (example_env lm) example_perf = Some r \<and> attributes_mode (performance_difficulty r) = Taiko"
    using performance_well_typed [OF example_made example_converters] example_mode by metis
qed

theorem try_mode_outcome_witness:
  "perf_try_mode set_mode_converters Catch example_perf = Inl example_perf
    \<and> perf_mode_or_ignore set_mode_converters Catch example_perf = example_perf"
proof -
  obtain x where x: "example_perf = TaikoPerf x" using example_mode by (auto simp: perf_mode_def split: performance.splits)
  have "perf_try_mode set_mode_converters Catch example_perf = Inl example_perf" unfolding x by (simp add: perf_try_mode_def)
  then show ?thesis using try_mode_outcome [where cv = set_mode_converters and mode = Catch and p = example_perf] by simp
qed

end
