(* ===== verification/Skills.thy ===== *)
theory Skills
  imports Strains_Vec Difficulty_Math F64_Values
begin

text \<open>
  What the strain skills of the modes share (\<open>src/any/difficulty/skills.rs\<close>,
  \<open>src/any/difficulty/object.rs\<close>) and what the macro \<open>define_skill!\<close> of
  \<open>src/util/macros.rs\<close> generates for each of them. The fields the macro adds are a record
  that the record of a skill extends. The strain of an object and the strain a section starts
  with are arguments. The loop over the sections is a partial function: where it never
  ends its value is \<open>None\<close>.
\<close>

section \<open>Difficulty objects\<close>

definition get :: "'a list \<Rightarrow> nat \<Rightarrow> 'a option" where
  "get xs i = (if i < length xs then Some (xs ! i) else None)"

definition previous_object :: "nat \<Rightarrow> nat \<Rightarrow> 'd list \<Rightarrow> 'd option" where
  "previous_object idx backwards_idx objs =
    (if backwards_idx + 1 \<le> idx then get objs (idx - (backwards_idx + 1)) else None)"

definition next_object :: "nat \<Rightarrow> nat \<Rightarrow> 'd list \<Rightarrow> 'd option" where
  "next_object idx forwards_idx objs = get objs (idx + (forwards_idx + 1))"

section \<open>Strain skills\<close>

record strain_skill =
  sk_section_peak :: f64
  sk_section_end :: f64
  sk_strain_peaks :: strains_vec
  sk_object_strains :: "f64 list"

record strain_decay_skill = strain_skill +
  sk_current_strain :: f64

definition save_current_peak :: "'a strain_skill_scheme \<Rightarrow> 'a strain_skill_scheme" where
  "save_current_peak self = self\<lparr>sk_strain_peaks := sv_push (sk_section_peak self) (sk_strain_peaks self)\<rparr>"

definition start_new_section ::
  "('a strain_skill_scheme \<Rightarrow> f64 \<Rightarrow> f64) \<Rightarrow> f64 \<Rightarrow> 'a strain_skill_scheme \<Rightarrow> 'a strain_skill_scheme" where
  "start_new_section initial_strain time self = self\<lparr>sk_section_peak := initial_strain self time\<rparr>"

partial_function (option) new_sections ::
  "f64 \<Rightarrow> ('a strain_skill_scheme \<Rightarrow> f64 \<Rightarrow> f64) \<Rightarrow> f64 \<Rightarrow> 'a strain_skill_scheme \<Rightarrow> 'a strain_skill_scheme option" where
  "new_sections section_length initial_strain start_time self =
    (if sk_section_end self < start_time
     then new_sections section_length initial_strain start_time
       (let self = save_current_peak self;
            self = start_new_section initial_strain (sk_section_end self) self
        in self\<lparr>sk_section_end := sk_section_end self + section_length\<rparr>)
     else Some self)"

text \<open>The strain of an object is an option: a skill may panic.\<close>

definition skill_process ::
  "f64 \<Rightarrow> ('a strain_skill_scheme \<Rightarrow> f64 \<Rightarrow> f64) \<Rightarrow> ('a strain_skill_scheme \<Rightarrow> (f64 \<times> 'a strain_skill_scheme) option)
    \<Rightarrow> nat \<Rightarrow> f64 \<Rightarrow> 'a strain_skill_scheme \<Rightarrow> 'a strain_skill_scheme option" where
  "skill_process section_length initial_strain strain_value idx start_time self =
    (let self = (if idx = 0 then self\<lparr>sk_section_end := fceil (start_time / section_length) * section_length\<rparr> else self)
     in case new_sections section_length initial_strain start_time self of
          None \<Rightarrow> None
        | Some self \<Rightarrow> (case strain_value self of
              None \<Rightarrow> None
            | Some (strain, self) \<Rightarrow>
                Some (self\<lparr>sk_section_peak := fmax strain (sk_section_peak self),
                  sk_object_strains := sk_object_strains self @ [strain]\<rparr>)))"

definition strain_decay :: "libm \<Rightarrow> f64 \<Rightarrow> f64 \<Rightarrow> f64" where
  "strain_decay lm strain_decay_base ms = lm_powf lm strain_decay_base (ms / lit 1000 1)"

definition decay_initial_strain ::
  "libm \<Rightarrow> f64 \<Rightarrow> f64 \<Rightarrow> 'a strain_decay_skill_scheme \<Rightarrow> f64 \<Rightarrow> f64" where
  "decay_initial_strain lm strain_decay_base prev_start_time self time =
    sk_current_strain self * strain_decay lm strain_decay_base (time - prev_start_time)"

definition decay_strain_value ::
  "libm \<Rightarrow> f64 \<Rightarrow> f64 \<Rightarrow> ('a strain_decay_skill_scheme \<Rightarrow> (f64 \<times> 'a strain_decay_skill_scheme) option)
    \<Rightarrow> f64 \<Rightarrow> 'a strain_decay_skill_scheme \<Rightarrow> (f64 \<times> 'a strain_decay_skill_scheme) option" where
  "decay_strain_value lm strain_decay_base skill_multiplier strain_value_of delta_time self =
    (let self = self\<lparr>sk_current_strain := sk_current_strain self * strain_decay lm strain_decay_base delta_time\<rparr>
     in map_option (\<lambda>(v, self).
          let current = sk_current_strain self + v * skill_multiplier in (current, self\<lparr>sk_current_strain := current\<rparr>))
        (strain_value_of self))"

text \<open>The loop over the difficulty objects.\<close>

fun process_all :: "('d \<Rightarrow> 'k \<Rightarrow> 'k option) \<Rightarrow> 'd list \<Rightarrow> 'k \<Rightarrow> 'k option" where
  "process_all process [] self = Some self"
| "process_all process (c # cs) self = (case process c self of None \<Rightarrow> None | Some self \<Rightarrow> process_all process cs self)"

section \<open>Results\<close>

definition count_top_weighted_strains :: "libm \<Rightarrow> f64 list \<Rightarrow> f64 \<Rightarrow> f64" where
  "count_top_weighted_strains lm object_strains difficulty_value =
    (if object_strains = [] then lit 0 1
     else let consistent_top_strain = difficulty_value / lit 10 1
       in if float_eq consistent_top_strain (lit 0 1) then f64_of_nat (length object_strains)
          else fsum (map (\<lambda>s. lit 11 10 / (lit 1 1 + lm_exp lm (- lit 10 1 * (s / consistent_top_strain - lit 88 100))))
            object_strains))"

definition current_strain_peaks :: "'a strain_skill_scheme \<Rightarrow> strains_vec" where
  "current_strain_peaks self = sv_push (sk_section_peak self) (sk_strain_peaks self)"

definition weighted_sum :: "f64 \<Rightarrow> f64 list \<Rightarrow> f64" where
  "weighted_sum decay_weight peaks =
    fst (foldl (\<lambda>(difficulty, weight) strain. (difficulty + strain * weight, weight * decay_weight)) (lit 0 1, lit 1 1) peaks)"

definition skill_difficulty_value :: "f64 \<Rightarrow> strains_vec \<Rightarrow> f64" where
  "skill_difficulty_value decay_weight peaks = weighted_sum decay_weight (sv_transmute (sv_retain_non_zero_and_sort peaks))"

lemma bind_case: "Option.bind x f = (case x of None \<Rightarrow> None | Some y \<Rightarrow> f y)"
  by (cases x) simp_all

lemma process_all_append:
  "process_all process (xs @ ys) self = Option.bind (process_all process xs self) (process_all process ys)"
  by (induction xs arbitrary: self) (auto split: option.splits)

lemma process_all_cong:
  "(\<And>c self. c \<in> set cs \<Longrightarrow> process c self = process' c self) \<Longrightarrow> process_all process cs self = process_all process' cs self"
  by (induction cs arbitrary: self) (auto split: option.splits)

lemma process_all_invariant:
  assumes "I [] self" "\<And>xs c ys s. cs = xs @ c # ys \<Longrightarrow> I xs s \<Longrightarrow> \<exists>s'. process c s = Some s' \<and> I (xs @ [c]) s'"
  shows "\<exists>s'. process_all process cs self = Some s' \<and> I cs s'"
proof -
  have "\<exists>s'. process_all process ys s = Some s' \<and> I (xs @ ys) s'" if "cs = xs @ ys" "I xs s" for xs ys s
    using that
  proof (induction ys arbitrary: xs s)
    case (Cons c ys)
    obtain s' where s': "process c s = Some s'" "I (xs @ [c]) s'" using assms(2) [OF Cons.prems] by blast
    have "cs = (xs @ [c]) @ ys" using Cons.prems(1) by simp
    from Cons.IH [OF this s'(2)] show ?case using s'(1) by simp
  qed simp
  from this [of "[]" cs self] assms(1) show ?thesis by simp
qed

section \<open>The value of a skill\<close>

lemma sorted_keys_unique:
  assumes "inj f" "sorted (map f xs)" "sorted (map f ys)" "mset xs = mset ys"
  shows "xs = ys"
proof -
  have "mset (map f xs) = mset (map f ys)" using assms(4) by simp
  then have "map f xs = map f ys" using assms(2,3) properties_for_sort by metis
  then show ?thesis using assms(1) by simp
qed

lemma inj_tkey: "inj tkey"
  by (simp add: inj_def tkey_inj)

lemma raw_sort_desc_rev: "raw_sort_desc xs = rev (sort_key tkey xs)"
proof (rule sorted_keys_unique [of "\<lambda>x. - tkey x"])
  show "inj (\<lambda>x. - tkey x)" using inj_tkey by (simp add: inj_def)
  show "sorted (map (\<lambda>x. - tkey x) (raw_sort_desc xs))" by (simp add: raw_sort_desc_def)
  have "sorted (map tkey (sort_key tkey xs))" by simp
  then show "sorted (map (\<lambda>x. - tkey x) (rev (sort_key tkey xs)))"
    unfolding sorted_map sorted_wrt_rev by (simp add: sorted_wrt_map)
qed (simp add: raw_sort_desc_def)

lemma sort_tkey_perm: "mset xs = mset ys \<Longrightarrow> sort_key tkey xs = sort_key tkey ys"
  by (rule sorted_keys_unique [OF inj_tkey]) simp_all

lemma retain_strains:
  assumes "\<forall>v\<in>set vs. \<not> is_nan v"
  shows "raw_retain_non_zero (map strain_of vs) = filter (\<lambda>v. lit 0 1 < v) vs"
  using assms
proof (induction vs)
  case (Cons v vs)
  have z: "\<not> lit 0 1 < fzero False" "is_fin (lit 0 1)" "fval (lit 0 1) = 0"
    using lit_int [of 0] by (simp_all add: less_f64_def key_zero_iff flip: fval_less_key)
  have "(if 0 < to_bits v \<and> \<not> sgn_bit v then v else fzero False) = v \<or> \<not> lit 0 1 < v"
  proof (cases "0 < to_bits v \<and> \<not> sgn_bit v")
    case False
    then have "key v \<le> 0" by (auto simp: key_def)
      (metis fzero_bits f64.exhaust_sel key_def le_numeral_extra(3) magn_fzero of_nat_0 word_gt_0 f64.expand)
    moreover have "key (lit 0 1) = 0" using z by (simp add: key_zero_iff flip: fval_zero_iff)
    ultimately show ?thesis by (simp add: less_f64_def)
  qed simp
  then show ?case using Cons z(1) by (auto simp: raw_retain_non_zero_def strain_of_def)
qed (simp add: raw_retain_non_zero_def)

text \<open>The weight of the peak at an index: the decay weight, multiplied up from one.\<close>

definition weight_at :: "f64 \<Rightarrow> nat \<Rightarrow> f64" where
  "weight_at decay_weight i = ((\<lambda>weight. weight * decay_weight) ^^ i) (lit 1 1)"

lemma weighted_fold:
  "foldl (\<lambda>(difficulty, weight) strain. (difficulty + strain * weight, weight * w)) (d, weight_at w k) xs
    = (foldl (+) d (map (\<lambda>i. xs ! i * weight_at w (k + i)) [0..<length xs]), weight_at w (k + length xs))"
proof (induction xs arbitrary: d k)
  case (Cons x xs)
  have s: "weight_at w k * w = weight_at w (Suc k)" by (simp add: weight_at_def)
  have m: "map (\<lambda>i. (x # xs) ! i * weight_at w (k + i)) [0..<length (x # xs)]
      = x * weight_at w k # map (\<lambda>i. xs ! i * weight_at w (Suc k + i)) [0..<length xs]"
    unfolding length_Cons upt_conv_Cons [OF zero_less_Suc] map_Suc_upt [symmetric] by simp
  show ?case unfolding m using Cons.IH [of "d + x * weight_at w k" "Suc k"] by (simp add: s)
qed simp

lemma weighted_sum_weights:
  "weighted_sum w xs = foldl (+) (lit 0 1) (map (\<lambda>i. xs ! i * weight_at w i) [0..<length xs])"
  using weighted_fold [of w "lit 0 1" 0 xs] by (simp add: weighted_sum_def) (simp add: weight_at_def)

text \<open>With a decay weight up to one no term is more than its peak, and none is lost.\<close>

lemma f64_nat: "n < 2 ^ 53 \<Longrightarrow> \<exists>y. is_fin y \<and> fval y = real n"
  using f64_int [of "int n"] by simp

lemma unit_weight:
  assumes "is_fin s" "0 \<le> fval s" "fval s \<le> real M" "M < 2 ^ 53" "is_fin wt" "0 \<le> fval wt" "fval wt \<le> 1"
  shows "is_fin (s * wt)" "0 \<le> fval (s * wt)" "fval (s * wt) \<le> real M"
proof -
  obtain hi where hi: "is_fin hi" "fval hi = real M" using f64_nat assms(4) by blast
  have "rounds_to (s * wt) (fval s * fval wt)" using fmul_rounds assms(1,5) by blast
  moreover have "0 \<le> fval s * fval wt" using assms(2,6) by simp
  moreover have "fval s * fval wt \<le> real M * 1" using assms by (intro mult_mono) simp_all
  ultimately show "is_fin (s * wt)" "0 \<le> fval (s * wt)" "fval (s * wt) \<le> real M"
    using rounds_to_between [of "s * wt" "fval s * fval wt" "lit 0 1" hi] hi lit_int [of 0] by simp_all
qed

lemma weighted_fold_bounds:
  assumes "\<forall>s\<in>set xs. is_fin s \<and> 0 \<le> fval s \<and> fval s \<le> real M" "is_fin w" "0 \<le> fval w" "fval w \<le> 1"
    "is_fin d" "0 \<le> fval d" "fval d \<le> real (k * M)" "(k + length xs) * M < 2 ^ 53" "is_fin wt" "0 \<le> fval wt" "fval wt \<le> 1"
  shows "is_fin (fst (foldl (\<lambda>(d, wt) s. (d + s * wt, wt * w)) (d, wt) xs))
    \<and> fval d \<le> fval (fst (foldl (\<lambda>(d, wt) s. (d + s * wt, wt * w)) (d, wt) xs))
    \<and> fval (fst (foldl (\<lambda>(d, wt) s. (d + s * wt, wt * w)) (d, wt) xs)) \<le> real ((k + length xs) * M)"
  using assms
proof (induction xs arbitrary: d wt k)
  case (Cons s xs)
  have n: "(k + 1) * M < 2 ^ 53" and M: "M < 2 ^ 53"
    using Cons.prems(8) by (simp_all add: algebra_simps)
  have s: "is_fin s" "0 \<le> fval s" "fval s \<le> real M" using Cons.prems(1) by simp_all
  note p = unit_weight [OF s M Cons.prems(9-11)]
  obtain hi where hi: "is_fin hi" "fval hi = real ((k + 1) * M)" using f64_nat [OF n] by blast
  have "rounds_to (d + s * wt) (fval d + fval (s * wt))" using fadd_rounds Cons.prems(5) p(1) by blast
  moreover have "fval d \<le> fval d + fval (s * wt)" using p(2) by simp
  moreover have "fval d + fval (s * wt) \<le> fval hi" using p(3) Cons.prems(7) unfolding hi(2) by (simp add: algebra_simps)
  ultimately have d: "is_fin (d + s * wt)" "fval d \<le> fval (d + s * wt)" "fval (d + s * wt) \<le> real ((k + 1) * M)"
    using rounds_to_between [of "d + s * wt" "fval d + fval (s * wt)" d hi] hi Cons.prems(5) by simp_all
  have w: "is_fin (wt * w)" "0 \<le> fval (wt * w)" "fval (wt * w) \<le> 1"
    using unit_weight [of wt 1 w] Cons.prems by simp_all
  have "(k + 1 + length xs) * M < 2 ^ 53" using Cons.prems(8) by simp
  from Cons.IH [OF _ Cons.prems(2-4) d(1) _ d(3) this w] show ?case
    using Cons.prems(1,6) d(2) by simp
qed simp


lemma weighted_sum_bounds:
  assumes "\<forall>s\<in>set xs. is_fin s \<and> 0 \<le> fval s \<and> fval s \<le> real M" "is_fin w" "0 \<le> fval w" "fval w \<le> 1"
    "length xs * M < 2 ^ 53"
  shows "is_fin (weighted_sum w xs)" "fval (weighted_sum w xs) \<le> real (length xs * M)" "0 \<le> fval (weighted_sum w xs)"
    "xs \<noteq> [] \<Longrightarrow> fval (hd xs) \<le> fval (weighted_sum w xs)"
proof -
  have c: "fval (lit 0 1) = 0" "is_fin (lit 0 1)" "fval (lit 1 1) = 1" "is_fin (lit 1 1)" using lit_int [of 0] lit_int [of 1] by simp_all
  show b: "is_fin (weighted_sum w xs)" "fval (weighted_sum w xs) \<le> real (length xs * M)" "0 \<le> fval (weighted_sum w xs)"
    using weighted_fold_bounds [OF assms(1-4), of "lit 0 1" 0 "lit 1 1"] assms(5) c by (simp_all add: weighted_sum_def)
  assume "xs \<noteq> []"
  then obtain x ys where xs: "xs = x # ys" by (cases xs) auto
  have x: "is_fin x" "0 \<le> fval x" "fval x \<le> real M" "M < 2 ^ 53" using assms(1,5) by (simp_all add: xs)
  have "rounds_to (x * lit 1 1) (fval x)" using fmul_rounds [OF x(1) c(4)] c(3) by simp
  from rounds_to_exact [OF this] x(1) have p: "fval (x * lit 1 1) = fval x" by simp
  have f: "is_fin (x * lit 1 1)" using unit_weight [OF x c(4)] c(3) by simp
  have "rounds_to (lit 0 1 + x * lit 1 1) (fval x)" using fadd_rounds [OF c(2) f] c(1) p by simp
  from rounds_to_exact [OF this] x(1) have d: "fval (lit 0 1 + x * lit 1 1) = fval x" by simp
  have fd: "is_fin (lit 0 1 + x * lit 1 1)" using fin_between [OF x(1) x(1)] d by simp
  have w: "is_fin (lit 1 1 * w)" "0 \<le> fval (lit 1 1 * w)" "fval (lit 1 1 * w) \<le> 1"
    using unit_weight [of "lit 1 1" 1 w] c assms(2-4) by simp_all
  have ys: "\<forall>s\<in>set ys. is_fin s \<and> 0 \<le> fval s \<and> fval s \<le> real M" using assms(1) by (simp add: xs)
  have "(1 + length ys) * M < 2 ^ 53" using assms(5) by (simp add: xs)
  from weighted_fold_bounds [OF ys assms(2-4) fd _ _ this w] x d
  show "fval (hd xs) \<le> fval (weighted_sum w xs)" by (simp add: weighted_sum_def xs)
qed

lemma skill_difficulty_value_is:
  assumes "length vs < 2 ^ 63" "\<forall>v\<in>set vs. \<not> is_nan v"
  shows "skill_difficulty_value w (fold sv_push vs sv_new) = weighted_sum w (rev (sort_key tkey (filter (\<lambda>v. lit 0 1 < v) vs)))"
proof -
  let ?sv = "fold sv_push vs sv_new"
  have p: "sv_ok ?sv" "sv_values ?sv = map strain_of vs" using sv_pushes [OF assms(1)] by simp_all
  have "\<forall>v\<in>set (sv_values ?sv). \<not> is_nan v" using assms(2) unfolding p(2) by (auto simp: strain_of_def)
  then have "map F64 (filter entry_is_value (sv_inner ?sv)) = raw_retain_non_zero (sv_values ?sv)"
    using p(1) unfolding sv_values_def by (intro filter_values) (auto simp: sv_ok_def)
  then have "sv_transmute (sv_retain_non_zero_and_sort ?sv) = raw_sort_desc (filter (\<lambda>v. lit 0 1 < v) vs)"
    unfolding p(2) retain_strains [OF assms(2)] sv_retain_non_zero_and_sort_def sort_values
    by (simp add: sv_transmute_def sv_retain_non_zero_def)
  then show ?thesis by (simp add: skill_difficulty_value_def raw_sort_desc_rev)
qed

text \<open>
  C17. The difficulty value of a skill is the sum of its positive section peaks, from the highest to
  the lowest, where the peak at index \<open>i\<close> is multiplied by the \<open>i\<close>-fold product of the decay
  weight, all in 64-bit floats and in this order. Neither the compact storage of the peaks nor the
  order of the sections nor sections without strain have an influence on it.
\<close>

theorem difficulty_value_of_peaks:
  assumes "length vs < 2 ^ 63" "\<forall>v\<in>set vs. \<not> is_nan v" "mset ws = mset vs"
  shows "(let peaks = rev (sort_key tkey (filter (\<lambda>v. lit 0 1 < v) vs));
        weight = (\<lambda>i. ((\<lambda>x. x * w) ^^ i) (lit 1 1))
      in skill_difficulty_value w (fold sv_push vs sv_new) = foldl (+) (lit 0 1) (map (\<lambda>i. peaks ! i * weight i) [0..<length peaks]))
    \<and> skill_difficulty_value w (fold sv_push ws sv_new) = skill_difficulty_value w (fold sv_push vs sv_new)"
proof -
  have "length ws < 2 ^ 63" "\<forall>v\<in>set ws. \<not> is_nan v"
    using assms mset_eq_length [OF assms(3)] mset_eq_setD [OF assms(3)] by simp_all
  moreover have "mset (filter (\<lambda>v. lit 0 1 < v) ws) = mset (filter (\<lambda>v. lit 0 1 < v) vs)" using assms(3) by simp
  then have "sort_key tkey (filter (\<lambda>v. lit 0 1 < v) ws) = sort_key tkey (filter (\<lambda>v. lit 0 1 < v) vs)" by (rule sort_tkey_perm)
  ultimately show ?thesis unfolding Let_def weight_at_def [symmetric] weighted_sum_weights [symmetric]
    using skill_difficulty_value_is [of ws w] skill_difficulty_value_is [OF assms(1,2), of w] by simp
qed

text \<open>
  C24. For peaks from zero to \<open>M\<close>, so few that their number times \<open>M\<close> is below \<open>2 ^ 53\<close>, and a
  decay weight up to one the difficulty value is finite, at least the highest peak, and at most
  \<open>M\<close> times the number of peaks, in spite of all roundings.
\<close>

theorem difficulty_value_bounds:
  assumes "\<forall>v\<in>set vs. is_fin v \<and> 0 \<le> fval v \<and> fval v \<le> real M" "length vs < 2 ^ 63" "length vs * M < 2 ^ 53"
    "is_fin w" "0 \<le> fval w" "fval w \<le> 1"
  shows "is_fin (skill_difficulty_value w (fold sv_push vs sv_new))
    \<and> fval (skill_difficulty_value w (fold sv_push vs sv_new)) \<le> real (length vs * M)
    \<and> (\<forall>v\<in>set vs. fval v \<le> fval (skill_difficulty_value w (fold sv_push vs sv_new)))"
proof -
  let ?pos = "filter (\<lambda>v. lit 0 1 < v) vs"
  define xs where "xs = rev (sort_key tkey ?pos)"
  have "\<forall>v\<in>set vs. \<not> is_nan v" using assms(1) by auto
  then have v: "skill_difficulty_value w (fold sv_push vs sv_new) = weighted_sum w xs"
    using skill_difficulty_value_is assms(2) unfolding xs_def by blast
  have l: "length xs \<le> length vs" by (simp add: xs_def)
  have xs: "\<forall>s\<in>set xs. is_fin s \<and> 0 \<le> fval s \<and> fval s \<le> real M" using assms(1) by (simp add: xs_def)
  have lM: "length xs * M \<le> length vs * M" using l by simp
  then have "length xs * M < 2 ^ 53" using assms(3) by linarith
  note b = weighted_sum_bounds [OF xs assms(4-6) this]
  have top: "fval u \<le> fval (weighted_sum w xs)" if u: "u \<in> set vs" for u
  proof (cases "lit 0 1 < u")
    case True
    then have m: "u \<in> set xs" using u by (simp add: xs_def)
    then have ne: "xs \<noteq> []" by auto
    have "sorted (map tkey (rev xs))" by (simp add: xs_def)
    then have "sorted_wrt (\<lambda>a b. tkey b \<le> tkey a) xs" by (simp add: sorted_map sorted_wrt_rev)
    then have "tkey u \<le> tkey (hd xs)" using m by (cases xs) auto
    then have "fval u \<le> fval (hd xs)" by (auto simp: fval_le_key key_def tkey_def split: if_splits)
    then show ?thesis using b(4) [OF ne] by linarith
  next
    case False
    have "fval u \<le> 0" using False u assms(1) less_f64_fin [of "lit 0 1" u] lit_int [of 0] by auto
    then show ?thesis using b(3) by linarith
  qed
  have "real (length xs * M) \<le> real (length vs * M)" using lM by (simp only: of_nat_le_iff)
  then show ?thesis unfolding v using b(1,2) top by (meson order_trans)
qed

theorem difficulty_value_of_peaks_witness:
  "skill_difficulty_value (lit 9 10) (fold sv_push [lit 0 1, lit 1 1, lit 2 1] sv_new)
    = skill_difficulty_value (lit 9 10) (fold sv_push [lit 2 1, lit 0 1, lit 1 1] sv_new)"
proof -
  have "\<forall>v\<in>set [lit 2 1, lit 0 1, lit 1 1]. \<not> is_nan v" by (simp add: lit_def)
  then show ?thesis
    using difficulty_value_of_peaks [of "[lit 2 1, lit 0 1, lit 1 1]" "[lit 0 1, lit 1 1, lit 2 1]" "lit 9 10"] by simp
qed

theorem difficulty_value_bounds_witness:
  "fval (lit 2 1) \<le> fval (skill_difficulty_value (lit 9 10) (fold sv_push [lit 2 1, lit 0 1, lit 1 1] sv_new))
    \<and> fval (skill_difficulty_value (lit 9 10) (fold sv_push [lit 2 1, lit 0 1, lit 1 1] sv_new)) \<le> 6"
proof -
  have l: "fval (lit 2 1) = 2" "is_fin (lit 2 1)" "fval (lit 1 1) = 1" "is_fin (lit 1 1)" "fval (lit 0 1) = 0" "is_fin (lit 0 1)"
    using lit_int [of 2] lit_int [of 1] lit_int [of 0] by simp_all
  have "rounds_to (lit 9 10) (9 / 10)" using rounds_to_ratio [of 10 False 9] by (simp add: lit_def signed_def)
  then have "is_fin (lit 9 10)" "0 \<le> fval (lit 9 10)" "fval (lit 9 10) \<le> 1"
    using rounds_to_between [of "lit 9 10" "9 / 10" "lit 0 1" "lit 1 1"] l by simp_all
  then show ?thesis using difficulty_value_bounds [of "[lit 2 1, lit 0 1, lit 1 1]" 2 "lit 9 10"] l by simp
qed

lemma decay_strain_value_total:
  fixes ok :: "'a strain_decay_skill_scheme \<Rightarrow> bool"
  assumes "\<exists>v s'. strain_value_of (self\<lparr>sk_current_strain := sk_current_strain self * strain_decay lm b t\<rparr>) = Some (v, s') \<and> ok s'
      \<and> sk_section_end s' = sk_section_end self \<and> sk_strain_peaks s' = sk_strain_peaks self \<and> sk_object_strains s' = sk_object_strains self"
    "\<And>s x. ok s \<Longrightarrow> ok (s\<lparr>sk_current_strain := x\<rparr>)"
  shows "\<exists>v s'. decay_strain_value lm b m strain_value_of t self = Some (v, s') \<and> ok s'
    \<and> sk_section_end s' = sk_section_end self \<and> sk_strain_peaks s' = sk_strain_peaks self \<and> sk_object_strains s' = sk_object_strains self"
  using assms by (auto simp: decay_strain_value_def Let_def)

section \<open>Sections\<close>

text \<open>
  Section ends are integers that the additions of the loop keep exact. The loop runs until the
  section of the object is reached, once for every section in between.
\<close>

definition int_f64 :: "int \<Rightarrow> f64 \<Rightarrow> bool" where
  "int_f64 n x \<longleftrightarrow> is_fin x \<and> fval x = real_of_int n"

lemma new_sections_ends:
  assumes "int_f64 (int l) len" "0 < l" "int l < 2 ^ 12" "is_fin t" "fval t < 2 ^ 51"
    "int_f64 e (sk_section_end self)" "\<bar>e\<bar> < 2 ^ 52"
  shows "\<exists>self' e' vs. new_sections len init t self = Some self' \<and> int_f64 e' (sk_section_end self')
    \<and> e' = e + int (length vs) * int l \<and> fval t \<le> real_of_int e' \<and> (vs \<noteq> [] \<longrightarrow> real_of_int (e' - int l) < fval t)
    \<and> sk_strain_peaks self' = fold sv_push vs (sk_strain_peaks self)
    \<and> self' = self\<lparr>sk_section_peak := sk_section_peak self', sk_section_end := sk_section_end self',
        sk_strain_peaks := sk_strain_peaks self'\<rparr>"
  using assms(6,7)
proof (induction "nat (\<lceil>fval t\<rceil> - e)" arbitrary: self e rule: less_induct)
  case less
  note se = less.prems(1) [unfolded int_f64_def]
  show ?case
  proof (cases "sk_section_end self < t")
    case False
    then have "fval t \<le> real_of_int e" using se assms(4) by (simp add: less_f64_fin)
    then show ?thesis using less.prems(1) False
      by (subst new_sections.simps) (intro exI [of _ self] exI [of _ e] exI [of _ "[]"], simp)
  next
    case True
    then have lt: "real_of_int e < fval t" using se assms(4) by (simp add: less_f64_fin)
    then have "real_of_int e < 2 ^ 51" using assms(5) by linarith
    then have "e < 2 ^ 51" by (simp only: of_int_less_numeral_power_cancel_iff)
    then have b: "\<bar>e + int l\<bar> < 2 ^ 52" using less.prems(2) assms(2,3) by simp
    define self1 where "self1 = (let self = save_current_peak self; self = start_new_section init (sk_section_end self) self
        in self\<lparr>sk_section_end := sk_section_end self + len\<rparr>)"
    have s1: "sk_section_end self1 = sk_section_end self + len"
      "sk_strain_peaks self1 = sv_push (sk_section_peak self) (sk_strain_peaks self)"
      "self1\<lparr>sk_section_peak := p, sk_section_end := x, sk_strain_peaks := q\<rparr>
        = self\<lparr>sk_section_peak := p, sk_section_end := x, sk_strain_peaks := q\<rparr>" for p x q
      by (simp_all add: self1_def Let_def save_current_peak_def start_new_section_def)
    have e1: "int_f64 (e + int l) (sk_section_end self1)"
      using int_arith(1) [of "sk_section_end self" e len "int l"] se assms(1) b by (simp add: int_f64_def s1)
    have "nat (\<lceil>fval t\<rceil> - (e + int l)) < nat (\<lceil>fval t\<rceil> - e)" using lt assms(2) by linarith
    from less.hyps [OF this e1 b] obtain self' e' vs where h: "new_sections len init t self1 = Some self'"
      "int_f64 e' (sk_section_end self')" "e' = e + int l + int (length vs) * int l" "fval t \<le> real_of_int e'"
      "vs \<noteq> [] \<longrightarrow> real_of_int (e' - int l) < fval t" "sk_strain_peaks self' = fold sv_push vs (sk_strain_peaks self1)"
      "self' = self1\<lparr>sk_section_peak := sk_section_peak self', sk_section_end := sk_section_end self',
        sk_strain_peaks := sk_strain_peaks self'\<rparr>" by blast
    have n: "new_sections len init t self = Some self'"
      using True h(1) by (subst new_sections.simps) (simp add: self1_def)
    let ?vs = "sk_section_peak self # vs"
    have "e' = e + int (length ?vs) * int l" using h(3) by (simp add: algebra_simps)
    moreover have "real_of_int (e' - int l) < fval t" using h(3,5) lt by (cases "vs = []") simp_all
    moreover have "sk_strain_peaks self' = fold sv_push ?vs (sk_strain_peaks self)" using h(6) by (simp add: s1)
    ultimately show ?thesis using n h(2,4) h(7) [unfolded s1(3)] by blast
  qed
qed

text \<open>The section an object of index 0 starts with.\<close>

definition first_section_end :: "f64 \<Rightarrow> nat \<Rightarrow> f64 \<Rightarrow> int" where
  "first_section_end section_length l t = \<lceil>fval (t / section_length)\<rceil> * int l"

lemma first_section:
  assumes "int_f64 (int l) len" "0 < l" "int l < 2 ^ 12" "is_fin t" "\<bar>fval t\<bar> < 2 ^ 51"
  shows "int_f64 (first_section_end len l t) (fceil (t / len) * len)" "\<bar>first_section_end len l t\<bar> < 2 ^ 52"
proof -
  define k where "k = \<lceil>\<bar>fval t\<bar> / real l\<rceil>"
  have l: "is_fin len" "fval len = real l" using assms(1) by (simp_all add: int_f64_def)
  have "0 \<le> \<bar>fval t\<bar> / real l" by simp
  then have k0: "0 \<le> k" unfolding k_def by linarith
  have "real_of_int k < \<bar>fval t\<bar> / real l + 1" unfolding k_def by linarith
  then have "real_of_int k * real l < (\<bar>fval t\<bar> / real l + 1) * real l" using assms(2) by simp
  also have "\<dots> = \<bar>fval t\<bar> + real l" using assms(2) by (simp add: field_simps)
  also have "\<dots> < 2 ^ 51 + 2 ^ 12" using assms(3,5) by simp
  finally have "real_of_int (k * int l) < real_of_int (2 ^ 51 + 2 ^ 12)" by simp
  then have kl: "k * int l < 2 ^ 51 + 2 ^ 12" unfolding of_int_less_iff .
  moreover have "k * 1 \<le> k * int l" using k0 assms(2) by (intro mult_left_mono) simp_all
  ultimately have k: "k < 2 ^ 51 + 2 ^ 12" by simp
  then obtain hi lo where h: "is_fin hi" "fval hi = real_of_int k" and lo: "is_fin lo" "fval lo = real_of_int (- k)"
    using f64_int [of k] f64_int [of "- k"] k0 by auto
  let ?q = "t / len"
  have "\<bar>fval t / real l\<bar> \<le> real_of_int k" unfolding k_def by (simp add: abs_divide)
  then have b: "fval lo \<le> fval t / real l" "fval t / real l \<le> fval hi" unfolding lo(2) h(2) of_int_minus by linarith+
  have "rounds_to ?q (fval t / real l)" using fdiv_rounds [OF assms(4) l(1)] l(2) assms(2) by simp
  note q = rounds_to_between [OF this lo(1) h(1) b]
  have qb: "\<bar>fval ?q\<bar> \<le> real_of_int k" using q(2,3) unfolding lo(2) h(2) by simp
  have "real_of_int k < real_of_int (2 ^ 52)" unfolding of_int_less_iff using k by simp
  then have "real_of_int k < 2 ^ 52" by simp
  then have "\<bar>fval ?q\<bar> < 2 ^ 52" using qb by linarith
  note c = ceil_floor_val(1,2) [OF q(1) this]
  have "\<bar>\<lceil>fval ?q\<rceil>\<bar> \<le> k" using qb by linarith
  then have "\<bar>\<lceil>fval ?q\<rceil>\<bar> * int l \<le> k * int l" by (rule mult_right_mono) simp
  then have p: "\<bar>\<lceil>fval ?q\<rceil> * int l\<bar> \<le> k * int l" by (simp add: abs_mult)
  then show "\<bar>first_section_end len l t\<bar> < 2 ^ 52" unfolding first_section_end_def using kl by simp
  have "\<bar>\<lceil>fval ?q\<rceil> * int l\<bar> < 2 ^ 53" using p kl by simp
  then show "int_f64 (first_section_end len l t) (fceil (t / len) * len)"
    using int_arith(3) [of "fceil ?q" "\<lceil>fval ?q\<rceil>" len "int l"] c l unfolding int_f64_def first_section_end_def by simp
qed

text \<open>
  The interface of a skill: the length of its sections, the strain a section starts with and the
  strain of an object, where the objects are valid and the skill keeps its invariant.
\<close>

locale skill =
  fixes section_length :: f64
    and l :: nat
    and initial_strain :: "'d \<Rightarrow> 'a strain_skill_scheme \<Rightarrow> f64 \<Rightarrow> f64"
    and strain_value :: "'d \<Rightarrow> 'a strain_skill_scheme \<Rightarrow> (f64 \<times> 'a strain_skill_scheme) option"
    and idx :: "'d \<Rightarrow> nat"
    and start_time :: "'d \<Rightarrow> f64"
    and valid :: "'d \<Rightarrow> bool"
    and inv :: "'a strain_skill_scheme \<Rightarrow> bool"
  assumes section_length: "int_f64 (int l) section_length" "0 < l" "int l < 2 ^ 12"
    and inv_sections: "inv s \<Longrightarrow> inv (s\<lparr>sk_section_peak := p, sk_section_end := e, sk_strain_peaks := ps\<rparr>)"
    and inv_strains: "inv s \<Longrightarrow> inv (s\<lparr>sk_section_peak := p, sk_object_strains := os\<rparr>)"
    and strain_value: "valid c \<Longrightarrow> inv s \<Longrightarrow> \<exists>v s'. strain_value c s = Some (v, s') \<and> inv s'
      \<and> sk_section_end s' = sk_section_end s \<and> sk_strain_peaks s' = sk_strain_peaks s
      \<and> sk_object_strains s' = sk_object_strains s"
begin

abbreviation process :: "'d \<Rightarrow> 'a strain_skill_scheme \<Rightarrow> 'a strain_skill_scheme option" where
  "process c \<equiv> skill_process section_length (initial_strain c) (strain_value c) (idx c) (start_time c)"

abbreviation timed_object :: "'d \<Rightarrow> bool" where
  "timed_object c \<equiv> valid c \<and> is_fin (start_time c) \<and> \<bar>fval (start_time c)\<bar> < 2 ^ 51"

lemma process_ends:
  assumes "timed_object c" "inv s" "int_f64 e (sk_section_end s)" "\<bar>e\<bar> < 2 ^ 52"
    "e0 = (if idx c = 0 then first_section_end section_length l (start_time c) else e)"
  shows "\<exists>s' vs. process c s = Some s' \<and> inv s' \<and> int_f64 (e0 + int (length vs) * int l) (sk_section_end s')
    \<and> fval (start_time c) \<le> real_of_int (e0 + int (length vs) * int l)
    \<and> (vs \<noteq> [] \<longrightarrow> real_of_int (e0 + int (length vs) * int l - int l) < fval (start_time c))
    \<and> \<bar>e0 + int (length vs) * int l\<bar> < 2 ^ 52
    \<and> sk_strain_peaks s' = fold sv_push vs (sk_strain_peaks s) \<and> (\<exists>v. sk_object_strains s' = sk_object_strains s @ [v])"
proof -
  have t: "valid c" "is_fin (start_time c)" "\<bar>fval (start_time c)\<bar> < 2 ^ 51" using assms(1) by simp_all
  define s0 where "s0 = (if idx c = 0 then s\<lparr>sk_section_end := fceil (start_time c / section_length) * section_length\<rparr> else s)"
  have e0: "int_f64 e0 (sk_section_end s0)" "\<bar>e0\<bar> < 2 ^ 52"
    using first_section [OF section_length t(2,3)] assms(3,4) by (simp_all add: s0_def assms(5))
  have i0: "inv s0" "sk_strain_peaks s0 = sk_strain_peaks s" "sk_object_strains s0 = sk_object_strains s"
    using inv_sections [OF assms(2), where p = "sk_section_peak s" and ps = "sk_strain_peaks s"] assms(2) by (simp_all add: s0_def)
  have t51: "fval (start_time c) < 2 ^ 51" using t(3) by linarith
  obtain s1 e1 vs where s1: "new_sections section_length (initial_strain c) (start_time c) s0 = Some s1"
    "int_f64 e1 (sk_section_end s1)" "e1 = e0 + int (length vs) * int l" "fval (start_time c) \<le> real_of_int e1"
    "vs \<noteq> [] \<longrightarrow> real_of_int (e1 - int l) < fval (start_time c)" "sk_strain_peaks s1 = fold sv_push vs (sk_strain_peaks s0)"
    "s1 = s0\<lparr>sk_section_peak := sk_section_peak s1, sk_section_end := sk_section_end s1, sk_strain_peaks := sk_strain_peaks s1\<rparr>"
    using new_sections_ends [OF section_length t(2) t51 e0, of "initial_strain c"] by blast
  have i1: "inv s1" using inv_sections [OF i0(1)] s1(7) by metis
  have o1: "sk_object_strains s1 = sk_object_strains s" using arg_cong [OF s1(7), of sk_object_strains] i0(3) by simp
  obtain v s2 where s2: "strain_value c s1 = Some (v, s2)" "inv s2" "sk_section_end s2 = sk_section_end s1"
    "sk_strain_peaks s2 = sk_strain_peaks s1" "sk_object_strains s2 = sk_object_strains s1"
    using strain_value [OF t(1) i1] by blast
  define s3 where "s3 = s2\<lparr>sk_section_peak := fmax v (sk_section_peak s2), sk_object_strains := sk_object_strains s2 @ [v]\<rparr>"
  have p: "process c s = Some s3"
    using s1(1) s2(1) unfolding skill_process_def s0_def [symmetric] by (simp add: s3_def)
  have "\<bar>e1\<bar> < 2 ^ 52"
  proof (cases "vs = []")
    case False
    then have "real_of_int (e1 - int l) < 2 ^ 51" using s1(5) t(3) by (simp add: abs_less_iff)
    then have "e1 - int l < 2 ^ 51" by (simp only: of_int_less_numeral_power_cancel_iff)
    then have "e1 < 2 ^ 52" using section_length(3) by simp
    moreover have "e0 \<le> e1" using s1(3) by simp
    ultimately show ?thesis using e0(2) by simp
  qed (use s1(3) e0(2) in simp)
  note this [unfolded s1(3)] s1(2,4,5) [unfolded s1(3)]
  then show ?thesis using p inv_strains [OF s2(2)] s1(6) s2(3-5) i0(2) o1
    by (intro exI [of _ s3] exI [of _ vs]) (simp add: s3_def)
qed

lemma process_all_ends:
  assumes "\<forall>c\<in>set objs. timed_object c" "\<forall>i<length objs. idx (objs ! i) = i" "sorted (map (fval \<circ> start_time) objs)"
    "inv s" "int_f64 e (sk_section_end s)" "\<bar>e\<bar> < 2 ^ 52"
  shows "\<exists>s' vs. process_all process objs s = Some s' \<and> inv s' \<and> sk_strain_peaks s' = fold sv_push vs (sk_strain_peaks s)
    \<and> length (sk_object_strains s') = length (sk_object_strains s) + length objs
    \<and> length vs = (if objs = [] then 0
        else nat \<lceil>(fval (start_time (last objs)) - real_of_int (first_section_end section_length l (start_time (hd objs)))) / real l\<rceil>)"
proof -
  define e0 where "e0 = first_section_end section_length l (start_time (hd objs))"
  define I where "I xs s' \<longleftrightarrow> inv s' \<and> length (sk_object_strains s') = length (sk_object_strains s) + length xs
    \<and> (\<exists>vs e'. sk_strain_peaks s' = fold sv_push vs (sk_strain_peaks s) \<and> int_f64 e' (sk_section_end s') \<and> \<bar>e'\<bar> < 2 ^ 52
      \<and> (xs = [] \<longrightarrow> vs = []) \<and> (xs \<noteq> [] \<longrightarrow> e' = e0 + int (length vs) * int l \<and> fval (start_time (last xs)) \<le> real_of_int e'
        \<and> (vs \<noteq> [] \<longrightarrow> real_of_int (e' - int l) < fval (start_time (last xs)))))" for xs s'
  have step: "\<exists>s2. process c s1 = Some s2 \<and> I (xs @ [c]) s2" if objs: "objs = xs @ c # ys" and I: "I xs s1" for xs c ys s1
  proof -
    have c: "timed_object c" using assms(1) objs by simp
    have "length xs < length objs" using objs by simp
    from assms(2) [rule_format, OF this] have c2: "idx c = length xs" unfolding objs by simp
    obtain vs e' where vs: "sk_strain_peaks s1 = fold sv_push vs (sk_strain_peaks s)" "int_f64 e' (sk_section_end s1)" "\<bar>e'\<bar> < 2 ^ 52"
      "xs = [] \<longrightarrow> vs = []" "xs \<noteq> [] \<longrightarrow> e' = e0 + int (length vs) * int l \<and> fval (start_time (last xs)) \<le> real_of_int e'
        \<and> (vs \<noteq> [] \<longrightarrow> real_of_int (e' - int l) < fval (start_time (last xs)))" using I unfolding I_def by blast
    have i: "inv s1" "length (sk_object_strains s1) = length (sk_object_strains s) + length xs" using I by (simp_all add: I_def)
    define e1 where "e1 = (if idx c = 0 then first_section_end section_length l (start_time c) else e')"
    obtain s2 us where s2: "process c s1 = Some s2" "inv s2" "int_f64 (e1 + int (length us) * int l) (sk_section_end s2)"
      "fval (start_time c) \<le> real_of_int (e1 + int (length us) * int l)"
      "us \<noteq> [] \<longrightarrow> real_of_int (e1 + int (length us) * int l - int l) < fval (start_time c)"
      "\<bar>e1 + int (length us) * int l\<bar> < 2 ^ 52" "sk_strain_peaks s2 = fold sv_push us (sk_strain_peaks s1)"
      "\<exists>v. sk_object_strains s2 = sk_object_strains s1 @ [v]"
      using process_ends [OF c i(1) vs(2,3) e1_def] by blast
    have e1: "e1 = e0 + int (length vs) * int l"
      using vs(4,5) c2 objs by (cases "xs = []") (simp_all add: e1_def e0_def)
    have "fval (start_time (last xs)) \<le> fval (start_time c)" if "xs \<noteq> []"
      using assms(3) that unfolding objs by (auto simp: sorted_append)
    then have lt: "real_of_int (e1 + int (length us) * int l - int l) < fval (start_time c)" if "vs @ us \<noteq> []"
      using s2(5) vs(4,5) that e1 by (cases "us = []"; cases "xs = []") fastforce+
    have E: "e1 + int (length us) * int l = e0 + int (length (vs @ us)) * int l" by (simp add: e1 algebra_simps)
    have "\<exists>ws e'. sk_strain_peaks s2 = fold sv_push ws (sk_strain_peaks s) \<and> int_f64 e' (sk_section_end s2) \<and> \<bar>e'\<bar> < 2 ^ 52
      \<and> e' = e0 + int (length ws) * int l \<and> fval (start_time c) \<le> real_of_int e'
      \<and> (ws \<noteq> [] \<longrightarrow> real_of_int (e' - int l) < fval (start_time c))"
      using s2(3,4,6,7) vs(1) lt E unfolding E by (intro exI [of _ "vs @ us"] exI [of _ "e0 + int (length (vs @ us)) * int l"]) simp
    then have "I (xs @ [c]) s2" unfolding I_def using s2(2,8) i(2) by auto
    then show ?thesis using s2(1) by blast
  qed
  have "I [] s" using assms(4-6) unfolding I_def by (auto intro!: exI [of _ "[]"])
  then have "\<exists>s'. process_all process objs s = Some s' \<and> I objs s'"
    by (rule process_all_invariant) (rule step)
  then obtain s' where s': "process_all process objs s = Some s'" "I objs s'" by blast
  obtain vs e' where vs: "sk_strain_peaks s' = fold sv_push vs (sk_strain_peaks s)" "objs = [] \<longrightarrow> vs = []"
      "objs \<noteq> [] \<longrightarrow> e' = e0 + int (length vs) * int l \<and> fval (start_time (last objs)) \<le> real_of_int e'
        \<and> (vs \<noteq> [] \<longrightarrow> real_of_int (e' - int l) < fval (start_time (last objs)))" using s'(2) unfolding I_def by blast
  have "length vs = nat \<lceil>(fval (start_time (last objs)) - real_of_int e0) / real l\<rceil>" if "objs \<noteq> []"
  proof -
    let ?d = "fval (start_time (last objs)) - real_of_int e0"
    have u: "?d \<le> real (length vs) * real l" using vs(3) that by auto
    have lo: "real (length vs - 1) * real l < ?d" if "vs \<noteq> []"
      using vs(3) that \<open>objs \<noteq> []\<close> by (cases vs) (auto simp: algebra_simps)
    have l: "0 < real l" using section_length(2) by simp
    have "?d / real l \<le> real (length vs)" using u l by (simp add: pos_divide_le_eq)
    moreover have "real (length vs - 1) < ?d / real l" if "vs \<noteq> []" using lo [OF that] l by (simp add: pos_less_divide_eq)
    ultimately show ?thesis by (cases "vs = []") (simp_all, linarith+)
  qed
  then show ?thesis using s' vs(1,2) unfolding I_def e0_def [symmetric] by auto
qed

end

section \<open>Times of a map\<close>

text \<open>Times up to \<open>2 ^ 43\<close> milliseconds, in order, at a rate of at least 1/128.\<close>

definition timed_list :: "f64 list \<Rightarrow> bool" where
  "timed_list ts \<longleftrightarrow> (\<forall>t\<in>set ts. is_fin t \<and> \<bar>fval t\<bar> \<le> 2 ^ 43) \<and> sorted (map fval ts)"

definition clock_rate_ok :: "f64 \<Rightarrow> bool" where
  "clock_rate_ok rate \<longleftrightarrow> is_fin rate \<and> 1 / 128 \<le> fval rate"

lemma scaled_time:
  assumes "is_fin t" "\<bar>fval t\<bar> \<le> 2 ^ 43" "clock_rate_ok rate"
  shows "is_fin (t / rate)" "\<bar>fval (t / rate)\<bar> \<le> 2 ^ 50"
proof -
  have r: "is_fin rate" "1 / 128 \<le> fval rate" using assms(3) by (simp_all add: clock_rate_ok_def)
  obtain hi lo where h: "is_fin hi" "fval hi = real_of_int (2 ^ 50)" and lo: "is_fin lo" "fval lo = real_of_int (- (2 ^ 50))"
    using f64_int [of "2 ^ 50"] f64_int [of "- (2 ^ 50)"] by auto
  have "\<bar>fval t\<bar> / fval rate \<le> \<bar>fval t\<bar> / (1 / 128)" using r by (intro divide_left_mono) simp_all
  also have "\<dots> \<le> 2 ^ 50" using assms(2) by simp
  finally have "\<bar>fval t / fval rate\<bar> \<le> 2 ^ 50" using r(2) by (simp add: abs_divide)
  then have b: "fval lo \<le> fval t / fval rate" "fval t / fval rate \<le> fval hi" unfolding h(2) lo(2) by (simp_all only: abs_le_iff of_int_minus of_int_power of_int_numeral) linarith+
  have "rounds_to (t / rate) (fval t / fval rate)" using fdiv_rounds [OF assms(1) r(1)] r(2) by simp
  note q = rounds_to_between [OF this lo(1) h(1) b]
  show "is_fin (t / rate)" by (rule q(1))
  show "\<bar>fval (t / rate)\<bar> \<le> 2 ^ 50" using q(2,3) unfolding h(2) lo(2) by simp
qed

lemma scaled_mono:
  assumes "is_fin s" "is_fin t" "fval s \<le> fval t" "clock_rate_ok rate"
  shows "fval (s / rate) \<le> fval (t / rate)"
proof -
  have r: "is_fin rate" "0 < fval rate" using assms(4) by (auto simp: clock_rate_ok_def)
  have "rounds_to (s / rate) (fval s / fval rate)" "rounds_to (t / rate) (fval t / fval rate)"
    using fdiv_rounds assms(1,2) r by auto
  moreover have "fval s / fval rate \<le> fval t / fval rate" using assms(3) r(2) by (simp add: divide_right_mono)
  ultimately show ?thesis by (rule rounds_to_mono)
qed

lemma timed_list_take: "timed_list ts \<Longrightarrow> timed_list (take n ts)"
  by (auto simp: timed_list_def take_map [symmetric] sorted_wrt_take dest: in_set_takeD)

lemma scaled_times:
  assumes "timed_list ts" "clock_rate_ok rate" "length ds = length ts - 1" "\<And>i. i < length ds \<Longrightarrow> st (ds ! i) = ts ! (i + 1) / rate"
  shows "\<forall>c\<in>set ds. is_fin (st c) \<and> \<bar>fval (st c)\<bar> < 2 ^ 51" "sorted (map (fval \<circ> st) ds)"
proof -
  have t: "is_fin (ts ! (i + 1))" "\<bar>fval (ts ! (i + 1))\<bar> \<le> 2 ^ 43" if "i < length ds" for i
    using assms(1,3) that by (simp_all add: timed_list_def)
  show "\<forall>c\<in>set ds. is_fin (st c) \<and> \<bar>fval (st c)\<bar> < 2 ^ 51"
  proof
    fix c assume "c \<in> set ds"
    then obtain i where i: "i < length ds" "c = ds ! i" by (auto simp: in_set_conv_nth)
    note q = scaled_time [OF t [OF i(1)] assms(2)]
    have "(2::real) ^ 50 < 2 ^ 51" by simp
    then show "is_fin (st c) \<and> \<bar>fval (st c)\<bar> < 2 ^ 51" using q unfolding i(2) assms(4) [OF i(1)] by linarith
  qed
  show "sorted (map (fval \<circ> st) ds)"
  proof (unfold sorted_iff_nth_mono, intro allI impI)
    fix i j assume ij: "i \<le> j" "j < length (map (fval \<circ> st) ds)"
    then have l: "i < length ds" "j < length ds" "j + 1 < length ts" using assms(3) by simp_all
    have "sorted (map fval ts)" using assms(1) by (simp add: timed_list_def)
    then have "fval (ts ! (i + 1)) \<le> fval (ts ! (j + 1))"
      using ij(1) l(3) sorted_nth_mono [of "map fval ts" "i + 1" "j + 1"] by simp
    then show "map (fval \<circ> st) ds ! i \<le> map (fval \<circ> st) ds ! j"
      using scaled_mono t l assms(2,4) by simp
  qed
qed

text \<open>How many sections of \<open>l\<close> ms are finished between the first and the last of some times.\<close>

definition sections_between :: "nat \<Rightarrow> f64 list \<Rightarrow> nat" where
  "sections_between l ts = (if ts = [] then 0
     else nat \<lceil>(fval (last ts) - real_of_int (first_section_end (lit l 1) l (hd ts))) / real l\<rceil>)"

lemma sections_between_bound:
  assumes "\<forall>t\<in>set ts. is_fin t \<and> \<bar>fval t\<bar> < 2 ^ 51" "0 < l" "l < 2 ^ 12"
  shows "sections_between l ts < 2 ^ 63 - 1"
proof (cases "ts = []")
  case False
  have m: "hd ts \<in> set ts" "last ts \<in> set ts" using False by simp_all
  have l: "int_f64 (int l) (lit l 1)" using lit_int [of l] assms(3) by (simp add: int_f64_def)
  define e0 where "e0 = first_section_end (lit l 1) l (hd ts)"
  have "\<bar>e0\<bar> < 2 ^ 52" unfolding e0_def by (intro first_section(2) [OF l]) (use assms m(1) in simp_all)
  then have "- (2 ^ 52) \<le> e0" by simp
  then have e: "real_of_int (- (2 ^ 52)) \<le> real_of_int e0" by (simp only: of_int_le_iff)
  have "\<bar>fval (last ts)\<bar> < 2 ^ 51" using assms(1) m(2) by blast
  then have d: "fval (last ts) - real_of_int e0 \<le> 2 ^ 53" using e by simp
  have "(fval (last ts) - real_of_int e0) / real l \<le> 2 ^ 53 / 1"
    using d assms(2) by (intro frac_le) simp_all
  then have "(fval (last ts) - real_of_int e0) / real l \<le> real_of_int (2 ^ 53)" by simp
  then have "\<lceil>(fval (last ts) - real_of_int e0) / real l\<rceil> \<le> 2 ^ 53" by (rule ceiling_le)
  then have "nat \<lceil>(fval (last ts) - real_of_int e0) / real l\<rceil> \<le> nat (2 ^ 53)" by (rule nat_mono)
  moreover have "sections_between l ts = nat \<lceil>(fval (last ts) - real_of_int e0) / real l\<rceil>"
    using False by (simp add: sections_between_def e0_def)
  moreover have "nat (2 ^ 53) < 2 ^ 63 - 1" by simp
  ultimately show ?thesis by linarith
qed (simp add: sections_between_def)

text \<open>The peaks, the one of the last section included.\<close>

lemma current_peaks_length:
  assumes "sk_strain_peaks s = fold sv_push peaks sv_new" "length peaks < 2 ^ 63 - 1"
  shows "length (sv_into_vec (current_strain_peaks s)) = length peaks + 1"
proof -
  have l: "length (peaks @ [sk_section_peak s]) < 2 ^ 63" using assms(2) by simp
  have "current_strain_peaks s = fold sv_push (peaks @ [sk_section_peak s]) sv_new"
    by (simp add: current_strain_peaks_def assms(1))
  then show ?thesis
    using sv_pushes [OF l] unfolding sv_into_vec_def into_vec_loop_values sv_values_def [symmetric] by simp
qed

end
