(* ===== verification/Rosu_Map.thy ===== *)
theory Rosu_Map
  imports Beatmap
begin

text \<open>
  What the conversions of the modes take from the crate rosu-map: the path of a slider with its
  length and its positions, the events along it, the positions of its control points, and the
  default length of a beat. All of them are fields of one argument. The helper
  \<open>get_precision_adjusted_beat_len\<close> of \<open>src/util/mod.rs\<close> is the code's own.
\<close>

datatype slider_event_kind = HeadEvent | TickEvent | RepeatEvent | LastTickEvent | TailEvent

record slider_event =
  ev_kind :: slider_event_kind
  ev_time :: f64
  ev_path_progress :: f64

record ('p, 's) rosu_map =
  rm_default_beat_len :: f64
  rm_control_point_x :: "'p \<Rightarrow> f32"
  rm_path_dist :: "game_mode \<Rightarrow> ('p, 's) slider \<Rightarrow> f64"
  rm_position_at :: "game_mode \<Rightarrow> ('p, 's) slider \<Rightarrow> f64 \<Rightarrow> pos"
  rm_slider_events :: "f64 \<Rightarrow> f64 \<Rightarrow> f64 \<Rightarrow> f64 \<Rightarrow> f64 \<Rightarrow> i32 \<Rightarrow> slider_event list"

definition precision_adjusted_beat_len :: "f64 \<Rightarrow> f64 \<Rightarrow> f64" where
  "precision_adjusted_beat_len slider_velocity_multiplier beat_len =
    (let slider_velocity_as_beat_len = - lit 100 1 / slider_velocity_multiplier;
         bpm_multiplier = (if slider_velocity_as_beat_len < lit 0 1
           then f64_of_f32 (clamp32 (f32_of_f64 (- slider_velocity_as_beat_len)) (lit32 10 1) (lit32 10000 1)) / lit 100 1
           else lit 1 1)
     in beat_len * bpm_multiplier)"

definition slider_velocity_at :: "('p, 's) beatmap \<Rightarrow> f64 \<Rightarrow> f64" where
  "slider_velocity_at bm t = map_or (lit 1 1) dp_slider_velocity (beatmap_difficulty_point_at bm t)"

definition beat_len_at :: "('p, 's) rosu_map \<Rightarrow> ('p, 's) beatmap \<Rightarrow> f64 \<Rightarrow> f64" where
  "beat_len_at rm bm t = map_or (rm_default_beat_len rm) tp_beat_len (beatmap_timing_point_at bm t)"

text \<open>The cast of a signed integer to 32-bit floating point.\<close>

definition f32_of_i32 :: "i32 \<Rightarrow> f32" where
  "f32_of_i32 w = round_ratio32 (sint w < 0) (nat \<bar>sint w\<bar>) 1"

definition usize_as_f64 :: "usize \<Rightarrow> f64" where
  "usize_as_f64 n = f64_of_nat (unat n)"

end
