(* ===== verification/Random_Numbers.thy ===== *)
theory Random_Numbers
  imports F64_Values
begin

text \<open>
  The random number generator of osu! stable (\<open>src/util/random.rs\<close>): a xorshift generator of
  32-bit words, integers and floating point numbers derived from its words, and single bits taken
  from one word at a time. Every operation returns its result and the generator after it.
\<close>

definition int_to_real :: f64 where
  "int_to_real = lit 1 1 / (f64_of_i32 2147483647 + lit 1 1)"

definition int_mask :: u32 where
  "int_mask = 0x7FFFFFFF"

record random =
  rn_x :: u32
  rn_y :: u32
  rn_z :: u32
  rn_w :: u32
  rn_bit_buf :: u32
  rn_bit_idx :: i32

definition random_new :: "i32 \<Rightarrow> random" where
  "random_new seed = \<lparr>rn_x = seed, rn_y = 842502087, rn_z = 3579807591, rn_w = 273326509,
     rn_bit_buf = 0, rn_bit_idx = 32\<rparr>"

definition gen_unsigned :: "random \<Rightarrow> u32 \<times> random" where
  "gen_unsigned r =
    (let t = rn_x r XOR push_bit 11 (rn_x r);
         w = rn_w r XOR drop_bit 19 (rn_w r) XOR t XOR drop_bit 8 t
     in (w, r\<lparr>rn_x := rn_y r, rn_y := rn_z r, rn_z := rn_w r, rn_w := w\<rparr>))"

definition next_int :: "random \<Rightarrow> i32 \<times> random" where
  "next_int r = (let (w, r) = gen_unsigned r in (int_mask AND w, r))"

definition next_double :: "random \<Rightarrow> f64 \<times> random" where
  "next_double r = (let (i, r) = next_int r in (int_to_real * f64_of_i32 i, r))"

definition next_int_range :: "i32 \<Rightarrow> i32 \<Rightarrow> random \<Rightarrow> i32 \<times> random" where
  "next_int_range lo hi r = (let (d, r) = next_double r in (as_i32 (f64_of_i32 lo + d * f64_of_i32 (hi - lo)), r))"

definition next_double_range :: "f64 \<Rightarrow> f64 \<Rightarrow> random \<Rightarrow> i32 \<times> random" where
  "next_double_range lo hi r = (let (d, r) = next_double r in (as_i32 (lo + d * (hi - lo)), r))"

definition next_bool :: "random \<Rightarrow> bool \<times> random" where
  "next_bool r =
    (let r = (if rn_bit_idx r = 32 then let (w, r) = gen_unsigned r in r\<lparr>rn_bit_buf := w, rn_bit_idx := 1\<rparr>
        else r\<lparr>rn_bit_idx := rn_bit_idx r + 1, rn_bit_buf := drop_bit 1 (rn_bit_buf r)\<rparr>)
     in (rn_bit_buf r AND 1 = 1, r))"

section \<open>Numbers\<close>

lemma masked_bounds: "0 \<le> sint (int_mask AND w)" "sint (int_mask AND w) < 2 ^ 31"
  and masked_mod: "sint (int_mask AND w) = uint w mod 2 ^ 31"
proof -
  have m: "int_mask = mask 31" by (simp add: int_mask_def mask_eq_exp_minus_1)
  have u: "uint (int_mask AND w) = uint w mod 2 ^ 31"
  proof -
    have "int_mask AND w = take_bit 31 w" by (simp add: m take_bit_eq_mask and.commute)
    then show ?thesis by (simp only: unsigned_take_bit_eq) (simp only: take_bit_eq_mod)
  qed
  have s: "sint (int_mask AND w) = uint (int_mask AND w)"
    unfolding sint_uint using u by (intro signed_take_bit_int_eq_self) simp_all
  show "0 \<le> sint (int_mask AND w)" "sint (int_mask AND w) < 2 ^ 31" "sint (int_mask AND w) = uint w mod 2 ^ 31"
    unfolding s u by simp_all
qed

lemma int_to_real_val: "fval int_to_real = 1 / 2 ^ 31" "is_fin int_to_real"
proof -
  define u where "u = lit 1 1"
  have "u = f64_of_nat 1" by (simp add: u_def lit_def f64_of_nat_def)
  then have one: "fval u = 1" "is_fin u" using f64_of_nat_exact [of 1] by simp_all
  let ?d = "f64_of_i32 2147483647 + u"
  have "fval (f64_of_i32 2147483647) + fval u = real_of_int 2147483648 / 2 ^ 0" by (simp add: one)
  then have "rounds_to ?d (real_of_int 2147483648 / 2 ^ 0)"
    using fadd_rounds [OF f64_of_i32_exact(2) one(2), of 2147483647] by (simp only:)
  then have d: "fval ?d = 2147483648" "is_fin ?d" using rounds_to_grid [of ?d 2147483648 0] by simp_all
  have "fval u / fval ?d = real_of_int 1 / 2 ^ 31" by (simp add: one d)
  moreover have "rounds_to int_to_real (fval u / fval ?d)"
    unfolding int_to_real_def u_def [symmetric] by (rule fdiv_rounds [OF one(2) d(2)]) (simp add: d)
  ultimately have "rounds_to int_to_real (real_of_int 1 / 2 ^ 31)" by (simp only:)
  then show "fval int_to_real = 1 / 2 ^ 31" "is_fin int_to_real"
    using rounds_to_grid [of int_to_real 1 31] by simp_all
qed

lemma next_int_bounds: "0 \<le> sint (fst (next_int r))" "sint (fst (next_int r)) < 2 ^ 31"
  using masked_bounds by (auto simp: next_int_def split: prod.split)

lemma next_double_val:
  "fval (fst (next_double r)) = real_of_int (sint (fst (next_int r))) / 2 ^ 31" "is_fin (fst (next_double r))"
  "snd (next_double r) = snd (next_int r)"
proof -
  obtain i r' where n: "next_int r = (i, r')" by fastforce
  have m: "rounds_to (int_to_real * f64_of_i32 i) (real_of_int (sint i) / 2 ^ 31)"
    using fmul_rounds [OF int_to_real_val(2) f64_of_i32_exact(2), of i] by (simp add: int_to_real_val)
  have "\<bar>sint i\<bar> < 2 ^ 53" using next_int_bounds [of r] n by simp
  note rounds_to_grid [OF m this, simplified]
  then show "fval (fst (next_double r)) = real_of_int (sint (fst (next_int r))) / 2 ^ 31"
    "is_fin (fst (next_double r))" "snd (next_double r) = snd (next_int r)"
    by (simp_all add: next_double_def n)
qed

text \<open>
  In ranges of non-negative integers up to a million the floating point computation of
  \<open>next_int_range\<close> is exact: the result is the lower end plus the scaled 31 bits of the next word,
  so that it lies in the range, never at the upper end.
\<close>

theorem next_int_range_exact:
  assumes "0 \<le> sint lo" "sint lo < sint hi" "sint hi \<le> 2 ^ 20"
  shows "sint (fst (next_int_range lo hi r)) = sint lo + sint (fst (next_int r)) * (sint hi - sint lo) div 2 ^ 31
    \<and> sint lo \<le> sint (fst (next_int_range lo hi r)) \<and> sint (fst (next_int_range lo hi r)) < sint hi"
proof -
  obtain i r' where n: "next_int r = (i, r')" by fastforce
  obtain d where d: "next_double r = (d, r')" using n next_double_val(3) [of r] by (metis prod.collapse snd_conv)
  have dv: "fval d = real_of_int (sint i) / 2 ^ 31" "is_fin d" using next_double_val(1,2) [of r] by (simp_all add: n d)
  have i: "0 \<le> sint i" "sint i < 2 ^ 31" using next_int_bounds [of r] by (simp_all add: n)
  define m where "m = sint hi - sint lo"
  have m: "0 < m" "m \<le> 2 ^ 20" using assms by (simp_all add: m_def)
  have hl: "sint (hi - lo) = m"
    unfolding sint_word_ariths m_def using assms by (intro signed_take_bit_int_eq_self) simp_all
  have im: "0 \<le> sint i * m" "sint i * m \<le> (2 ^ 31 - 1) * m" "sint i * m \<le> 2 ^ 31 * 2 ^ 20"
    using i m mult_mono [of "sint i" "2 ^ 31" m "2 ^ 20"] by (auto intro: mult_right_mono)
  have "rounds_to (d * f64_of_i32 (hi - lo)) (fval d * fval (f64_of_i32 (hi - lo)))" by (rule fmul_rounds) (simp_all add: dv)
  then have "rounds_to (d * f64_of_i32 (hi - lo)) (real_of_int (sint i * m) / 2 ^ 31)" by (simp add: dv hl)
  moreover have "\<bar>sint i * m\<bar> < 2 ^ 53" using im m by simp
  ultimately have p: "fval (d * f64_of_i32 (hi - lo)) = real_of_int (sint i * m) / 2 ^ 31" "is_fin (d * f64_of_i32 (hi - lo))"
    using rounds_to_grid [of _ "sint i * m" 31] by simp_all
  define k where "k = sint lo * 2 ^ 31 + sint i * m"
  let ?s = "f64_of_i32 lo + d * f64_of_i32 (hi - lo)"
  have kb: "0 \<le> k" "k < sint hi * 2 ^ 31" using im m assms(1) by (simp_all add: k_def m_def algebra_simps)
  have "rounds_to ?s (fval (f64_of_i32 lo) + fval (d * f64_of_i32 (hi - lo)))" by (rule fadd_rounds) (simp_all add: p)
  moreover have "fval (f64_of_i32 lo) + fval (d * f64_of_i32 (hi - lo)) = real_of_int k / 2 ^ 31"
    unfolding p f64_of_i32_exact(1) k_def by (simp add: field_simps)
  ultimately have "rounds_to ?s (real_of_int k / 2 ^ 31)" by (simp only:)
  moreover have "\<bar>k\<bar> < 2 ^ 53" using kb assms(3) by simp
  ultimately have s: "fval ?s = real_of_int k / 2 ^ 31" "is_fin ?s" using rounds_to_grid [of ?s k 31] by simp_all
  have "real_of_int k < real_of_int (sint hi * 2 ^ 31)" using kb by (simp only: of_int_less_iff)
  moreover have "real_of_int (sint hi) \<le> real_of_int (2 ^ 20)" using assms(3) by (simp only: of_int_le_iff)
  ultimately have "fval ?s < 2 ^ 31" unfolding s by simp
  then have "sint (as_i32 ?s) = \<lfloor>real_of_int k / 2 ^ 31\<rfloor>" using as_i32_val [OF s(2)] kb s(1) by simp
  also have "\<lfloor>real_of_int k / 2 ^ 31\<rfloor> = k div 2 ^ 31" using floor_divide_of_int_eq [of k "2 ^ 31"] by simp
  finally have r: "sint (fst (next_int_range lo hi r)) = k div 2 ^ 31" by (simp add: next_int_range_def d)
  have "k div 2 ^ 31 = sint lo + sint i * m div 2 ^ 31" by (simp add: k_def)
  moreover have "k div 2 ^ 31 < sint hi" using kb by (simp add: div_less_iff_less_mult)
  moreover have "0 \<le> sint i * m div 2 ^ 31" using im(1) by simp
  ultimately show ?thesis unfolding r by (simp add: n m_def)
qed

theorem next_int_range_exact_witness:
  "1 \<le> sint (fst (next_int_range 1 8 (random_new 1337))) \<and> sint (fst (next_int_range 1 8 (random_new 1337))) < 8"
  using next_int_range_exact [of 1 8 "random_new 1337"] by simp

section \<open>Bits\<close>

text \<open>Bits drawn one after the other.\<close>

fun next_bools :: "nat \<Rightarrow> random \<Rightarrow> bool list \<times> random" where
  "next_bools 0 r = ([], r)"
| "next_bools (Suc n) r = (let (bs, r) = next_bools n r; (b, r) = next_bool r in (bs @ [b], r))"

lemma drop_bit_first: "drop_bit k w AND 1 = 1 \<longleftrightarrow> bit w k" for w :: "'a::len word"
  by (simp add: and_one_eq bit_iff_odd_drop_bit odd_iff_mod_2_eq_one flip: bit_0)

lemma next_bools_bits:
  assumes "rn_bit_idx r = 32" "n < 32" "gen_unsigned r = (w, r')"
  shows "next_bools (Suc n) r = (map (bit w) [0..<Suc n], r'\<lparr>rn_bit_buf := drop_bit n w, rn_bit_idx := word_of_nat (Suc n)\<rparr>)"
  using assms(2)
proof (induction n)
  case 0
  then show ?case using assms(1,3) drop_bit_first [of 0 w] by (simp add: next_bool_def)
next
  case (Suc n)
  have "word_of_nat (Suc n) \<noteq> (32 :: i32)"
  proof
    assume "word_of_nat (Suc n) = (32 :: i32)"
    then have "unat (word_of_nat (Suc n) :: i32) = unat (32 :: i32)" by (rule arg_cong)
    moreover have "unat (word_of_nat (Suc n) :: i32) = Suc n" using Suc.prems by (simp only: unat_of_nat) simp
    ultimately show False using Suc.prems by simp
  qed
  then show ?case using Suc drop_bit_first [of "Suc n" w]
    by (simp add: next_bool_def drop_bit_drop_bit add.commute [of 1] del: next_bools.simps add: next_bools.simps(2) [of "Suc n"])
qed

text \<open>
  Where no bits are left, the next 32 calls of \<open>next_bool\<close> give the bits of the next word
  from the lowest to the highest, and then no bits are left again.
\<close>

theorem next_bool_bits:
  assumes "rn_bit_idx r = 32"
  shows "fst (next_bools 32 r) = map (bit (fst (gen_unsigned r))) [0..<32]
    \<and> rn_bit_idx (snd (next_bools 32 r)) = 32"
proof -
  obtain w r' where g: "gen_unsigned r = (w, r')" by fastforce
  have s: "Suc 31 = 32" by simp
  show ?thesis using next_bools_bits [OF assms _ g, of 31] unfolding s by (simp add: g)
qed

theorem next_bool_bits_witness:
  "fst (next_bools 32 (random_new 1337)) = map (bit (fst (gen_unsigned (random_new 1337)))) [0..<32]"
  using next_bool_bits [of "random_new 1337"] by (simp add: random_new_def)

end
