(* ===== verification/F32_Values.thy ===== *)
theory F32_Values
  imports F32 Libm
begin

text \<open>
  The numbers that 32-bit patterns stand for. Casts and arithmetic round to them without ever
  crossing one: \<open>rounds32_to x r\<close> says that \<open>x\<close> lies on the same side of every finite value
  as \<open>r\<close>.
\<close>

definition is_fin32 :: "f32 \<Rightarrow> bool" where
  "is_fin32 x \<longleftrightarrow> magn32 x < inf_mag32"

definition fval32 :: "f32 \<Rightarrow> real" where
  "fval32 x = (if sgn32 x then - gval 23 149 (magn32 x) else gval 23 149 (magn32 x))"

definition rounds32_to :: "f32 \<Rightarrow> real \<Rightarrow> bool" where
  "rounds32_to x r \<longleftrightarrow> \<not> is_nan32 x \<and>
    (\<forall>y. is_fin32 y \<longrightarrow> (fval32 y \<le> r \<longrightarrow> fval32 y \<le> fval32 x) \<and> (r \<le> fval32 y \<longrightarrow> fval32 x \<le> fval32 y))"

lemma unat_mk32: "m < 2147483648 \<Longrightarrow> unat (bits32 (mk32 s m)) = (if s then 2147483648 else 0) + m"
  unfolding mk32_def f32.sel unat_of_nat by simp

lemma mk32_sel [simp]: "m < 2147483648 \<Longrightarrow> magn32 (mk32 s m) = m" "m < 2147483648 \<Longrightarrow> sgn32 (mk32 s m) = s"
  by (simp_all add: magn32_def sgn32_def unat_mk32)

lemma key32_fval: "fval32 x \<le> fval32 y \<longleftrightarrow> key32 x \<le> key32 y"
proof -
  have neg: "- gval 23 149 m \<le> gval 23 149 n" for m n
    using gval_nonneg [of 23 149 m] gval_nonneg [of 23 149 n] by linarith
  have pos: "gval 23 149 m \<le> - gval 23 149 n \<longleftrightarrow> m = 0 \<and> n = 0" for m n
    using gval_nonneg [of 23 149 m] gval_nonneg [of 23 149 n] gval_le_iff [of 23 149 m 0] gval_le_iff [of 23 149 n 0] by auto
  show ?thesis unfolding fval32_def key32_def by (cases "sgn32 x"; cases "sgn32 y") (simp_all add: neg pos, arith)
qed

lemma less32_fin: "is_fin32 x \<Longrightarrow> is_fin32 y \<Longrightarrow> x < y \<longleftrightarrow> fval32 x < fval32 y"
  using key32_fval [of y x] by (auto simp: less_f32_def is_fin32_def is_nan32_def not_le)

lemma le32_fin: "is_fin32 x \<Longrightarrow> is_fin32 y \<Longrightarrow> x \<le> y \<longleftrightarrow> fval32 x \<le> fval32 y"
  using key32_fval [of x y] by (auto simp: less_eq_f32_def is_fin32_def is_nan32_def)

lemma fin32_between:
  assumes "is_fin32 lo" "is_fin32 hi" "fval32 lo \<le> fval32 x" "fval32 x \<le> fval32 hi"
  shows "is_fin32 x"
  using assms unfolding key32_fval by (auto simp: is_fin32_def key32_def split: if_splits)

text \<open>The rounding of a ratio.\<close>

lemma round_ratio32_rounds:
  assumes "0 < d"
  shows "rounds32_to (round_ratio32 s n d) (signed s (real n / real d))"
proof -
  let ?N = "min inf_mag32 (round_mag 23 149 n d)"
  have N: "?N < 2147483648" by (simp add: inf_mag32_def)
  have v: "fval32 (round_ratio32 s n d) = signed s (gval 23 149 ?N)"
    using N by (simp add: fval32_def round_ratio32_def signed_def)
  have nn: "\<not> is_nan32 (round_ratio32 s n d)" using N by (simp add: is_nan32_def round_ratio32_def)
  define x b where "x = real n / real d" and "b = gval 23 149 ?N"
  have z: "x \<le> 0 \<Longrightarrow> b = 0"
    using round_mag_le [OF assms, of n 23 149 0] by (simp add: x_def b_def)
  have p: "0 \<le> b" "0 \<le> x" by (simp_all add: x_def b_def)
  have side: "(fval32 y \<le> signed s x \<longrightarrow> fval32 y \<le> signed s b) \<and> (signed s x \<le> fval32 y \<longrightarrow> signed s b \<le> fval32 y)"
    if y: "is_fin32 y" for y
  proof -
    define a where "a = gval 23 149 (magn32 y)"
    have a: "0 \<le> a" "a \<le> x \<Longrightarrow> a \<le> b" "x \<le> a \<Longrightarrow> b \<le> a"
      using round_mag_ge [OF assms, of 23 149 "magn32 y" n] round_mag_le [OF assms, of n 23 149 "magn32 y"] y
      by (simp_all add: a_def x_def b_def is_fin32_def)
    have f: "fval32 y = signed (sgn32 y) a" by (simp add: fval32_def signed_def a_def)
    have "a \<le> - x \<Longrightarrow> a \<le> - b" "- a \<le> x \<Longrightarrow> - a \<le> b" "- x \<le> a \<Longrightarrow> - b \<le> a" "x \<le> - a \<Longrightarrow> b \<le> - a"
      using p a z by linarith+
    then show ?thesis using a by (cases s; cases "sgn32 y") (simp_all add: f signed_def)
  qed
  show ?thesis unfolding rounds32_to_def v using nn side by (simp add: x_def b_def)
qed

lemma f32_of_f64_rounds:
  assumes "is_fin x"
  shows "rounds32_to (f32_of_f64 x) (fval x)"
proof -
  obtain n d where d: "dyad (fman x) (fex x) 1074 = (n, d)" by fastforce
  have "fval x = signed (sgn_bit x) (real n / real d)"
    unfolding dyad_ratio(2) [OF d] fval_man_ex fint_def signed_def by simp
  then show ?thesis using round_ratio32_rounds [OF dyad_ratio(1) [OF d], of "sgn_bit x" n] assms by (simp add: f32_of_f64_def d)
qed

text \<open>A 32-bit value is one of the 64-bit values.\<close>

lemma gval32_in_64:
  assumes "m < inf_mag32"
  shows "\<exists>M < inf_mag. gval 52 1074 M = gval 23 149 m"
proof (cases "m < 2 ^ 23")
  case True
  then have e: "gval 23 149 m = real m / 2 ^ 149" by (simp add: gval_def ex_def man_def)
  show ?thesis unfolding e by (rule gval_grid) (use True in \<open>simp_all\<close>)
next
  case False
  define k E where "k = man 23 m" and "E = ex 23 m"
  have k: "2 ^ 23 \<le> k" "k < 2 ^ 24" using man_less [of 23 m] False by (simp_all add: k_def man_def)
  have "m div 2 ^ 23 < 256" using assms by (simp add: inf_mag32_def div_less_iff_less_mult)
  then have E: "E < 255" by (simp add: E_def ex_def)
  have "gval 52 1074 (enc 52 (E + 896) (k * 2 ^ 29)) = real (k * 2 ^ 29) * 2 ^ (E + 896) / 2 ^ 1074"
    using k by (intro gval_enc) auto
  also have "\<dots> = real k * 2 ^ E * 2 ^ 925 / 2 ^ 1074" by (simp add: power_add)
  also have "(2::real) ^ 1074 = 2 ^ 149 * 2 ^ 925" by (simp flip: power_add)
  also have "real k * 2 ^ E * 2 ^ 925 / (2 ^ 149 * 2 ^ 925) = real k * 2 ^ E / 2 ^ 149"
    by (rule mult_divide_mult_cancel_right) simp
  also have "\<dots> = gval 23 149 m" by (simp add: gval_def k_def E_def)
  finally have "gval 52 1074 (enc 52 (E + 896) (k * 2 ^ 29)) = gval 23 149 m" .
  moreover have "enc 52 (E + 896) (k * 2 ^ 29) < inf_mag" using k(2) E by (simp add: enc_def inf_mag_def)
  ultimately show ?thesis by blast
qed

lemma fval32_in_64: "is_fin32 x \<Longrightarrow> \<exists>y. is_fin y \<and> fval y = fval32 x"
proof -
  assume "is_fin32 x"
  then obtain M where M: "M < inf_mag" "gval 52 1074 M = gval 23 149 (magn32 x)"
    using gval32_in_64 by (auto simp: is_fin32_def)
  then have "M < 9223372036854775808" by (simp add: inf_mag_def)
  then have "is_fin (mk (sgn32 x) M)" "fval (mk (sgn32 x) M) = fval32 x"
    using M by (simp_all add: is_fin_def fval_def fval32_def)
  then show ?thesis by blast
qed

lemma f64_of_f32_exact:
  assumes "is_fin32 x"
  shows "fval (f64_of_f32 x) = fval32 x" "is_fin (f64_of_f32 x)"
proof -
  obtain y where y: "is_fin y" "fval y = fval32 x" using fval32_in_64 [OF assms] by blast
  have "rounds_to (f64_of_f32 x) (fval32 x)"
  proof (cases "magn32 x = 0")
    case True
    then show ?thesis using assms rounds_to_0 [of "fzero (sgn32 x)"]
      by (cases "sgn32 x") (simp_all add: f64_of_f32_def is_fin32_def is_nan32_def is_inf32_def inf_mag32_def fval32_def)
  next
    case False
    then show ?thesis using assms round_dyad_rounds [of "sgn32 x" "man 23 (magn32 x)" "ex 23 (magn32 x)" 149]
      by (cases "sgn32 x") (simp_all add: f64_of_f32_def is_fin32_def is_nan32_def is_inf32_def fval32_def gval_def signed_def)
  qed
  then show "fval (f64_of_f32 x) = fval32 x" "is_fin (f64_of_f32 x)"
    using rounds_to_exact [of _ y] rounds_to_between [of "f64_of_f32 x" "fval32 x" y y] y fin_not(1) by simp_all
qed

text \<open>The arithmetic, in a range where the 64-bit result is finite.\<close>

lemma rounds32_via:
  assumes "rounds_to s r" "\<bar>r\<bar> < 2 ^ 52"
  shows "rounds32_to (f32_of_f64 s) r"
proof -
  have "\<bar>r\<bar> * 2 ^ 0 < 2 ^ 53 - 1" using assms(2) by simp
  then have s: "is_fin s" using rounds_to_error(2) [OF assms(1), of 0] by simp
  note f = f32_of_f64_rounds [OF s]
  have "(fval32 y \<le> r \<longrightarrow> fval32 y \<le> fval s) \<and> (r \<le> fval32 y \<longrightarrow> fval s \<le> fval32 y)" if y: "is_fin32 y" for y
    using fval32_in_64 [OF y] rounds_to_ge [OF assms(1)] rounds_to_le [OF assms(1)] fin_not(1) by metis
  then show ?thesis using f unfolding rounds32_to_def by blast
qed

lemma arith32_rounds:
  assumes "is_fin32 a" "is_fin32 b"
  shows "\<bar>fval32 a + fval32 b\<bar> < 2 ^ 52 \<Longrightarrow> rounds32_to (a + b) (fval32 a + fval32 b)"
    and "\<bar>fval32 a - fval32 b\<bar> < 2 ^ 52 \<Longrightarrow> rounds32_to (a - b) (fval32 a - fval32 b)"
    and "\<bar>fval32 a * fval32 b\<bar> < 2 ^ 52 \<Longrightarrow> rounds32_to (a * b) (fval32 a * fval32 b)"
    and "\<bar>fval32 a / fval32 b\<bar> < 2 ^ 52 \<Longrightarrow> fval32 b \<noteq> 0 \<Longrightarrow> rounds32_to (a / b) (fval32 a / fval32 b)"
  using rounds32_via [OF fadd_rounds [OF f64_of_f32_exact(2) f64_of_f32_exact(2), OF assms]]
    rounds32_via [OF fsub_rounds [OF f64_of_f32_exact(2) f64_of_f32_exact(2), OF assms]]
    rounds32_via [OF fmul_rounds [OF f64_of_f32_exact(2) f64_of_f32_exact(2), OF assms]]
    rounds32_via [OF fdiv_rounds [OF f64_of_f32_exact(2) f64_of_f32_exact(2), OF assms]]
    f64_of_f32_exact(1) [OF assms(1)] f64_of_f32_exact(1) [OF assms(2)]
  by (simp_all add: plus_f32_def minus_f32_def times_f32_def divide_f32_def)

lemma rounds32_between:
  assumes "rounds32_to x r" "is_fin32 lo" "is_fin32 hi" "fval32 lo \<le> r" "r \<le> fval32 hi"
  shows "is_fin32 x" "fval32 lo \<le> fval32 x" "fval32 x \<le> fval32 hi"
proof -
  show "fval32 lo \<le> fval32 x" "fval32 x \<le> fval32 hi" using assms by (auto simp: rounds32_to_def)
  then show "is_fin32 x" using fin32_between assms(2,3) by blast
qed

text \<open>Integers up to \<open>2 ^ 24\<close> are values.\<close>

lemma gval32_of_nat: "n \<le> 2 ^ 24 \<Longrightarrow> \<exists>m < inf_mag32. gval 23 149 m = real n"
proof (cases "n = 0")
  case True
  then show ?thesis by (intro exI [of _ 0]) (simp add: inf_mag32_def)
next
  case False
  assume n: "n \<le> 2 ^ 24"
  define l where "l = floorlog 2 n - 1"
  have "floorlog 2 n = Suc l" using False by (simp add: floorlog_def l_def)
  then have b: "2 ^ l \<le> n" "n < 2 ^ Suc l" using False floorlog_bounds [of n 2] by (simp_all add: l_def)
  show ?thesis
  proof (cases "l \<le> 23")
    case True
    have "(2::nat) ^ 23 = 2 ^ l * 2 ^ (23 - l)" "(2::nat) ^ Suc 23 = 2 ^ Suc l * 2 ^ (23 - l)"
      using True by (simp_all flip: power_add)
    then have m: "2 ^ 23 \<le> n * 2 ^ (23 - l)" "n * 2 ^ (23 - l) < 2 ^ Suc 23"
      using b by (simp_all only: mult_le_mono1) simp
    have "gval 23 149 (enc 23 (l + 126) (n * 2 ^ (23 - l))) = real (n * 2 ^ (23 - l)) * 2 ^ (l + 126) / 2 ^ 149"
      using m by (intro gval_enc) auto
    also have "\<dots> = real n * (2 ^ (23 - l) * 2 ^ (l + 126)) / 2 ^ 149" by simp
    also have "(2::real) ^ (23 - l) * 2 ^ (l + 126) = 2 ^ 149" unfolding power_add [symmetric] using True by simp
    finally have "gval 23 149 (enc 23 (l + 126) (n * 2 ^ (23 - l))) = real n" by simp
    moreover have "enc 23 (l + 126) (n * 2 ^ (23 - l)) < inf_mag32" using m(2) True by (simp add: enc_def inf_mag32_def)
    ultimately show ?thesis by blast
  next
    case False
    then have "(2::nat) ^ 24 \<le> 2 ^ l" by (intro power_increasing) auto
    then have e: "n = 2 ^ 24" using b n by linarith
    show ?thesis by (rule exI [of _ "enc 23 150 (2 ^ 23)"]) (simp add: e gval_enc, simp add: enc_def inf_mag32_def)
  qed
qed

lemma f32_int: "\<bar>k\<bar> \<le> 2 ^ 24 \<Longrightarrow> \<exists>y. is_fin32 y \<and> fval32 y = real_of_int k"
proof -
  assume "\<bar>k\<bar> \<le> 2 ^ 24"
  then have "nat \<bar>k\<bar> \<le> 2 ^ 24" by (simp add: nat_le_iff)
  then obtain m where m: "m < inf_mag32" "gval 23 149 m = real (nat \<bar>k\<bar>)" using gval32_of_nat by blast
  then have "m < 2147483648" by (simp add: inf_mag32_def)
  then have "is_fin32 (mk32 (k < 0) m)" "fval32 (mk32 (k < 0) m) = real_of_int k"
    using m by (auto simp: is_fin32_def fval32_def)
  then show ?thesis by blast
qed

lemma rounds32_exact:
  assumes "rounds32_to x (fval32 y)" "is_fin32 y"
  shows "fval32 x = fval32 y" "is_fin32 x"
  using rounds32_between [OF assms(1) assms(2) assms(2)] by simp_all

lemma rounds32_int:
  assumes "rounds32_to x (real_of_int k)" "\<bar>k\<bar> \<le> 2 ^ 24"
  shows "fval32 x = real_of_int k" "is_fin32 x"
proof -
  obtain y where "is_fin32 y" "fval32 y = real_of_int k" using f32_int [OF assms(2)] by blast
  then show "fval32 x = real_of_int k" "is_fin32 x" using rounds32_exact [of x y] assms(1) by simp_all
qed

lemma lit32_int: "n \<le> 2 ^ 24 \<Longrightarrow> fval32 (lit32 n 1) = real n" "n \<le> 2 ^ 24 \<Longrightarrow> is_fin32 (lit32 n 1)"
proof -
  assume "n \<le> 2 ^ 24"
  moreover have "rounds32_to (lit32 n 1) (real_of_int (int n))"
    using round_ratio32_rounds [of 1 False n] by (simp add: lit32_def signed_def)
  ultimately show "fval32 (lit32 n 1) = real n" "is_fin32 (lit32 n 1)" using rounds32_int [of "lit32 n 1" "int n"] by simp_all
qed

lemma key32_fval_less: "fval32 x < fval32 y \<longleftrightarrow> key32 x < key32 y"
  using key32_fval [of y x] by linarith

end
