(* ===== verification/Catch_Objects.thy ===== *)
theory Catch_Objects
  imports Rosu_Map Random_Numbers F32_Values Catch_Performance
begin

text \<open>
  The objects of osu!catch (\<open>src/catch/object/*.rs\<close>, \<open>src/catch/catcher.rs\<close> and
  \<open>src/catch/convert.rs\<close>): fruits, juice streams with their droplets and tiny droplets, banana
  showers, the position offsets of HardRock, and the distances to a hyper dash. Loops on floating
  point times are partial functions, so that a loop that never ends has the value \<open>None\<close>.
  \<open>usize\<close> counts of this component are natural numbers.
\<close>

section \<open>Palpable objects\<close>

definition playfield_width :: f32 where
  "playfield_width = lit32 512 1"

record palpable_object =
  po_x :: f32
  po_x_offset :: f32
  po_start_time :: f64
  po_dist_to_hyper_dash :: f32
  po_hyper_dash :: bool

definition palpable_new :: "f32 \<Rightarrow> f32 \<Rightarrow> f64 \<Rightarrow> palpable_object" where
  "palpable_new x x_offset start_time = \<lparr>po_x = x, po_x_offset = x_offset, po_start_time = start_time,
     po_dist_to_hyper_dash = lit32 0 1, po_hyper_dash = False\<rparr>"

definition effective_x :: "palpable_object \<Rightarrow> f32" where
  "effective_x self = clamp32 (po_x self + po_x_offset self) (lit32 0 1) playfield_width"

definition fruit_new :: "object_count_builder \<Rightarrow> f32 \<times> object_count_builder" where
  "fruit_new cnt = (lit32 0 1, record_fruit cnt)"

section \<open>Banana showers\<close>

partial_function (option) banana_halve :: "f32 \<Rightarrow> f32 option" where
  "banana_halve spacing = (if lit32 100 1 < spacing then banana_halve (spacing / lit32 2 1) else Some spacing)"

partial_function (option) banana_loop :: "f32 \<Rightarrow> f32 \<Rightarrow> f32 \<Rightarrow> nat \<Rightarrow> nat option" where
  "banana_loop spacing end_time time cnt =
    (if time \<le> end_time then banana_loop spacing end_time (time + spacing) (cnt + 1) else Some cnt)"

definition banana_shower_new :: "f64 \<Rightarrow> f64 \<Rightarrow> nat option" where
  "banana_shower_new start_time end_time =
    (let start_time = as_i32 start_time; end_time = as_i32 end_time
     in case banana_halve (f32_of_i32 (end_time - start_time)) of
          None \<Rightarrow> None
        | Some spacing \<Rightarrow>
            if spacing \<le> lit32 0 1 then Some 0
            else banana_loop spacing (f32_of_i32 end_time) (f32_of_i32 start_time) 0)"

section \<open>Juice streams\<close>

datatype nested_kind = NestedFruit | NestedDroplet | NestedTinyDroplet

record nested_object =
  no_pos :: f32
  no_start_time :: f64
  no_kind :: nested_kind

definition tiny_object :: nested_object where
  "tiny_object = \<lparr>no_pos = lit32 0 1, no_start_time = lit 0 1, no_kind = NestedTinyDroplet\<rparr>"

partial_function (option) tiny_halve :: "f64 \<Rightarrow> f64 option" where
  "tiny_halve time_between_tiny =
    (if lit 100 1 < time_between_tiny then tiny_halve (time_between_tiny / lit 2 1) else Some time_between_tiny)"

partial_function (option) tiny_loop :: "f64 \<Rightarrow> f64 \<Rightarrow> f64 \<Rightarrow> nat \<Rightarrow> nat option" where
  "tiny_loop time_between_tiny since_last_tick t cnt =
    (if t < since_last_tick then tiny_loop time_between_tiny since_last_tick (t + time_between_tiny) (cnt + 1)
     else Some cnt)"

definition tiny_droplets_between :: "f64 \<Rightarrow> f64 \<Rightarrow> nat option" where
  "tiny_droplets_between last_event_time time =
    (let since_last_tick = f64_of_i32 (as_i32 time - as_i32 last_event_time)
     in if lit 80 1 < since_last_tick
        then (case tiny_halve since_last_tick of
            None \<Rightarrow> None
          | Some time_between_tiny \<Rightarrow> tiny_loop time_between_tiny since_last_tick time_between_tiny 0)
        else Some 0)"

definition juice_tiny ::
  "f64 option \<Rightarrow> f64 \<Rightarrow> nested_object list \<times> object_count_builder \<Rightarrow> (nested_object list \<times> object_count_builder) option" where
  "juice_tiny last_event_time time = (\<lambda>(nested, cnt). case last_event_time of
      None \<Rightarrow> Some (nested, cnt)
    | Some last_event_time \<Rightarrow>
        map_option (\<lambda>n. (nested @ replicate n tiny_object, record_tiny_droplets (word_of_nat n) cnt))
          (tiny_droplets_between last_event_time time))"

definition juice_event ::
  "(f64 \<Rightarrow> f32) \<Rightarrow> slider_event \<Rightarrow> nested_object list \<times> object_count_builder \<Rightarrow> nested_object list \<times> object_count_builder" where
  "juice_event pos_at e = (\<lambda>(nested, cnt).
    (let pushed = (\<lambda>kind. nested @ [\<lparr>no_pos = pos_at (ev_path_progress e), no_start_time = ev_time e, no_kind = kind\<rparr>])
     in case ev_kind e of
          TickEvent \<Rightarrow> (pushed NestedDroplet, record_droplet cnt)
        | LastTickEvent \<Rightarrow> (nested, cnt)
        | _ \<Rightarrow> (pushed NestedFruit, record_fruit cnt)))"

fun juice_events ::
  "(f64 \<Rightarrow> f32) \<Rightarrow> slider_event list \<Rightarrow> f64 option \<Rightarrow> nested_object list \<times> object_count_builder
    \<Rightarrow> (nested_object list \<times> object_count_builder) option" where
  "juice_events pos_at [] last_event_time st = Some st"
| "juice_events pos_at (e # es) last_event_time st = (case juice_tiny last_event_time (ev_time e) st of
      None \<Rightarrow> None
    | Some st \<Rightarrow> juice_events pos_at es (Some (ev_time e)) (juice_event pos_at e st))"

definition juice_stream_events :: "('p, 's) rosu_map \<Rightarrow> f64 \<Rightarrow> ('p, 's) slider \<Rightarrow> ('p, 's) beatmap \<Rightarrow> slider_event list" where
  "juice_stream_events rm start_time slider bm =
    (let beat_len = beat_len_at rm bm start_time;
         slider_velocity = slider_velocity_at bm start_time;
         velocity = lit 100 1 * bm_slider_multiplier bm / precision_adjusted_beat_len slider_velocity beat_len;
         scoring_dist = velocity * beat_len;
         tick_dist_multiplier = (if sint (bm_version bm) < 8 then lit 1 1 / slider_velocity else lit 1 1);
         tick_dist = scoring_dist / bm_slider_tick_rate bm * tick_dist_multiplier;
         spans = usize_as_f64 (span_count slider);
         path_dist = rm_path_dist rm Catch slider;
         duration = spans * path_dist / velocity;
         span_duration = duration / spans
     in rm_slider_events rm start_time span_duration velocity tick_dist path_dist (ucast (span_count slider)))"

definition juice_stream_new ::
  "('p, 's) rosu_map \<Rightarrow> f32 \<Rightarrow> f64 \<Rightarrow> ('p, 's) slider \<Rightarrow> ('p, 's) beatmap \<Rightarrow> object_count_builder
    \<Rightarrow> (nested_object list \<times> object_count_builder) option" where
  "juice_stream_new rm stream_x start_time slider bm cnt =
    juice_events (\<lambda>progress. stream_x + px (rm_position_at rm Catch slider progress))
      (juice_stream_events rm start_time slider bm) None ([], cnt)"

section \<open>Conversion of objects\<close>

datatype 'p object_iter_state = FruitState "f32 option" | JuiceStreamState "'p list" "nested_object list" | BananaShowerState nat

record 'p object_iter =
  oi_x :: f32
  oi_start_time :: f64
  oi_state :: "'p object_iter_state"

definition convert_object ::
  "('p, 's) rosu_map \<Rightarrow> ('p, 's) hit_object \<Rightarrow> ('p, 's) beatmap \<Rightarrow> object_count_builder
    \<Rightarrow> ('p object_iter \<times> object_count_builder) option" where
  "convert_object rm h bm cnt =
    (let finish = (\<lambda>(state, cnt). (\<lparr>oi_x = px (ho_pos h), oi_start_time = ho_start_time h, oi_state = state\<rparr>, cnt));
         shower = (\<lambda>duration. map_option (\<lambda>n. finish (BananaShowerState n, cnt))
           (banana_shower_new (ho_start_time h) (ho_start_time h + duration)))
     in case ho_kind h of
          Circle \<Rightarrow> (case fruit_new cnt of (x_offset, cnt) \<Rightarrow> Some (finish (FruitState (Some x_offset), cnt)))
        | Slider slider \<Rightarrow>
            map_option (\<lambda>(nested, cnt). finish (JuiceStreamState (sl_control_points slider) nested, cnt))
              (juice_stream_new rm (clamp32 (px (ho_pos h)) (lit32 0 1) playfield_width) (ho_start_time h) slider bm cnt)
        | Spinner duration \<Rightarrow> shower duration
        | Hold duration \<Rightarrow> shower duration)"

text \<open>One step of the iterator over the palpable objects of an object.\<close>

definition object_iter_next :: "'p object_iter \<Rightarrow> palpable_object option \<times> 'p object_iter" where
  "object_iter_next self = (case oi_state self of
      FruitState fruit \<Rightarrow>
        (map_option (\<lambda>x_offset. palpable_new (oi_x self) x_offset (oi_start_time self)) fruit, self\<lparr>oi_state := FruitState None\<rparr>)
    | JuiceStreamState points nested \<Rightarrow>
        (case dropWhile (\<lambda>n. no_kind n = NestedTinyDroplet) nested of
           [] \<Rightarrow> (None, self\<lparr>oi_state := JuiceStreamState points []\<rparr>)
         | n # rest \<Rightarrow> (Some (palpable_new (no_pos n) (lit32 0 1) (no_start_time n)),
             self\<lparr>oi_state := JuiceStreamState points rest\<rparr>))
    | BananaShowerState _ \<Rightarrow> (None, self))"

definition object_iter_len :: "'p object_iter \<Rightarrow> nat" where
  "object_iter_len self = (case oi_state self of
      FruitState fruit \<Rightarrow> if fruit = None then 0 else 1
    | JuiceStreamState _ nested \<Rightarrow> length nested
    | BananaShowerState _ \<Rightarrow> 0)"

lemma object_iter_next_less: "object_iter_next it = (Some p, it') \<Longrightarrow> object_iter_len it' < object_iter_len it"
proof (cases "oi_state it")
  case (JuiceStreamState points nested)
  assume n: "object_iter_next it = (Some p, it')"
  obtain x rest where d: "dropWhile (\<lambda>n. no_kind n = NestedTinyDroplet) nested = x # rest"
    using n JuiceStreamState by (auto simp: object_iter_next_def split: list.splits)
  then have "length rest < length nested"
    using length_dropWhile_le [of "\<lambda>n. no_kind n = NestedTinyDroplet" nested] by simp
  then show ?thesis using n JuiceStreamState d by (auto simp: object_iter_next_def object_iter_len_def)
qed (auto simp: object_iter_next_def object_iter_len_def)

text \<open>All of them, as \<open>extend\<close> takes them.\<close>

function object_iter_collect :: "'p object_iter \<Rightarrow> palpable_object list" where
  "object_iter_collect it = (case object_iter_next it of
      (None, _) \<Rightarrow> []
    | (Some p, it) \<Rightarrow> p # object_iter_collect it)"
  by pat_completeness auto
termination by (relation "measure object_iter_len") (auto intro: object_iter_next_less [OF sym])

declare object_iter_collect.simps [simp del]

section \<open>Position offsets\<close>

text \<open>What the offsets depend on: the last position and time, and the random numbers.\<close>

record offset_state =
  ofs_last_pos :: "f32 option"
  ofs_last_start_time :: f64
  ofs_rng :: random

definition f32_epsilon :: f32 where
  "f32_epsilon = lit32 1 8388608"

definition apply_random_offset :: "f32 \<Rightarrow> f64 \<Rightarrow> random \<Rightarrow> f32 \<times> random" where
  "apply_random_offset pos max_offset rng =
    (let (right, rng) = next_bool rng;
         (i, rng) = next_double_range (lit 0 1) (fmax max_offset (lit 0 1)) rng;
         rand = fmin32 (f32_of_i32 i) (lit32 20 1)
     in (if right then if pos + rand \<le> playfield_width then pos + rand else pos - rand
         else if lit32 0 1 \<le> pos - rand then pos - rand else pos + rand, rng))"

definition apply_offset :: "f32 \<Rightarrow> f32 \<Rightarrow> f32" where
  "apply_offset pos amount =
    (if lit32 0 1 < amount then if pos + amount < playfield_width then pos + amount else pos
     else if lit32 0 1 < pos + amount then pos + amount else pos)"

definition apply_hr_offset :: "f32 \<Rightarrow> f32 \<Rightarrow> f64 \<Rightarrow> offset_state \<Rightarrow> f32 \<times> offset_state" where
  "apply_hr_offset x x_offset start_time st =
    (let moved_on = (\<lambda>pos. st\<lparr>ofs_last_pos := Some pos, ofs_last_start_time := start_time\<rparr>)
     in case (case ofs_last_pos st of None \<Rightarrow> None | Some pos \<Rightarrow> if f32_epsilon \<le> abs pos then Some pos else None) of
          None \<Rightarrow> (x_offset, moved_on x)
        | Some last_pos \<Rightarrow>
            (let pos_diff = x - last_pos;
                 time_diff = as_i32 (start_time - ofs_last_start_time st)
             in if 1000 < sint time_diff then (x_offset, moved_on x)
                else if abs (pos_diff - lit32 0 1) \<le> f32_epsilon then
                  (let (offset_pos, rng) = apply_random_offset x (f64_of_i32 time_diff / lit 4 1) (ofs_rng st)
                   in (offset_pos - x, st\<lparr>ofs_rng := rng\<rparr>))
                else
                  (let offset_pos = (if abs pos_diff < f32_of_i32 (sdiv_word time_diff 3) then apply_offset x pos_diff else x)
                   in (offset_pos - x, moved_on offset_pos))))"

fun skip_ints :: "nat \<Rightarrow> random \<Rightarrow> random" where
  "skip_ints 0 rng = rng"
| "skip_ints (Suc n) rng = skip_ints n (snd (next_int rng))"

fun skip_bananas :: "nat \<Rightarrow> random \<Rightarrow> random" where
  "skip_bananas 0 rng = rng"
| "skip_bananas (Suc n) rng =
    (let (_, rng) = next_double rng; (_, rng) = next_int rng; (_, rng) = next_int rng; (_, rng) = next_int rng
     in skip_bananas n rng)"

text \<open>The fruit of an object that was already taken is unreachable in the code.\<close>

definition apply_pos_offset ::
  "('p \<Rightarrow> f32) \<Rightarrow> bool \<Rightarrow> 'p object_iter \<Rightarrow> offset_state \<Rightarrow> ('p object_iter \<times> offset_state) option" where
  "apply_pos_offset point_x hr_offsets h st = (case oi_state h of
      FruitState (Some x_offset) \<Rightarrow>
        (if hr_offsets
         then let (x_offset, st) = apply_hr_offset (oi_x h) x_offset (oi_start_time h) st
              in Some (h\<lparr>oi_state := FruitState (Some x_offset)\<rparr>, st)
         else Some (h, st))
    | JuiceStreamState points nested \<Rightarrow>
        Some (h, st\<lparr>ofs_last_pos := Some (oi_x h + (if points = [] then lit32 0 1 else point_x (last points))),
          ofs_last_start_time := oi_start_time h,
          ofs_rng := skip_ints (length (filter (\<lambda>n. no_kind n \<noteq> NestedFruit) nested)) (ofs_rng st)\<rparr>)
    | BananaShowerState n_bananas \<Rightarrow> Some (h, st\<lparr>ofs_rng := skip_bananas n_bananas (ofs_rng st)\<rparr>)
    | FruitState None \<Rightarrow> None)"

section \<open>Hyper dashes\<close>

definition catcher_scale :: "f32 \<Rightarrow> f32" where
  "catcher_scale cs =
    (f32_of_f64 (f64_of_f32 (lit32 1 1) - f64_of_f32 (lit32 7 10) * ((f64_of_f32 cs - lit 5 1) / lit 5 1)) / lit32 2 1
      * lit32 1 1) * lit32 2 1"

definition catch_width_by_scale :: "f32 \<Rightarrow> f32" where
  "catch_width_by_scale s = lit32 10675 100 * abs s * lit32 8 10"

definition calculate_catch_width :: "f32 \<Rightarrow> f32" where
  "calculate_catch_width cs = catch_width_by_scale (catcher_scale cs)"

definition hyper_dash_step ::
  "f64 \<Rightarrow> nat \<Rightarrow> palpable_object list \<times> int \<times> f64 \<Rightarrow> palpable_object list \<times> int \<times> f64" where
  "hyper_dash_step half_catcher_width i = (\<lambda>(objs, last_dir, last_excess).
    (let nxt = objs ! (i + 1); cur = objs ! i;
         this_dir = (if effective_x cur < effective_x nxt then 1 else - 1);
         time_to_next = f64_of_f32 (f32_of_i32 (as_i32 (po_start_time nxt) - as_i32 (po_start_time cur))
           - lit32 1000 1 / lit32 60 1 / lit32 4 1);
         dist_to_next = f64_of_f32 (abs (effective_x nxt - effective_x cur))
           - (if last_dir = this_dir then last_excess else half_catcher_width);
         dist_to_hyper = f32_of_f64 (time_to_next * lit 1 1 - dist_to_next)
     in if dist_to_hyper < lit32 0 1
        then (objs[i := cur\<lparr>po_hyper_dash := True\<rparr>], this_dir, half_catcher_width)
        else (objs[i := cur\<lparr>po_dist_to_hyper_dash := dist_to_hyper\<rparr>], this_dir,
          fclamp (f64_of_f32 dist_to_hyper) (lit 0 1) half_catcher_width)))"

definition initialize_hyper_dash :: "f32 \<Rightarrow> palpable_object list \<Rightarrow> palpable_object list" where
  "initialize_hyper_dash cs objs =
    (let half_catcher_width = f64_of_f32 (calculate_catch_width cs / lit32 2 1);
         half_catcher_width = half_catcher_width / f64_of_f32 (lit32 8 10)
     in fst (fold (hyper_dash_step half_catcher_width) [0..<length objs - 1] (objs, 0, half_catcher_width)))"

section \<open>All objects\<close>

fun collect_objects ::
  "('p, 's) rosu_map \<Rightarrow> ('p, 's) beatmap \<Rightarrow> bool \<Rightarrow> ('p, 's) hit_object list \<Rightarrow> object_count_builder \<Rightarrow> offset_state
    \<Rightarrow> palpable_object list \<Rightarrow> (palpable_object list \<times> object_count_builder) option" where
  "collect_objects rm bm hr_offsets [] cnt st objs = Some (objs, cnt)"
| "collect_objects rm bm hr_offsets (h # hs) cnt st objs =
    (case convert_object rm h bm cnt of
       None \<Rightarrow> None
     | Some (it, cnt) \<Rightarrow>
        (case apply_pos_offset (rm_control_point_x rm) hr_offsets it st of
           None \<Rightarrow> None
         | Some (it, st) \<Rightarrow> collect_objects rm bm hr_offsets hs cnt st (objs @ object_iter_collect it)))"

definition reflect_horizontal :: "palpable_object \<Rightarrow> palpable_object" where
  "reflect_horizontal h = h\<lparr>po_x := playfield_width - po_x h, po_x_offset := - po_x_offset h\<rparr>"

definition catch_convert_objects ::
  "('p, 's) rosu_map \<Rightarrow> ('p, 's) beatmap \<Rightarrow> object_count_builder \<Rightarrow> reflection \<Rightarrow> bool \<Rightarrow> f32
    \<Rightarrow> (palpable_object list \<times> object_count_builder) option" where
  "catch_convert_objects rm bm cnt reflect hr_offsets cs =
    map_option (\<lambda>(objs, cnt).
        (let objs = (if reflect = Horizontal then map reflect_horizontal objs else objs);
             objs = sort_key (tkey \<circ> po_start_time) objs
         in (initialize_hyper_dash cs objs, cnt)))
      (collect_objects rm bm hr_offsets (bm_hit_objects bm) cnt
        \<lparr>ofs_last_pos = None, ofs_last_start_time = lit 0 1, ofs_rng = random_new 1337\<rparr> [])"

text \<open>\<open>Catch::convert\<close>: a map is converted by its mode alone.\<close>

definition catch_convert :: "('p, 's) beatmap \<Rightarrow> ('p, 's) beatmap" where
  "catch_convert bm = bm\<lparr>bm_mode := Catch, bm_is_convert := True\<rparr>"

section \<open>The loops end\<close>

lemma f32_of_i32_exact:
  assumes "\<bar>sint w\<bar> \<le> 2 ^ 24"
  shows "fval32 (f32_of_i32 w) = real_of_int (sint w)" "is_fin32 (f32_of_i32 w)"
proof -
  have "rounds32_to (f32_of_i32 w) (real_of_int (sint w))"
    using round_ratio32_rounds [of 1 "sint w < 0" "nat \<bar>sint w\<bar>"] by (simp add: f32_of_i32_def signed_nat_abs del: of_nat_nat)
  then show "fval32 (f32_of_i32 w) = real_of_int (sint w)" "is_fin32 (f32_of_i32 w)"
    using rounds32_int assms by blast+
qed

lemma banana_halve_ends:
  assumes "is_fin32 x" "fval32 x \<le> 100 * 2 ^ n" "n \<le> 18"
  shows "\<exists>y. banana_halve x = Some y \<and> is_fin32 y \<and> fval32 y \<le> 100 \<and> (y = x \<or> 50 \<le> fval32 y)"
  using assms
proof (induction n arbitrary: x)
  case 0
  then have "\<not> lit32 100 1 < x" using lit32_int [of 100] by (simp add: less32_fin)
  then show ?case using 0 by (subst banana_halve.simps) simp
next
  case (Suc n)
  show ?case
  proof (cases "lit32 100 1 < x")
    case False
    then have "fval32 x \<le> 100" using Suc.prems(1) lit32_int [of 100] by (simp add: less32_fin)
    then show ?thesis using False Suc.prems(1) by (subst banana_halve.simps) simp
  next
    case True
    then have x: "100 < fval32 x" using Suc.prems(1) lit32_int [of 100] by (simp add: less32_fin)
    define q where "q = lit32 2 1"
    have two: "fval32 q = 2" "is_fin32 q" using lit32_int [of 2] by (simp_all add: q_def)
    have pw: "(2::nat) ^ n \<le> 2 ^ 17" using Suc.prems(3) by (intro power_increasing) simp_all
    have "(2::real) ^ n \<le> 2 ^ 17" using Suc.prems(3) by (intro power_increasing) simp_all
    then have le: "100 * 2 ^ n \<le> (100 :: real) * 2 ^ 17" by simp
    have "rounds32_to (x / q) (fval32 x / 2)"
      using arith32_rounds(4) [OF Suc.prems(1) two(2)] x Suc.prems(2) le by (simp add: two)
    moreover have c: "100 * 2 ^ n \<le> (2::nat) ^ 24" using pw by simp
    ultimately have h: "is_fin32 (x / q)" "50 \<le> fval32 (x / q)" "fval32 (x / q) \<le> 100 * 2 ^ n"
      using rounds32_between [of "x / q" "fval32 x / 2" "lit32 50 1" "lit32 (100 * 2 ^ n) 1"] lit32_int [OF c]
        lit32_int [of 50] x Suc.prems(2) by simp_all
    have e: "banana_halve x = banana_halve (x / q)" using True unfolding q_def by (subst banana_halve.simps) simp
    obtain y where "banana_halve (x / q) = Some y" "is_fin32 y" "fval32 y \<le> 100" "y = x / q \<or> 50 \<le> fval32 y"
      using Suc.IH [OF h(1,3)] Suc.prems(3) by auto
    then show ?thesis using e h(2) by auto
  qed
qed

lemma banana_loop_ends:
  assumes "is_fin32 d" "1 \<le> fval32 d" "fval32 d \<le> 100" "is_fin32 e" "fval32 e = real_of_int b" "b \<le> 2 ^ 23"
    and "is_fin32 t" "real_of_int m \<le> fval32 t" "- (2 ^ 24) \<le> m" "b - m < int k"
  shows "\<exists>n. banana_loop d e t c = Some (c + n) \<and> n \<le> k"
  using assms(7-)
proof (induction k arbitrary: t m c)
  case 0
  then have "fval32 e < fval32 t" using assms(5) by linarith
  then have "\<not> t \<le> e" using 0 assms(4) by (simp add: le32_fin)
  then show ?case by (subst banana_loop.simps) simp
next
  case (Suc k)
  show ?case
  proof (cases "t \<le> e")
    case False
    then show ?thesis by (subst banana_loop.simps) simp
  next
    case True
    then have t: "fval32 t \<le> real_of_int b" using Suc.prems(1) assms(4,5) by (simp add: le32_fin)
    then have mb: "m \<le> b" using Suc.prems(2) by linarith
    then have "\<bar>m + 1\<bar> \<le> 2 ^ 24" using assms(6) Suc.prems(3) by simp
    then obtain lo where lo: "is_fin32 lo" "fval32 lo = real_of_int (m + 1)" using f32_int by blast
    have "\<bar>b + 100\<bar> \<le> 2 ^ 24" using assms(6) mb Suc.prems(3) by simp
    then obtain hi where hi: "is_fin32 hi" "fval32 hi = real_of_int (b + 100)" using f32_int by blast
    have rb: "real_of_int m \<ge> real_of_int (- (2 ^ 24))" "real_of_int b \<le> real_of_int (2 ^ 23)"
      using Suc.prems(3) assms(6) by (simp_all only: of_int_le_iff)
    have rb: "real_of_int m \<ge> - (2 ^ 24)" "real_of_int b \<le> 2 ^ 23" using rb by simp_all
    have s: "real_of_int (m + 1) \<le> fval32 t + fval32 d" "fval32 t + fval32 d \<le> real_of_int (b + 100)"
      using Suc.prems(2) t assms(2,3) by simp_all
    then have "\<bar>fval32 t + fval32 d\<bar> < 2 ^ 52" using rb by simp
    then have "rounds32_to (t + d) (fval32 t + fval32 d)" by (rule arith32_rounds(1) [OF Suc.prems(1) assms(1)])
    then have n: "is_fin32 (t + d)" "real_of_int (m + 1) \<le> fval32 (t + d)"
      using rounds32_between [of "t + d" _ lo hi] lo hi s by simp_all
    have "\<exists>n. banana_loop d e (t + d) (c + 1) = Some (c + 1 + n) \<and> n \<le> k"
      by (rule Suc.IH [OF n]) (use Suc.prems(3,4) in \<open>simp_all\<close>)
    then obtain n where "banana_loop d e (t + d) (c + 1) = Some (c + 1 + n)" "n \<le> k" by blast
    moreover have "banana_loop d e t c = banana_loop d e (t + d) (c + 1)" using True by (subst banana_loop.simps) simp
    ultimately show ?thesis by (intro exI [of _ "Suc n"]) simp
  qed
qed

lemma banana_shower_new_ends:
  assumes "\<bar>sint (as_i32 s)\<bar> \<le> 2 ^ 23" "\<bar>sint (as_i32 e)\<bar> \<le> 2 ^ 23"
  shows "\<exists>n. banana_shower_new s e = Some n \<and> n \<le> nat (sint (as_i32 e) - sint (as_i32 s) + 1)"
proof -
  let ?s = "as_i32 s" and ?e = "as_i32 e"
  let ?x = "f32_of_i32 (?e - ?s)"
  have d: "sint (?e - ?s) = sint ?e - sint ?s"
    unfolding sint_word_ariths using assms by (intro signed_take_bit_int_eq_self) simp_all
  then have "\<bar>sint (?e - ?s)\<bar> \<le> 2 ^ 24" using assms by simp
  note x = f32_of_i32_exact [OF this]
  have "real_of_int (sint ?e - sint ?s) \<le> real_of_int (2 ^ 24)" using assms by (subst of_int_le_iff) simp
  then have "fval32 ?x \<le> 100 * 2 ^ 18" unfolding x d by simp
  then obtain y where y: "banana_halve ?x = Some y" "is_fin32 y" "fval32 y \<le> 100" "y = ?x \<or> 50 \<le> fval32 y"
    using banana_halve_ends [OF x(2), of 18] by auto
  note z = lit32_int [of 0]
  show ?thesis
  proof (cases "y \<le> lit32 0 1")
    case True
    then show ?thesis by (simp add: banana_shower_new_def y)
  next
    case False
    then have p: "0 < fval32 y" using y(2) z by (simp add: le32_fin)
    have "1 \<le> fval32 y"
    proof (cases "y = ?x")
      case True
      then have "0 < real_of_int (sint (?e - ?s))" using p x(1) by (simp only:)
      then have "1 \<le> sint (?e - ?s)" by (simp only: of_int_0_less_iff)
      then show ?thesis unfolding True x(1) by (simp only: of_int_1_le_iff)
    qed (use y(4) in \<open>simp\<close>)
    moreover have e: "sint ?e - sint ?s < int (nat (sint ?e - sint ?s + 1))" by simp
    have l: "\<bar>sint ?s\<bar> \<le> 2 ^ 24" "\<bar>sint ?e\<bar> \<le> 2 ^ 24" using assms by simp_all
    ultimately have "\<exists>n. banana_loop y (f32_of_i32 ?e) (f32_of_i32 ?s) 0 = Some (0 + n) \<and> n \<le> nat (sint ?e - sint ?s + 1)"
      using assms f32_of_i32_exact [OF l(1)] f32_of_i32_exact [OF l(2)]
      by (intro banana_loop_ends [OF y(2) _ y(3) _ _ _ _ _ _ e]) simp_all
    then show ?thesis using False by (simp add: banana_shower_new_def y Let_def)
  qed
qed

text \<open>Where a time does not move, the loop goes on forever.\<close>

lemma banana_loop_stuck:
  assumes "t \<le> e" "t + d = t"
  shows "banana_loop d e t c = None"
proof -
  have "\<not> (t \<le> e \<and> t + d = t)" if "banana_loop d e t c = Some y" for y
    using that by (rule banana_loop.raw_induct [rotated]) (auto split: if_splits)
  then show ?thesis using assms by (cases "banana_loop d e t c") auto
qed

lemma tiny_halve_ends:
  assumes "is_fin x" "fval x \<le> 100 * 2 ^ n" "n \<le> 40"
  shows "\<exists>y. tiny_halve x = Some y \<and> is_fin y \<and> fval y \<le> 100 \<and> (y = x \<or> 50 \<le> fval y)"
  using assms
proof (induction n arbitrary: x)
  case 0
  then have "\<not> lit 100 1 < x" using lit_int [of 100] by (simp add: less_f64_fin)
  then show ?case using 0 by (subst tiny_halve.simps) simp
next
  case (Suc n)
  show ?case
  proof (cases "lit 100 1 < x")
    case False
    then have "fval x \<le> 100" using Suc.prems(1) lit_int [of 100] by (simp add: less_f64_fin)
    then show ?thesis using False Suc.prems(1) by (subst tiny_halve.simps) simp
  next
    case True
    then have x: "100 < fval x" using Suc.prems(1) lit_int [of 100] by (simp add: less_f64_fin)
    define q where "q = lit 2 1"
    have two: "fval q = 2" "is_fin q" using lit_int [of 2] by (simp_all add: q_def)
    have "(2::nat) ^ n \<le> 2 ^ 40" using Suc.prems(3) by (intro power_increasing) simp_all
    then have c: "100 * 2 ^ n < (2::nat) ^ 53" by simp
    have "rounds_to (x / q) (fval x / 2)" using fdiv_rounds [OF Suc.prems(1) two(2)] by (simp add: two)
    then have h: "is_fin (x / q)" "50 \<le> fval (x / q)" "fval (x / q) \<le> 100 * 2 ^ n"
      using rounds_to_between [of "x / q" "fval x / 2" "lit 50 1" "lit (100 * 2 ^ n) 1"] lit_int [OF c]
        lit_int [of 50] x Suc.prems(2) by simp_all
    have e: "tiny_halve x = tiny_halve (x / q)" using True unfolding q_def by (subst tiny_halve.simps) simp
    obtain y where "tiny_halve (x / q) = Some y" "is_fin y" "fval y \<le> 100" "y = x / q \<or> 50 \<le> fval y"
      using Suc.IH [OF h(1,3)] Suc.prems(3) by auto
    then show ?thesis using e h(2) by auto
  qed
qed

lemma tiny_loop_ends:
  assumes "is_fin d" "1 \<le> fval d" "fval d \<le> 100" "is_fin e" "fval e = real_of_int b" "b \<le> 2 ^ 40"
    and "is_fin t" "real_of_int m \<le> fval t" "0 \<le> m" "b - m < int k"
  shows "\<exists>n. tiny_loop d e t c = Some (c + n) \<and> n \<le> k"
  using assms(7-)
proof (induction k arbitrary: t m c)
  case 0
  then have "fval e < fval t" using assms(5) by linarith
  then have "\<not> t < e" using 0 assms(4) by (simp add: less_f64_fin)
  then show ?case by (subst tiny_loop.simps) simp
next
  case (Suc k)
  show ?case
  proof (cases "t < e")
    case False
    then show ?thesis by (subst tiny_loop.simps) simp
  next
    case True
    then have t: "fval t < real_of_int b" using Suc.prems(1) assms(4,5) by (simp add: less_f64_fin)
    then have mb: "m < b" using Suc.prems(2) by linarith
    then have "\<bar>m + 1\<bar> < 2 ^ 53" "\<bar>b + 100\<bar> < 2 ^ 53" using assms(6) Suc.prems(3) by simp_all
    then obtain lo hi where lo: "is_fin lo" "fval lo = real_of_int (m + 1)" and hi: "is_fin hi" "fval hi = real_of_int (b + 100)"
      using f64_int by metis
    have s: "real_of_int (m + 1) \<le> fval t + fval d" "fval t + fval d \<le> real_of_int (b + 100)"
      using Suc.prems(2) t assms(2,3) by simp_all
    have n: "is_fin (t + d)" "real_of_int (m + 1) \<le> fval (t + d)"
      using rounds_to_between [OF fadd_rounds [OF Suc.prems(1) assms(1)] lo(1) hi(1)] lo(2) hi(2) s by simp_all
    have "\<exists>n. tiny_loop d e (t + d) (c + 1) = Some (c + 1 + n) \<and> n \<le> k"
      by (rule Suc.IH [OF n]) (use Suc.prems(3,4) in \<open>simp_all\<close>)
    then obtain n where "tiny_loop d e (t + d) (c + 1) = Some (c + 1 + n)" "n \<le> k" by blast
    moreover have "tiny_loop d e t c = tiny_loop d e (t + d) (c + 1)" using True by (subst tiny_loop.simps) simp
    ultimately show ?thesis by (intro exI [of _ "Suc n"]) simp
  qed
qed

lemma tiny_droplets_end: "\<exists>n. tiny_droplets_between l t = Some n"
proof -
  let ?w = "as_i32 t - as_i32 l"
  let ?s = "f64_of_i32 ?w"
  have w: "sint ?w < 2 ^ 31" using sint_less [of ?w] by simp
  then have "real_of_int (sint ?w) < real_of_int (2 ^ 31)" by (simp only: of_int_less_iff)
  then have "fval ?s \<le> 100 * 2 ^ 30" by simp
  then obtain y where y: "tiny_halve ?s = Some y" "is_fin y" "fval y \<le> 100" "y = ?s \<or> 50 \<le> fval y"
    using tiny_halve_ends [of ?s 30] by auto
  show ?thesis
  proof (cases "lit 80 1 < ?s")
    case True
    then have "80 < fval ?s" using lit_int [of 80] by (simp add: less_f64_fin)
    then have y1: "50 \<le> fval y" using y(4) by auto
    have "\<exists>n. tiny_loop y ?s y 0 = Some (0 + n) \<and> n \<le> nat (sint ?w + 1)"
      by (rule tiny_loop_ends [OF y(2) _ y(3) _ _ _ y(2), of _ "sint ?w" 0]) (use y1 w in \<open>simp_all\<close>)
    then show ?thesis using True y(1) by (auto simp: tiny_droplets_between_def)
  qed (simp add: tiny_droplets_between_def)
qed

section \<open>Every object is counted\<close>

text \<open>
  A builder that was started for the first \<open>t\<close> objects, or for gradual calculation, and has
  seen \<open>k\<close> fruits and droplets.
\<close>

definition recorded :: "nat option \<Rightarrow> nat \<Rightarrow> object_count_builder \<Rightarrow> bool" where
  "recorded start k cnt = (case (start, cnt) of
      (Some t, Regular c n) \<Rightarrow> n = t - k \<and> oc_fruits c + oc_droplets c = word_of_nat (min t k)
    | (None, Gradual _ cs) \<Rightarrow> length cs = k
    | _ \<Rightarrow> False)"

lemma recorded_new: "recorded (Some t) 0 (new_regular t)" "recorded None 0 new_gradual"
  by (simp_all add: recorded_def new_regular_def new_gradual_def)

lemma recorded_object:
  assumes "recorded t k cnt"
  shows "recorded t (Suc k) (record_fruit cnt)" "recorded t (Suc k) (record_droplet cnt)"
proof (atomize (full), cases cnt)
  case (Regular c n)
  then obtain m where c: "t = Some m" "n = m - k" "oc_fruits c + oc_droplets c = word_of_nat (min m k)"
    using assms by (auto simp: recorded_def split: option.splits)
  have "0 < n \<Longrightarrow> min m (Suc k) = Suc (min m k)" "n = 0 \<Longrightarrow> min m (Suc k) = min m k" using c(2) by auto
  then show "recorded t (Suc k) (record_fruit cnt) \<and> recorded t (Suc k) (record_droplet cnt)"
    using c by (cases "0 < n") (auto simp: Regular recorded_def algebra_simps)
qed (use assms in \<open>auto simp: recorded_def split: option.splits\<close>)

lemma recorded_tiny: "recorded t k (record_tiny_droplets m cnt) \<longleftrightarrow> recorded t k cnt"
  by (cases cnt) (auto simp: recorded_def split: option.split)

definition palpable :: "nested_object list \<Rightarrow> nested_object list" where
  "palpable = filter (\<lambda>n. no_kind n \<noteq> NestedTinyDroplet)"

lemma juice_events_end:
  assumes "recorded t (k + length (palpable (fst st))) (snd st)"
  shows "\<exists>st'. juice_events pos_at es l st = Some st' \<and> recorded t (k + length (palpable (fst st'))) (snd st')"
  using assms
proof (induction es arbitrary: l st)
  case (Cons e es)
  obtain nested cnt where st: "st = (nested, cnt)" by fastforce
  obtain st' where t: "juice_tiny l (ev_time e) st = Some st'" "recorded t (k + length (palpable (fst st'))) (snd st')"
  proof (cases l)
    case None
    then show ?thesis using that Cons.prems by (simp add: juice_tiny_def st)
  next
    case (Some l')
    obtain n where "tiny_droplets_between l' (ev_time e) = Some n" using tiny_droplets_end by blast
    then show ?thesis using that Cons.prems Some
      by (simp add: juice_tiny_def st recorded_tiny palpable_def tiny_object_def)
  qed
  have "recorded t (k + length (palpable (fst (juice_event pos_at e st')))) (snd (juice_event pos_at e st'))"
    using t(2) recorded_object by (auto simp: juice_event_def palpable_def Let_def split: slider_event_kind.split prod.split)
  from Cons.IH [OF this] show ?case by (simp add: t(1))
qed simp

text \<open>What an object contributes.\<close>

definition contribution :: "'p object_iter \<Rightarrow> palpable_object list" where
  "contribution it = (case oi_state it of
      FruitState fruit \<Rightarrow> (case fruit of None \<Rightarrow> [] | Some x_offset \<Rightarrow> [palpable_new (oi_x it) x_offset (oi_start_time it)])
    | JuiceStreamState _ nested \<Rightarrow> map (\<lambda>n. palpable_new (no_pos n) (lit32 0 1) (no_start_time n)) (palpable nested)
    | BananaShowerState _ \<Rightarrow> [])"

lemma palpable_dropWhile:
  "palpable nested = (case dropWhile (\<lambda>n. no_kind n = NestedTinyDroplet) nested of [] \<Rightarrow> [] | n # rest \<Rightarrow> n # palpable rest)"
  by (induction nested) (simp_all add: palpable_def split: list.split)

lemma object_iter_collect_is: "object_iter_collect it = contribution it"
proof (induction it rule: object_iter_collect.induct)
  case (1 it)
  show ?case
  proof (cases "oi_state it")
    case (FruitState fruit)
    then show ?thesis using 1 by (subst object_iter_collect.simps)
      (auto simp: object_iter_next_def contribution_def split: option.split)
  next
    case (JuiceStreamState points nested)
    show ?thesis
    proof (cases "dropWhile (\<lambda>n. no_kind n = NestedTinyDroplet) nested")
      case Nil
      have "palpable nested = []" by (subst palpable_dropWhile) (simp only: Nil list.case)
      then show ?thesis by (subst object_iter_collect.simps) (simp add: object_iter_next_def contribution_def JuiceStreamState Nil)
    next
      case (Cons n rest)
      have "palpable nested = n # palpable rest" by (subst palpable_dropWhile) (simp only: Cons list.case)
      then show ?thesis using 1
        by (subst object_iter_collect.simps) (simp add: object_iter_next_def contribution_def JuiceStreamState Cons)
    qed
  next
    case (BananaShowerState n)
    then show ?thesis by (subst object_iter_collect.simps) (simp add: object_iter_next_def contribution_def)
  qed
qed

text \<open>Spinners have to end, and to end before a time where 32-bit floats lose the milliseconds.\<close>

definition spinner_in_range :: "('p, 's) hit_object \<Rightarrow> bool" where
  "spinner_in_range h = (case ho_kind h of
      Spinner d \<Rightarrow> \<bar>sint (as_i32 (ho_start_time h))\<bar> \<le> 2 ^ 23 \<and> \<bar>sint (as_i32 (ho_start_time h + d))\<bar> \<le> 2 ^ 23
    | Hold d \<Rightarrow> \<bar>sint (as_i32 (ho_start_time h))\<bar> \<le> 2 ^ 23 \<and> \<bar>sint (as_i32 (ho_start_time h + d))\<bar> \<le> 2 ^ 23
    | _ \<Rightarrow> True)"

lemma convert_object_ends:
  assumes "spinner_in_range h" "recorded t k cnt"
  shows "\<exists>it cnt'. convert_object rm h bm cnt = Some (it, cnt') \<and> recorded t (k + length (contribution it)) cnt'
    \<and> oi_state it \<noteq> FruitState None"
proof -
  have spin: "\<exists>n. banana_shower_new (ho_start_time h) (ho_start_time h + d) = Some n"
    if "ho_kind h = Spinner d \<or> ho_kind h = Hold d" for d
    using that assms(1) banana_shower_new_ends [of "ho_start_time h" "ho_start_time h + d"] by (auto simp: spinner_in_range_def)
  show ?thesis
  proof (cases "ho_kind h")
    case Circle
    then show ?thesis using recorded_object(1) [OF assms(2)]
      by (simp add: convert_object_def fruit_new_def contribution_def)
  next
    case (Slider slider)
    obtain nested cnt' where j: "juice_stream_new rm (clamp32 (px (ho_pos h)) (lit32 0 1) playfield_width) (ho_start_time h) slider bm cnt
        = Some (nested, cnt')" "recorded t (k + length (palpable nested)) cnt'"
      using juice_events_end [of t k "([], cnt)"] assms(2) unfolding juice_stream_new_def by (fastforce simp: palpable_def)
    then show ?thesis by (simp add: convert_object_def Slider contribution_def)
  qed (use spin assms(2) in \<open>fastforce simp: convert_object_def contribution_def\<close>)+
qed

lemma apply_pos_offset_ends:
  assumes "oi_state it \<noteq> FruitState None"
  shows "\<exists>it' st'. apply_pos_offset f offs it st = Some (it', st') \<and> length (contribution it') = length (contribution it)"
  using assms by (cases "oi_state it")
    (auto simp: apply_pos_offset_def contribution_def split: option.splits prod.split)

lemma collect_objects_end:
  assumes "\<forall>h\<in>set hs. spinner_in_range h" "recorded t (length objs) cnt"
  shows "\<exists>objs' cnt'. collect_objects rm bm offs hs cnt st objs = Some (objs', cnt') \<and> recorded t (length objs') cnt'"
  using assms
proof (induction hs arbitrary: cnt st objs)
  case (Cons h hs)
  obtain it cnt' where c: "convert_object rm h bm cnt = Some (it, cnt')" "recorded t (length objs + length (contribution it)) cnt'"
    "oi_state it \<noteq> FruitState None"
    using convert_object_ends [of h t "length objs" cnt rm bm] Cons.prems by auto
  obtain it' st' where a: "apply_pos_offset (rm_control_point_x rm) offs it st = Some (it', st')"
    "length (contribution it') = length (contribution it)"
    using apply_pos_offset_ends [OF c(3)] by blast
  show ?case using Cons.IH [of "objs @ object_iter_collect it'" cnt' st'] Cons.prems(1) c a
    by (simp add: object_iter_collect_is)
qed simp

section \<open>Hyper dashes keep the objects\<close>

definition same_object :: "palpable_object \<Rightarrow> palpable_object \<Rightarrow> bool" where
  "same_object a b \<longleftrightarrow> po_x a = po_x b \<and> po_x_offset a = po_x_offset b \<and> po_start_time a = po_start_time b"

lemma update_same:
  assumes "list_all2 same_object objs a" "same_object (a ! i) y"
  shows "list_all2 same_object objs (a[i := y])"
  using assms by (cases "i < length a") (auto simp: list_all2_conv_all_nth nth_list_update same_object_def)

lemma hyper_dash_step_same:
  assumes "list_all2 same_object objs (fst st)"
  shows "list_all2 same_object objs (fst (hyper_dash_step w i st))"
proof -
  obtain a d x where st: "st = (a, d, x)" by (cases st) auto
  have "same_object (a ! i) ((a ! i)\<lparr>po_hyper_dash := b\<rparr>)" "same_object (a ! i) ((a ! i)\<lparr>po_dist_to_hyper_dash := y\<rparr>)" for b y
    by (simp_all add: same_object_def)
  then show ?thesis using assms by (simp add: hyper_dash_step_def st Let_def update_same)
qed

lemma initialize_hyper_dash_same: "list_all2 same_object objs (initialize_hyper_dash cs objs)"
proof -
  have "list_all2 same_object objs (fst (fold (hyper_dash_step w) is st))" if "list_all2 same_object objs (fst st)" for w "is" st
    using that by (induction "is" arbitrary: st) (simp_all add: hyper_dash_step_same)
  moreover have "list_all2 same_object objs objs" by (simp add: list_all2_conv_all_nth same_object_def)
  ultimately show ?thesis by (simp add: initialize_hyper_dash_def Let_def)
qed

lemma same_object_times: "list_all2 same_object xs ys \<Longrightarrow> map (tkey \<circ> po_start_time) ys = map (tkey \<circ> po_start_time) xs"
  by (induction rule: list_all2_induct) (simp_all add: same_object_def)

section \<open>The objects do not depend on the counting\<close>

lemma juice_events_count:
  "map_option fst (juice_events pos_at es l (nested, c)) = map_option fst (juice_events pos_at es l (nested, c'))"
proof (induction es arbitrary: l nested c c')
  case (Cons e es)
  obtain n d d' where t: "juice_tiny l (ev_time e) (nested, c) = Some (n, d)" "juice_tiny l (ev_time e) (nested, c') = Some (n, d')"
    using tiny_droplets_end by (cases l) (fastforce simp: juice_tiny_def)+
  have "fst (juice_event pos_at e (n, d)) = fst (juice_event pos_at e (n, d'))"
    by (simp add: juice_event_def Let_def split: slider_event_kind.split)
  then show ?case using Cons.IH by (cases "juice_event pos_at e (n, d)"; cases "juice_event pos_at e (n, d')") (auto simp: t)
qed simp

lemma convert_object_count:
  "map_option fst (convert_object rm h bm c) = map_option fst (convert_object rm h bm c')"
proof (cases "ho_kind h")
  case (Slider s)
  define x where "x = clamp32 (px (ho_pos h)) (lit32 0 1) playfield_width"
  have "map_option fst (juice_stream_new rm x (ho_start_time h) s bm c) = map_option fst (juice_stream_new rm x (ho_start_time h) s bm c')"
    unfolding juice_stream_new_def by (rule juice_events_count)
  then show ?thesis
    by (cases "juice_stream_new rm x (ho_start_time h) s bm c"; cases "juice_stream_new rm x (ho_start_time h) s bm c'")
      (auto simp: convert_object_def Slider x_def)
qed (auto simp: convert_object_def fruit_new_def option.map_comp comp_def)

lemma collect_objects_count:
  "map_option fst (collect_objects rm bm offs hs c st objs) = map_option fst (collect_objects rm bm offs hs c' st objs)"
proof (induction hs arbitrary: c c' st objs)
  case (Cons h hs)
  have "map_option fst (convert_object rm h bm c) = map_option fst (convert_object rm h bm c')" by (rule convert_object_count)
  then show ?case using Cons.IH by (auto split: option.splits)
qed simp

text \<open>
  C15. Where the spinners lie in the first two hours, which is all that the loop over the bananas
  needs, the conversion returns: the palpable objects come sorted by their start times; the fruits
  and droplets counted are the first \<open>t\<close> of these objects; and the same objects come with a
  gradual count, with one entry for each of them.
\<close>

theorem catch_objects_returned:
  assumes "\<forall>h\<in>set (bm_hit_objects bm). spinner_in_range h"
  shows "\<exists>objs c g cs. catch_convert_objects rm bm (new_regular t) r offs s = Some (objs, Regular c (t - length objs))
    \<and> sorted (map (tkey \<circ> po_start_time) objs)
    \<and> oc_fruits c + oc_droplets c = word_of_nat (min t (length objs))
    \<and> catch_convert_objects rm bm new_gradual r offs s = Some (objs, Gradual g cs) \<and> length cs = length objs"
proof -
  define st where "st = \<lparr>ofs_last_pos = None, ofs_last_start_time = lit 0 1, ofs_rng = random_new 1337\<rparr>"
  obtain objs cnt where o: "collect_objects rm bm offs (bm_hit_objects bm) (new_regular t) st [] = Some (objs, cnt)"
      "recorded (Some t) (length objs) cnt"
    using collect_objects_end [OF assms, of "Some t" "[]" "new_regular t"] recorded_new by fastforce
  obtain objs' cnt' where o': "collect_objects rm bm offs (bm_hit_objects bm) new_gradual st [] = Some (objs', cnt')"
      "recorded None (length objs') cnt'"
    using collect_objects_end [OF assms, of None "[]" "new_gradual"] recorded_new by fastforce
  have eq: "objs' = objs"
    using collect_objects_count [of rm bm offs "bm_hit_objects bm" new_gradual st "[]" "new_regular t"] o(1) o'(1) by simp
  obtain c where c: "cnt = Regular c (t - length objs)" "oc_fruits c + oc_droplets c = word_of_nat (min t (length objs))"
    using o(2) by (auto simp: recorded_def split: object_count_builder.splits)
  obtain g cs where g: "cnt' = Gradual g cs" "length cs = length objs"
    using o'(2) eq by (auto simp: recorded_def split: object_count_builder.splits)
  define res where "res = initialize_hyper_dash s (sort_key (tkey \<circ> po_start_time)
    (if r = Horizontal then map reflect_horizontal objs else objs))"
  have same: "list_all2 same_object (sort_key (tkey \<circ> po_start_time) (if r = Horizontal then map reflect_horizontal objs else objs)) res"
    unfolding res_def by (rule initialize_hyper_dash_same)
  then have "length res = length objs" using list_all2_lengthD [OF same] by (simp split: if_splits)
  moreover have "sorted (map (tkey \<circ> po_start_time) res)" using same_object_times [OF same] by (simp only: sorted_sort_key)
  moreover have "catch_convert_objects rm bm (new_regular t) r offs s = Some (res, cnt)"
    "catch_convert_objects rm bm new_gradual r offs s = Some (res, cnt')"
    unfolding catch_convert_objects_def st_def [symmetric] o(1) o'(1) eq by (simp_all add: res_def)
  ultimately show ?thesis using c g by auto
qed

section \<open>Offsets stay in the playfield\<close>

definition in_playfield :: "f32 \<Rightarrow> bool" where
  "in_playfield x \<longleftrightarrow> is_fin32 x \<and> 0 \<le> fval32 x \<and> fval32 x \<le> 512"

lemma playfield_values: "fval32 playfield_width = 512" "is_fin32 playfield_width"
  "fval32 (lit32 0 1) = 0" "is_fin32 (lit32 0 1)" "fval32 (lit32 20 1) = 20" "is_fin32 (lit32 20 1)"
  using lit32_int [of 512] lit32_int [of 0] lit32_int [of 20] by (simp_all add: playfield_width_def)

lemma rounds32_playfield: "rounds32_to x r \<Longrightarrow> 0 \<le> r \<Longrightarrow> r \<le> 512 \<Longrightarrow> in_playfield x"
  using rounds32_between [OF _ playfield_values(4,2), of x r, unfolded playfield_values(1,3)] by (simp add: in_playfield_def)

lemma rounds32_sides:
  assumes "rounds32_to x r" "\<bar>r\<bar> \<le> 2 ^ 23"
  shows "is_fin32 x" "r \<le> 512 \<Longrightarrow> fval32 x \<le> 512" "0 \<le> r \<Longrightarrow> 0 \<le> fval32 x"
proof -
  obtain lo hi where "is_fin32 lo" "fval32 lo = real_of_int (- (2 ^ 23))" "is_fin32 hi" "fval32 hi = real_of_int (2 ^ 23)"
    using f32_int [of "- (2 ^ 23)"] f32_int [of "2 ^ 23"] by auto
  then show "is_fin32 x" using rounds32_between(1) [OF assms(1), of lo hi] assms(2) by simp
  show "r \<le> 512 \<Longrightarrow> fval32 x \<le> 512" "0 \<le> r \<Longrightarrow> 0 \<le> fval32 x"
    using assms(1) playfield_values unfolding rounds32_to_def by metis+
qed

text \<open>Integers that a cast makes of numbers that are not negative, and the random offset.\<close>

lemma as_i32_nonneg:
  assumes "\<not> v < lit 0 1"
  shows "0 \<le> sint (as_i32 v)"
proof -
  have z: "key (lit 0 1) = 0" "\<not> is_nan (lit 0 1)" using lit_int [of 0] fin_not(1)
    by (simp_all add: key_zero_iff flip: fval_zero_iff)
  have "0 \<le> as_int 32 v"
  proof (cases "is_nan v")
    case False
    then have "0 \<le> key v" using assms z by (simp add: less_f64_def)
    then have "sgn_bit v \<Longrightarrow> magn v = 0" by (simp add: key_def)
    then have "sgn_bit v \<Longrightarrow> ipart v = 0 \<and> \<not> is_inf v"
      using ipart_floor [of v] fval_zero_iff [of v] by (simp add: is_inf_def inf_mag_def)
    then show ?thesis by (auto simp: as_int_def)
  qed (simp add: as_int_def)
  moreover have "as_int 32 v < 2 ^ 31" by (auto simp: as_int_def)
  ultimately have "sint (word_of_int (as_int 32 v) :: 32 word) = as_int 32 v"
    unfolding sint_sbintrunc' by (intro signed_take_bit_int_eq_self) simp_all
  then show ?thesis using \<open>0 \<le> as_int 32 v\<close> by (simp add: as_i32_def)
qed

lemma next_double_unit: "0 \<le> fval (fst (next_double r))" "fval (fst (next_double r)) < 1" "is_fin (fst (next_double r))"
proof -
  have "0 \<le> sint (fst (next_int r))" "sint (fst (next_int r)) < 2 ^ 31" by (rule next_int_bounds)+
  then have "0 \<le> real_of_int (sint (fst (next_int r)))" "real_of_int (sint (fst (next_int r))) < real_of_int (2 ^ 31)"
    by (simp_all only: of_int_0_le_iff of_int_less_iff)
  then show "0 \<le> fval (fst (next_double r))" "fval (fst (next_double r)) < 1" "is_fin (fst (next_double r))"
    by (simp_all add: next_double_val)
qed

lemma less_zero: "v < lit 0 1 \<longleftrightarrow> \<not> is_nan v \<and> sgn_bit v \<and> magn v \<noteq> 0"
proof -
  have "key (lit 0 1) = 0" "\<not> is_nan (lit 0 1)" using lit_int [of 0] fin_not(1)
    by (simp_all add: key_zero_iff flip: fval_zero_iff)
  then show ?thesis by (auto simp: less_f64_def key_def)
qed

lemma not_less_zero_fin: "is_fin v \<Longrightarrow> \<not> v < lit 0 1 \<longleftrightarrow> 0 \<le> fval v"
  using lit_int [of 0] by (simp add: less_f64_fin not_less)

text \<open>A product and a sum of numbers that are not negative; infinities and NaN are allowed.\<close>

lemma scaled_not_negative:
  assumes "is_fin d" "0 \<le> fval d" "fval d < 1" "\<not> m < lit 0 1"
  shows "\<not> lit 0 1 + d * (m - lit 0 1) < lit 0 1"
proof -
  define z where "z = lit 0 1"
  have z: "fval z = 0" "is_fin z" "magn z = 0" using lit_int [of 0] by (simp_all add: z_def flip: fval_zero_iff)
  consider "is_fin m" | "is_nan m" | "is_inf m" "\<not> sgn_bit m"
    using class_cases [of m] assms(4) less_zero [of m] by (auto simp: is_inf_def inf_mag_def)
  then have "\<not> z + d * (m - z) < lit 0 1"
  proof cases
    case 1
    then have m: "0 \<le> fval m" using assms(4) not_less_zero_fin [OF 1] by blast
    have s: "fval (m - z) = fval m" "is_fin (m - z)"
      using fsub_rounds [OF 1 z(2)] rounds_to_exact [of "m - z" m] rounds_to_between [of "m - z" "fval m" m m] 1 z fin_not(1) by simp_all
    have "fval d * fval m \<le> fval m" "0 \<le> fval d * fval m" using m assms(2,3) by (simp_all add: mult_left_le_one_le)
    then have p: "is_fin (d * (m - z))" "0 \<le> fval (d * (m - z))"
      using rounds_to_between [OF fmul_rounds [OF assms(1) s(2)] z(2) 1] s z by simp_all
    have "is_fin (z + d * (m - z))" "0 \<le> fval (z + d * (m - z))"
      using rounds_to_between [OF fadd_rounds [OF z(2) p(1)] z(2) p(1)] z p by simp_all
    then show ?thesis using not_less_zero_fin by blast
  next
    case 2
    have n: "is_nan f64_nan" by (simp add: is_nan_def f64_nan_def inf_mag_def)
    have "m - z = f64_nan" using 2 by (simp add: minus_f64_def fadd_def)
    moreover have "d * f64_nan = f64_nan" using n by (simp add: times_f64_def fmul_def Let_def)
    moreover have "z + f64_nan = f64_nan" using n by (simp add: plus_f64_def fadd_def)
    ultimately show ?thesis using n less_zero by metis
  next
    case 3
    have zn: "\<not> is_nan z" "\<not> is_inf z" using z(2) by simp_all
    have a: "m - z = m" using 3 zn by (simp add: minus_f64_def fadd_def)
    have b: "d * m = (if magn d = 0 then f64_nan else finf False)"
    proof (cases "magn d = 0")
      case False
      then have "0 < fval d" using assms(2) fval_zero_iff [of d] by simp
      then have "\<not> sgn_bit d" using gval_nonneg [of 52 1074 "magn d"] by (auto simp: fval_def not_less [symmetric])
      then show ?thesis using 3 assms(1) False
        by (simp add: times_f64_def fmul_def Let_def is_inf_def is_nan_def is_fin_def inf_mag_def)
    qed (use 3 in \<open>simp add: times_f64_def fmul_def Let_def\<close>)
    have n: "is_nan f64_nan" "is_inf (finf False)" "\<not> sgn_bit (finf False)" "\<not> is_nan (finf False)"
      by (simp_all add: is_nan_def is_inf_def f64_nan_def finf_def inf_mag_def)
    then have "z + f64_nan = f64_nan" "z + finf False = finf False" using zn by (simp_all add: plus_f64_def fadd_def)
    then show ?thesis using n less_zero unfolding a b by (metis (full_types))
  qed
  then show ?thesis unfolding z_def .
qed

lemma random_amount:
  assumes "next_double_range (lit 0 1) (fmax m (lit 0 1)) rng = (i, rng')"
  shows "is_fin32 (fmin32 (f32_of_i32 i) (lit32 20 1))"
    "0 \<le> fval32 (fmin32 (f32_of_i32 i) (lit32 20 1))" "fval32 (fmin32 (f32_of_i32 i) (lit32 20 1)) \<le> 20"
proof -
  have "\<not> fmax m (lit 0 1) < lit 0 1" by (auto simp: fmax_def less_f64_def)
  then have "\<not> lit 0 1 + fst (next_double rng) * (fmax m (lit 0 1) - lit 0 1) < lit 0 1"
    by (rule scaled_not_negative [OF next_double_unit(3,1,2)])
  then have i: "0 \<le> sint i"
    using as_i32_nonneg assms by (simp add: next_double_range_def split: prod.splits) (metis fst_conv)
  have "rounds32_to (f32_of_i32 i) (real_of_int (sint i))"
    using round_ratio32_rounds [of 1 False "nat (sint i)"] i by (simp add: f32_of_i32_def signed_def)
  then have f: "\<not> is_nan32 (f32_of_i32 i)" "0 \<le> fval32 (f32_of_i32 i)"
    using i playfield_values(3,4) unfolding rounds32_to_def by (simp_all, metis of_int_0_le_iff)
  define w where "w = lit32 20 1"
  have w: "fval32 w = 20" "is_fin32 w" "\<not> is_nan32 w" using playfield_values(5,6) by (simp_all add: w_def is_fin32_def is_nan32_def)
  have "is_fin32 (fmin32 (f32_of_i32 i) w) \<and> 0 \<le> fval32 (fmin32 (f32_of_i32 i) w) \<and> fval32 (fmin32 (f32_of_i32 i) w) \<le> 20"
  proof (cases "f32_of_i32 i < w")
    case True
    then have l: "fval32 (f32_of_i32 i) \<le> 20" using key32_fval [of "f32_of_i32 i" w] w(1) by (simp add: less_f32_def)
    then have "is_fin32 (f32_of_i32 i)"
      using fin32_between [OF playfield_values(4) w(2), of "f32_of_i32 i"] f(2) w(1) playfield_values(3) by simp
    then show ?thesis using True l f w by (simp add: fmin32_def)
  qed (use f w in \<open>simp add: fmin32_def\<close>)
  then show "is_fin32 (fmin32 (f32_of_i32 i) (lit32 20 1))"
    "0 \<le> fval32 (fmin32 (f32_of_i32 i) (lit32 20 1))" "fval32 (fmin32 (f32_of_i32 i) (lit32 20 1)) \<le> 20"
    by (simp_all only: w_def)
qed

text \<open>
  C32. The offsets of HardRock keep an object of the playfield in it: a random offset whatever its
  limit, infinite and NaN included, and an offset by the distance to the last object.
\<close>

theorem offsets_stay_in_playfield:
  assumes "in_playfield x" "is_fin32 a" "\<bar>fval32 a\<bar> \<le> 2 ^ 22"
  shows "in_playfield (fst (apply_random_offset x m rng)) \<and> in_playfield (apply_offset x a)"
proof
  obtain right r1 where b: "next_bool rng = (right, r1)" by fastforce
  obtain i r2 where n: "next_double_range (lit 0 1) (fmax m (lit 0 1)) r1 = (i, r2)" by fastforce
  define w where "w = fmin32 (f32_of_i32 i) (lit32 20 1)"
  have w: "is_fin32 w" "0 \<le> fval32 w" "fval32 w \<le> 20" unfolding w_def by (rule random_amount [OF n])+
  have x: "is_fin32 x" "0 \<le> fval32 x" "fval32 x \<le> 512" using assms(1) by (simp_all add: in_playfield_def)
  note up = arith32_rounds(1) [OF x(1) w(1)] and down = arith32_rounds(2) [OF x(1) w(1)]
  have up: "rounds32_to (x + w) (fval32 x + fval32 w)" and down: "rounds32_to (x - w) (fval32 x - fval32 w)"
    using up down x w by simp_all
  have "\<bar>fval32 x + fval32 w\<bar> \<le> 2 ^ 23" "\<bar>fval32 x - fval32 w\<bar> \<le> 2 ^ 23" using x w by simp_all
  note us = rounds32_sides [OF up this(1)] and ds = rounds32_sides [OF down this(2)]
  have fin: "is_fin32 (x + w)" "is_fin32 (x - w)" by (rule us(1) ds(1))+
  have "in_playfield (if right then if x + w \<le> playfield_width then x + w else x - w
      else if lit32 0 1 \<le> x - w then x - w else x + w)"
  proof -
    have "in_playfield (x + w)" if "x + w \<le> playfield_width"
      using that fin us(3) x w playfield_values by (simp add: le32_fin in_playfield_def)
    moreover have "in_playfield (x - w)" if "\<not> x + w \<le> playfield_width"
    proof -
      have "\<not> fval32 x + fval32 w \<le> 512" using that fin us(2) playfield_values(1,2) by (auto simp: le32_fin)
      then show ?thesis using x w by (intro rounds32_playfield [OF down]) simp_all
    qed
    moreover have "in_playfield (x - w)" if "lit32 0 1 \<le> x - w"
      using that fin ds(2) x w playfield_values(4) unfolding in_playfield_def le32_fin [OF playfield_values(4) fin(2)] playfield_values(3)
      by simp
    moreover have "in_playfield (x + w)" if "\<not> lit32 0 1 \<le> x - w"
    proof -
      have "\<not> 0 \<le> fval32 x - fval32 w"
        using that ds(3) unfolding le32_fin [OF playfield_values(4) fin(2)] playfield_values(3) by blast
      then show ?thesis using x w by (intro rounds32_playfield [OF up]) simp_all
    qed
    ultimately show ?thesis by simp
  qed
  then show "in_playfield (fst (apply_random_offset x m rng))"
    unfolding apply_random_offset_def b Let_def prod.case n fst_conv w_def .
  show "in_playfield (apply_offset x a)"
  proof -
    have "rounds32_to (x + a) (fval32 x + fval32 a)" by (rule arith32_rounds(1) [OF x(1) assms(2)]) (use x assms(3) in \<open>simp\<close>)
    then have s: "is_fin32 (x + a)" "fval32 x + fval32 a \<le> 512 \<Longrightarrow> fval32 (x + a) \<le> 512" "0 \<le> fval32 x + fval32 a \<Longrightarrow> 0 \<le> fval32 (x + a)"
      by (rule rounds32_sides; use x assms(3) in simp)+
    note f = s(1)
    have "in_playfield (x + a)" if "lit32 0 1 < a" "x + a < playfield_width"
      using that s(3) x(2) f assms(2) playfield_values
      unfolding in_playfield_def less32_fin [OF playfield_values(4) assms(2)] less32_fin [OF f playfield_values(2)] by simp
    moreover have "in_playfield (x + a)" if "\<not> lit32 0 1 < a" "lit32 0 1 < x + a"
      using that s(2) x(3) f assms(2) playfield_values
      unfolding in_playfield_def less32_fin [OF playfield_values(4) assms(2)] less32_fin [OF playfield_values(4) f] by simp
    ultimately show ?thesis using assms(1) by (simp add: apply_offset_def)
  qed
qed

theorem offsets_stay_in_playfield_witness:
  "in_playfield (fst (apply_random_offset playfield_width f64_nan (random_new 1337)))
    \<and> in_playfield (apply_offset playfield_width (lit32 20 1))"
  by (rule offsets_stay_in_playfield) (simp_all only: in_playfield_def playfield_values, simp_all)

text \<open>
  A spinner of 50 milliseconds, 23 days into the map: its times are the same 32-bit float, and 50
  is less than half of the distance to the next one. The loop over its bananas does not end.
\<close>

lemma as_i32_lit: "n < 2 ^ 31 \<Longrightarrow> as_i32 (lit n 1) = word_of_nat n"
proof -
  assume n: "n < 2 ^ 31"
  then have "sint (as_i32 (lit n 1)) = int n" using lit_int [of n] as_i32_val [of "lit n 1"] by simp
  moreover have "sint (word_of_nat n :: i32) = int n"
    using n by (simp add: signed_of_nat signed_take_bit_int_eq_self)
  ultimately show ?thesis by (intro signed_word_eqI [where ?'a = int]) simp
qed

lemma long_time: "f32_of_i32 2000000000 = F32 1324247848" "f32_of_i32 2000000050 = F32 1324247848" "f32_of_i32 50 = F32 1112014848"
  by (simp_all add: f32_of_i32_def f32_eval)

lemma banana_shower_hangs: "banana_shower_new (lit 2000000000 1) (lit 2000000050 1) = None"
proof -
  have w: "as_i32 (lit 2000000000 1) = 2000000000" "as_i32 (lit 2000000050 1) = 2000000050"
    using as_i32_lit [of 2000000000] as_i32_lit [of 2000000050] by simp_all
  have "\<not> lit32 100 1 < F32 1112014848" by (simp add: f32_eval)
  then have h: "banana_halve (F32 1112014848) = Some (F32 1112014848)" by (subst banana_halve.simps) simp
  have p: "\<not> F32 1112014848 \<le> lit32 0 1" by (simp add: f32_eval)
  have "F32 1324247848 \<le> F32 1324247848" "F32 1324247848 + F32 1112014848 = F32 1324247848"
    by (simp_all add: f32_eval f64_eval)
  note s = banana_loop_stuck [OF this]
  show ?thesis unfolding banana_shower_new_def w Let_def by (simp add: long_time h s p [unfolded One_nat_def])
qed

definition spinner_map :: "(unit, unit) beatmap" where
  "spinner_map = (beatmap_default 14)\<lparr>bm_hit_objects := [\<lparr>ho_pos = \<lparr>px = playfield_width, py = lit32 0 1\<rparr>,
     ho_start_time = lit 0 1, ho_kind = Spinner (lit 500 1)\<rparr>]\<rparr>"

theorem catch_objects_returned_witness:
  "\<forall>rm. \<exists>objs c. catch_convert_objects rm spinner_map (new_regular 5) Horizontal True (lit32 4 1)
     = Some (objs, Regular c (5 - length objs))"
proof
  fix rm :: "(unit, unit) rosu_map"
  have "is_fin (lit 500 1)" "magn (lit 500 1) \<noteq> 0" "magn (lit 0 1) = 0"
    using lit_int [of 500] lit_int [of 0] fval_zero_iff [of "lit 500 1"] fval_zero_iff [of "lit 0 1"] by simp_all
  then have "lit 0 1 + lit 500 1 = lit 500 1" by (rule plus_zero(2))
  then have "\<forall>h\<in>set (bm_hit_objects spinner_map). spinner_in_range h"
    using as_i32_lit [of 0] as_i32_lit [of 500] by (simp add: spinner_map_def spinner_in_range_def)
  from catch_objects_returned [OF this, of rm 5 Horizontal True "lit32 4 1"]
  show "\<exists>objs c. catch_convert_objects rm spinner_map (new_regular 5) Horizontal True (lit32 4 1)
     = Some (objs, Regular c (5 - length objs))" by blast
qed

end
