(* ===== verification/Catch_Difficulty.thy ===== *)
theory Catch_Difficulty
  imports Skills Catch_Objects Map_Attributes
begin

text \<open>
  The difficulty of osu!catch: the difficulty objects (\<open>src/catch/difficulty/object.rs\<close>), the
  movement skill (\<open>src/catch/difficulty/skills/movement.rs\<close>), the calculation
  (\<open>src/catch/difficulty/mod.rs\<close>) and the strains (\<open>src/catch/strains.rs\<close>). Results are
  options: \<open>None\<close> is a panic or a loop without end.
\<close>

section \<open>Operations on 32-bit floats\<close>

definition feq32 :: "f32 \<Rightarrow> f32 \<Rightarrow> bool" where
  "feq32 x y \<longleftrightarrow> \<not> is_nan32 x \<and> \<not> is_nan32 y \<and> key32 x = key32 y"

definition fsignum32 :: "f32 \<Rightarrow> f32" where
  "fsignum32 x = (if is_nan32 x then x else if sgn32 x then - lit32 1 1 else lit32 1 1)"

definition float_eq32 :: "f32 \<Rightarrow> f32 \<Rightarrow> bool" where
  "float_eq32 x y \<longleftrightarrow> abs (x - y) \<le> f32_epsilon"

text \<open>\<open>f32::clamp\<close> panics on bounds that are not in order.\<close>

definition clamp32_checked :: "f32 \<Rightarrow> f32 \<Rightarrow> f32 \<Rightarrow> f32 option" where
  "clamp32_checked x lo hi = (if lo \<le> hi then Some (clamp32 x lo hi) else None)"

section \<open>Difficulty objects\<close>

record last_object =
  lo_hyper_dash :: bool
  lo_dist_to_hyper_dash :: f32

record catch_difficulty_object =
  cdo_idx :: nat
  cdo_start_time :: f64
  cdo_delta_time :: f64
  cdo_normalized_pos :: f32
  cdo_last_normalized_pos :: f32
  cdo_strain_time :: f64
  cdo_last_object :: last_object

definition normalized_hitobject_radius :: f32 where
  "normalized_hitobject_radius = lit32 41 1"

definition catch_difficulty_object_new ::
  "palpable_object \<Rightarrow> palpable_object \<Rightarrow> f64 \<Rightarrow> f32 \<Rightarrow> nat \<Rightarrow> catch_difficulty_object" where
  "catch_difficulty_object_new hit_object last_object clock_rate scaling_factor idx =
    (let delta_time = (po_start_time hit_object - po_start_time last_object) / clock_rate
     in \<lparr>cdo_idx = idx, cdo_start_time = po_start_time hit_object / clock_rate, cdo_delta_time = delta_time,
         cdo_normalized_pos = effective_x hit_object * scaling_factor,
         cdo_last_normalized_pos = effective_x last_object * scaling_factor,
         cdo_strain_time = fmax delta_time (lit 40 1),
         cdo_last_object = \<lparr>lo_hyper_dash = po_hyper_dash last_object,
           lo_dist_to_hyper_dash = po_dist_to_hyper_dash last_object\<rparr>\<rparr>)"

fun catch_diff_objects_from ::
  "f64 \<Rightarrow> f32 \<Rightarrow> palpable_object \<Rightarrow> nat \<Rightarrow> palpable_object list \<Rightarrow> catch_difficulty_object list" where
  "catch_diff_objects_from clock_rate scaling_factor last_object i [] = []"
| "catch_diff_objects_from clock_rate scaling_factor last_object i (hit_object # objs) =
    catch_difficulty_object_new hit_object last_object clock_rate scaling_factor i
      # catch_diff_objects_from clock_rate scaling_factor hit_object (i + 1) objs"

definition catch_diff_objects :: "f64 \<Rightarrow> f32 \<Rightarrow> palpable_object list \<Rightarrow> catch_difficulty_object list" where
  "catch_diff_objects clock_rate half_catcher_width objs = (case objs of
      [] \<Rightarrow> []
    | last_object # objs \<Rightarrow>
        catch_diff_objects_from clock_rate (normalized_hitobject_radius / half_catcher_width) last_object 0 objs)"

section \<open>Movement\<close>

record movement = strain_decay_skill +
  mv_half_catcher_width :: f32
  mv_clock_rate :: f64
  mv_last_player_pos :: "f32 option"
  mv_last_dist_moved :: f32
  mv_last_exact_dist_moved :: f32
  mv_last_strain_time :: f64
  mv_is_in_buzz_section :: bool
  mv_dist_moved_history :: "f32 list"
  mv_strain_time_history :: "f64 list"

definition movement_new :: "f32 \<Rightarrow> f64 \<Rightarrow> movement" where
  "movement_new half_catcher_width clock_rate = \<lparr>sk_section_peak = lit 0 1, sk_section_end = lit 0 1,
     sk_strain_peaks = sv_new, sk_object_strains = [], sk_current_strain = lit 0 1,
     mv_half_catcher_width = half_catcher_width, mv_clock_rate = clock_rate, mv_last_player_pos = None,
     mv_last_dist_moved = lit32 0 1, mv_last_exact_dist_moved = lit32 0 1, mv_last_strain_time = lit 0 1,
     mv_is_in_buzz_section = False, mv_dist_moved_history = [], mv_strain_time_history = []\<rparr>"

text \<open>The strain of the distance, with the bonus for a change of the direction.\<close>

definition movement_dist_addition :: "libm \<Rightarrow> f32 \<Rightarrow> f64 \<Rightarrow> movement \<Rightarrow> f64" where
  "movement_dist_addition lm dist_moved weighted_strain_time self =
    (let dist_addition = lm_powf lm (f64_of_f32 (abs dist_moved)) (lit 13 10) / lit 510 1;
         sqrt_strain = fsqrt weighted_strain_time
     in if lit32 1 10 < abs dist_moved
        then (let dist_addition = (if lit32 1 10 < abs (mv_last_dist_moved self)
                  \<and> \<not> feq32 (fsignum32 dist_moved) (fsignum32 (mv_last_dist_moved self))
                then (let bonus_factor = f64_of_f32 (fmin32 (abs dist_moved) (lit32 50 1) / lit32 50 1);
                          anti_flow_factor = fmax (f64_of_f32 (fmin32 (abs (mv_last_dist_moved self)) (lit32 70 1) / lit32 70 1))
                            (lit 38 100)
                      in dist_addition + lit 21 1 / fsqrt (mv_last_strain_time self + lit 16 1) * bonus_factor * anti_flow_factor
                           * fmax (lit 1 1 - lm_powf lm (weighted_strain_time / lit 1000 1) (lit 3 1)) (lit 0 1))
                else dist_addition)
              in dist_addition + lit 125 10
                   * f64_of_f32 (fmin32 (abs dist_moved) (normalized_hitobject_radius * lit32 2 1))
                   / f64_of_f32 (normalized_hitobject_radius * lit32 6 1) / sqrt_strain)
        else dist_addition)"

text \<open>
  How many of the last movements went on in the same direction with the same spacing. The
  histories are indexed together.
\<close>

fun linear_spacing_count :: "f32 \<Rightarrow> f64 \<Rightarrow> f32 list \<Rightarrow> f64 list \<Rightarrow> nat option" where
  "linear_spacing_count dist_moved strain_time [] prev_strains = Some 0"
| "linear_spacing_count dist_moved strain_time (prev_dist # prev_dists) [] = None"
| "linear_spacing_count dist_moved strain_time (prev_dist # prev_dists) (prev_strain # prev_strains) =
    (if \<not> feq32 (fsignum32 dist_moved) (fsignum32 prev_dist) \<or> feq (f64_of_f32 dist_moved) (lit 0 1)
        \<or> feq (f64_of_f32 prev_dist) (lit 0 1)
     then Some 0
     else let current_spacing = abs (f64_of_f32 dist_moved / strain_time);
              prev_spacing = abs (f64_of_f32 prev_dist / prev_strain);
              relative_difference = abs (current_spacing / prev_spacing - lit 1 1)
          in if lit 5 100 < relative_difference then Some 0
             else map_option Suc (linear_spacing_count dist_moved strain_time prev_dists prev_strains))"

text \<open>The bonus of an edge dash, and the position of the player after a hyper dash.\<close>

definition movement_edge_dash :: "libm \<Rightarrow> catch_difficulty_object \<Rightarrow> f64 \<Rightarrow> f32 \<Rightarrow> f64 \<Rightarrow> f32 \<times> f64" where
  "movement_edge_dash lm cur clock_rate player_pos dist_addition =
    (let dist_to_hyper_dash = lo_dist_to_hyper_dash (cdo_last_object cur)
     in if dist_to_hyper_dash \<le> lit32 20 1
        then (let (player_pos, edge_dash_bonus) = (if lo_hyper_dash (cdo_last_object cur)
                then (cdo_normalized_pos cur, lit 0 1) else (player_pos, lit 0 1 + lit 57 10))
              in (player_pos, dist_addition * (lit 1 1 + edge_dash_bonus * f64_of_f32 ((lit32 20 1 - dist_to_hyper_dash) / lit32 20 1)
                   * lm_powf lm (fmin (cdo_strain_time cur * clock_rate) (lit 265 1) / lit 265 1) (lit 15 10))))
        else (player_pos, dist_addition))"

text \<open>Movements back and forth of the same length: only the first pair is counted.\<close>

definition movement_buzz :: "catch_difficulty_object \<Rightarrow> f32 \<Rightarrow> f64 \<Rightarrow> movement \<Rightarrow> f64 \<times> bool" where
  "movement_buzz cur exact_dist_moved dist_addition self =
    (if abs exact_dist_moved \<le> normalized_hitobject_radius * lit32 2 1
        \<and> float_eq32 exact_dist_moved (- mv_last_exact_dist_moved self)
        \<and> float_eq (cdo_strain_time cur) (mv_last_strain_time self)
     then (if mv_is_in_buzz_section self then (lit 0 1, True) else (dist_addition, True))
     else (dist_addition, False))"

text \<open>The histories have the latest movement first and drop the eleventh.\<close>

definition push_history :: "f32 \<Rightarrow> f64 \<Rightarrow> movement \<Rightarrow> movement" where
  "push_history dist_moved strain_time self =
    (let dists = dist_moved # mv_dist_moved_history self; strains = strain_time # mv_strain_time_history self
     in if 10 < length dists then self\<lparr>mv_dist_moved_history := butlast dists, mv_strain_time_history := butlast strains\<rparr>
        else self\<lparr>mv_dist_moved_history := dists, mv_strain_time_history := strains\<rparr>)"

definition movement_strain_value_of :: "libm \<Rightarrow> catch_difficulty_object \<Rightarrow> movement \<Rightarrow> (f64 \<times> movement) option" where
  "movement_strain_value_of lm cur self =
    (let last_player_pos = unwrap_or (cdo_last_normalized_pos cur) (mv_last_player_pos self);
         term = normalized_hitobject_radius - lit32 16 1
     in case clamp32_checked last_player_pos (cdo_normalized_pos cur - term) (cdo_normalized_pos cur + term) of
          None \<Rightarrow> None
        | Some player_pos \<Rightarrow>
           (let dist_moved = player_pos - last_player_pos;
                exact_dist_moved = cdo_normalized_pos cur - last_player_pos;
                weighted_strain_time = cdo_strain_time cur + lit 13 1 + lit 3 1 / mv_clock_rate self;
                dist_addition = movement_dist_addition lm dist_moved weighted_strain_time self
            in case linear_spacing_count dist_moved (cdo_strain_time cur) (take 10 (mv_dist_moved_history self))
                  (mv_strain_time_history self) of
                 None \<Rightarrow> None
               | Some n \<Rightarrow>
                  (let dist_addition = dist_addition * lm_powi lm (lit 7 10) n;
                       (player_pos, dist_addition) = movement_edge_dash lm cur (mv_clock_rate self) player_pos dist_addition;
                       (dist_addition, is_in_buzz_section) = movement_buzz cur exact_dist_moved dist_addition self
                   in Some (dist_addition / weighted_strain_time, push_history dist_moved (cdo_strain_time cur)
                        (self\<lparr>mv_is_in_buzz_section := is_in_buzz_section, mv_last_player_pos := Some player_pos,
                          mv_last_dist_moved := dist_moved, mv_last_strain_time := cdo_strain_time cur,
                          mv_last_exact_dist_moved := exact_dist_moved\<rparr>)))))"

definition catch_prev_start_time :: "catch_difficulty_object list \<Rightarrow> catch_difficulty_object \<Rightarrow> f64" where
  "catch_prev_start_time objs cur = map_or (lit 0 1) cdo_start_time (previous_object (cdo_idx cur) 0 objs)"

definition movement_process ::
  "libm \<Rightarrow> catch_difficulty_object list \<Rightarrow> catch_difficulty_object \<Rightarrow> movement \<Rightarrow> movement option" where
  "movement_process lm objs cur = skill_process (lit 750 1) (decay_initial_strain lm (lit 2 10) (catch_prev_start_time objs cur))
     (decay_strain_value lm (lit 2 10) (lit 1 1) (movement_strain_value_of lm cur) (cdo_delta_time cur))
     (cdo_idx cur) (cdo_start_time cur)"

definition movement_difficulty_value :: "movement \<Rightarrow> f64" where
  "movement_difficulty_value self = skill_difficulty_value (lit 94 100) (current_strain_peaks self)"

section \<open>Calculation\<close>

text \<open>
  \<open>CatchDifficultySetup\<close>. The default mods that the builder of the attributes starts with are
  replaced by those of the settings.
\<close>

definition catch_setup ::
  "('l, 'i, 'g) rosu_mods \<Rightarrow> ('l, 'i, 'g) game_mods difficulty \<Rightarrow> ('p, 's) beatmap \<Rightarrow> beatmap_attributes \<times> catch_difficulty_attributes" where
  "catch_setup api d bm =
    (let map_attrs = build_attributes api (builder_difficulty (mods_clock_rate api) d (beatmap_attributes_of (d_mods d) bm))
     in (map_attrs, \<lparr>cd_stars = lit 0 1, cd_ar = ba_ar map_attrs, cd_n_fruits = 0, cd_n_droplets = 0,
          cd_n_tiny_droplets = 0, cd_is_convert = bm_is_convert bm\<rparr>))"

definition half_catcher_width_of :: "f32 \<Rightarrow> f32" where
  "half_catcher_width_of cs = calculate_catch_width cs * lit32 5 10
     * (lit32 1 1 - fmax32 (cs - lit32 55 10) (lit32 0 1) * lit32 625 10000)"

text \<open>The palpable objects, with the counter that was passed through their creation.\<close>

definition catch_palpable ::
  "('l, 'i, 'g) rosu_mods \<Rightarrow> ('p, 's) rosu_map \<Rightarrow> ('l, 'i, 'g) game_mods difficulty \<Rightarrow> ('p, 's) beatmap
    \<Rightarrow> object_count_builder \<Rightarrow> (palpable_object list \<times> object_count_builder) option" where
  "catch_palpable api rm d bm cnt = catch_convert_objects rm bm cnt (reflection api (d_mods d))
     (get_hardrock_offsets (hardrock_offsets_of api) d) (f32_of_f64 (ba_cs (fst (catch_setup api d bm))))"

definition catch_half_width ::
  "('l, 'i, 'g) rosu_mods \<Rightarrow> ('l, 'i, 'g) game_mods difficulty \<Rightarrow> ('p, 's) beatmap \<Rightarrow> f32" where
  "catch_half_width api d bm = half_catcher_width_of (f32_of_f64 (ba_cs (fst (catch_setup api d bm))))"

definition catch_values ::
  "('l, 'i, 'g) rosu_mods \<Rightarrow> libm \<Rightarrow> ('p, 's) rosu_map \<Rightarrow> ('l, 'i, 'g) game_mods difficulty \<Rightarrow> ('p, 's) beatmap
    \<Rightarrow> (movement \<times> catch_difficulty_attributes) option" where
  "catch_values api lm rm d bm =
    (let n = unat (get_passed_objects d);
         clock_rate = get_clock_rate (mods_clock_rate api) d
     in case catch_palpable api rm d bm (new_regular n) of
          None \<Rightarrow> None
        | Some (objs, cnt) \<Rightarrow>
            (let half_catcher_width = catch_half_width api d bm;
                 diff_objects = catch_diff_objects clock_rate half_catcher_width (take n objs)
             in case (process_all (movement_process lm diff_objects) diff_objects (movement_new half_catcher_width clock_rate), cnt) of
                  (Some movement, Regular c _) \<Rightarrow> Some (movement, set_object_count c (snd (catch_setup api d bm)))
                | _ \<Rightarrow> None))"

definition catch_eval :: "f64 \<Rightarrow> catch_difficulty_attributes \<Rightarrow> catch_difficulty_attributes" where
  "catch_eval movement_difficulty attrs = attrs\<lparr>cd_stars := fsqrt movement_difficulty * lit 459 100\<rparr>"

definition catch_attributes ::
  "('l, 'i, 'g) rosu_mods \<Rightarrow> libm \<Rightarrow> ('p, 's) rosu_map \<Rightarrow> ('l, 'i, 'g) game_mods difficulty \<Rightarrow> ('p, 's) beatmap
    \<Rightarrow> catch_difficulty_attributes option" where
  "catch_attributes api lm rm d bm =
    map_option (\<lambda>(movement, attrs). catch_eval (movement_difficulty_value movement) attrs) (catch_values api lm rm d bm)"

definition catch_difficulty ::
  "('l, 'i, 'g) rosu_mods \<Rightarrow> libm \<Rightarrow> ('p, 's) rosu_map \<Rightarrow> ('p, 's, ('l, 'i, 'g) game_mods) converters
    \<Rightarrow> ('l, 'i, 'g) game_mods difficulty \<Rightarrow> ('p, 's) beatmap \<Rightarrow> (convert_error + catch_difficulty_attributes) option" where
  "catch_difficulty api lm rm cv d bm = (case convert_ref cv Catch (d_mods d) bm of
      Inl e \<Rightarrow> Some (Inl e)
    | Inr bm \<Rightarrow> map_option Inr (catch_attributes api lm rm d (cow_get bm)))"

definition catch_strains ::
  "('l, 'i, 'g) rosu_mods \<Rightarrow> libm \<Rightarrow> ('p, 's) rosu_map \<Rightarrow> ('p, 's, ('l, 'i, 'g) game_mods) converters
    \<Rightarrow> ('l, 'i, 'g) game_mods difficulty \<Rightarrow> ('p, 's) beatmap \<Rightarrow> (convert_error + f64 list) option" where
  "catch_strains api lm rm cv d bm = (case convert_ref cv Catch (d_mods d) bm of
      Inl e \<Rightarrow> Some (Inl e)
    | Inr bm \<Rightarrow> map_option (\<lambda>(movement, _). Inr (sv_into_vec (current_strain_peaks movement)))
        (catch_values api lm rm d (cow_get bm)))"

section \<open>Objects and events\<close>

text \<open>
  Making the palpable objects passes a sequence of events to the counter, which is the same for
  every counter, and the objects do not depend on it.
\<close>

lemma juice_tiny_run:
  "\<exists>nested' evs. \<forall>c. juice_tiny l t (nested, c) = Some (nested', fold run_event evs c)"
proof (cases l)
  case None
  then show ?thesis by (intro exI [of _ nested] exI [of _ "[]"]) (simp add: juice_tiny_def)
next
  case (Some l')
  obtain n where "tiny_droplets_between l' t = Some n" using tiny_droplets_end by blast
  then show ?thesis using Some
    by (intro exI [of _ "nested @ replicate n tiny_object"] exI [of _ "[Tiny (word_of_nat n)]"]) (simp add: juice_tiny_def)
qed

lemma juice_event_run:
  "\<exists>nested' evs. \<forall>c. juice_event pos_at e (nested, c) = (nested', fold run_event evs c)"
proof -
  have "\<forall>c. juice_event pos_at e (nested, c) = (fst (juice_event pos_at e (nested, c0)), fold run_event
      (case ev_kind e of TickEvent \<Rightarrow> [Droplet] | LastTickEvent \<Rightarrow> [] | _ \<Rightarrow> [Fruit]) c)" for c0
    by (cases "ev_kind e") (simp_all add: juice_event_def)
  then show ?thesis by blast
qed

lemma juice_events_run:
  "\<exists>nested' evs. \<forall>c. juice_events pos_at es l (nested, c) = Some (nested', fold run_event evs c)"
proof (induction es arbitrary: l nested)
  case Nil
  show ?case by (intro exI [of _ nested] exI [of _ "[]"]) simp
next
  case (Cons e es)
  obtain n1 ev1 where 1: "juice_tiny l (ev_time e) (nested, c) = Some (n1, fold run_event ev1 c)" for c
    using juice_tiny_run by metis
  obtain n2 ev2 where 2: "juice_event pos_at e (n1, c) = (n2, fold run_event ev2 c)" for c using juice_event_run by metis
  obtain n3 ev3 where 3: "juice_events pos_at es (Some (ev_time e)) (n2, c) = Some (n3, fold run_event ev3 c)" for c
    using Cons.IH by metis
  show ?case by (intro exI [of _ n3] exI [of _ "ev1 @ ev2 @ ev3"]) (simp add: 1 2 3)
qed

lemma convert_object_run:
  assumes "spinner_in_range h"
  shows "\<exists>it evs. (\<forall>c. convert_object rm h bm c = Some (it, fold run_event evs c)) \<and> oi_state it \<noteq> FruitState None"
proof -
  have spin: "\<exists>n. banana_shower_new (ho_start_time h) (ho_start_time h + d) = Some n"
    if "ho_kind h = Spinner d \<or> ho_kind h = Hold d" for d
    using that assms(1) banana_shower_new_ends [of "ho_start_time h" "ho_start_time h + d"] by (auto simp: spinner_in_range_def)
  define mk where "mk = (\<lambda>st. \<lparr>oi_x = px (ho_pos h), oi_start_time = ho_start_time h, oi_state = st\<rparr> :: 'a object_iter)"
  show ?thesis
  proof (cases "ho_kind h")
    case Circle
    then show ?thesis
      by (intro exI [of _ "mk (FruitState (Some (lit32 0 1)))"] exI [of _ "[Fruit]"]) (simp add: convert_object_def fruit_new_def mk_def)
  next
    case (Slider slider)
    define x where "x = clamp32 (px (ho_pos h)) (lit32 0 1) playfield_width"
    obtain nested evs where "juice_stream_new rm x (ho_start_time h) slider bm c = Some (nested, fold run_event evs c)" for c
      unfolding juice_stream_new_def using juice_events_run by metis
    then show ?thesis
      by (intro exI [of _ "mk (JuiceStreamState (sl_control_points slider) nested)"] exI [of _ evs])
        (simp add: convert_object_def Slider x_def mk_def)
  next
    case (Spinner d)
    then obtain n where "banana_shower_new (ho_start_time h) (ho_start_time h + d) = Some n" using spin by blast
    then show ?thesis
      by (intro exI [of _ "mk (BananaShowerState n)"] exI [of _ "[]"]) (simp add: convert_object_def Spinner mk_def)
  next
    case (Hold d)
    then obtain n where "banana_shower_new (ho_start_time h) (ho_start_time h + d) = Some n" using spin by blast
    then show ?thesis
      by (intro exI [of _ "mk (BananaShowerState n)"] exI [of _ "[]"]) (simp add: convert_object_def Hold mk_def)
  qed
qed

lemma collect_objects_run:
  assumes "\<forall>h\<in>set hs. spinner_in_range h"
  shows "\<exists>objs' evs. \<forall>c. collect_objects rm bm offs hs c st objs = Some (objs', fold run_event evs c)"
  using assms
proof (induction hs arbitrary: st objs)
  case Nil
  show ?case by (intro exI [of _ objs] exI [of _ "[]"]) simp
next
  case (Cons h hs)
  obtain it ev1 where 1: "\<And>c. convert_object rm h bm c = Some (it, fold run_event ev1 c)" "oi_state it \<noteq> FruitState None"
    using convert_object_run [of h rm bm] Cons.prems by auto
  obtain it' st' where a: "apply_pos_offset (rm_control_point_x rm) offs it st = Some (it', st')"
    using apply_pos_offset_ends [OF 1(2)] by blast
  obtain objs' ev2 where 2: "collect_objects rm bm offs hs c st' (objs @ object_iter_collect it') = Some (objs', fold run_event ev2 c)" for c
    using Cons.IH [of st' "objs @ object_iter_collect it'"] Cons.prems by auto
  show ?case by (intro exI [of _ objs'] exI [of _ "ev1 @ ev2"]) (simp add: 1 a 2)
qed

lemma catch_convert_run:
  assumes "\<forall>h\<in>set (bm_hit_objects bm). spinner_in_range h"
  shows "\<exists>objs evs p cs. (\<forall>c. catch_convert_objects rm bm c r offs s = Some (objs, fold run_event evs c))
    \<and> sorted (map (tkey \<circ> po_start_time) objs)
    \<and> fold run_event evs new_gradual = Gradual p cs \<and> length cs = length objs"
proof -
  define st where "st = \<lparr>ofs_last_pos = None, ofs_last_start_time = lit 0 1, ofs_rng = random_new 1337\<rparr>"
  obtain objs evs where o: "collect_objects rm bm offs (bm_hit_objects bm) c st [] = Some (objs, fold run_event evs c)" for c
    using collect_objects_run [OF assms] by metis
  obtain objs' cnt' where o': "collect_objects rm bm offs (bm_hit_objects bm) new_gradual st [] = Some (objs', cnt')"
      "recorded None (length objs') cnt'"
    using collect_objects_end [OF assms, of None "[]" "new_gradual"] recorded_new by fastforce
  then have r: "recorded None (length objs) (fold run_event evs new_gradual)" using o by simp
  then obtain p cs where g: "fold run_event evs new_gradual = Gradual p cs" "length cs = length objs"
    by (auto simp: recorded_def split: object_count_builder.splits)
  define res where "res = initialize_hyper_dash s (sort_key (tkey \<circ> po_start_time)
    (if r = Horizontal then map reflect_horizontal objs else objs))"
  have same: "list_all2 same_object (sort_key (tkey \<circ> po_start_time) (if r = Horizontal then map reflect_horizontal objs else objs)) res"
    unfolding res_def by (rule initialize_hyper_dash_same)
  then have "length res = length objs" using list_all2_lengthD [OF same] by (simp split: if_splits)
  moreover have "sorted (map (tkey \<circ> po_start_time) res)" using same_object_times [OF same] by (simp only: sorted_sort_key)
  moreover have "catch_convert_objects rm bm c r offs s = Some (res, fold run_event evs c)" for c
    unfolding catch_convert_objects_def st_def [symmetric] o by (simp add: res_def)
  ultimately show ?thesis using g by (intro exI [of _ res] exI [of _ evs] exI [of _ p] exI [of _ cs]) simp
qed

section \<open>The movement skill is total\<close>

lemma clamp_term: "fval32 (normalized_hitobject_radius - lit32 16 1) = 25" "is_fin32 (normalized_hitobject_radius - lit32 16 1)"
proof -
  have l: "fval32 (lit32 41 1) = real 41" "is_fin32 (lit32 41 1)" "fval32 (lit32 16 1) = real 16" "is_fin32 (lit32 16 1)"
    by (rule lit32_int; simp)+
  have "rounds32_to (lit32 41 1 - lit32 16 1) (real_of_int 25)" using arith32_rounds(2) [OF l(2,4)] l(1,3) by simp
  then show "fval32 (normalized_hitobject_radius - lit32 16 1) = 25" "is_fin32 (normalized_hitobject_radius - lit32 16 1)"
    unfolding normalized_hitobject_radius_def using rounds32_int [of _ 25] by simp_all
qed

lemma fin32_bound: "is_fin32 x \<Longrightarrow> \<bar>fval32 x\<bar> \<le> 2 ^ 128"
proof -
  assume "is_fin32 x"
  then have "gval 23 149 (magn32 x) \<le> gval 23 149 inf_mag32" by (simp add: is_fin32_def)
  moreover have "gval 23 149 inf_mag32 = 2 ^ 128" by (simp add: gval_def man_def ex_def inf_mag32_def)
  ultimately show ?thesis by (simp add: fval32_def)
qed

lemma near32:
  assumes "is_fin32 x" "\<bar>r\<bar> \<le> 2 ^ 24" "rounds_to s (fval32 x + r)"
  shows "is_fin s" "r \<le> 0 \<Longrightarrow> fval32 (f32_of_f64 s) \<le> fval32 x" "0 \<le> r \<Longrightarrow> fval32 x \<le> fval32 (f32_of_f64 s)"
    "\<not> is_nan32 (f32_of_f64 s)"
proof -
  define hi where "hi = mk False (1223 * 2 ^ 52)"
  define lo where "lo = mk True (1223 * 2 ^ 52)"
  have h: "is_fin hi" "fval hi = 2 ^ 200" and lo: "is_fin lo" "fval lo = - (2 ^ 200)"
    by (simp_all add: hi_def lo_def is_fin_def inf_mag_def fval_def gval_def man_def ex_def)
  have "\<bar>fval32 x + r\<bar> \<le> 2 ^ 128 + 2 ^ 24" using fin32_bound [OF assms(1)] assms(2) by linarith
  also have "\<dots> \<le> (2 ^ 200 :: real)" by simp
  finally have b: "fval lo \<le> fval32 x + r" "fval32 x + r \<le> fval hi" unfolding h(2) lo(2) by (simp_all only: abs_le_iff) linarith+
  show s: "is_fin s" by (rule rounds_to_between(1) [OF assms(3) lo(1) h(1) b])
  note X = f64_of_f32_exact [OF assms(1)]
  note f = f32_of_f64_rounds [OF s]
  have x: "\<not> is_nan (f64_of_f32 x)" using X(2) by simp
  show "\<not> is_nan32 (f32_of_f64 s)" using f by (simp add: rounds32_to_def)
  show "fval32 (f32_of_f64 s) \<le> fval32 x" if "r \<le> 0"
    using rounds_to_le [OF assms(3) x] X(1) that f assms(1) by (simp add: rounds32_to_def)
  show "fval32 x \<le> fval32 (f32_of_f64 s)" if "0 \<le> r"
    using rounds_to_ge [OF assms(3) x] X(1) that f assms(1) by (simp add: rounds32_to_def)
qed

lemma inf32_stays:
  assumes "is_inf32 x" "is_fin32 t"
  shows "x + t = mk32 (sgn32 x) inf_mag32" "x - t = mk32 (sgn32 x) inf_mag32"
proof -
  have n: "\<not> is_nan32 x" using assms(1) by (simp add: is_inf32_def is_nan32_def)
  have X: "f64_of_f32 x = finf (sgn32 x)" using assms(1) n by (simp add: f64_of_f32_def)
  have T: "is_fin (f64_of_f32 t)" using f64_of_f32_exact(2) [OF assms(2)] .
  have i: "is_inf (finf s)" "sgn_bit (finf s) = s" "\<not> is_nan (finf s)" for s
    by (simp_all add: is_inf_def is_nan_def finf_def inf_mag_def)
  have F: "is_fin (fneg (f64_of_f32 t))" using T by simp
  have f: "f32_of_f64 (finf s) = mk32 s inf_mag32" for s using i by (simp add: f32_of_f64_def)
  show "x + t = mk32 (sgn32 x) inf_mag32" "x - t = mk32 (sgn32 x) inf_mag32"
    unfolding plus_f32_def minus_f32_def X plus_f64_def minus_f64_def fadd_def
    using T F i f by (simp_all add: is_fin_def is_nan_def is_inf_def)
qed

text \<open>The bounds of the clamp are in order exactly for the positions that are numbers.\<close>

lemma bounds_in_order:
  assumes "fval32 t = 25" "is_fin32 t"
  shows "x - t \<le> x + t \<longleftrightarrow> \<not> is_nan32 x"
proof -
  consider "is_nan32 x" | "is_inf32 x" | "is_fin32 x"
    unfolding is_nan32_def is_inf32_def is_fin32_def by linarith
  then show ?thesis
  proof cases
    case 1
    then have "f64_of_f32 x = f64_nan" by (simp add: f64_of_f32_def)
    moreover have n: "is_nan f64_nan" by (simp add: is_nan_def f64_nan_def inf_mag_def)
    moreover have "fadd f64_nan y = f64_nan" for y unfolding fadd_def using n by simp
    ultimately have "x - y = F32 2143289344" for y by (simp only: minus_f32_def minus_f64_def f32_of_f64_def if_True)
    moreover have "is_nan32 (F32 2143289344)" by (simp add: is_nan32_def magn32_def inf_mag32_def)
    ultimately show ?thesis using 1 unfolding less_eq_f32_def by (simp only: simp_thms)
  next
    case 2
    have "\<not> is_nan32 (mk32 s inf_mag32)" for s by (simp add: is_nan32_def inf_mag32_def)
    moreover have "\<not> is_nan32 x" using 2 by (simp add: is_inf32_def is_nan32_def)
    ultimately show ?thesis unfolding inf32_stays [OF 2 assms(2)] less_eq_f32_def by (simp only: simp_thms order_refl)
  next
    case 3
    have tv: "fval (f64_of_f32 t) = 25" "is_fin (f64_of_f32 t)" using f64_of_f32_exact [OF assms(2)] assms(1) by simp_all
    note X = f64_of_f32_exact [OF 3]
    have "rounds_to (f64_of_f32 x + f64_of_f32 t) (fval32 x + 25)" using fadd_rounds [OF X(2) tv(2)] X(1) tv(1) by simp
    note p = near32(3,4) [OF 3 _ this]
    have "rounds_to (f64_of_f32 x - f64_of_f32 t) (fval32 x + - 25)" using fsub_rounds [OF X(2) tv(2)] X(1) tv(1) by simp
    note m = near32(2,4) [OF 3 _ this]
    have "fval32 (x - t) \<le> fval32 x" unfolding minus_f32_def by (rule m(1)) simp_all
    moreover have "fval32 x \<le> fval32 (x + t)" unfolding plus_f32_def by (rule p(1)) simp_all
    ultimately have "fval32 (x - t) \<le> fval32 (x + t)" by (rule order_trans)
    moreover have "\<not> is_nan32 x" using 3 by (simp add: is_fin32_def is_nan32_def)
    moreover have "\<not> is_nan32 (x - t)" "\<not> is_nan32 (x + t)" unfolding plus_f32_def minus_f32_def by (rule p(2) m(2), simp)+
    ultimately show ?thesis unfolding less_eq_f32_def key32_fval by (simp only: simp_thms)
  qed
qed

lemma clamp_bounds_in_order:
  "x - (normalized_hitobject_radius - lit32 16 1) \<le> x + (normalized_hitobject_radius - lit32 16 1) \<longleftrightarrow> \<not> is_nan32 x"
  by (rule bounds_in_order [OF clamp_term])

definition movement_inv :: "movement \<Rightarrow> bool" where
  "movement_inv self \<longleftrightarrow> length (mv_strain_time_history self) = length (mv_dist_moved_history self)"

lemma linear_spacing_total: "length ds \<le> length ts \<Longrightarrow> \<exists>n\<le>length ds. linear_spacing_count d t ds ts = Some n"
proof (induction ds arbitrary: ts)
  case (Cons p ps)
  then obtain s ss where ts: "ts = s # ss" by (cases ts) auto
  with Cons obtain n where "n \<le> length ps" "linear_spacing_count d t ps ss = Some n" by auto
  then show ?case by (simp add: ts Let_def)
qed simp

lemma movement_strain_value_total:
  assumes "\<not> is_nan32 (cdo_normalized_pos c)" "movement_inv self"
  shows "\<exists>v self'. movement_strain_value_of lm c self = Some (v, self') \<and> movement_inv self'
    \<and> sk_section_end self' = sk_section_end self \<and> sk_strain_peaks self' = sk_strain_peaks self
    \<and> sk_object_strains self' = sk_object_strains self"
proof -
  define lp where "lp = unwrap_or (cdo_last_normalized_pos c) (mv_last_player_pos self)"
  obtain pp where pp: "clamp32_checked lp (cdo_normalized_pos c - (normalized_hitobject_radius - lit32 16 1))
      (cdo_normalized_pos c + (normalized_hitobject_radius - lit32 16 1)) = Some pp"
    using assms(1) unfolding clamp32_checked_def clamp_bounds_in_order by simp
  have "length (take 10 (mv_dist_moved_history self)) \<le> length (mv_strain_time_history self)"
    using assms(2) by (simp add: movement_inv_def)
  then obtain n where n: "linear_spacing_count (pp - lp) (cdo_strain_time c) (take 10 (mv_dist_moved_history self))
      (mv_strain_time_history self) = Some n" using linear_spacing_total by blast
  have p: "movement_inv (push_history d t s) \<and> sk_section_end (push_history d t s) = sk_section_end s
     \<and> sk_strain_peaks (push_history d t s) = sk_strain_peaks s \<and> sk_object_strains (push_history d t s) = sk_object_strains s"
    if "movement_inv s" for d t s
    using that by (cases "mv_dist_moved_history s") (auto simp: movement_inv_def push_history_def Let_def)
  define upd where "upd b q = self\<lparr>mv_is_in_buzz_section := b, mv_last_player_pos := Some q, mv_last_dist_moved := pp - lp,
      mv_last_strain_time := cdo_strain_time c, mv_last_exact_dist_moved := cdo_normalized_pos c - lp\<rparr>" for b q
  have u: "movement_inv (upd b q)" "sk_section_end (upd b q) = sk_section_end self" "sk_strain_peaks (upd b q) = sk_strain_peaks self"
    "sk_object_strains (upd b q) = sk_object_strains self" for b q using assms(2) by (simp_all add: upd_def movement_inv_def)
  show ?thesis
    unfolding movement_strain_value_of_def lp_def [symmetric] Let_def pp n option.case upd_def [symmetric]
    using p u by (auto split: prod.split)
qed

text \<open>A position that is not a number makes the clamp panic, whatever was before.\<close>

lemma movement_process_panics:
  assumes "is_nan32 (cdo_normalized_pos c)"
  shows "movement_process lm objs c self = None"
proof -
  have "movement_strain_value_of lm c s = None" for s
    using assms unfolding movement_strain_value_of_def Let_def clamp32_checked_def clamp_bounds_in_order by simp
  then show ?thesis by (simp add: movement_process_def skill_process_def decay_strain_value_def Let_def split: option.split)
qed

lemma process_all_panics: "c \<in> set cs \<Longrightarrow> (\<And>s. process c s = None) \<Longrightarrow> process_all process cs self = None"
  by (induction cs arbitrary: self) (auto split: option.split)

interpretation movement_skill: skill "lit 750 1" 750
  "\<lambda>c. decay_initial_strain lm (lit 2 10) (catch_prev_start_time objs c)"
  "\<lambda>c. decay_strain_value lm (lit 2 10) (lit 1 1) (movement_strain_value_of lm c) (cdo_delta_time c)"
  cdo_idx cdo_start_time "\<lambda>c. \<not> is_nan32 (cdo_normalized_pos c)" movement_inv
  for lm objs
proof (unfold_locales, goal_cases)
  case 1
  show ?case using lit_int [of 750] by (simp add: int_f64_def)
next
  case (6 c s)
  define s0 where "s0 = s\<lparr>sk_current_strain := sk_current_strain s * strain_decay lm (lit 2 10) (cdo_delta_time c)\<rparr>"
  have "movement_inv s0" using 6(2) by (simp add: s0_def movement_inv_def)
  from movement_strain_value_total [OF 6(1) this, of lm]
  show ?case by (intro decay_strain_value_total) (simp_all add: s0_def movement_inv_def)
qed (simp_all add: movement_inv_def)


section \<open>The calculation returns\<close>

lemma catch_diff_objects_from_nth:
  "length (catch_diff_objects_from rate sf b i bs) = length bs"
  "j < length bs \<Longrightarrow> catch_diff_objects_from rate sf b i bs ! j
    = catch_difficulty_object_new (bs ! j) ((b # bs) ! j) rate sf (i + j)"
proof (induction bs arbitrary: b i j)
  case (Cons x bs)
  { case 1 show ?case using Cons.IH(1) by simp
  next
    case 2 show ?case using 2 Cons.IH(2) [of "j - 1" x "i + 1"] by (cases j) auto }
qed simp_all

lemma catch_diff_objects_nth:
  "length (catch_diff_objects rate w objs) = length objs - 1"
  "j < length objs - 1 \<Longrightarrow> catch_diff_objects rate w objs ! j
    = catch_difficulty_object_new (objs ! (j + 1)) (objs ! j) rate (normalized_hitobject_radius / w) j"
  by (cases objs; simp add: catch_diff_objects_def catch_diff_objects_from_nth)+

lemma catch_diff_objects_take: "catch_diff_objects rate w (take n objs) = take (n - 1) (catch_diff_objects rate w objs)"
  by (rule nth_equalityI) (auto simp: catch_diff_objects_nth)

text \<open>
  The scale of the positions is a number for a half catcher width of at least 1/128. Where the
  width is zero, it is infinite, and an object at the left border has no position.
\<close>

definition catch_width_ok :: "f32 \<Rightarrow> bool" where
  "catch_width_ok w \<longleftrightarrow> is_fin32 w \<and> 1 / 128 \<le> \<bar>fval32 w\<bar>"

lemma normalized_position_ok:
  assumes "catch_width_ok w" "\<not> is_nan32 (effective_x p)"
  shows "\<not> is_nan32 (effective_x p * (normalized_hitobject_radius / w))"
proof -
  have l: "fval32 (lit32 41 1) = real 41" "is_fin32 (lit32 41 1)" "fval32 (lit32 0 1) = real 0" "is_fin32 (lit32 0 1)"
    "fval32 (lit32 512 1) = real 512" "is_fin32 (lit32 512 1)"
    by (rule lit32_int; simp)+
  have x: "is_fin32 (effective_x p)" "0 \<le> fval32 (effective_x p)" "fval32 (effective_x p) \<le> 512"
  proof -
    define y where "y = po_x p + po_x_offset p"
    have n: "\<not> is_nan32 y" using assms(2) clamp32_nan [of y] by (auto simp: effective_x_def y_def)
    have lh: "lit32 0 1 \<le> playfield_width" using l by (simp add: playfield_width_def le32_fin)
    have "lit32 0 1 \<le> effective_x p" "effective_x p \<le> playfield_width"
      using clamp32_bounds [OF n lh] by (simp_all add: effective_x_def y_def)
    then have b: "fval32 (lit32 0 1) \<le> fval32 (effective_x p)" "fval32 (effective_x p) \<le> fval32 (lit32 512 1)"
      by (simp_all add: less_eq_f32_def key32_fval playfield_width_def)
    show "is_fin32 (effective_x p)" by (rule fin32_between [OF l(4,6) b])
    show "0 \<le> fval32 (effective_x p)" "fval32 (effective_x p) \<le> 512" using b l by simp_all
  qed
  have w: "is_fin32 w" "1 / 128 \<le> \<bar>fval32 w\<bar>" using assms(1) by (simp_all add: catch_width_ok_def)
  have "\<bar>41 / fval32 w\<bar> \<le> 5248"
  proof -
    have "41 / \<bar>fval32 w\<bar> \<le> 41 / (1 / 128)" using w(2) by (intro divide_left_mono) simp_all
    then show ?thesis by (simp add: abs_divide)
  qed
  note q = this
  have q2: "- 5248 \<le> 41 / fval32 w" "41 / fval32 w \<le> 5248" using abs_le_D1 [OF q] abs_le_D2 [OF q] by linarith+
  obtain hi lo where h: "is_fin32 hi" "fval32 hi = real_of_int 5248" and lo: "is_fin32 lo" "fval32 lo = real_of_int (- 5248)"
    using f32_int [of 5248] f32_int [of "- 5248"] by auto
  have "rounds32_to (normalized_hitobject_radius / w) (41 / fval32 w)"
    using arith32_rounds(4) [OF l(2) w(1)] l(1) w(2) q by (auto simp: normalized_hitobject_radius_def)
  from rounds32_between [OF this lo(1) h(1)] have sf: "is_fin32 (normalized_hitobject_radius / w)"
      "\<bar>fval32 (normalized_hitobject_radius / w)\<bar> \<le> 5248"
    using q2 h(2) lo(2) by (auto simp: abs_le_iff)
  have "\<bar>fval32 (effective_x p) * fval32 (normalized_hitobject_radius / w)\<bar> \<le> 512 * 5248"
    unfolding abs_mult using x sf(2) by (intro mult_mono) simp_all
  then have m: "\<bar>fval32 (effective_x p) * fval32 (normalized_hitobject_radius / w)\<bar> \<le> 2686976" by simp
  obtain hi2 lo2 where h2: "is_fin32 hi2" "fval32 hi2 = real_of_int 2686976" and lo2: "is_fin32 lo2" "fval32 lo2 = real_of_int (- 2686976)"
    using f32_int [of 2686976] f32_int [of "- 2686976"] by auto
  have "rounds32_to (effective_x p * (normalized_hitobject_radius / w)) (fval32 (effective_x p) * fval32 (normalized_hitobject_radius / w))"
    using arith32_rounds(3) [OF x(1) sf(1)] m by simp
  from rounds32_between [OF this lo2(1) h2(1)] show ?thesis using m h2(2) lo2(2) by (simp add: is_fin32_def is_nan32_def abs_le_iff)
qed

text \<open>All passed objects but the first are normalized; the clamp needs a number for each of them.\<close>

definition clamp_panics :: "f32 \<Rightarrow> palpable_object list \<Rightarrow> bool" where
  "clamp_panics w objs \<longleftrightarrow> (\<exists>p\<in>set (drop 1 objs). is_nan32 (effective_x p * (normalized_hitobject_radius / w)))"

lemma no_clamp_panic: "catch_width_ok w \<Longrightarrow> \<forall>p\<in>set objs. \<not> is_nan32 (effective_x p) \<Longrightarrow> \<not> clamp_panics w objs"
  using normalized_position_ok by (auto simp: clamp_panics_def dest!: in_set_dropD)

lemma clamp_panics_iff: "clamp_panics w objs \<longleftrightarrow> (\<exists>c\<in>set (catch_diff_objects rate w objs). is_nan32 (cdo_normalized_pos c))"
proof -
  have "map cdo_normalized_pos (catch_diff_objects rate w objs)
      = map (\<lambda>p. effective_x p * (normalized_hitobject_radius / w)) (drop 1 objs)"
    by (rule nth_equalityI) (simp_all add: catch_diff_objects_nth catch_difficulty_object_new_def Let_def)
  then have "set (map cdo_normalized_pos (catch_diff_objects rate w objs))
      = set (map (\<lambda>p. effective_x p * (normalized_hitobject_radius / w)) (drop 1 objs))" by (rule arg_cong)
  from arg_cong [OF this, of "\<lambda>S. \<exists>y\<in>S. is_nan32 y"] show ?thesis by (simp add: clamp_panics_def)
qed

lemma movement_new_ok:
  "movement_inv (movement_new w rate)" "int_f64 0 (sk_section_end (movement_new w rate))"
  "sk_strain_peaks (movement_new w rate) = sv_new" "sk_object_strains (movement_new w rate) = []"
  using lit_int [of 0] by (simp_all add: movement_new_def movement_inv_def int_f64_def)

text \<open>Palpable objects of sane times, and those that have a position.\<close>

definition palpable_timed :: "palpable_object \<Rightarrow> bool" where
  "palpable_timed p \<longleftrightarrow> is_fin (po_start_time p) \<and> \<bar>fval (po_start_time p)\<bar> \<le> 2 ^ 43"

definition palpable_ok :: "palpable_object \<Rightarrow> bool" where
  "palpable_ok p \<longleftrightarrow> palpable_timed p \<and> \<not> is_nan32 (effective_x p)"

definition catch_objects_ok :: "palpable_object list \<Rightarrow> bool" where
  "catch_objects_ok objs \<longleftrightarrow> (\<forall>p\<in>set objs. palpable_timed p) \<and> sorted (map (tkey \<circ> po_start_time) objs)"

lemma tkey_fval: "tkey x \<le> tkey y \<Longrightarrow> fval x \<le> fval y"
  unfolding fval_le_key by (auto simp: tkey_def key_def split: if_splits)

lemma catch_objects_timed: "catch_objects_ok objs \<Longrightarrow> timed_list (map po_start_time objs)"
  by (auto simp: catch_objects_ok_def palpable_timed_def timed_list_def sorted_map comp_def tkey_fval elim!: sorted_wrt_mono_rel [rotated])

lemma movement_returns:
  assumes "catch_objects_ok objs" "clock_rate_ok rate" "\<not> clamp_panics w objs" "ds = catch_diff_objects rate w objs"
  shows "\<exists>s peaks. process_all (movement_process lm ds) ds (movement_new w rate) = Some s
    \<and> sk_strain_peaks s = fold sv_push peaks sv_new
    \<and> length peaks = sections_between 750 (map (\<lambda>p. po_start_time p / rate) (drop 1 objs)) \<and> length peaks < 2 ^ 63 - 1"
proof -
  let ?ts = "map po_start_time objs"
  have n: "length ds = length ?ts - 1" "\<And>i. i < length ds \<Longrightarrow> cdo_start_time (ds ! i) = ?ts ! (i + 1) / rate"
    "\<forall>i<length ds. cdo_idx (ds ! i) = i"
    unfolding assms(4) by (simp_all add: catch_diff_objects_nth catch_difficulty_object_new_def Let_def)
  have t: "timed_list ?ts" by (rule catch_objects_timed [OF assms(1)])
  note st = scaled_times [OF t assms(2), of ds cdo_start_time, OF n(1,2)]
  have v: "\<forall>c\<in>set ds. \<not> is_nan32 (cdo_normalized_pos c) \<and> is_fin (cdo_start_time c) \<and> \<bar>fval (cdo_start_time c)\<bar> < 2 ^ 51"
    using st(1) assms(3) unfolding clamp_panics_iff [of w objs rate] assms(4) by blast
  have pr: "movement_process lm ds = (\<lambda>c. skill_process (lit 750 1) (decay_initial_strain lm (lit 2 10) (catch_prev_start_time ds c))
     (decay_strain_value lm (lit 2 10) (lit 1 1) (movement_strain_value_of lm c) (cdo_delta_time c)) (cdo_idx c) (cdo_start_time c))"
    by (rule ext) (rule movement_process_def)
  have "\<exists>s peaks. process_all (movement_process lm ds) ds (movement_new w rate) = Some s
    \<and> sk_strain_peaks s = fold sv_push peaks sv_new
    \<and> length peaks = (if ds = [] then 0
        else nat \<lceil>(fval (cdo_start_time (last ds)) - real_of_int (first_section_end (lit 750 1) 750 (cdo_start_time (hd ds)))) / real 750\<rceil>)"
    using movement_skill.process_all_ends [OF v n(3) st(2) movement_new_ok(1,2), of lm ds]
    unfolding pr movement_new_ok by fastforce
  then obtain s peaks where s: "process_all (movement_process lm ds) ds (movement_new w rate) = Some s"
    "sk_strain_peaks s = fold sv_push peaks sv_new"
    "length peaks = (if ds = [] then 0
        else nat \<lceil>(fval (cdo_start_time (last ds)) - real_of_int (first_section_end (lit 750 1) 750 (cdo_start_time (hd ds)))) / real 750\<rceil>)"
    by blast
  have starts: "map cdo_start_time ds = map (\<lambda>p. po_start_time p / rate) (drop 1 objs)"
    by (rule nth_equalityI) (use n in \<open>simp_all add: nth_tl drop_Suc\<close>)
  have "length peaks = sections_between 750 (map cdo_start_time ds)"
    unfolding sections_between_def s(3) by (auto simp: last_map hd_map)
  moreover have "sections_between 750 (map cdo_start_time ds) < 2 ^ 63 - 1"
    by (rule sections_between_bound) (use st(1) in auto)
  ultimately show ?thesis using s(1,2) starts by auto
qed


lemma catch_values_return:
  assumes "\<forall>c. catch_palpable api rm d bm c = Some (objs, fold run_event evs c)"
    "fold run_event evs new_gradual = Gradual p cs" "length cs = length objs"
    "ps = take (unat (get_passed_objects d)) objs" "catch_objects_ok ps" "clock_rate_ok rate"
    "rate = get_clock_rate (mods_clock_rate api) d" "\<not> clamp_panics (catch_half_width api d bm) ps"
  shows "\<exists>mv c peaks. catch_values api lm rm d bm = Some (mv, set_object_count c (snd (catch_setup api d bm)))
    \<and> oc_fruits c + oc_droplets c = word_of_nat (length ps)
    \<and> sk_strain_peaks mv = fold sv_push peaks sv_new \<and> length peaks < 2 ^ 63 - 1
    \<and> length peaks = sections_between 750 (map (\<lambda>p. po_start_time p / rate) (drop 1 ps))"
proof -
  let ?n = "unat (get_passed_objects d)" and ?w = "catch_half_width api d bm"
  obtain mv peaks where mv: "process_all (movement_process lm (catch_diff_objects rate ?w ps)) (catch_diff_objects rate ?w ps) (movement_new ?w rate) = Some mv"
    "sk_strain_peaks mv = fold sv_push peaks sv_new" "length peaks < 2 ^ 63 - 1"
    "length peaks = sections_between 750 (map (\<lambda>p. po_start_time p / rate) (drop 1 ps))"
    using movement_returns [OF assms(5,6,8) refl] by blast
  have v: "fold run_event evs (new_regular ?n) = regular_view ?n p cs"
    using run_event_view [of evs ?n] assms(2) by auto
  then obtain c k where c: "fold run_event evs (new_regular ?n) = Regular c k" by (simp add: regular_view_def)
  have "oc_fruits c + oc_droplets c = word_of_nat (length ps)"
  proof -
    have f: "oc_fruits (counts_of gs) + oc_droplets (counts_of gs) = word_of_nat (length gs)" for gs
      by (induction gs rule: rev_induct) (auto simp: counts_of_snoc count_add_def, auto simp: counts_of_def)
    have "oc_fruits c = oc_fruits (counts_of (take ?n cs)) \<and> oc_droplets c = oc_droplets (counts_of (take ?n cs))"
      using v c by (auto simp: regular_view_def split: if_splits)
    then show ?thesis using f [of "take ?n cs"] assms(3,4) by simp
  qed
  moreover have "catch_values api lm rm d bm = Some (mv, set_object_count c (snd (catch_setup api d bm)))"
    using assms(1) c mv(1) by (simp add: catch_values_def assms(4,7) Let_def)
  ultimately show ?thesis using mv(2-4) by blast
qed

lemma catch_values_panic:
  assumes "\<forall>c. catch_palpable api rm d bm c = Some (objs, fold run_event evs c)"
    "clamp_panics (catch_half_width api d bm) (take (unat (get_passed_objects d)) objs)"
  shows "catch_values api lm rm d bm = None"
proof -
  let ?rate = "get_clock_rate (mods_clock_rate api) d"
  let ?ds = "catch_diff_objects ?rate (catch_half_width api d bm) (take (unat (get_passed_objects d)) objs)"
  obtain c where c: "c \<in> set ?ds" "is_nan32 (cdo_normalized_pos c)"
    using assms(2) unfolding clamp_panics_iff [where rate = ?rate] by blast
  have "process_all (movement_process lm ?ds) ?ds s = None" for s
    using c by (intro process_all_panics movement_process_panics)
  then show ?thesis by (simp add: catch_values_def assms(1) Let_def)
qed

lemma catch_difficulty_outcome:
  assumes "bm_mode bm = Catch" "\<forall>h\<in>set (bm_hit_objects bm). spinner_in_range h"
    "\<forall>objs c. catch_palpable api rm d bm new_gradual = Some (objs, c) \<longrightarrow> (\<forall>p\<in>set objs. palpable_timed p)"
    "clock_rate_ok (get_clock_rate (mods_clock_rate api) d)"
  shows "\<exists>objs c. catch_palpable api rm d bm new_gradual = Some (objs, c)
    \<and> (let ps = take (unat (get_passed_objects d)) objs
       in if clamp_panics (catch_half_width api d bm) ps
          then catch_difficulty api lm rm cv d bm = None \<and> catch_strains api lm rm cv d bm = None
          else \<exists>a strains. catch_difficulty api lm rm cv d bm = Some (Inr a)
            \<and> catch_max_combo a = word_of_nat (length ps)
            \<and> catch_strains api lm rm cv d bm = Some (Inr strains)
            \<and> length strains = 1 + sections_between 750
                (map (\<lambda>p. po_start_time p / get_clock_rate (mods_clock_rate api) d) (drop 1 ps)))"
proof -
  obtain objs evs p cs where o: "\<forall>c. catch_palpable api rm d bm c = Some (objs, fold run_event evs c)"
    "sorted (map (tkey \<circ> po_start_time) objs)" "fold run_event evs new_gradual = Gradual p cs" "length cs = length objs"
    unfolding catch_palpable_def using catch_convert_run [OF assms(2)] by metis
  define ps where "ps = take (unat (get_passed_objects d)) objs"
  have "\<forall>p\<in>set objs. palpable_timed p" using assms(3) o(1) by blast
  then have ok: "catch_objects_ok ps" using o(2)
    by (auto simp: catch_objects_ok_def ps_def take_map [symmetric] sorted_wrt_take dest: in_set_takeD)
  have c: "convert_ref cv Catch (d_mods d) bm = Inr (Borrowed bm)" using assms(1) by (simp add: convert_ref_def)
  have "if clamp_panics (catch_half_width api d bm) ps
    then catch_difficulty api lm rm cv d bm = None \<and> catch_strains api lm rm cv d bm = None
    else \<exists>a strains. catch_difficulty api lm rm cv d bm = Some (Inr a)
      \<and> catch_max_combo a = word_of_nat (length ps)
      \<and> catch_strains api lm rm cv d bm = Some (Inr strains)
      \<and> length strains = 1 + sections_between 750
          (map (\<lambda>p. po_start_time p / get_clock_rate (mods_clock_rate api) d) (drop 1 ps))"
  proof (cases "clamp_panics (catch_half_width api d bm) ps")
    case True
    then have "catch_values api lm rm d bm = None" using catch_values_panic [OF o(1)] by (simp add: ps_def)
    then show ?thesis using True c by (simp add: catch_difficulty_def catch_strains_def catch_attributes_def cow_get_def)
  next
    case False
    obtain mv k peaks where v: "catch_values api lm rm d bm = Some (mv, set_object_count k (snd (catch_setup api d bm)))"
      "oc_fruits k + oc_droplets k = word_of_nat (length ps)"
      "sk_strain_peaks mv = fold sv_push peaks sv_new" "length peaks < 2 ^ 63 - 1"
      "length peaks = sections_between 750 (map (\<lambda>p. po_start_time p / get_clock_rate (mods_clock_rate api) d) (drop 1 ps))"
      using catch_values_return [OF o(1,3,4) ps_def ok assms(4) refl False, of lm] by blast
    then show ?thesis using False c current_peaks_length [OF v(3,4)]
      by (simp add: catch_difficulty_def catch_strains_def catch_attributes_def cow_get_def catch_max_combo_def catch_eval_def
          set_object_count_def)
  qed
  then show ?thesis using o(1) unfolding ps_def Let_def by blast
qed

text \<open>
  C9. For a catch map with spinners in the first two hours, palpable objects within three centuries
  and a clock rate of at least 1/128 the osu!catch calculation returns, or panics at one known
  place. It panics exactly if the normalized position of a passed object other than the first,
  its position times the radius over the half catcher width, is NaN, which makes the bounds of
  a clamp unordered. In all other cases the loop over the sections ends, the histories are indexed
  in range, all passed objects are counted, and there is one peak for every section of 750 ms.
\<close>

theorem catch_difficulty_returns:
  assumes "bm_mode bm = Catch" "\<forall>h\<in>set (bm_hit_objects bm). spinner_in_range h"
    "\<forall>objs c. catch_palpable api rm d bm new_gradual = Some (objs, c) \<longrightarrow> (\<forall>p\<in>set objs. palpable_timed p)"
    "clock_rate_ok (get_clock_rate (mods_clock_rate api) d)"
  shows "\<exists>objs c. catch_palpable api rm d bm new_gradual = Some (objs, c)
    \<and> (let ps = take (unat (get_passed_objects d)) objs
       in if \<exists>p\<in>set (drop 1 ps). is_nan32 (effective_x p * (normalized_hitobject_radius / catch_half_width api d bm))
          then catch_difficulty api lm rm cv d bm = None \<and> catch_strains api lm rm cv d bm = None
          else \<exists>a strains. catch_difficulty api lm rm cv d bm = Some (Inr a)
            \<and> catch_max_combo a = word_of_nat (length ps)
            \<and> catch_strains api lm rm cv d bm = Some (Inr strains)
            \<and> length strains = 1 + sections_between 750
                (map (\<lambda>p. po_start_time p / get_clock_rate (mods_clock_rate api) d) (drop 1 ps)))"
  using catch_difficulty_outcome [OF assms, of lm cv] unfolding clamp_panics_def .

definition catch_example_map :: "(unit, unit) beatmap" where
  "catch_example_map = (beatmap_default 14)\<lparr>bm_mode := Catch, bm_cs := lit32 5 1, bm_hit_objects :=
     [\<lparr>ho_pos = \<lparr>px = lit32 64 1, py = lit32 0 1\<rparr>, ho_start_time = lit 0 1, ho_kind = Circle\<rparr>,
      \<lparr>ho_pos = \<lparr>px = lit32 192 1, py = lit32 0 1\<rparr>, ho_start_time = lit 98 1, ho_kind = Circle\<rparr>]\<rparr>"

lemma width_consts: "lit32 5 1 = F32 1084227584" "lit32 55 10 = F32 1085276160" "lit32 7 10 = F32 1060320051"
  "lit32 10675 100 = F32 1121288192" "lit32 8 10 = F32 1061997773" "lit32 5 10 = F32 1056964608"
  "lit32 625 10000 = F32 1031798784" "lit32 1 1 = F32 1065353216"
  "lit32 2 1 = F32 1073741824" "lit32 0 1 = F32 0" "lit 5 1 = F64 4617315517961601024"
  by (simp_all add: f32_eval lit_def f64_eval)

lemma width_casts: "f64_of_f32 (F32 1084227584) = F64 4617315517961601024" "f64_of_f32 (F32 1065353216) = F64 4607182418800017408"
  "f64_of_f32 (F32 1060320051) = F64 4604480258916220928" "f64_of_f32 (F32 0) = F64 0"
  "f32_of_f64 (F64 4607182418800017408) = F32 1065353216"
  by (simp_all add: f32_eval f64_eval)

lemma width_minus_zero: "F64 4607182418800017408 - F64 0 = F64 4607182418800017408" "F32 1065353216 - F32 0 = F32 1065353216"
proof -
  have "is_fin (F64 4607182418800017408)" "magn (F64 4607182418800017408) \<noteq> 0" "magn (F64 0) = 0"
    by (simp_all add: f64_eval)
  then show "F64 4607182418800017408 - F64 0 = F64 4607182418800017408" by (rule plus_zero(3))
  then show "F32 1065353216 - F32 0 = F32 1065353216" by (simp only: minus_f32_def width_casts)
qed

lemma width_arith: "F64 4617315517961601024 - F64 4617315517961601024 = F64 0" "F64 0 / F64 4617315517961601024 = F64 0"
  "F64 4604480258916220928 * F64 0 = F64 0"
  by (simp_all add: f64_eval)

lemma width_arith32: "F32 1065353216 / F32 1073741824 = F32 1056964608" "F32 1056964608 * F32 1065353216 = F32 1056964608"
  "F32 1056964608 * F32 1073741824 = F32 1065353216" "abs (F32 1065353216) = F32 1065353216"
  "F32 1121288192 * F32 1065353216 = F32 1121288192" "F32 1121288192 * F32 1061997773 = F32 1118489805"
  "F32 1118489805 * F32 1056964608 = F32 1110101197" "F32 1084227584 - F32 1085276160 = F32 3204448256"
  "fmax32 (F32 3204448256) (F32 0) = F32 0" "F32 0 * F32 1031798784 = F32 0"
  "F32 1110101197 * F32 1065353216 = F32 1110101197"
  by (simp_all add: f32_eval f64_eval)

lemma half_width_of_5: "half_catcher_width_of (lit32 5 1) = F32 1110101197"
  unfolding half_catcher_width_of_def calculate_catch_width_def catch_width_by_scale_def catcher_scale_def
    width_consts width_casts width_minus_zero width_arith width_arith32 ..

text \<open>
  A circle size of 21.5 gives a width of zero: the scale of the positions is infinite, and an object
  at the left border is at zero times infinity.
\<close>

lemma half_width_of_21_5: "half_catcher_width_of (lit32 215 10) = F32 0"
proof -
  have c: "lit32 215 10 = F32 1101791232" "f64_of_f32 (F32 1101791232) = F64 4626744929681408000" by (simp_all add: f32_eval f64_eval)
  have a: "F64 4626744929681408000 - F64 4617315517961601024 = F64 4625337554797854720"
    "F64 4625337554797854720 / F64 4617315517961601024 = F64 4614613358185178726"
    "F64 4604480258916220928 * F64 4614613358185178726 = F64 4612384076281046630"
    "F64 4607182418800017408 - F64 4612384076281046630 = F64 13831950571362110668"
    "f32_of_f64 (F64 13831950571362110668) = F32 3215437332"
    by (simp_all add: f64_eval f32_eval)
  have b: "F32 3215437332 / F32 1073741824 = F32 3207048724" "F32 3207048724 * F32 1065353216 = F32 3207048724"
    "F32 3207048724 * F32 1073741824 = F32 3215437332" "abs (F32 3215437332) = F32 1067953684"
    "F32 1121288192 * F32 1067953684 = F32 1124849582" "F32 1124849582 * F32 1061997773 = F32 1121959805"
    "F32 1121959805 * F32 1056964608 = F32 1113571197" "F32 1101791232 - F32 1085276160 = F32 1098907648"
    "fmax32 (F32 1098907648) (F32 0) = F32 1098907648" "F32 1098907648 * F32 1031798784 = F32 1065353216"
    "F32 1065353216 - F32 1065353216 = F32 0" "F32 1113571197 * F32 0 = F32 0"
    by (simp_all add: f32_eval f64_eval)
  show ?thesis unfolding half_catcher_width_of_def calculate_catch_width_def catch_width_by_scale_def catcher_scale_def
    c width_consts width_casts a b ..
qed

lemma catch_zero_width_panics:
  assumes "bm_mode bm = Catch" "\<forall>h\<in>set (bm_hit_objects bm). spinner_in_range h"
    "\<forall>objs c. catch_palpable api rm d bm new_gradual = Some (objs, c) \<longrightarrow> (\<forall>p\<in>set objs. palpable_timed p)"
    "clock_rate_ok (get_clock_rate (mods_clock_rate api) d)" "catch_palpable api rm d bm new_gradual = Some (objs, c)"
    "f32_of_f64 (ba_cs (fst (catch_setup api d bm))) = lit32 215 10"
    "p \<in> set (drop 1 (take (unat (get_passed_objects d)) objs))" "effective_x p = lit32 0 1"
  shows "catch_difficulty api lm rm cv d bm = None"
proof -
  have w: "catch_half_width api d bm = F32 0" using assms(6) half_width_of_21_5 by (simp add: catch_half_width_def)
  have r: "normalized_hitobject_radius / F32 0 = F32 2139095040" "is_nan32 (F32 0 * F32 2139095040)"
    by (simp_all add: normalized_hitobject_radius_def f32_eval f64_eval)
  have "effective_x p = F32 0" using assms(8) width_consts(10) by simp
  then have "clamp_panics (catch_half_width api d bm) (take (unat (get_passed_objects d)) objs)"
    unfolding clamp_panics_def w r(1) using assms(7) r(2) by (intro bexI [of _ p]) simp_all
  then show ?thesis using catch_difficulty_outcome [OF assms(1-4), of lm cv] assms(5) by (auto simp: Let_def)
qed

lemma catch_example_width: "catch_width_ok (catch_half_width listed_mods (difficulty_new (Lazer [])) catch_example_map)"
proof -
  have "mods_cs listed_mods (Lazer []) = None" by (simp add: mods_cs_def map_attr_def listed_mods_def)
  then have "build_cs listed_mods (builder_difficulty (mods_clock_rate listed_mods) (difficulty_new (Lazer []))
      (beatmap_attributes_of (Lazer []) catch_example_map)) = lit32 5 1"
    by (simp add: build_cs_def builder_difficulty_def beatmap_attributes_of_def builder_map_def builder_new_def catch_example_map_def
        difficulty_new_def mods_dependent_new_def hr_def ez_def del: One_nat_def)
  moreover have "f32_of_f64 (f64_of_f32 (lit32 5 1)) = lit32 5 1" unfolding width_consts width_casts by (simp add: f32_eval f64_eval)
  ultimately have "catch_half_width listed_mods (difficulty_new (Lazer [])) catch_example_map = F32 1110101197"
    using half_width_of_5 by (simp add: catch_half_width_def catch_setup_def build_attributes_def Let_def difficulty_new_def)
  then show ?thesis
    by (simp add: catch_width_ok_def is_fin32_def fval32_def gval_def man_def ex_def sgn32_def magn32_def inf_mag32_def)
qed

lemma catch_example_ok:
  "\<forall>h\<in>set (bm_hit_objects catch_example_map). spinner_in_range h" "bm_mode catch_example_map = Catch"
  "clock_rate_ok (get_clock_rate (mods_clock_rate listed_mods) (difficulty_new (Lazer [])))"
proof -
  have v: "fval (lit 1 1) = 1" "is_fin (lit 1 1)" using lit_int [of 1] by simp_all
  have "mods_clock_rate listed_mods (Lazer []) = lit 1 1" by (simp add: mods_clock_rate_def listed_mods_def listed_rate_def)
  then show "clock_rate_ok (get_clock_rate (mods_clock_rate listed_mods) (difficulty_new (Lazer [])))"
    using v by (simp add: get_clock_rate_def difficulty_new_def clock_rate_ok_def)
qed (simp_all add: catch_example_map_def spinner_in_range_def)

lemma same_object_ok: "same_object a b \<Longrightarrow> palpable_ok a \<Longrightarrow> palpable_ok b"
  by (simp add: same_object_def palpable_ok_def palpable_timed_def effective_x_def)

text \<open>The palpable objects are fine if they are before they are sorted and get their hyper dashes.\<close>

lemma catch_palpable_ok:
  assumes "catch_palpable api rm d bm c = Some (res, c')"
    "\<And>objs c'. collect_objects rm bm (get_hardrock_offsets (hardrock_offsets_of api) d) (bm_hit_objects bm) c
        \<lparr>ofs_last_pos = None, ofs_last_start_time = lit 0 1, ofs_rng = random_new 1337\<rparr> [] = Some (objs, c')
      \<Longrightarrow> reflection api (d_mods d) \<noteq> Horizontal \<and> (\<forall>p\<in>set objs. palpable_ok p)"
  shows "\<forall>p\<in>set res. palpable_ok p"
proof -
  obtain objs c'' where o: "collect_objects rm bm (get_hardrock_offsets (hardrock_offsets_of api) d) (bm_hit_objects bm) c
        \<lparr>ofs_last_pos = None, ofs_last_start_time = lit 0 1, ofs_rng = random_new 1337\<rparr> [] = Some (objs, c'')"
    using assms(1) by (auto simp: catch_palpable_def catch_convert_objects_def)
  note ok = assms(2) [OF o]
  define srt where "srt = sort_key (tkey \<circ> po_start_time) objs"
  have "res = initialize_hyper_dash (f32_of_f64 (ba_cs (fst (catch_setup api d bm)))) srt"
    using assms(1) ok o by (simp add: catch_palpable_def catch_convert_objects_def srt_def)
  then have "list_all2 same_object srt res" using initialize_hyper_dash_same by simp
  moreover have "\<forall>p\<in>set srt. palpable_ok p" using ok by (simp add: srt_def)
  ultimately show ?thesis using same_object_ok by (metis list_all2_conv_all_nth in_set_conv_nth)
qed

lemma catch_example_collect:
  "collect_objects rm catch_example_map (get_hardrock_offsets (hardrock_offsets_of listed_mods) (difficulty_new (Lazer [])))
      (bm_hit_objects catch_example_map) c st []
    = Some ([palpable_new (lit32 64 1) (lit32 0 1) (lit 0 1), palpable_new (lit32 192 1) (lit32 0 1) (lit 98 1)],
        record_fruit (record_fruit c))"
proof -
  have "\<not> get_hardrock_offsets (hardrock_offsets_of listed_mods) (difficulty_new (Lazer []))"
    by (simp add: get_hardrock_offsets_def difficulty_new_def hardrock_offsets_of_def custom_hardrock_offsets_def hr_def, simp add: listed_mods_def)
  then show ?thesis
    by (simp add: catch_example_map_def convert_object_def fruit_new_def apply_pos_offset_def object_iter_collect_is contribution_def)
qed

lemma catch_example_length:
  "\<exists>objs c'. catch_palpable listed_mods rm (difficulty_new (Lazer [])) catch_example_map c = Some (objs, c') \<and> length objs = 2"
proof -
  have l: "length (initialize_hyper_dash s xs) = length xs" for s xs using list_all2_lengthD [OF initialize_hyper_dash_same] by metis
  show ?thesis unfolding catch_palpable_def catch_convert_objects_def catch_example_collect by (simp add: l Let_def)
qed

lemma catch_example_palpable:
  assumes "catch_palpable listed_mods rm (difficulty_new (Lazer [])) catch_example_map c = Some (res, c')"
  shows "\<forall>p\<in>set res. palpable_ok p"
proof (rule catch_palpable_ok [OF assms], goal_cases)
  case (1 objs c')
  have l: "fval32 (lit32 0 1) = real 0" "is_fin32 (lit32 0 1)" "fval32 (lit32 64 1) = real 64" "is_fin32 (lit32 64 1)"
    "fval32 (lit32 192 1) = real 192" "is_fin32 (lit32 192 1)" "fval32 (lit32 512 1) = real 512" "is_fin32 (lit32 512 1)"
    by (rule lit32_int; simp)+
  have e: "\<not> is_nan32 (effective_x (palpable_new x (lit32 0 1) t))" if "is_fin32 x" "\<bar>fval32 x\<bar> < 2 ^ 52" for x t
  proof -
    have "rounds32_to (x + lit32 0 1) (fval32 x)" using arith32_rounds(1) [OF that(1) l(2)] that(2) l(1) by simp
    then have "is_fin32 (x + lit32 0 1)" using rounds32_exact(2) that(1) by blast
    then show ?thesis using l by (auto simp: effective_x_def palpable_new_def clamp32_def is_fin32_def is_nan32_def playfield_width_def)
  qed
  have "objs = [palpable_new (lit32 64 1) (lit32 0 1) (lit 0 1), palpable_new (lit32 192 1) (lit32 0 1) (lit 98 1)]"
    using 1 unfolding catch_example_collect by simp
  moreover have "fval (lit 0 1) = 0" "is_fin (lit 0 1)" "fval (lit 98 1) = 98" "is_fin (lit 98 1)"
    using lit_int [of 0] lit_int [of 98] by simp_all
  moreover have "reflection listed_mods (Lazer []) \<noteq> Horizontal"
    by (simp add: reflection_def mirror_reflection_def listed_mods_def)
  ultimately show ?case using e [of "lit32 64 1" "lit 0 1"] e [of "lit32 192 1" "lit 98 1"] l
    by (simp add: palpable_ok_def palpable_timed_def difficulty_new_def, simp add: palpable_new_def)
qed

theorem catch_difficulty_returns_witness:
  "\<forall>lm rm cv. \<exists>a. catch_difficulty listed_mods lm rm cv (difficulty_new (Lazer [])) catch_example_map = Some (Inr a)"
proof (intro allI, goal_cases)
  case (1 lm rm cv)
  let ?d = "difficulty_new (Lazer [])"
  have t: "\<forall>objs c. catch_palpable listed_mods rm ?d catch_example_map new_gradual = Some (objs, c)
    \<longrightarrow> (\<forall>p\<in>set objs. palpable_timed p)" using catch_example_palpable by (fastforce simp: palpable_ok_def)
  from catch_difficulty_returns [OF catch_example_ok(2,1) t catch_example_ok(3), of lm cv] show ?case
  proof (elim exE conjE, goal_cases)
    case (1 objs c)
    have "\<forall>p\<in>set (take (unat (get_passed_objects ?d)) objs). \<not> is_nan32 (effective_x p)"
      using catch_example_palpable [OF 1(1)] by (auto simp: palpable_ok_def dest: in_set_takeD)
    note np = no_clamp_panic [OF catch_example_width this]
    show ?case using 1(2) unfolding clamp_panics_def [symmetric] Let_def if_not_P [OF np] by blast
  qed
qed

end
