(* ===== verification/Gradual.thy ===== *)
theory Gradual
  imports Skills
begin

text \<open>
  What the gradual calculators of the modes (\<open>src/*/difficulty/gradual.rs\<close>) share. Each is an
  iterator over the objects of a map: \<open>next\<close> counts the first object, or processes the next
  difficulty object, and returns the attributes so far; \<open>nth\<close> skips objects and calls
  \<open>next\<close>. The locale holds these laws, and what follows from them: how \<open>nth\<close> relates to
  \<open>next\<close>, what is processed after a number of calls, and that the index stays on the map.
\<close>

section \<open>Calls\<close>

text \<open>The result of the call after \<open>n\<close> others, and the calculator after it.\<close>

fun after_calls :: "('g \<Rightarrow> ('r option \<times> 'g) option) \<Rightarrow> nat \<Rightarrow> 'g \<Rightarrow> ('r option \<times> 'g) option" where
  "after_calls call 0 g = call g"
| "after_calls call (Suc n) g = (case call g of None \<Rightarrow> None | Some (_, g) \<Rightarrow> after_calls call n g)"

text \<open>The states that calls of \<open>next\<close> and \<open>nth\<close>, in any order, can reach.\<close>

inductive gradual_reachable ::
  "('g \<Rightarrow> ('r option \<times> 'g) option) \<Rightarrow> (nat \<Rightarrow> 'g \<Rightarrow> ('r option \<times> 'g) option) \<Rightarrow> 'g \<Rightarrow> 'g \<Rightarrow> bool"
  for next_of nth_of g0 where
  start: "gradual_reachable next_of nth_of g0 g0"
| next_call: "gradual_reachable next_of nth_of g0 g \<Longrightarrow> next_of g = Some (r, g') \<Longrightarrow> gradual_reachable next_of nth_of g0 g'"
| nth_call: "gradual_reachable next_of nth_of g0 g \<Longrightarrow> nth_of n g = Some (r, g') \<Longrightarrow> gradual_reachable next_of nth_of g0 g'"

section \<open>The interface of a gradual calculator\<close>

locale gradual =
  fixes idx :: "'g \<Rightarrow> nat"
    and items :: "'g \<Rightarrow> 'c list"
    and no_object :: "'g \<Rightarrow> bool"
    and first_object :: "'g \<Rightarrow> 'g"
    and step :: "'c \<Rightarrow> 'g \<Rightarrow> 'g option"
    and current :: "'g \<Rightarrow> 'r"
    and wf :: "'g \<Rightarrow> bool"
    and next_of :: "'g \<Rightarrow> ('r option \<times> 'g) option"
    and nth_of :: "nat \<Rightarrow> 'g \<Rightarrow> ('r option \<times> 'g) option"
  assumes index: "wf g \<Longrightarrow> idx g \<le> length (items g) + 1"
    and no_object: "wf g \<Longrightarrow> no_object g \<Longrightarrow> idx g = 0 \<and> items g = []"
    and first_object: "wf g \<Longrightarrow> idx g = 0 \<Longrightarrow> \<not> no_object g
      \<Longrightarrow> wf (first_object g) \<and> idx (first_object g) = 1 \<and> items (first_object g) = items g"
    and step: "wf g \<Longrightarrow> 0 < idx g \<Longrightarrow> idx g \<le> length (items g) \<Longrightarrow> c = items g ! (idx g - 1) \<Longrightarrow> step c g = Some g'
      \<Longrightarrow> wf g' \<and> items g' = items g \<and> idx g' = idx g + 1"
    and next_first: "wf g \<Longrightarrow> idx g = 0
      \<Longrightarrow> next_of g = Some (if no_object g then (None, g) else (Some (current (first_object g)), first_object g))"
    and next_step: "wf g \<Longrightarrow> 0 < idx g \<Longrightarrow> next_of g = (case get (items g) (idx g - 1) of
        None \<Rightarrow> Some (None, g)
      | Some c \<Rightarrow> map_option (\<lambda>g. (Some (current g), g)) (step c g))"
    and nth_is: "wf g \<Longrightarrow> nth_of n g = (let m = min n (length (items g) + 1 - idx g - 1)
      in if idx g = 0 \<and> 0 < m then Option.bind (process_all step (take (m - 1) (items g)) (first_object g)) next_of
         else Option.bind (process_all step (take m (drop (idx g - 1) (items g))) g) next_of)"
begin

lemma next_keeps:
  assumes "wf g" "next_of g = Some (r, g')"
  shows "wf g'" "items g' = items g"
proof -
  have "wf g' \<and> items g' = items g"
  proof (cases "idx g = 0")
    case True
    then show ?thesis using next_first [OF assms(1)] first_object [OF assms(1)] assms by (cases "no_object g") simp_all
  next
    case False
    then have p: "0 < idx g" by simp
    show ?thesis
    proof (cases "get (items g) (idx g - 1)")
      case None
      then show ?thesis using next_step [OF assms(1) p] assms by simp
    next
      case (Some c)
      then have c: "idx g \<le> length (items g)" "c = items g ! (idx g - 1)" by (auto simp: get_def split: if_splits)
      obtain g1 where "step c g = Some g1" "g' = g1" using next_step [OF assms(1) p] Some assms(2) by (cases "step c g") auto
      then show ?thesis using step [OF assms(1) p c] by simp
    qed
  qed
  then show "wf g'" "items g' = items g" by simp_all
qed

lemma after_last: "wf g \<Longrightarrow> idx g = length (items g) + 1 \<Longrightarrow> next_of g = Some (None, g)"
  by (simp add: next_step get_def)

lemma after_keeps: "wf g \<Longrightarrow> after_calls next_of n g = Some (r, g') \<Longrightarrow> wf g' \<and> items g' = items g"
proof (induction n arbitrary: g)
  case 0
  then show ?case using next_keeps by simp
next
  case (Suc n)
  then obtain r1 g1 where n: "next_of g = Some (r1, g1)" "after_calls next_of n g1 = Some (r, g')"
    by (auto split: option.splits)
  then show ?case using Suc.IH [OF _ n(2)] next_keeps [OF Suc.prems(1) n(1)] by simp
qed

text \<open>Calls after the first object process the difficulty objects in order.\<close>

lemma after_process:
  assumes "wf g" "0 < idx g" "idx g - 1 + n \<le> length (items g)"
  shows "after_calls next_of n g = Option.bind (process_all step (take n (drop (idx g - 1) (items g))) g) next_of"
  using assms
proof (induction n arbitrary: g)
  case (Suc n)
  let ?i = "idx g - 1"
  have i: "?i < length (items g)" using Suc.prems(3) by simp
  have dr: "drop ?i (items g) = items g ! ?i # drop (idx g) (items g)"
    using Cons_nth_drop_Suc [OF i] Suc.prems(2) by simp
  have n: "next_of g = map_option (\<lambda>g. (Some (current g), g)) (step (items g ! ?i) g)"
    using next_step [OF Suc.prems(1,2)] i by (simp add: get_def)
  show ?case
  proof (cases "step (items g ! ?i) g")
    case None
    then show ?thesis unfolding dr by (simp add: n)
  next
    case (Some g')
    have il: "idx g \<le> length (items g)" using i Suc.prems(2) by simp
    have g': "wf g'" "items g' = items g" "idx g' = idx g + 1"
      using step [OF Suc.prems(1,2) il refl Some] by simp_all
    have "after_calls next_of n g' = Option.bind (process_all step (take n (drop (idx g' - 1) (items g'))) g') next_of"
      by (rule Suc.IH) (use Suc.prems g' in simp_all)
    then show ?thesis unfolding dr using Some g' by (simp add: n)
  qed
qed simp

lemma nth_is_after:
  assumes "wf g"
  shows "nth_of n g = after_calls next_of (min n (length (items g) + 1 - idx g - 1)) g"
proof -
  let ?m = "min n (length (items g) + 1 - idx g - 1)"
  note i = index [OF assms]
  show ?thesis
  proof (cases "idx g = 0")
    case False
    then show ?thesis using nth_is [OF assms, of n] after_process [OF assms, of ?m] i by (simp add: Let_def)
  next
    case True
    show ?thesis
    proof (cases "?m = 0")
      case False
      then obtain m where m: "?m = Suc m" using not0_implies_Suc by blast
      have l: "m < length (items g)" "0 < n" "items g \<noteq> []" using m True by auto
      then have no: "\<not> no_object g" using no_object [OF assms] by auto
      note f = first_object [OF assms True no]
      have "after_calls next_of m (first_object g)
          = Option.bind (process_all step (take m (drop (idx (first_object g) - 1) (items (first_object g)))) (first_object g)) next_of"
        by (rule after_process) (use f l in simp_all)
      then show ?thesis using nth_is [OF assms, of n] next_first [OF assms True] no True m f l by (simp add: Let_def)
    qed (use nth_is [OF assms, of n] True in \<open>simp add: Let_def\<close>)
  qed
qed

lemma process_keeps:
  assumes "wf g" "0 < idx g" "idx g - 1 + n \<le> length (items g)"
    "process_all step (take n (drop (idx g - 1) (items g))) g = Some g'"
  shows "wf g' \<and> items g' = items g \<and> idx g' = idx g + n"
  using assms
proof (induction n arbitrary: g)
  case (Suc n)
  let ?i = "idx g - 1"
  have i: "?i < length (items g)" using Suc.prems(3) by simp
  have dr: "drop ?i (items g) = items g ! ?i # drop (idx g) (items g)"
    using Cons_nth_drop_Suc [OF i] Suc.prems(2) by simp
  obtain g1 where g1: "step (items g ! ?i) g = Some g1" "process_all step (take n (drop (idx g) (items g))) g1 = Some g'"
    using Suc.prems(4) unfolding dr by (auto split: option.splits)
  have il: "idx g \<le> length (items g)" using i Suc.prems(2) by simp
  have s: "wf g1" "items g1 = items g" "idx g1 = idx g + 1" using step [OF Suc.prems(1,2) il refl g1(1)] by simp_all
  have "wf g' \<and> items g' = items g1 \<and> idx g' = idx g1 + n"
    by (rule Suc.IH) (use s g1(2) Suc.prems in simp_all)
  then show ?case using s by simp
qed simp

text \<open>What a new calculator has processed after \<open>i\<close> calls.\<close>

lemma after_new:
  assumes "wf g" "idx g = 0" "\<not> no_object g" "i \<le> length (items g)"
  shows "after_calls next_of i g = map_option (\<lambda>g. (Some (current g), g)) (process_all step (take i (items g)) (first_object g))"
proof (cases i)
  case 0
  then show ?thesis using next_first [OF assms(1,2)] assms(3) by simp
next
  case (Suc j)
  let ?f = "first_object g"
  note f = first_object [OF assms(1-3)]
  have f1: "wf ?f" "0 < idx ?f" using f by simp_all
  have j: "j < length (items g)" using assms(4) Suc by simp
  have "after_calls next_of i g = after_calls next_of j ?f" using next_first [OF assms(1,2)] assms(3) Suc by simp
  also have "\<dots> = Option.bind (process_all step (take j (items g)) ?f) next_of"
    using after_process [OF f1, of j] f j by simp
  also have "\<dots> = Option.bind (process_all step (take j (items g)) ?f) (\<lambda>g'. map_option (\<lambda>g. (Some (current g), g)) (step (items g ! j) g'))"
  proof (cases "process_all step (take j (items g)) ?f")
    case (Some g')
    have pr: "process_all step (take j (drop (idx ?f - 1) (items ?f))) ?f = Some g'" using Some f by simp
    have "idx ?f - 1 + j \<le> length (items ?f)" using f j by simp
    from process_keeps [OF f1 this pr] have g': "wf g'" "items g' = items g" "idx g' = Suc j" using f by simp_all
    have "0 < idx g'" by (simp add: g'(3))
    from next_step [OF g'(1) this] show ?thesis by (simp add: Some g'(2,3) get_def j)
  qed simp
  also have "\<dots> = map_option (\<lambda>g. (Some (current g), g)) (process_all step (take i (items g)) ?f)"
    unfolding Suc take_Suc_conv_app_nth [OF j] process_all_append
    by (cases "process_all step (take j (items g)) ?f") (simp, simp split: option.split)
  finally show ?thesis .
qed

lemma after_new_keeps:
  assumes "wf g" "idx g = 0" "\<not> no_object g" "i \<le> length (items g)" "after_calls next_of i g = Some (r, g')"
  shows "wf g' \<and> items g' = items g \<and> idx g' = i + 1 \<and> r = Some (current g')"
proof -
  let ?f = "first_object g"
  note f = first_object [OF assms(1-3)]
  have f1: "wf ?f" "0 < idx ?f" "idx ?f - 1 + i \<le> length (items ?f)" using f assms(4) by simp_all
  obtain g1 where g1: "process_all step (take i (items g)) ?f = Some g1"
    using assms(5) unfolding after_new [OF assms(1-4)] by (cases "process_all step (take i (items g)) ?f") simp_all
  have r: "r = Some (current g1)" "g' = g1" using assms(5) unfolding after_new [OF assms(1-4)] g1 by auto
  have "process_all step (take i (drop (idx ?f - 1) (items ?f))) ?f = Some g1" using g1 f by simp
  from process_keeps [OF f1 this] show ?thesis using f r by simp
qed

text \<open>Past the end the last attributes come once more; after that nothing does.\<close>

lemma nth_past_end:
  assumes "wf g" "idx g = 0" "\<not> no_object g" "length (items g) \<le> n" "nth_of n g = Some (r, g')"
  shows "r = Some (current g')" "next_of g' = Some (None, g')"
proof -
  have "after_calls next_of (length (items g)) g = Some (r, g')" using assms nth_is_after [OF assms(1), of n] by (simp add: min_absorb2)
  from after_new_keeps [OF assms(1-3) order_refl this]
  have "wf g'" "items g' = items g" "idx g' = length (items g) + 1" "r = Some (current g')" by simp_all
  then show "r = Some (current g')" "next_of g' = Some (None, g')" using after_last by simp_all
qed

lemma reachable_wf: "gradual_reachable next_of nth_of g0 g \<Longrightarrow> wf g0 \<Longrightarrow> wf g \<and> items g = items g0"
proof (induction rule: gradual_reachable.induct)
  case (next_call g r g')
  then show ?case using next_keeps [of g r g'] by simp
next
  case (nth_call g n r g')
  then show ?case using nth_is_after [of g n] after_keeps [of g _ r g'] by simp
qed simp

lemma reachable_nth:
  assumes "gradual_reachable next_of nth_of g0 g" "wf g0"
  shows "nth_of n g = after_calls next_of (min n (length (items g0) + 1 - idx g - 1)) g"
    "idx g \<le> length (items g0) + 1"
  using reachable_wf [OF assms] nth_is_after [of g n] index [of g] by simp_all

end

end
