(* ===== verification/Catch_Gradual.thy ===== *)
theory Catch_Gradual
  imports Catch_Difficulty Gradual Mode_PP
begin

text \<open>
  The gradual calculators of osu!catch (\<open>src/catch/difficulty/gradual.rs\<close>,
  \<open>src/catch/performance/gradual.rs\<close>). They process one palpable object more at every call and
  add up what the object counter listed for it.
\<close>

section \<open>Gradual difficulty\<close>

record 'mods catch_gradual =
  cgd_idx :: nat
  cgd_difficulty :: "'mods difficulty"
  cgd_attrs :: catch_difficulty_attributes
  cgd_count :: "gradual_object_count list"
  cgd_diff_objects :: "catch_difficulty_object list"
  cgd_movement :: movement

text \<open>On the converted map. The counter is unpacked by \<open>into_gradual\<close>.\<close>

definition catch_gradual_of_map ::
  "('l, 'i, 'g) rosu_mods \<Rightarrow> ('p, 's) rosu_map \<Rightarrow> ('l, 'i, 'g) game_mods difficulty \<Rightarrow> ('p, 's) beatmap
    \<Rightarrow> ('l, 'i, 'g) game_mods catch_gradual option" where
  "catch_gradual_of_map api rm d bm =
    (let clock_rate = get_clock_rate (mods_clock_rate api) d;
         half_catcher_width = catch_half_width api d bm
     in case catch_palpable api rm d bm new_gradual of
          Some (objs, Gradual _ all) \<Rightarrow>
            Some \<lparr>cgd_idx = 0, cgd_difficulty = d, cgd_attrs = snd (catch_setup api d bm), cgd_count = all,
              cgd_diff_objects = catch_diff_objects clock_rate half_catcher_width objs,
              cgd_movement = movement_new half_catcher_width clock_rate\<rparr>
        | _ \<Rightarrow> None)"

definition catch_gradual_new ::
  "('l, 'i, 'g) rosu_mods \<Rightarrow> ('p, 's) rosu_map \<Rightarrow> ('p, 's, ('l, 'i, 'g) game_mods) converters
    \<Rightarrow> ('l, 'i, 'g) game_mods difficulty \<Rightarrow> ('p, 's) beatmap \<Rightarrow> (convert_error + ('l, 'i, 'g) game_mods catch_gradual) option" where
  "catch_gradual_new api rm cv d bm = (case convert_ref cv Catch (d_mods d) bm of
      Inl e \<Rightarrow> Some (Inl e)
    | Inr bm \<Rightarrow> map_option Inr (catch_gradual_of_map api rm d (cow_get bm)))"

definition catch_gradual_current :: "'mods catch_gradual \<Rightarrow> catch_difficulty_attributes" where
  "catch_gradual_current self = catch_eval (movement_difficulty_value (cgd_movement self)) (cgd_attrs self)"

text \<open>The next object is added to the attributes; an index out of range panics.\<close>

definition catch_count_object :: "'mods catch_gradual \<Rightarrow> 'mods catch_gradual option" where
  "catch_count_object self = map_option (\<lambda>c. self\<lparr>cgd_attrs := add_object_count c (cgd_attrs self), cgd_idx := cgd_idx self + 1\<rparr>)
     (get (cgd_count self) (cgd_idx self))"

definition catch_gradual_step :: "libm \<Rightarrow> catch_difficulty_object \<Rightarrow> 'mods catch_gradual \<Rightarrow> 'mods catch_gradual option" where
  "catch_gradual_step lm cur self = (case movement_process lm (cgd_diff_objects self) cur (cgd_movement self) of
      None \<Rightarrow> None
    | Some movement \<Rightarrow> catch_count_object (self\<lparr>cgd_movement := movement\<rparr>))"

definition catch_gradual_next ::
  "libm \<Rightarrow> 'mods catch_gradual \<Rightarrow> (catch_difficulty_attributes option \<times> 'mods catch_gradual) option" where
  "catch_gradual_next lm self =
    (let finish = map_option (\<lambda>self. (Some (catch_gradual_current self), self))
     in if 0 < cgd_idx self
        then (case get (cgd_diff_objects self) (cgd_idx self - 1) of
            None \<Rightarrow> Some (None, self)
          | Some cur \<Rightarrow> finish (catch_gradual_step lm cur self))
        else if cgd_count self = [] then Some (None, self)
        else finish (catch_count_object self))"

text \<open>The subtraction of \<open>usize\<close> panics where the index is larger than the length.\<close>

definition catch_gradual_len :: "'mods catch_gradual \<Rightarrow> nat option" where
  "catch_gradual_len self = (let n = length (cgd_diff_objects self) + 1
     in if cgd_idx self \<le> n then Some (n - cgd_idx self) else None)"

definition catch_gradual_nth ::
  "libm \<Rightarrow> nat \<Rightarrow> 'mods catch_gradual \<Rightarrow> (catch_difficulty_attributes option \<times> 'mods catch_gradual) option" where
  "catch_gradual_nth lm n self =
    (case catch_gradual_len self of
       None \<Rightarrow> None
     | Some len \<Rightarrow>
        (let skip_iter = drop (cgd_idx self - 1) (cgd_diff_objects self);
             taken = min n (len - 1);
             first = (if cgd_idx self = 0 \<and> 0 < taken then map_option (\<lambda>self. (taken - 1, self)) (catch_count_object self)
               else Some (taken, self))
         in case first of
              None \<Rightarrow> None
            | Some (taken, self) \<Rightarrow> (case process_all (catch_gradual_step lm) (take taken skip_iter) self of
                  None \<Rightarrow> None
                | Some self \<Rightarrow> catch_gradual_next lm self)))"

section \<open>Gradual performance\<close>

text \<open>Attributes that were calculated need no conversion, so that \<open>expect\<close> never panics.\<close>

definition catch_gradual_performance_nth ::
  "('l, 'i, 'g) rosu_mods \<Rightarrow> libm \<Rightarrow> ('l, 'i, 'g) game_mods
    \<Rightarrow> (('l, 'i, 'g) game_mods difficulty \<Rightarrow> 'map \<Rightarrow> convert_error + catch_difficulty_attributes)
    \<Rightarrow> catch_score_state \<Rightarrow> nat \<Rightarrow> ('l, 'i, 'g) game_mods catch_gradual
    \<Rightarrow> ((convert_error + catch_performance_attributes) option \<times> ('l, 'i, 'g) game_mods catch_gradual) option" where
  "catch_gradual_performance_nth api lm default_mods calculate_for_mode st n self =
    map_option (\<lambda>(attrs, self). (map_option (\<lambda>attrs. catch_performance_calculate api lm calculate_for_mode
         (catch_set_passed_objects (word_of_nat (cgd_idx self)) (catch_set_difficulty (cgd_difficulty self)
           (catch_set_state st (catch_from_map_or_attrs default_mods (FromAttrs attrs)))))) attrs, self))
      (catch_gradual_nth lm n self)"

text \<open>\<open>next\<close> skips nothing, \<open>last\<close> asks for \<open>usize::MAX\<close>.\<close>

definition catch_gradual_performance_next ::
  "('l, 'i, 'g) rosu_mods \<Rightarrow> libm \<Rightarrow> ('l, 'i, 'g) game_mods
    \<Rightarrow> (('l, 'i, 'g) game_mods difficulty \<Rightarrow> 'map \<Rightarrow> convert_error + catch_difficulty_attributes)
    \<Rightarrow> catch_score_state \<Rightarrow> ('l, 'i, 'g) game_mods catch_gradual
    \<Rightarrow> ((convert_error + catch_performance_attributes) option \<times> ('l, 'i, 'g) game_mods catch_gradual) option" where
  "catch_gradual_performance_next api lm default_mods calculate_for_mode st self =
    catch_gradual_performance_nth api lm default_mods calculate_for_mode st 0 self"

definition catch_gradual_performance_last ::
  "('l, 'i, 'g) rosu_mods \<Rightarrow> libm \<Rightarrow> ('l, 'i, 'g) game_mods
    \<Rightarrow> (('l, 'i, 'g) game_mods difficulty \<Rightarrow> 'map \<Rightarrow> convert_error + catch_difficulty_attributes)
    \<Rightarrow> catch_score_state \<Rightarrow> ('l, 'i, 'g) game_mods catch_gradual
    \<Rightarrow> ((convert_error + catch_performance_attributes) option \<times> ('l, 'i, 'g) game_mods catch_gradual) option" where
  "catch_gradual_performance_last api lm default_mods calculate_for_mode st self =
    catch_gradual_performance_nth api lm default_mods calculate_for_mode st (2 ^ 64 - 1) self"

definition catch_gradual_performance_len :: "'mods catch_gradual \<Rightarrow> nat option" where
  "catch_gradual_performance_len self = catch_gradual_len self"

section \<open>The gradual calculator\<close>

text \<open>One count for every palpable object, one difficulty object for every one but the first.\<close>

definition catch_gradual_wf :: "'mods catch_gradual \<Rightarrow> bool" where
  "catch_gradual_wf g \<longleftrightarrow> length (cgd_diff_objects g) = length (cgd_count g) - 1
    \<and> cgd_idx g \<le> length (cgd_count g)"

lemma catch_len_wf: "catch_gradual_wf g \<Longrightarrow> catch_gradual_len g = Some (length (cgd_diff_objects g) + 1 - cgd_idx g)"
  by (auto simp: catch_gradual_wf_def catch_gradual_len_def)

interpretation catch_iter: gradual cgd_idx cgd_diff_objects "\<lambda>g. cgd_count g = []"
  "\<lambda>g. g\<lparr>cgd_attrs := add_object_count (cgd_count g ! cgd_idx g) (cgd_attrs g), cgd_idx := cgd_idx g + 1\<rparr>"
  "catch_gradual_step lm" catch_gradual_current catch_gradual_wf "catch_gradual_next lm" "catch_gradual_nth lm"
  for lm
proof (unfold_locales, goal_cases)
  case (4 g c g')
  then show ?case
    by (auto simp: catch_gradual_step_def catch_count_object_def catch_gradual_wf_def get_def split: option.splits if_splits)
next
  case (6 g)
  then show ?case by (simp add: catch_gradual_next_def Let_def)
next
  case (7 g n)
  then show ?case using catch_len_wf [of g]
    by (auto simp: catch_gradual_nth_def catch_count_object_def get_def bind_case Let_def catch_gradual_wf_def)
qed (auto simp: catch_gradual_next_def catch_gradual_wf_def catch_count_object_def get_def Let_def Suc_le_eq)

lemma catch_nth_is_after:
  assumes "catch_gradual_wf g"
  shows "catch_gradual_nth lm n g = after_calls (catch_gradual_next lm) (min n (length (cgd_diff_objects g) - cgd_idx g)) g"
  using catch_iter.nth_is_after [OF assms, of lm n] by simp


section \<open>The gradual calculator is the regular one\<close>

lemma catch_passed_setup [simp]:
  "catch_setup api (set_passed_objects n d) bm = catch_setup api d bm"
  "catch_palpable api rm (set_passed_objects n d) bm = catch_palpable api rm d bm"
  "catch_half_width api (set_passed_objects n d) bm = catch_half_width api d bm"
  by (rule ext | simp add: catch_setup_def catch_palpable_def catch_half_width_def builder_difficulty_def
      get_clock_rate_def get_hardrock_offsets_def set_passed_objects_def)+

lemma catch_steps_process:
  assumes "cgd_idx g + length ds \<le> length (cgd_count g)"
  shows "process_all (catch_gradual_step lm) ds g = map_option (\<lambda>mv. g\<lparr>cgd_movement := mv,
      cgd_attrs := fold add_object_count (take (length ds) (drop (cgd_idx g) (cgd_count g))) (cgd_attrs g),
      cgd_idx := cgd_idx g + length ds\<rparr>) (process_all (movement_process lm (cgd_diff_objects g)) ds (cgd_movement g))"
  using assms
proof (induction ds arbitrary: g)
  case (Cons c ds)
  have i: "cgd_idx g < length (cgd_count g)" using Cons.prems by simp
  then have d: "drop (cgd_idx g) (cgd_count g) = cgd_count g ! cgd_idx g # drop (Suc (cgd_idx g)) (cgd_count g)"
    by (rule Cons_nth_drop_Suc [symmetric])
  show ?case
  proof (cases "movement_process lm (cgd_diff_objects g) c (cgd_movement g)")
    case (Some mv)
    define g' where "g' = g\<lparr>cgd_movement := mv, cgd_attrs := add_object_count (cgd_count g ! cgd_idx g) (cgd_attrs g),
        cgd_idx := cgd_idx g + 1\<rparr>"
    have s: "catch_gradual_step lm c g = Some g'"
      using Some i by (simp add: catch_gradual_step_def catch_count_object_def get_def g'_def)
    show ?thesis using Cons.IH [of g'] Cons.prems by (simp add: s Some d g'_def)
  qed (simp add: catch_gradual_step_def)
qed simp

lemma movement_process_prefix:
  assumes "\<forall>j<length ds. cdo_idx (ds ! j) = j" "c \<in> set (take i ds)"
  shows "movement_process lm (take i ds) c s = movement_process lm ds c s"
proof -
  obtain j where j: "j < length ds" "j < i" "c = ds ! j" using assms(2) by (auto simp: in_set_conv_nth)
  then have "previous_object (cdo_idx c) 0 (take i ds) = previous_object (cdo_idx c) 0 ds"
    using assms(1) by (auto simp: previous_object_def get_def)
  then show ?thesis by (simp add: movement_process_def catch_prev_start_time_def)
qed

lemma catch_gradual_matches:
  assumes "\<forall>c. catch_palpable api rm d bm c = Some (objs, fold run_event evs c)"
    "fold run_event evs new_gradual = Gradual p cs" "length cs = length objs"
    "i < length objs" "length objs < 2 ^ 32" "catch_gradual_of_map api rm d bm = Some g"
  shows "after_calls (catch_gradual_next lm) i g = map_option (\<lambda>mv.
      (catch_attributes api lm rm (set_passed_objects (word_of_nat (i + 1)) d) bm,
       g\<lparr>cgd_movement := mv, cgd_attrs := fold add_object_count (take (i + 1) cs) (snd (catch_setup api d bm)), cgd_idx := i + 1\<rparr>))
      (process_all (movement_process lm (cgd_diff_objects g)) (take i (cgd_diff_objects g)) (cgd_movement g))"
    and "catch_attributes api lm rm (set_passed_objects (word_of_nat (i + 1)) d) bm = None
      \<longleftrightarrow> process_all (movement_process lm (cgd_diff_objects g)) (take i (cgd_diff_objects g)) (cgd_movement g) = None"
proof -
  define rate where "rate = get_clock_rate (mods_clock_rate api) d"
  define w where "w = catch_half_width api d bm"
  define ds where "ds = catch_diff_objects rate w objs"
  have "catch_palpable api rm d bm new_gradual = Some (objs, Gradual p cs)" using assms(1,2) by simp
  then have g: "g = \<lparr>cgd_idx = 0, cgd_difficulty = d, cgd_attrs = snd (catch_setup api d bm), cgd_count = cs,
      cgd_diff_objects = ds, cgd_movement = movement_new w rate\<rparr>"
    using assms(6) by (simp add: catch_gradual_of_map_def Let_def ds_def rate_def w_def)
  have l: "length ds = length objs - 1" by (simp add: ds_def catch_diff_objects_nth)
  have wf: "catch_gradual_wf g" "cgd_count g \<noteq> []" using l assms(3,4) by (auto simp: g catch_gradual_wf_def)
  define first where "first = g\<lparr>cgd_attrs := add_object_count (cgd_count g ! cgd_idx g) (cgd_attrs g), cgd_idx := cgd_idx g + 1\<rparr>"
  define run where "run = process_all (movement_process lm ds) (take i ds) (movement_new w rate)"
  have il: "length (take i ds) = i" using l assms(4) by simp
  have cs: "take (Suc i) cs = cs ! 0 # take i (drop 1 cs)" using assms(3,4) by (cases cs) auto
  have p1: "process_all (catch_gradual_step lm) (take i ds) first
      = map_option (\<lambda>mv. g\<lparr>cgd_movement := mv, cgd_attrs := fold add_object_count (take (i + 1) cs) (snd (catch_setup api d bm)),
          cgd_idx := i + 1\<rparr>) run"
    using catch_steps_process [of first "take i ds" lm] il assms(3,4) by (simp add: first_def g run_def cs)
  have ig: "i \<le> length (cgd_diff_objects g)" "cgd_idx g = 0" "cgd_diff_objects g = ds" using l assms(4) by (simp_all add: g)
  have "after_calls (catch_gradual_next lm) i g = map_option (\<lambda>g. (Some (catch_gradual_current g), g))
      (process_all (catch_gradual_step lm) (take i ds) first)"
    using catch_iter.after_new [OF wf(1) ig(2) wf(2) ig(1), of lm] unfolding first_def [symmetric] ig(3) .
  then have a: "after_calls (catch_gradual_next lm) i g = map_option (\<lambda>mv.
      let g' = g\<lparr>cgd_movement := mv, cgd_attrs := fold add_object_count (take (i + 1) cs) (snd (catch_setup api d bm)), cgd_idx := i + 1\<rparr>
      in (Some (catch_gradual_current g'), g')) run"
    unfolding p1 by (simp add: option.map_comp comp_def Let_def)
  define d' where "d' = set_passed_objects (word_of_nat (i + 1)) d"
  have n: "unat (get_passed_objects d') = i + 1" unfolding d'_def using passed_after_set [of "i + 1" d] assms(4,5) by simp
  have r: "get_clock_rate (mods_clock_rate api) d' = rate" by (simp add: d'_def rate_def get_clock_rate_def set_passed_objects_def)
  have v: "fold run_event evs (new_regular (i + 1)) = Regular (counts_of (take (i + 1) cs)) 0"
    using run_event_view [of evs "i + 1"] assms(2-4) by (auto simp: regular_view_ge)
  have t: "catch_diff_objects rate w (take (i + 1) objs) = take i ds" by (simp add: catch_diff_objects_take ds_def del: take_Suc)
  have idx: "\<forall>j<length ds. cdo_idx (ds ! j) = j" by (simp add: ds_def catch_diff_objects_nth catch_difficulty_object_new_def Let_def)
  have pr: "process_all (movement_process lm (take i ds)) (take i ds) s = process_all (movement_process lm ds) (take i ds) s" for s
    by (rule process_all_cong) (rule movement_process_prefix [OF idx])
  have c: "set_object_count (counts_of (take (i + 1) cs)) (snd (catch_setup api d bm))
      = fold add_object_count (take (i + 1) cs) (snd (catch_setup api d bm))"
    using set_object_count_foldl [of "take (i + 1) cs" "\<lparr>oc_fruits = 0, oc_droplets = 0, oc_tiny_droplets = 0\<rparr>" "snd (catch_setup api d bm)"]
    by (simp add: counts_of_def set_object_count_def catch_setup_def Let_def)
  have reg: "catch_attributes api lm rm d' bm = map_option (\<lambda>mv. catch_eval (movement_difficulty_value mv)
      (fold add_object_count (take (i + 1) cs) (snd (catch_setup api d bm)))) run"
    unfolding catch_attributes_def catch_values_def Let_def n r using assms(1)
    by (simp add: d'_def v [simplified] t [simplified] w_def [symmetric] pr run_def c [simplified] split: option.split)
  show "after_calls (catch_gradual_next lm) i g = map_option (\<lambda>mv.
      (catch_attributes api lm rm (set_passed_objects (word_of_nat (i + 1)) d) bm,
       g\<lparr>cgd_movement := mv, cgd_attrs := fold add_object_count (take (i + 1) cs) (snd (catch_setup api d bm)), cgd_idx := i + 1\<rparr>))
      (process_all (movement_process lm (cgd_diff_objects g)) (take i (cgd_diff_objects g)) (cgd_movement g))"
    unfolding a d'_def [symmetric] reg by (cases run) (simp_all add: run_def g catch_gradual_current_def Let_def)
  show "catch_attributes api lm rm (set_passed_objects (word_of_nat (i + 1)) d) bm = None
      \<longleftrightarrow> process_all (movement_process lm (cgd_diff_objects g)) (take i (cgd_diff_objects g)) (cgd_movement g) = None"
    unfolding d'_def [symmetric] reg by (simp add: run_def g)
qed


lemma catch_gradual_agrees:
  assumes "\<forall>h\<in>set (bm_hit_objects bm). spinner_in_range h" "catch_palpable api rm d bm new_gradual = Some (objs, c)"
    "i < length objs" "length objs < 2 ^ 32"
  shows "\<exists>g. catch_gradual_of_map api rm d bm = Some g \<and> catch_gradual_len g = Some (length objs)
    \<and> catch_gradual_nth lm i g = after_calls (catch_gradual_next lm) i g
    \<and> map_option fst (after_calls (catch_gradual_next lm) i g)
      = map_option Some (catch_attributes api lm rm (set_passed_objects (word_of_nat (i + 1)) d) bm)
    \<and> (\<forall>r g'. after_calls (catch_gradual_next lm) i g = Some (r, g') \<longrightarrow> cgd_difficulty g' = d \<and> cgd_idx g' = i + 1)"
proof -
  obtain objs' evs p cs where o: "\<forall>c. catch_palpable api rm d bm c = Some (objs', fold run_event evs c)"
    "fold run_event evs new_gradual = Gradual p cs" "length cs = length objs'"
    unfolding catch_palpable_def using catch_convert_run [OF assms(1)] by metis
  then have eq: "objs' = objs" using assms(2) by simp
  note o = o [unfolded eq]
  obtain g where g: "catch_gradual_of_map api rm d bm = Some g" "catch_gradual_len g = Some (length objs)" "catch_gradual_wf g"
      "cgd_difficulty g = d" "cgd_idx g = 0"
    using o(1-3) assms(3) by (auto simp: catch_gradual_of_map_def Let_def catch_gradual_len_def catch_gradual_wf_def catch_diff_objects_nth)
  have n: "catch_gradual_nth lm i g = after_calls (catch_gradual_next lm) i g"
    using catch_nth_is_after [OF g(3), of lm i] g(2) assms(3) catch_len_wf [OF g(3)] by (simp add: min_absorb1)
  note m = catch_gradual_matches [OF o(1-3) assms(3,4) g(1), of lm]
  define run where "run = process_all (movement_process lm (cgd_diff_objects g)) (take i (cgd_diff_objects g)) (cgd_movement g)"
  have "map_option fst (after_calls (catch_gradual_next lm) i g)
      = map_option Some (catch_attributes api lm rm (set_passed_objects (word_of_nat (i + 1)) d) bm)"
    using m(2) unfolding m(1) run_def [symmetric]
    by (cases run; cases "catch_attributes api lm rm (set_passed_objects (word_of_nat (i + 1)) d) bm") simp_all
  moreover have "cgd_difficulty g' = d \<and> cgd_idx g' = i + 1" if "after_calls (catch_gradual_next lm) i g = Some (r, g')" for r g'
    using that g(4) unfolding m(1) run_def [symmetric] by (cases run) auto
  ultimately show ?thesis using g(1,2) n by blast
qed

text \<open>
  C10. The gradual calculator of osu!catch is the regular one: after \<open>i\<close> objects, whether
  they are skipped by \<open>nth\<close> or processed one by one, the next attributes are all those of a
  calculation with \<open>i + 1\<close> passed objects, although one counts the objects as it goes and the other
  while it makes them. One returns exactly if the other does, and the iterator is as long as the
  list of palpable objects.
\<close>

theorem catch_gradual_is_regular:
  assumes "\<forall>h\<in>set (bm_hit_objects bm). spinner_in_range h" "catch_palpable api rm d bm new_gradual = Some (objs, c)"
    "i < length objs" "length objs < 2 ^ 32"
  shows "\<exists>g. catch_gradual_of_map api rm d bm = Some g \<and> catch_gradual_len g = Some (length objs)
    \<and> catch_gradual_nth lm i g = after_calls (catch_gradual_next lm) i g
    \<and> map_option fst (catch_gradual_nth lm i g)
      = map_option Some (catch_attributes api lm rm (set_passed_objects (word_of_nat (i + 1)) d) bm)"
  using catch_gradual_agrees [OF assms, of lm] by auto

section \<open>The gradual performance calculator is the regular one\<close>

lemma catch_generate_state_attrs:
  assumes "calc (cp_difficulty x) bm = Inr a"
  shows "map_sum id fst (catch_generate_state calc (x\<lparr>cp_map_or_attrs := FromMap bm\<rparr>))
    = map_sum id fst (catch_generate_state calc (x\<lparr>cp_map_or_attrs := FromAttrs a\<rparr>))"
proof -
  have r: "resolve_attrs (calc (cp_difficulty x)) (FromMap bm) = Inr (a, FromAttrs a)"
    "resolve_attrs (calc (cp_difficulty x)) (FromAttrs b) = Inr (b, FromAttrs b)" for b
    using assms by (simp_all add: resolve_attrs_def insert_attrs_def)
  show ?thesis by (simp add: catch_generate_state_def r Let_def catch_fruits_droplets_def catch_tiny_def split: prod.split)
qed


lemma catch_performance_of_attrs:
  assumes "calc d bm = Inr a"
  shows "catch_performance_calculate api lm calc
      (catch_set_difficulty d (catch_set_state st (catch_from_map_or_attrs default_mods (FromAttrs a))))
    = catch_performance_calculate api lm calc
      (catch_set_state st (catch_set_difficulty d (catch_from_map_or_attrs default_mods (FromMap bm))))
    \<and> (\<exists>p. catch_performance_calculate api lm calc
      (catch_set_state st (catch_set_difficulty d (catch_from_map_or_attrs default_mods (FromMap bm)))) = Inr p)"
proof -
  define x where "x = catch_set_state st (catch_set_difficulty d (catch_from_map_or_attrs default_mods (FromMap bm)))"
  have x: "cp_difficulty x = d" "x\<lparr>cp_map_or_attrs := FromMap bm\<rparr> = x" "cp_map_or_attrs x = FromMap bm"
    "catch_set_difficulty d (catch_set_state st (catch_from_map_or_attrs default_mods (FromAttrs a'))) = x\<lparr>cp_map_or_attrs := FromAttrs a'\<rparr>" for a'
    by (simp_all add: x_def catch_set_state_def catch_set_difficulty_def catch_from_map_or_attrs_def)
  let ?x = "x\<lparr>cp_map_or_attrs := FromAttrs a\<rparr>"
  let ?calc = "\<lambda>self attrs s. catch_calculate api lm \<lparr>cc_attrs = attrs, cc_mods = d_mods (cp_difficulty self), cc_state = s\<rparr>"
  have r: "resolve_attrs (calc (cp_difficulty x)) (cp_map_or_attrs x) = Inr (a, FromAttrs a)"
    "resolve_attrs (calc (cp_difficulty ?x)) (cp_map_or_attrs ?x) = Inr (a, FromAttrs a)"
    using assms by (simp_all add: resolve_attrs_def insert_attrs_def x(1,3))
  obtain s y where y: "catch_generate_state calc x = Inr (s, y)" "cp_difficulty y = d"
    "calculate_with (catch_generate_state calc) cp_map_or_attrs cp_difficulty calc ?calc x = Inr (?calc y a s)"
    using catch_generator.runs_calculator [of calc x, OF r(1), of ?calc] unfolding x(1) by blast
  obtain s' y' where y': "catch_generate_state calc ?x = Inr (s', y')" "cp_difficulty y' = cp_difficulty ?x"
    "calculate_with (catch_generate_state calc) cp_map_or_attrs cp_difficulty calc ?calc ?x = Inr (?calc y' a s')"
    using catch_generator.runs_calculator [of calc ?x, OF r(2), of ?calc] by blast
  have "calc (cp_difficulty x) bm = Inr a" using assms x(1) by simp
  from catch_generate_state_attrs [of calc x bm a, OF this] have "s' = s" unfolding x(2) y(1) y'(1) by simp
  then show ?thesis using y(2,3) y'(2,3) unfolding x(4) x_def [symmetric] by (simp add: catch_performance_calculate_def x(1))
qed

text \<open>
  C11. The gradual performance calculator of osu!catch returns the points of the regular one:
  after \<open>i\<close> skipped objects its result for a score state, points and attributes, is that of a
  calculator for the map with \<open>i + 1\<close> passed objects and the same state.
\<close>

theorem catch_gradual_performance_is_regular:
  assumes "\<forall>h\<in>set (bm_hit_objects bm). spinner_in_range h" "catch_palpable api rm d bm new_gradual = Some (objs, c)"
    "i < length objs" "length objs < 2 ^ 32"
    "catch_attributes api lm rm (set_passed_objects (word_of_nat (i + 1)) d) bm = Some a"
    "calc (set_passed_objects (word_of_nat (i + 1)) d) bm = Inr a"
  shows "\<exists>g p g'. catch_gradual_of_map api rm d bm = Some g
    \<and> catch_performance_calculate api lm calc (catch_set_state st (catch_set_passed_objects (word_of_nat (i + 1))
        (catch_set_difficulty d (catch_from_map_or_attrs default_mods (FromMap bm))))) = Inr p
    \<and> catch_gradual_performance_nth api lm default_mods calc st i g = Some (Some (Inr p), g')"
proof -
  define d' where "d' = set_passed_objects (word_of_nat (i + 1)) d"
  obtain g where g: "catch_gradual_of_map api rm d bm = Some g"
    "catch_gradual_nth lm i g = after_calls (catch_gradual_next lm) i g"
    "map_option fst (after_calls (catch_gradual_next lm) i g) = Some (Some a)"
    "\<forall>r g'. after_calls (catch_gradual_next lm) i g = Some (r, g') \<longrightarrow> cgd_difficulty g' = d \<and> cgd_idx g' = i + 1"
    using catch_gradual_agrees [OF assms(1-4), of lm] unfolding assms(5) by auto
  then obtain g' where g': "catch_gradual_nth lm i g = Some (Some a, g')" "cgd_difficulty g' = d" "cgd_idx g' = i + 1"
    by (cases "after_calls (catch_gradual_next lm) i g") auto
  have o: "catch_set_passed_objects w (catch_set_difficulty d x) = catch_set_difficulty (set_passed_objects w d) x" for w x
    by (simp add: catch_set_passed_objects_def catch_set_difficulty_def)
  obtain p where p: "catch_performance_calculate api lm calc
      (catch_set_state st (catch_set_difficulty d' (catch_from_map_or_attrs default_mods (FromMap bm)))) = Inr p"
    "catch_performance_calculate api lm calc
      (catch_set_difficulty d' (catch_set_state st (catch_from_map_or_attrs default_mods (FromAttrs a)))) = Inr p"
    using catch_performance_of_attrs [of calc d' bm a api lm st default_mods] assms(6) unfolding d'_def by auto
  have "catch_gradual_performance_nth api lm default_mods calc st i g = Some (Some (Inr p), g')"
    unfolding catch_gradual_performance_nth_def g'(1) option.map prod.case g'(2,3) o d'_def [symmetric] p(2) ..
  moreover have "catch_performance_calculate api lm calc (catch_set_state st (catch_set_passed_objects (word_of_nat (i + 1))
        (catch_set_difficulty d (catch_from_map_or_attrs default_mods (FromMap bm))))) = Inr p"
    using p(1) by (simp only: o d'_def [symmetric])
  ultimately show ?thesis using g(1) by blast
qed

theorem catch_gradual_is_regular_witness:
  "\<forall>lm rm. \<exists>g. catch_gradual_of_map listed_mods rm (difficulty_new (Lazer [])) catch_example_map = Some g \<and> catch_gradual_len g = Some 2
    \<and> map_option fst (catch_gradual_nth lm 1 g)
      = map_option Some (catch_attributes listed_mods lm rm (set_passed_objects 2 (difficulty_new (Lazer []))) catch_example_map)"
proof (intro allI, goal_cases)
  case (1 lm rm)
  obtain objs c where o: "catch_palpable listed_mods rm (difficulty_new (Lazer [])) catch_example_map new_gradual = Some (objs, c)" "length objs = 2"
    using catch_example_length by blast
  then have "1 < length objs" "length objs < 2 ^ 32" by simp_all
  from catch_gradual_is_regular [OF catch_example_ok(1) o(1) this, of lm] show ?case unfolding o(2) by (auto simp: numeral_2_eq_2)
qed

theorem catch_gradual_performance_is_regular_witness:
  "\<forall>lm rm st. \<exists>a g p g'. catch_gradual_of_map listed_mods rm (difficulty_new (Lazer [])) catch_example_map = Some g
    \<and> catch_gradual_performance_nth listed_mods lm (Lazer []) (\<lambda>_ (_ :: (unit, unit) beatmap). Inr a) st 1 g = Some (Some (Inr p), g')"
proof (intro allI, goal_cases)
  case (1 lm rm st)
  let ?d = "difficulty_new (Lazer []) :: (mod_name list, mod_name list, mod_name list) game_mods difficulty"
  let ?d' = "set_passed_objects (word_of_nat (1 + 1)) ?d"
  obtain objs c where o: "catch_palpable listed_mods rm ?d catch_example_map new_gradual = Some (objs, c)" "length objs = 2"
    using catch_example_length by blast
  then have i: "1 < length objs" "length objs < 2 ^ 32" by simp_all
  have r: "clock_rate_ok (get_clock_rate (mods_clock_rate listed_mods) ?d')"
    using catch_example_ok(3) by (simp add: get_clock_rate_def set_passed_objects_def)
  obtain objs' evs p cs where e: "\<forall>c. catch_palpable listed_mods rm ?d catch_example_map c = Some (objs', fold run_event evs c)"
    "sorted (map (tkey \<circ> po_start_time) objs')" "fold run_event evs new_gradual = Gradual p cs" "length cs = length objs'"
    unfolding catch_palpable_def using catch_convert_run [OF catch_example_ok(1)] by metis
  define ps where "ps = take (unat (get_passed_objects ?d')) objs'"
  have "\<forall>p\<in>set objs'. palpable_ok p" using catch_example_palpable e(1) by blast
  then have ok: "catch_objects_ok ps" and n: "\<forall>p\<in>set ps. \<not> is_nan32 (effective_x p)" using e(2)
    by (auto simp: catch_objects_ok_def palpable_ok_def ps_def take_map [symmetric] sorted_wrt_take dest: in_set_takeD)
  have "catch_width_ok (catch_half_width listed_mods ?d' catch_example_map)" using catch_example_width by simp
  from no_clamp_panic [OF this n] have w: "\<not> clamp_panics (catch_half_width listed_mods ?d' catch_example_map) ps" .
  have e1: "\<forall>c. catch_palpable listed_mods rm ?d' catch_example_map c = Some (objs', fold run_event evs c)" using e(1) by simp
  obtain mv k where "catch_values listed_mods lm rm ?d' catch_example_map = Some (mv, set_object_count k (snd (catch_setup listed_mods ?d' catch_example_map)))"
    using catch_values_return [OF e1 e(3,4) ps_def ok r refl w, of lm] by blast
  then obtain a where a: "catch_attributes listed_mods lm rm ?d' catch_example_map = Some a" by (simp add: catch_attributes_def)
  from catch_gradual_performance_is_regular [OF catch_example_ok(1) o(1) i a, of "\<lambda>_ _. Inr a" st "Lazer []"]
  obtain g p g' where "catch_gradual_of_map listed_mods rm ?d catch_example_map = Some g"
    "catch_gradual_performance_nth listed_mods lm (Lazer []) (\<lambda>_ (_ :: (unit, unit) beatmap). Inr a) st 1 g = Some (Some (Inr p), g')"
    by blast
  then show ?case by (intro exI conjI)
qed

end
