(* ===== verification/Mania_Difficulty.thy ===== *)
theory Mania_Difficulty
  imports Skills Rosu_Map F32_Values Settings Map_Attributes Mania_Performance
begin

text \<open>
  The difficulty of osu!mania: its objects (\<open>src/mania/object.rs\<close>), the strain skill
  (\<open>src/mania/difficulty/skills/strain.rs\<close>), the calculation (\<open>src/mania/difficulty/mod.rs\<close>) and
  the strains (\<open>src/mania/strains.rs\<close>). Results are options: \<open>None\<close> is a panic or a loop
  without end. Indices and lengths are natural numbers.
\<close>

section \<open>Objects\<close>

text \<open>The cast of a 32-bit floating point number to an index.\<close>

definition as_usize32 :: "f32 \<Rightarrow> nat" where
  "as_usize32 x = (if is_nan32 x \<or> sgn32 x then 0 else if is_inf32 x then 2 ^ 64 - 1
     else min (2 ^ 64 - 1) (ipart (f64_of_f32 x)))"

definition floor32 :: "f32 \<Rightarrow> f32" where
  "floor32 x = f32_of_f64 (ffloor (f64_of_f32 x))"

record mania_object =
  mo_start_time :: f64
  mo_end_time :: f64
  mo_column :: nat

record object_params =
  op_max_combo :: u32
  op_n_hold_notes :: u32

definition object_params_new :: object_params where
  "object_params_new = \<lparr>op_max_combo = 0, op_n_hold_notes = 0\<rparr>"

definition mania_column :: "f32 \<Rightarrow> f32 \<Rightarrow> nat" where
  "mania_column x total_columns =
    (let x_divisor = lit32 512 1 / total_columns
     in as_usize32 (fmin32 (floor32 (x / x_divisor)) (total_columns - lit32 1 1)))"

definition mania_slider_duration :: "('p, 's) rosu_map \<Rightarrow> ('p, 's) beatmap \<Rightarrow> ('p, 's) slider \<Rightarrow> f64 \<Rightarrow> f64" where
  "mania_slider_duration rm bm slider start_time =
    (let scoring_dist = f64_of_f32 (lit32 100 1) * bm_slider_multiplier bm * slider_velocity_at bm start_time;
         velocity = scoring_dist / beat_len_at rm bm start_time
     in usize_as_f64 (span_count slider) * rm_path_dist rm Mania slider / velocity)"

definition mania_object_new ::
  "('p, 's) rosu_map \<Rightarrow> ('p, 's) beatmap \<Rightarrow> ('p, 's) hit_object \<Rightarrow> f32 \<Rightarrow> object_params \<Rightarrow> mania_object \<times> object_params" where
  "mania_object_new rm bm h total_columns params =
    (let column = mania_column (px (ho_pos h)) total_columns;
         params = params\<lparr>op_max_combo := op_max_combo params + 1\<rparr>;
         object = (\<lambda>end_time. \<lparr>mo_start_time = ho_start_time h, mo_end_time = end_time, mo_column = column\<rparr>);
         hold = (\<lambda>duration. (object (ho_start_time h + duration),
           params\<lparr>op_max_combo := op_max_combo params + as_u32 (duration / lit 100 1),
             op_n_hold_notes := op_n_hold_notes params + 1\<rparr>))
     in case ho_kind h of
          Circle \<Rightarrow> (object (ho_start_time h), params)
        | Slider slider \<Rightarrow> hold (mania_slider_duration rm bm slider (ho_start_time h))
        | Spinner duration \<Rightarrow> hold duration
        | Hold duration \<Rightarrow> hold duration)"

fun mania_objects ::
  "('p, 's) rosu_map \<Rightarrow> ('p, 's) beatmap \<Rightarrow> f32 \<Rightarrow> ('p, 's) hit_object list \<Rightarrow> object_params \<Rightarrow> mania_object list \<times> object_params" where
  "mania_objects rm bm total_columns [] params = ([], params)"
| "mania_objects rm bm total_columns (h # hs) params =
    (let (b, params) = mania_object_new rm bm h total_columns params;
         (bs, params) = mania_objects rm bm total_columns hs params
     in (b # bs, params))"

record mania_difficulty_object =
  mdo_idx :: nat
  mdo_base_column :: nat
  mdo_delta_time :: f64
  mdo_start_time :: f64
  mdo_end_time :: f64

definition mania_difficulty_object_new :: "mania_object \<Rightarrow> mania_object \<Rightarrow> f64 \<Rightarrow> nat \<Rightarrow> mania_difficulty_object" where
  "mania_difficulty_object_new base last_object clock_rate idx = \<lparr>mdo_idx = idx, mdo_base_column = mo_column base,
     mdo_delta_time = (mo_start_time base - mo_start_time last_object) / clock_rate,
     mdo_start_time = mo_start_time base / clock_rate, mdo_end_time = mo_end_time base / clock_rate\<rparr>"

fun mania_diff_objects_from :: "f64 \<Rightarrow> mania_object \<Rightarrow> nat \<Rightarrow> mania_object list \<Rightarrow> mania_difficulty_object list" where
  "mania_diff_objects_from clock_rate last_object i [] = []"
| "mania_diff_objects_from clock_rate last_object i (b # bs) =
    mania_difficulty_object_new b last_object clock_rate i # mania_diff_objects_from clock_rate b (i + 1) bs"

definition mania_diff_objects :: "f64 \<Rightarrow> mania_object list \<Rightarrow> mania_difficulty_object list" where
  "mania_diff_objects clock_rate objs = (case objs of [] \<Rightarrow> [] | b # bs \<Rightarrow> mania_diff_objects_from clock_rate b 0 bs)"

section \<open>Strain\<close>

record mania_strain = strain_decay_skill +
  ms_start_times :: "f64 list"
  ms_end_times :: "f64 list"
  ms_individual_strains :: "f64 list"
  ms_individual_strain :: f64
  ms_overall_strain :: f64

definition mania_strain_new :: "nat \<Rightarrow> mania_strain" where
  "mania_strain_new total_columns = \<lparr>sk_section_peak = lit 0 1, sk_section_end = lit 0 1, sk_strain_peaks = sv_new,
     sk_object_strains = [], sk_current_strain = lit 0 1, ms_start_times = replicate total_columns (lit 0 1),
     ms_end_times = replicate total_columns (lit 0 1), ms_individual_strains = replicate total_columns (lit 0 1),
     ms_individual_strain = lit 0 1, ms_overall_strain = lit 1 1\<rparr>"

definition apply_decay :: "libm \<Rightarrow> f64 \<Rightarrow> f64 \<Rightarrow> f64 \<Rightarrow> f64" where
  "apply_decay lm v delta_time decay_base = v * lm_powf lm decay_base (delta_time / lit 1000 1)"

definition mania_initial_strain :: "libm \<Rightarrow> f64 \<Rightarrow> mania_strain \<Rightarrow> f64 \<Rightarrow> f64" where
  "mania_initial_strain lm prev_start_time self offset =
    apply_decay lm (ms_individual_strain self) (offset - prev_start_time) (lit 125 1000)
    + apply_decay lm (ms_overall_strain self) (offset - prev_start_time) (lit 3 10)"

text \<open>The loop over the columns: an overlap, the hold factor and the closest end time.\<close>

definition strain_column_step ::
  "mania_strain \<Rightarrow> f64 \<Rightarrow> f64 \<Rightarrow> nat \<Rightarrow> bool \<times> f64 \<times> f64 \<Rightarrow> bool \<times> f64 \<times> f64" where
  "strain_column_step self start_time end_time i = (\<lambda>(is_overlapping, hold_factor, closest_end_time).
    (let column_start = ms_start_times self ! i; column_end = ms_end_times self ! i
     in (is_overlapping \<or> start_time + lit 1 1 < column_end \<and> column_end + lit 1 1 < end_time \<and> column_start + lit 1 1 < start_time,
         if end_time + lit 1 1 < column_end \<and> column_start + lit 1 1 < start_time then lit 125 100 else hold_factor,
         fmin (abs (end_time - column_end)) closest_end_time)))"

definition mania_strain_value_of ::
  "libm \<Rightarrow> mania_difficulty_object \<Rightarrow> mania_strain \<Rightarrow> (f64 \<times> mania_strain) option" where
  "mania_strain_value_of lm cur self =
    (let start_time = mdo_start_time cur; end_time = mdo_end_time cur; column = mdo_base_column cur;
         (is_overlapping, hold_factor, closest_end_time) =
           fold (strain_column_step self start_time end_time) [0..<length (ms_end_times self)]
             (False, lit 1 1, abs (end_time - start_time));
         hold_addition = (if is_overlapping then logistic lm closest_end_time (lit 30 1) (lit 27 100) None else lit 0 1)
     in if column < length (ms_individual_strains self) \<and> column < length (ms_start_times self)
          \<and> column < length (ms_end_times self)
        then let individual = apply_decay lm (ms_individual_strains self ! column) (start_time - ms_start_times self ! column)
                   (lit 125 1000) + lit 2 1 * hold_factor;
                 self = self\<lparr>ms_individual_strains := (ms_individual_strains self)[column := individual]\<rparr>;
                 self = self\<lparr>ms_individual_strain :=
                   (if mdo_delta_time cur \<le> lit 1 1 then fmax (ms_individual_strain self) individual else individual)\<rparr>;
                 self = self\<lparr>ms_overall_strain := apply_decay lm (ms_overall_strain self) (mdo_delta_time cur) (lit 3 10)
                   + (lit 1 1 + hold_addition) * hold_factor\<rparr>;
                 self = self\<lparr>ms_start_times := (ms_start_times self)[column := start_time],
                   ms_end_times := (ms_end_times self)[column := end_time]\<rparr>
             in Some (ms_individual_strain self + ms_overall_strain self - sk_current_strain self, self)
        else None)"

definition mania_prev_start_time :: "mania_difficulty_object list \<Rightarrow> mania_difficulty_object \<Rightarrow> f64" where
  "mania_prev_start_time objs cur = map_or (lit 0 1) mdo_start_time (previous_object (mdo_idx cur) 0 objs)"

definition mania_process ::
  "libm \<Rightarrow> mania_difficulty_object list \<Rightarrow> mania_difficulty_object \<Rightarrow> mania_strain \<Rightarrow> mania_strain option" where
  "mania_process lm objs cur = skill_process (lit 400 1) (mania_initial_strain lm (mania_prev_start_time objs cur))
     (decay_strain_value lm (lit 1 1) (lit 1 1) (mania_strain_value_of lm cur) (mdo_delta_time cur))
     (mdo_idx cur) (mdo_start_time cur)"

definition mania_strain_difficulty_value :: "mania_strain \<Rightarrow> f64" where
  "mania_strain_difficulty_value self = skill_difficulty_value (lit 9 10) (current_strain_peaks self)"

section \<open>Calculation\<close>

record mania_difficulty_values =
  mdv_strain :: mania_strain
  mdv_max_combo :: u32
  mdv_n_hold_notes :: u32

definition mania_total_columns :: "('p, 's) beatmap \<Rightarrow> f32" where
  "mania_total_columns bm = fmax32 (round_even32 (bm_cs bm)) (lit32 1 1)"

definition mania_values ::
  "libm \<Rightarrow> ('p, 's) rosu_map \<Rightarrow> ('mods \<Rightarrow> f64) \<Rightarrow> 'mods difficulty \<Rightarrow> ('p, 's) beatmap \<Rightarrow> mania_difficulty_values option" where
  "mania_values lm rm rate_of_mods d bm =
    (let n = unat (get_passed_objects d);
         total_columns = mania_total_columns bm;
         clock_rate = get_clock_rate rate_of_mods d;
         (objs, params) = mania_objects rm bm total_columns (take n (bm_hit_objects bm)) object_params_new;
         diff_objects = mania_diff_objects clock_rate objs
     in map_option (\<lambda>strain. \<lparr>mdv_strain = strain, mdv_max_combo = op_max_combo params, mdv_n_hold_notes = op_n_hold_notes params\<rparr>)
          (process_all (mania_process lm diff_objects) diff_objects (mania_strain_new (as_usize32 total_columns))))"

definition mania_difficulty_multiplier :: f64 where
  "mania_difficulty_multiplier = lit 18 1000"

definition mania_attributes ::
  "libm \<Rightarrow> ('p, 's) rosu_map \<Rightarrow> ('mods \<Rightarrow> f64) \<Rightarrow> 'mods difficulty \<Rightarrow> ('p, 's) beatmap \<Rightarrow> mania_difficulty_attributes option" where
  "mania_attributes lm rm rate_of_mods d bm =
    map_option (\<lambda>vs. \<lparr>md_stars = mania_strain_difficulty_value (mdv_strain vs) * mania_difficulty_multiplier,
        md_n_objects = word_of_nat (min (unat (get_passed_objects d)) (length (bm_hit_objects bm))),
        md_n_hold_notes = mdv_n_hold_notes vs, md_max_combo = mdv_max_combo vs, md_is_convert = bm_is_convert bm\<rparr>)
      (mania_values lm rm rate_of_mods d bm)"

text \<open>The map is converted to the mode first; the outer option is that of the calculation.\<close>

definition mania_difficulty ::
  "libm \<Rightarrow> ('p, 's) rosu_map \<Rightarrow> ('mods \<Rightarrow> f64) \<Rightarrow> ('p, 's, 'mods) converters \<Rightarrow> 'mods difficulty \<Rightarrow> ('p, 's) beatmap
    \<Rightarrow> (convert_error + mania_difficulty_attributes) option" where
  "mania_difficulty lm rm rate_of_mods cv d bm = (case convert_ref cv Mania (d_mods d) bm of
      Inl e \<Rightarrow> Some (Inl e)
    | Inr bm \<Rightarrow> map_option Inr (mania_attributes lm rm rate_of_mods d (cow_get bm)))"

definition mania_strains ::
  "libm \<Rightarrow> ('p, 's) rosu_map \<Rightarrow> ('mods \<Rightarrow> f64) \<Rightarrow> ('p, 's, 'mods) converters \<Rightarrow> 'mods difficulty \<Rightarrow> ('p, 's) beatmap
    \<Rightarrow> (convert_error + f64 list) option" where
  "mania_strains lm rm rate_of_mods cv d bm = (case convert_ref cv Mania (d_mods d) bm of
      Inl e \<Rightarrow> Some (Inl e)
    | Inr bm \<Rightarrow> map_option (\<lambda>vs. Inr (sv_into_vec (current_strain_peaks (mdv_strain vs))))
        (mania_values lm rm rate_of_mods d (cow_get bm)))"

section \<open>Columns\<close>

lemma as_usize32_val:
  assumes "is_fin32 x" "0 \<le> fval32 x" "fval32 x \<le> 2 ^ 24"
  shows "as_usize32 x = nat \<lfloor>fval32 x\<rfloor>"
proof -
  have x: "fval (f64_of_f32 x) = fval32 x" by (rule f64_of_f32_exact [OF assms(1)])
  have n: "\<not> is_nan32 x" "\<not> is_inf32 x" using assms(1) by (auto simp: is_fin32_def is_nan32_def is_inf32_def)
  have "int (ipart (f64_of_f32 x)) = \<lfloor>fval32 x\<rfloor>" using ipart_floor [of "f64_of_f32 x"] assms(2) x by simp
  then have i: "ipart (f64_of_f32 x) = nat \<lfloor>fval32 x\<rfloor>" by linarith
  have "\<lfloor>fval32 x\<rfloor> \<le> \<lfloor>2 ^ 24 :: real\<rfloor>" by (rule floor_mono [OF assms(3)])
  then have "\<lfloor>fval32 x\<rfloor> \<le> 2 ^ 24" by simp
  then have m: "nat \<lfloor>fval32 x\<rfloor> \<le> 2 ^ 64 - 1" unfolding nat_le_iff by simp
  have "fval32 x = 0" if "sgn32 x" using that assms(2) gval_nonneg [of 23 149 "magn32 x"] by (simp add: fval32_def)
  then show ?thesis using n m i by (auto simp: as_usize32_def)
qed

lemma mania_column_less:
  assumes "is_fin32 cols" "fval32 cols = real k" "1 \<le> k" "k \<le> 2 ^ 24"
  shows "mania_column x cols < k" "as_usize32 cols = k"
proof -
  show "as_usize32 cols = k" using as_usize32_val [OF assms(1)] assms(2,4) by simp
  define m where "m = cols - lit32 1 1"
  have one: "fval32 (lit32 1 1) = real 1" "is_fin32 (lit32 1 1)" by (rule lit32_int; simp)+
  have d: "fval32 cols - fval32 (lit32 1 1) = real_of_int (int k - 1)" unfolding assms(2) one(1) by simp
  have kr: "real k \<le> 2 ^ 24" using assms(4) by (metis of_nat_le_iff of_nat_numeral of_nat_power)
  then have "\<bar>fval32 cols - fval32 (lit32 1 1)\<bar> < 2 ^ 52" unfolding d using assms(3) by simp
  then have "rounds32_to m (real_of_int (int k - 1))" unfolding m_def using arith32_rounds(2) [OF assms(1) one(2)] d by simp
  then have m: "fval32 m = real_of_int (int k - 1)" "is_fin32 m"
    using rounds32_int [of m "int k - 1"] assms(3,4) by simp_all
  define v where "v = fmin32 (floor32 (x / (lit32 512 1 / cols))) m"
  have mn: "\<not> is_nan32 m" using m(2) by (simp add: is_fin32_def is_nan32_def)
  have v: "\<not> is_nan32 v" "key32 v \<le> key32 m"
    using mn unfolding v_def fmin32_def by (auto simp: less_f32_def)
  then have vm: "fval32 v \<le> real k - 1" using key32_fval [of v m] m(1) assms(3) by simp
  have "as_usize32 v < k"
  proof (cases "sgn32 v")
    case False
    then have p: "0 \<le> fval32 v" using gval_nonneg [of 23 149 "magn32 v"] by (simp add: fval32_def)
    have z: "fval32 (lit32 0 1) = 0" "is_fin32 (lit32 0 1)" using lit32_int [of 0] by simp_all
    have f: "is_fin32 v" by (rule fin32_between [OF z(2) m(2)]) (use p vm m(1) assms(3) z in simp_all)
    have "fval32 v \<le> 2 ^ 24" using vm kr by linarith
    note as_usize32_val [OF f p this]
    moreover have "\<lfloor>fval32 v\<rfloor> \<le> int k - 1" using vm by linarith
    ultimately show ?thesis using assms(3) by linarith
  qed (use assms(3) in \<open>simp add: as_usize32_def\<close>)
  then show "mania_column x cols < k" by (simp add: mania_column_def v_def m_def Let_def)
qed

lemma fround_even_val:
  assumes "is_fin x" "\<bar>fval x\<bar> \<le> real K" "K < 2 ^ 52"
  shows "\<exists>n. \<bar>n\<bar> \<le> int K \<and> fval (fround_even x) = real_of_int n \<and> is_fin (fround_even x)"
proof -
  define b where "b = (if frac_den x < 2 * frac_num x \<or> frac_den x = 2 * frac_num x \<and> odd (ipart x) then 1 else (0::nat))"
  have i: "int (ipart x) = \<lfloor>\<bar>fval x\<bar>\<rfloor>" by (rule ipart_floor)
  have "0 < frac_num x" if "b = 1"
    using that zero_less_power [of "2::nat" "1074 - fex x"] by (cases "frac_num x = 0") (auto simp: b_def frac_den_def split: if_splits)
  then have hf: "has_frac x" if "b = 1" using that by (auto simp: frac_num_def has_frac_def split: if_splits)
  have "ipart x + b \<le> K"
  proof (cases "b = 1")
    case True
    then have "real (ipart x) \<noteq> \<bar>fval x\<bar>" using hf has_frac_iff by blast
    moreover have "real (ipart x) = real_of_int \<lfloor>\<bar>fval x\<bar>\<rfloor>" using i by (metis of_int_of_nat_eq)
    ultimately have "real (ipart x) < real K" using assms(2) by linarith
    then show ?thesis using True by simp
  next
    case False
    then have "b = 0" by (simp add: b_def split: if_splits)
    moreover have "\<lfloor>\<bar>fval x\<bar>\<rfloor> \<le> int K" using assms(2) by linarith
    ultimately show ?thesis using i by simp
  qed
  then have n: "ipart x + b < 2 ^ 53" "\<bar>(if sgn_bit x then - int (ipart x + b) else int (ipart x + b))\<bar> \<le> int K"
    using assms(3) by simp_all
  have r: "fround_even x = round_ratio (sgn_bit x) (ipart x + b) 1" using assms(1) by (simp add: fround_even_def b_def)
  show ?thesis using n(2) round_ratio_of_nat [OF n(1), of "sgn_bit x"] unfolding r
    by (intro exI [of _ "if sgn_bit x then - int (ipart x + b) else int (ipart x + b)"]) (simp add: signed_def)
qed

lemma round_even32_sgn: "sgn32 x \<Longrightarrow> \<not> is_nan32 x \<Longrightarrow> sgn32 (round_even32 x)"
proof -
  assume x: "sgn32 x" "\<not> is_nan32 x"
  have d: "sgn_bit (round_dyad s n i c) = s" "\<not> is_nan (round_dyad s n i c)" for s n i c
    using rounds_to_not_nan [OF round_dyad_rounds] by (simp_all add: round_dyad_def split: prod.split)
  have i: "sgn_bit (finf s) = s" "\<not> is_nan (finf s)" "sgn_bit (fzero s) = s" "\<not> is_nan (fzero s)" for s
    by (simp_all add: finf_def fzero_def is_nan_def inf_mag_def)
  have a: "sgn_bit (f64_of_f32 x)" "\<not> is_nan (f64_of_f32 x)" using x d i by (simp_all add: f64_of_f32_def)
  then have "sgn_bit (fround_even (f64_of_f32 x))" "\<not> is_nan (fround_even (f64_of_f32 x))" by (simp_all add: fround_even_def)
  moreover have "min inf_mag32 m < 2147483648" for m by (simp add: inf_mag32_def min_def)
  moreover have "inf_mag32 < 2147483648" by (simp add: inf_mag32_def)
  ultimately show ?thesis by (auto simp: round_even32_def f32_of_f64_def round_ratio32_def split: prod.split)
qed

lemma round_even32_nan: "is_nan32 x \<Longrightarrow> is_nan32 (round_even32 x)"
proof -
  assume "is_nan32 x"
  then have "f64_of_f32 x = f64_nan" by (simp add: f64_of_f32_def)
  moreover have n: "is_nan f64_nan" "\<not> is_fin f64_nan" by (simp_all add: f64_nan_def is_nan_def is_fin_def inf_mag_def)
  moreover have "is_nan32 (F32 2143289344)" by (simp add: is_nan32_def magn32_def inf_mag32_def)
  ultimately show ?thesis by (simp add: round_even32_def fround_even_def f32_of_f64_def)
qed

text \<open>Up to \<open>2 ^ 24\<close> the number of columns is an integer and at least one.\<close>

lemma mania_columns:
  assumes "\<not> lit32 16777216 1 < bm_cs bm"
  shows "\<exists>k. 1 \<le> k \<and> k \<le> 2 ^ 24 \<and> is_fin32 (mania_total_columns bm) \<and> fval32 (mania_total_columns bm) = real k"
proof -
  let ?cs = "bm_cs bm"
  define r where "r = round_even32 ?cs"
  have one: "fval32 (lit32 1 1) = real 1" "is_fin32 (lit32 1 1)" by (rule lit32_int; simp)+
  have big: "fval32 (lit32 16777216 1) = real 16777216" "is_fin32 (lit32 16777216 1)" by (rule lit32_int; simp)+
  have nn: "\<not> is_nan32 (lit32 1 1)" "\<not> is_nan32 (lit32 16777216 1)" using one(2) big(2) by (auto simp: is_fin32_def is_nan32_def)
  have "key32 (F32 0) = 0" "fval32 (F32 0) = 0" by (simp_all add: key32_def fval32_def magn32_def sgn32_def)
  then have key1: "0 < key32 (lit32 1 1)" using key32_fval_less [of "F32 0" "lit32 1 1"] one(1) by simp
  consider (small) "is_nan32 r \<or> \<not> lit32 1 1 < r" | (int) n where "n \<le> 2 ^ 24" "is_fin32 r" "fval32 r = real_of_int n"
  proof -
    consider "is_nan32 ?cs" | "sgn32 ?cs" "\<not> is_nan32 ?cs" | "\<not> sgn32 ?cs" "\<not> is_nan32 ?cs" by blast
    then show ?thesis
    proof cases
      case 1
      then show ?thesis using round_even32_nan that(1) by (simp add: r_def)
    next
      case 2
      then have "sgn32 r" using round_even32_sgn by (simp add: r_def)
      then have "\<not> lit32 1 1 < r" using key1 by (simp add: less_f32_def key32_def)
      then show ?thesis using that(1) by blast
    next
      case 3
      then have le: "key32 ?cs \<le> key32 (lit32 16777216 1)" using assms nn(2) by (simp add: less_f32_def)
      then have b: "fval32 ?cs \<le> real 16777216" using key32_fval [of ?cs "lit32 16777216 1"] big(1) by simp
      have p: "0 \<le> fval32 ?cs" using 3(1) gval_nonneg [of 23 149 "magn32 ?cs"] by (simp add: fval32_def)
      have z: "fval32 (lit32 0 1) = 0" "is_fin32 (lit32 0 1)" using lit32_int [of 0] by simp_all
      have f: "is_fin32 ?cs" by (rule fin32_between [OF z(2) big(2)]) (use z(1) big(1) p b in simp_all)
      obtain n where n: "\<bar>n\<bar> \<le> int 16777216" "fval (fround_even (f64_of_f32 ?cs)) = real_of_int n" "is_fin (fround_even (f64_of_f32 ?cs))"
        using fround_even_val [of "f64_of_f32 ?cs" 16777216] f64_of_f32_exact [OF f] p b by auto
      then have "rounds32_to r (real_of_int n)" using f32_of_f64_rounds [OF n(3)] by (simp add: r_def round_even32_def)
      then have "fval32 r = real_of_int n" "is_fin32 r" using rounds32_int [of r n] n(1) by simp_all
      then show ?thesis using n(1) that(2) [of n] by simp
    qed
  qed
  then show ?thesis
  proof cases
    case small
    then have "mania_total_columns bm = lit32 1 1 \<or> mania_total_columns bm = r \<and> \<not> is_nan32 r \<and> \<not> lit32 1 1 < r \<and> False"
      using nn(1) unfolding mania_total_columns_def r_def [symmetric] by (auto simp: fmax32_def)
    then show ?thesis using one by (intro exI [of _ 1]) auto
  next
    case int
    then have "mania_total_columns bm = (if lit32 1 1 < r then r else lit32 1 1)"
      using nn(1) unfolding mania_total_columns_def r_def [symmetric] by (auto simp: fmax32_def is_fin32_def is_nan32_def)
    moreover have "1 \<le> n" if "lit32 1 1 < r" using that less32_fin [OF one(2) int(2)] one(1) int(3) by simp
    ultimately show ?thesis using one int by (cases "lit32 1 1 < r") (auto intro: exI [of _ 1] exI [of _ "nat n"])
  qed
qed

section \<open>Objects and their difficulty objects\<close>

definition mania_object_of :: "('p, 's) rosu_map \<Rightarrow> ('p, 's) beatmap \<Rightarrow> f32 \<Rightarrow> ('p, 's) hit_object \<Rightarrow> mania_object" where
  "mania_object_of rm bm cols h = fst (mania_object_new rm bm h cols object_params_new)"

text \<open>What an object adds to the combo.\<close>

definition object_combo :: "('p, 's) rosu_map \<Rightarrow> ('p, 's) beatmap \<Rightarrow> ('p, 's) hit_object \<Rightarrow> u32" where
  "object_combo rm bm h = (case ho_kind h of
      Circle \<Rightarrow> 1
    | Slider slider \<Rightarrow> 1 + as_u32 (mania_slider_duration rm bm slider (ho_start_time h) / lit 100 1)
    | Spinner duration \<Rightarrow> 1 + as_u32 (duration / lit 100 1)
    | Hold duration \<Rightarrow> 1 + as_u32 (duration / lit 100 1))"

lemma mania_object_new_parts:
  "fst (mania_object_new rm bm h cols params) = mania_object_of rm bm cols h"
  "op_max_combo (snd (mania_object_new rm bm h cols params)) = op_max_combo params + object_combo rm bm h"
  "op_n_hold_notes (snd (mania_object_new rm bm h cols params)) = op_n_hold_notes params + (if is_circle h then 0 else 1)"
  by (simp_all add: mania_object_of_def mania_object_new_def object_combo_def is_circle_def Let_def split: hit_object_kind.split)

lemma mania_object_of_parts:
  "mo_start_time (mania_object_of rm bm cols h) = ho_start_time h"
  "mo_column (mania_object_of rm bm cols h) = mania_column (px (ho_pos h)) cols"
  by (simp_all add: mania_object_of_def mania_object_new_def Let_def split: hit_object_kind.split)

lemma mania_objects_are:
  "\<exists>params'. mania_objects rm bm cols hs params = (map (mania_object_of rm bm cols) hs, params')
    \<and> op_max_combo params' = op_max_combo params + sum_list (map (object_combo rm bm) hs)
    \<and> op_n_hold_notes params' = op_n_hold_notes params + word_of_nat (length (filter (\<lambda>h. \<not> is_circle h) hs))"
proof (induction hs arbitrary: params)
  case (Cons h hs)
  obtain b params' where b: "mania_object_new rm bm h cols params = (b, params')" by fastforce
  note p = mania_object_new_parts [of rm bm h cols params, unfolded b fst_conv snd_conv]
  obtain params2 where "mania_objects rm bm cols hs params' = (map (mania_object_of rm bm cols) hs, params2)"
    "op_max_combo params2 = op_max_combo params' + sum_list (map (object_combo rm bm) hs)"
    "op_n_hold_notes params2 = op_n_hold_notes params' + word_of_nat (length (filter (\<lambda>h. \<not> is_circle h) hs))"
    using Cons.IH [of params'] by blast
  then show ?case using p by (simp add: b)
qed simp

lemma mania_diff_objects_from_length [simp]: "length (mania_diff_objects_from rate b i bs) = length bs"
  by (induction bs arbitrary: b i) simp_all

lemma mania_diff_objects_from_nth:
  "j < length bs \<Longrightarrow> mania_diff_objects_from rate b i bs ! j
    = mania_difficulty_object_new (bs ! j) ((b # bs) ! j) rate (i + j)"
proof (induction bs arbitrary: b i j)
  case (Cons x bs)
  show ?case using Cons.prems Cons.IH [of "j - 1" x "i + 1"] by (cases j) auto
qed simp

lemma mania_diff_objects_nth:
  "length (mania_diff_objects rate objs) = length objs - 1"
  "j < length objs - 1 \<Longrightarrow> mania_diff_objects rate objs ! j = mania_difficulty_object_new (objs ! (j + 1)) (objs ! j) rate j"
  by (cases objs; simp add: mania_diff_objects_def mania_diff_objects_from_nth)+

lemma mania_diff_objects_take: "mania_diff_objects rate (take n objs) = take (n - 1) (mania_diff_objects rate objs)"
  by (rule nth_equalityI) (auto simp: mania_diff_objects_nth)

section \<open>The strain skill\<close>

definition mania_strain_inv :: "nat \<Rightarrow> mania_strain \<Rightarrow> bool" where
  "mania_strain_inv k self \<longleftrightarrow> length (ms_start_times self) = k \<and> length (ms_end_times self) = k
    \<and> length (ms_individual_strains self) = k"

lemma mania_strain_value_total:
  assumes "mdo_base_column c < k" "mania_strain_inv k self"
  shows "\<exists>v self'. decay_strain_value lm b m (mania_strain_value_of lm c) t self = Some (v, self') \<and> mania_strain_inv k self'
    \<and> sk_section_end self' = sk_section_end self \<and> sk_strain_peaks self' = sk_strain_peaks self
    \<and> sk_object_strains self' = sk_object_strains self"
  using assms unfolding decay_strain_value_def mania_strain_value_of_def mania_strain_inv_def
  by (auto simp: Let_def split: prod.split)

interpretation mania_skill: skill "lit 400 1" 400
  "\<lambda>c. mania_initial_strain lm (mania_prev_start_time objs c)"
  "\<lambda>c. decay_strain_value lm (lit 1 1) (lit 1 1) (mania_strain_value_of lm c) (mdo_delta_time c)"
  mdo_idx mdo_start_time "\<lambda>c. mdo_base_column c < k" "mania_strain_inv k"
  for lm objs k
proof (unfold_locales, goal_cases)
  case 1
  show ?case using lit_int [of 400] by (simp add: int_f64_def)
next
  case (6 c s)
  then show ?case by (rule mania_strain_value_total)
qed (simp_all add: mania_strain_inv_def)

section \<open>The calculation returns\<close>

lemma mania_timed_objects:
  assumes "timed_list (map mo_start_time objs)" "clock_rate_ok rate" "\<forall>b\<in>set objs. mo_column b < k"
  shows "\<forall>c\<in>set (mania_diff_objects rate objs). mdo_base_column c < k \<and> is_fin (mdo_start_time c) \<and> \<bar>fval (mdo_start_time c)\<bar> < 2 ^ 51"
    and "\<forall>i<length (mania_diff_objects rate objs). mdo_idx (mania_diff_objects rate objs ! i) = i"
    and "sorted (map (fval \<circ> mdo_start_time) (mania_diff_objects rate objs))"
proof -
  let ?ds = "mania_diff_objects rate objs"
  have n: "length ?ds = length (map mo_start_time objs) - 1"
    "\<And>i. i < length ?ds \<Longrightarrow> mdo_start_time (?ds ! i) = map mo_start_time objs ! (i + 1) / rate"
    by (simp_all add: mania_diff_objects_nth mania_difficulty_object_new_def)
  note t = scaled_times [OF assms(1,2), of ?ds mdo_start_time, OF n]
  have "mdo_base_column (?ds ! i) < k" if "i < length ?ds" for i
    using that assms(3) by (simp add: mania_diff_objects_nth mania_difficulty_object_new_def)
  then have "\<forall>c\<in>set ?ds. mdo_base_column c < k" by (auto simp: in_set_conv_nth)
  then show "\<forall>c\<in>set ?ds. mdo_base_column c < k \<and> is_fin (mdo_start_time c) \<and> \<bar>fval (mdo_start_time c)\<bar> < 2 ^ 51"
    using t(1) by blast
  show "\<forall>i<length ?ds. mdo_idx (?ds ! i) = i" by (simp add: mania_diff_objects_nth mania_difficulty_object_new_def)
  show "sorted (map (fval \<circ> mdo_start_time) ?ds)" by (rule t(2))
qed

lemma mania_strain_new_ok:
  "mania_strain_inv k (mania_strain_new k)" "int_f64 0 (sk_section_end (mania_strain_new k))"
  "sk_strain_peaks (mania_strain_new k) = sv_new" "sk_object_strains (mania_strain_new k) = []"
  using lit_int [of 0] by (simp_all add: mania_strain_new_def mania_strain_inv_def int_f64_def)

definition mania_map_ok :: "('p, 's) beatmap \<Rightarrow> bool" where
  "mania_map_ok bm \<longleftrightarrow> timed_list (map ho_start_time (bm_hit_objects bm)) \<and> \<not> lit32 16777216 1 < bm_cs bm"

lemma mania_diff_starts:
  "map mdo_start_time (mania_diff_objects rate (map (mania_object_of rm bm cols) hs)) = map (\<lambda>h. ho_start_time h / rate) (drop 1 hs)"
proof (rule nth_equalityI)
  fix i assume "i < length (map mdo_start_time (mania_diff_objects rate (map (mania_object_of rm bm cols) hs)))"
  then have "i < length hs - 1" by (simp add: mania_diff_objects_nth)
  moreover from this have "drop 1 hs ! i = hs ! (i + 1)" by (cases hs) simp_all
  ultimately show "map mdo_start_time (mania_diff_objects rate (map (mania_object_of rm bm cols) hs)) ! i
    = map (\<lambda>h. ho_start_time h / rate) (drop 1 hs) ! i"
    by (simp add: mania_diff_objects_nth mania_difficulty_object_new_def mania_object_of_parts)
qed (simp add: mania_diff_objects_nth)

lemma mania_values_return:
  assumes "mania_map_ok bm" "clock_rate_ok (get_clock_rate rate_of_mods d)"
  shows "\<exists>vs peaks. mania_values lm rm rate_of_mods d bm = Some vs
    \<and> mdv_n_hold_notes vs = word_of_nat (length (filter (\<lambda>h. \<not> is_circle h) (take (unat (get_passed_objects d)) (bm_hit_objects bm))))
    \<and> mdv_max_combo vs = sum_list (map (object_combo rm bm) (take (unat (get_passed_objects d)) (bm_hit_objects bm)))
    \<and> sk_strain_peaks (mdv_strain vs) = fold sv_push peaks sv_new
    \<and> length peaks = sections_between 400 (map (\<lambda>h. ho_start_time h / get_clock_rate rate_of_mods d)
        (drop 1 (take (unat (get_passed_objects d)) (bm_hit_objects bm))))
    \<and> length (sk_object_strains (mdv_strain vs)) = length (take (unat (get_passed_objects d)) (bm_hit_objects bm)) - 1"
proof -
  let ?hs = "take (unat (get_passed_objects d)) (bm_hit_objects bm)" and ?cols = "mania_total_columns bm"
    and ?rate = "get_clock_rate rate_of_mods d"
  let ?objs = "map (mania_object_of rm bm ?cols) ?hs"
  let ?ds = "mania_diff_objects ?rate ?objs"
  obtain k where k: "1 \<le> k" "k \<le> 2 ^ 24" "is_fin32 ?cols" "fval32 ?cols = real k"
    using mania_columns assms(1) unfolding mania_map_ok_def by blast
  obtain params where params: "mania_objects rm bm ?cols ?hs object_params_new = (?objs, params)"
    "op_max_combo params = sum_list (map (object_combo rm bm) ?hs)"
    "op_n_hold_notes params = word_of_nat (length (filter (\<lambda>h. \<not> is_circle h) ?hs))"
    using mania_objects_are [of rm bm ?cols ?hs object_params_new] by (auto simp: object_params_new_def)
  have "timed_list (map mo_start_time ?objs)"
    using timed_list_take [of "map ho_start_time (bm_hit_objects bm)"] assms(1)
    by (simp add: mania_map_ok_def mania_object_of_parts take_map [symmetric] comp_def)
  moreover have "\<forall>b\<in>set ?objs. mo_column b < k" using mania_column_less [OF k(3,4,1,2)] by (simp add: mania_object_of_parts)
  ultimately have ds: "\<forall>c\<in>set ?ds. mdo_base_column c < k \<and> is_fin (mdo_start_time c) \<and> \<bar>fval (mdo_start_time c)\<bar> < 2 ^ 51"
    "\<forall>i<length ?ds. mdo_idx (?ds ! i) = i" "sorted (map (fval \<circ> mdo_start_time) ?ds)"
    using mania_timed_objects [OF _ assms(2)] by blast+
  have pr: "mania_process lm ?ds = (\<lambda>c. skill_process (lit 400 1) (mania_initial_strain lm (mania_prev_start_time ?ds c))
     (decay_strain_value lm (lit 1 1) (lit 1 1) (mania_strain_value_of lm c) (mdo_delta_time c)) (mdo_idx c) (mdo_start_time c))"
    by (rule ext) (rule mania_process_def)
  have "\<exists>strain peaks. process_all (mania_process lm ?ds) ?ds (mania_strain_new k) = Some strain
    \<and> sk_strain_peaks strain = fold sv_push peaks sv_new \<and> length (sk_object_strains strain) = length ?ds
    \<and> length peaks = (if ?ds = [] then 0
        else nat \<lceil>(fval (mdo_start_time (last ?ds)) - real_of_int (first_section_end (lit 400 1) 400 (mdo_start_time (hd ?ds)))) / real 400\<rceil>)"
    using mania_skill.process_all_ends [OF ds mania_strain_new_ok(1,2), of lm ?ds]
    unfolding pr mania_strain_new_ok list.size(3) add_0 by fastforce
  then
  obtain strain peaks where st: "process_all (mania_process lm ?ds) ?ds (mania_strain_new k) = Some strain"
    "sk_strain_peaks strain = fold sv_push peaks sv_new" "length (sk_object_strains strain) = length ?ds"
    "length peaks = (if ?ds = [] then 0
        else nat \<lceil>(fval (mdo_start_time (last ?ds)) - real_of_int (first_section_end (lit 400 1) 400 (mdo_start_time (hd ?ds)))) / real 400\<rceil>)" by blast
  note starts = mania_diff_starts [of ?rate rm bm ?cols ?hs, symmetric]
  have "length peaks = sections_between 400 (map (\<lambda>h. ho_start_time h / ?rate) (drop 1 ?hs))"
    unfolding starts sections_between_def st(4) by (auto simp: last_map hd_map)
  moreover have "length (sk_object_strains strain) = length ?hs - 1" unfolding st(3) by (simp add: mania_diff_objects_nth)
  ultimately show ?thesis using st(1,2) params mania_column_less(2) [OF k(3,4,1,2)]
    by (intro exI [of _ "\<lparr>mdv_strain = strain, mdv_max_combo = op_max_combo params, mdv_n_hold_notes = op_n_hold_notes params\<rparr>"] exI [of _ peaks])
      (simp add: mania_values_def Let_def)
qed

text \<open>
  C6. For every osu!mania map whose objects come in order, within three centuries, on at most
  \<open>2 ^ 24\<close> columns, the calculation returns: no loop over sections goes on forever and no column
  is out of bounds. The objects, the hold notes and the combo are those of the passed objects,
  and there is one strain for every section of 400 ms from the first difficulty object on.
\<close>

theorem mania_difficulty_returns:
  assumes "bm_mode bm = Mania" "mania_map_ok bm" "clock_rate_ok (get_clock_rate rate_of_mods d)"
    "hs = take (unat (get_passed_objects d)) (bm_hit_objects bm)"
  shows "\<exists>a strains. mania_difficulty lm rm rate_of_mods cv d bm = Some (Inr a)
    \<and> md_n_objects a = word_of_nat (length hs)
    \<and> md_n_hold_notes a = word_of_nat (length (filter (\<lambda>h. \<not> is_circle h) hs))
    \<and> md_max_combo a = sum_list (map (object_combo rm bm) hs)
    \<and> mania_strains lm rm rate_of_mods cv d bm = Some (Inr strains)
    \<and> length strains = 1 + sections_between 400 (map (\<lambda>h. ho_start_time h / get_clock_rate rate_of_mods d) (drop 1 hs))"
proof -
  let ?rate = "get_clock_rate rate_of_mods d"
  obtain vs peaks where vs: "mania_values lm rm rate_of_mods d bm = Some vs"
    "mdv_n_hold_notes vs = word_of_nat (length (filter (\<lambda>h. \<not> is_circle h) hs))"
    "mdv_max_combo vs = sum_list (map (object_combo rm bm) hs)" "sk_strain_peaks (mdv_strain vs) = fold sv_push peaks sv_new"
    "length peaks = sections_between 400 (map (\<lambda>h. ho_start_time h / ?rate) (drop 1 hs))"
    using mania_values_return [OF assms(2,3), of lm rm] unfolding assms(4) by blast
  have "h \<in> set (bm_hit_objects bm)" if "h \<in> set (drop 1 hs)" for h
    using that unfolding assms(4) by (blast dest: in_set_dropD in_set_takeD)
  moreover have "is_fin (ho_start_time h / ?rate) \<and> \<bar>fval (ho_start_time h / ?rate)\<bar> < 2 ^ 51" if "h \<in> set (bm_hit_objects bm)" for h
    using that assms(2) scaled_time [OF _ _ assms(3), of "ho_start_time h"] by (fastforce simp: mania_map_ok_def timed_list_def)
  ultimately have "length peaks < 2 ^ 63 - 1" unfolding vs(5) by (intro sections_between_bound) auto
  then have n: "length (sv_into_vec (current_strain_peaks (mdv_strain vs))) = 1 + length peaks"
    using current_peaks_length [OF vs(4)] by simp
  have "convert_ref cv Mania (d_mods d) bm = Inr (Borrowed bm)" using assms(1) by (simp add: convert_ref_def)
  moreover have "min (unat (get_passed_objects d)) (length (bm_hit_objects bm)) = length hs" by (simp add: assms(4))
  ultimately show ?thesis using vs(1-3) n vs(5) unfolding mania_difficulty_def mania_strains_def mania_attributes_def
    by (simp add: cow_get_def)
qed

definition mania_example :: "(unit, unit) beatmap" where
  "mania_example = (beatmap_default 14)\<lparr>bm_mode := Mania, bm_cs := lit32 4 1, bm_hit_objects :=
     [\<lparr>ho_pos = \<lparr>px = lit32 64 1, py = lit32 0 1\<rparr>, ho_start_time = lit 0 1, ho_kind = Circle\<rparr>,
      \<lparr>ho_pos = \<lparr>px = lit32 192 1, py = lit32 0 1\<rparr>, ho_start_time = lit 98 1, ho_kind = Hold (lit 100 1)\<rparr>]\<rparr>"

lemma mania_example_ok: "bm_mode mania_example = Mania" "mania_map_ok mania_example" "clock_rate_ok (lit 1 1)"
proof -
  have v: "fval (lit 0 1) = 0" "is_fin (lit 0 1)" "fval (lit 98 1) = 98" "is_fin (lit 98 1)" "fval (lit 1 1) = 1" "is_fin (lit 1 1)"
    using lit_int [of 0] lit_int [of 98] lit_int [of 1] by simp_all
  show "bm_mode mania_example = Mania" by (simp add: mania_example_def)
  show "clock_rate_ok (lit 1 1)" using v by (simp add: clock_rate_ok_def)
  have "fval32 (lit32 16777216 1) = real 16777216" "is_fin32 (lit32 16777216 1)" "fval32 (lit32 4 1) = real 4" "is_fin32 (lit32 4 1)"
    by (rule lit32_int; simp)+
  then have "\<not> lit32 16777216 1 < lit32 4 1" by (simp add: less32_fin)
  then show "mania_map_ok mania_example" using v by (simp add: mania_map_ok_def timed_list_def mania_example_def)
qed

theorem mania_difficulty_returns_witness:
  "\<forall>lm rm cv. \<exists>a. mania_difficulty lm rm (\<lambda>_. lit 1 1) cv (difficulty_new ()) mania_example = Some (Inr a)
    \<and> md_n_objects a = 2 \<and> md_n_hold_notes a = 1"
proof (intro allI, goal_cases)
  case (1 lm rm cv)
  let ?d = "difficulty_new ()"
  have r: "clock_rate_ok (get_clock_rate (\<lambda>_. lit 1 1) ?d)"
    using mania_example_ok(3) by (simp add: get_clock_rate_def difficulty_new_def)
  have n: "take (unat (get_passed_objects ?d)) (bm_hit_objects mania_example) = bm_hit_objects mania_example"
    by (simp add: all_passed mania_example_def)
  show ?case
    using mania_difficulty_returns [OF mania_example_ok(1,2) r refl, of lm rm cv, unfolded n]
    by (auto simp: mania_example_def is_circle_def)
qed

end
