(* ===== verification/Mania_Gradual.thy ===== *)
theory Mania_Gradual
  imports Mania_Difficulty Mode_PP Gradual
begin

text \<open>
  The gradual calculators of osu!mania (\<open>src/mania/difficulty/gradual.rs\<close>,
  \<open>src/mania/performance/gradual.rs\<close>): iterators that process one object more at every call.
  They are compared with the regular calculators on a map with as many passed objects.
\<close>

section \<open>Gradual difficulty\<close>

record note_state =
  nt_curr_combo :: u32
  nt_n_hold_notes :: u32

record 'mods mania_gradual =
  mgd_idx :: nat
  mgd_difficulty :: "'mods difficulty"
  mgd_objects_is_circle :: "bool list"
  mgd_is_convert :: bool
  mgd_strain :: mania_strain
  mgd_diff_objects :: "mania_difficulty_object list"
  mgd_note_state :: note_state

definition increment_combo_raw :: "bool \<Rightarrow> f64 \<Rightarrow> f64 \<Rightarrow> note_state \<Rightarrow> note_state" where
  "increment_combo_raw circle start_time end_time st =
    (if circle then st\<lparr>nt_curr_combo := nt_curr_combo st + 1\<rparr>
     else st\<lparr>nt_curr_combo := nt_curr_combo st + (1 + as_u32 ((end_time - start_time) / lit 100 1)),
       nt_n_hold_notes := nt_n_hold_notes st + 1\<rparr>)"

definition increment_combo :: "bool \<Rightarrow> mania_difficulty_object \<Rightarrow> f64 \<Rightarrow> note_state \<Rightarrow> note_state" where
  "increment_combo circle diff_obj clock_rate st =
    increment_combo_raw circle (mdo_start_time diff_obj * clock_rate) (mdo_end_time diff_obj * clock_rate) st"

definition mania_gradual_of_map ::
  "('p, 's) rosu_map \<Rightarrow> ('mods \<Rightarrow> f64) \<Rightarrow> 'mods difficulty \<Rightarrow> ('p, 's) beatmap \<Rightarrow> 'mods mania_gradual" where
  "mania_gradual_of_map rm rate_of_mods d bm =
    (let n = unat (get_passed_objects d);
         total_columns = mania_total_columns bm;
         clock_rate = get_clock_rate rate_of_mods d;
         (objs, params) = mania_objects rm bm total_columns (take n (bm_hit_objects bm)) object_params_new;
         note_state = \<lparr>nt_curr_combo = 0, nt_n_hold_notes = 0\<rparr>
     in \<lparr>mgd_idx = 0, mgd_difficulty = d, mgd_objects_is_circle = map is_circle (bm_hit_objects bm),
         mgd_is_convert = bm_is_convert bm, mgd_strain = mania_strain_new (as_usize32 total_columns),
         mgd_diff_objects = mania_diff_objects clock_rate objs,
         mgd_note_state = (case bm_hit_objects bm of [] \<Rightarrow> note_state
           | h # _ \<Rightarrow> (case mania_object_new rm bm h total_columns params of
                (b, _) \<Rightarrow> increment_combo_raw (is_circle h) (mo_start_time b) (mo_end_time b) note_state))\<rparr>)"

definition mania_gradual_new ::
  "('p, 's) rosu_map \<Rightarrow> ('mods \<Rightarrow> f64) \<Rightarrow> ('p, 's, 'mods) converters \<Rightarrow> 'mods difficulty \<Rightarrow> ('p, 's) beatmap
    \<Rightarrow> convert_error + 'mods mania_gradual" where
  "mania_gradual_new rm rate_of_mods cv d bm = (case convert_ref cv Mania (d_mods d) bm of
      Inl e \<Rightarrow> Inl e
    | Inr bm \<Rightarrow> Inr (mania_gradual_of_map rm rate_of_mods d (cow_get bm)))"

definition mania_gradual_current :: "'mods mania_gradual \<Rightarrow> mania_difficulty_attributes" where
  "mania_gradual_current self = \<lparr>md_stars = mania_strain_difficulty_value (mgd_strain self) * mania_difficulty_multiplier,
     md_n_objects = word_of_nat (mgd_idx self), md_n_hold_notes = nt_n_hold_notes (mgd_note_state self),
     md_max_combo = nt_curr_combo (mgd_note_state self), md_is_convert = mgd_is_convert self\<rparr>"

definition mania_gradual_next ::
  "libm \<Rightarrow> ('mods \<Rightarrow> f64) \<Rightarrow> 'mods mania_gradual \<Rightarrow> (mania_difficulty_attributes option \<times> 'mods mania_gradual) option" where
  "mania_gradual_next lm rate_of_mods self =
    (let finish = (\<lambda>self. let self = self\<lparr>mgd_idx := mgd_idx self + 1\<rparr> in Some (Some (mania_gradual_current self), self))
     in if 0 < mgd_idx self
        then (case get (mgd_diff_objects self) (mgd_idx self - 1) of
            None \<Rightarrow> Some (None, self)
          | Some cur \<Rightarrow> (case (mania_process lm (mgd_diff_objects self) cur (mgd_strain self),
                get (mgd_objects_is_circle self) (mgd_idx self)) of
              (Some strain, Some circle) \<Rightarrow> finish (self\<lparr>mgd_strain := strain,
                mgd_note_state := increment_combo circle cur (get_clock_rate rate_of_mods (mgd_difficulty self)) (mgd_note_state self)\<rparr>)
            | _ \<Rightarrow> None))
        else if mgd_objects_is_circle self = [] then Some (None, self)
        else finish self)"

text \<open>The subtraction of \<open>usize\<close> panics where the index is larger than the length.\<close>

definition mania_gradual_len :: "'mods mania_gradual \<Rightarrow> nat option" where
  "mania_gradual_len self = (let n = length (mgd_diff_objects self) + 1
     in if mgd_idx self \<le> n then Some (n - mgd_idx self) else None)"

text \<open>What \<open>nth\<close> does with an object it skips.\<close>

definition mania_gradual_step ::
  "libm \<Rightarrow> ('mods \<Rightarrow> f64) \<Rightarrow> mania_difficulty_object \<times> bool \<Rightarrow> 'mods mania_gradual \<Rightarrow> 'mods mania_gradual option" where
  "mania_gradual_step lm rate_of_mods = (\<lambda>(cur, circle) self.
    map_option (\<lambda>strain. self\<lparr>mgd_strain := strain,
        mgd_note_state := increment_combo circle cur (get_clock_rate rate_of_mods (mgd_difficulty self)) (mgd_note_state self),
        mgd_idx := mgd_idx self + 1\<rparr>)
      (mania_process lm (mgd_diff_objects self) cur (mgd_strain self)))"

definition mania_gradual_nth ::
  "libm \<Rightarrow> ('mods \<Rightarrow> f64) \<Rightarrow> nat \<Rightarrow> 'mods mania_gradual \<Rightarrow> (mania_difficulty_attributes option \<times> 'mods mania_gradual) option" where
  "mania_gradual_nth lm rate_of_mods n self =
    (case mania_gradual_len self of
       None \<Rightarrow> None
     | Some len \<Rightarrow>
        (let skip_iter = drop (mgd_idx self - 1) (zip (mgd_diff_objects self) (drop 1 (mgd_objects_is_circle self)));
             taken = min n (len - 1);
             (taken, self) = (if mgd_idx self = 0 \<and> 0 < taken then (taken - 1, self\<lparr>mgd_idx := mgd_idx self + 1\<rparr>) else (taken, self))
         in case process_all (mania_gradual_step lm rate_of_mods) (take taken skip_iter) self of
              None \<Rightarrow> None
            | Some self \<Rightarrow> mania_gradual_next lm rate_of_mods self))"

section \<open>Gradual performance\<close>

text \<open>Attributes that were calculated need no conversion, so that \<open>expect\<close> never panics.\<close>

definition mania_gradual_performance_nth ::
  "('l, 'i, 'g) rosu_mods \<Rightarrow> libm \<Rightarrow> ('l, 'i, 'g) game_mods
    \<Rightarrow> (('l, 'i, 'g) game_mods difficulty \<Rightarrow> 'map \<Rightarrow> convert_error + mania_difficulty_attributes)
    \<Rightarrow> mania_score_state \<Rightarrow> nat \<Rightarrow> ('l, 'i, 'g) game_mods mania_gradual
    \<Rightarrow> ((convert_error + mania_performance_attributes) option \<times> ('l, 'i, 'g) game_mods mania_gradual) option" where
  "mania_gradual_performance_nth api lm default_mods calculate_for_mode st n self =
    map_option (\<lambda>(attrs, self). (map_option (\<lambda>attrs. mania_performance_calculate api lm calculate_for_mode
         (mania_set_passed_objects (word_of_nat (mgd_idx self)) (mania_set_difficulty (mgd_difficulty self)
           (mania_set_state st (mania_from_map_or_attrs default_mods (FromAttrs attrs)))))) attrs, self))
      (mania_gradual_nth lm (mods_clock_rate api) n self)"

text \<open>\<open>next\<close> skips nothing, \<open>last\<close> asks for \<open>usize::MAX\<close>.\<close>

definition mania_gradual_performance_next ::
  "('l, 'i, 'g) rosu_mods \<Rightarrow> libm \<Rightarrow> ('l, 'i, 'g) game_mods
    \<Rightarrow> (('l, 'i, 'g) game_mods difficulty \<Rightarrow> 'map \<Rightarrow> convert_error + mania_difficulty_attributes)
    \<Rightarrow> mania_score_state \<Rightarrow> ('l, 'i, 'g) game_mods mania_gradual
    \<Rightarrow> ((convert_error + mania_performance_attributes) option \<times> ('l, 'i, 'g) game_mods mania_gradual) option" where
  "mania_gradual_performance_next api lm default_mods calculate_for_mode st self =
    mania_gradual_performance_nth api lm default_mods calculate_for_mode st 0 self"

definition mania_gradual_performance_last ::
  "('l, 'i, 'g) rosu_mods \<Rightarrow> libm \<Rightarrow> ('l, 'i, 'g) game_mods
    \<Rightarrow> (('l, 'i, 'g) game_mods difficulty \<Rightarrow> 'map \<Rightarrow> convert_error + mania_difficulty_attributes)
    \<Rightarrow> mania_score_state \<Rightarrow> ('l, 'i, 'g) game_mods mania_gradual
    \<Rightarrow> ((convert_error + mania_performance_attributes) option \<times> ('l, 'i, 'g) game_mods mania_gradual) option" where
  "mania_gradual_performance_last api lm default_mods calculate_for_mode st self =
    mania_gradual_performance_nth api lm default_mods calculate_for_mode st (2 ^ 64 - 1) self"

definition mania_gradual_performance_len :: "'mods mania_gradual \<Rightarrow> nat option" where
  "mania_gradual_performance_len self = mania_gradual_len self"

section \<open>The gradual calculator\<close>

text \<open>The index stays on the map, and every difficulty object has its flag.\<close>

definition mania_gradual_wf :: "'mods mania_gradual \<Rightarrow> bool" where
  "mania_gradual_wf g \<longleftrightarrow> length (mgd_diff_objects g) + 1 \<le> max 1 (length (mgd_objects_is_circle g))
    \<and> mgd_idx g \<le> length (mgd_diff_objects g) + 1 \<and> (mgd_objects_is_circle g = [] \<longrightarrow> mgd_idx g = 0)"

lemma mania_gradual_of_map_parts:
  "mgd_diff_objects (mania_gradual_of_map rm rate_of_mods d bm) = mania_diff_objects (get_clock_rate rate_of_mods d)
     (map (mania_object_of rm bm (mania_total_columns bm)) (take (unat (get_passed_objects d)) (bm_hit_objects bm)))"
  "mgd_objects_is_circle (mania_gradual_of_map rm rate_of_mods d bm) = map is_circle (bm_hit_objects bm)"
  "mgd_idx (mania_gradual_of_map rm rate_of_mods d bm) = 0" "mgd_difficulty (mania_gradual_of_map rm rate_of_mods d bm) = d"
  "mgd_strain (mania_gradual_of_map rm rate_of_mods d bm) = mania_strain_new (as_usize32 (mania_total_columns bm))"
  "mgd_is_convert (mania_gradual_of_map rm rate_of_mods d bm) = bm_is_convert bm"
  using mania_objects_are [of rm bm "mania_total_columns bm" "take (unat (get_passed_objects d)) (bm_hit_objects bm)" object_params_new]
  by (auto simp: mania_gradual_of_map_def Let_def)

lemma mania_gradual_wf_new: "mania_gradual_wf (mania_gradual_of_map rm rate_of_mods d bm)"
  by (auto simp: mania_gradual_wf_def mania_gradual_of_map_parts mania_diff_objects_nth)

text \<open>The difficulty objects with their flags.\<close>

definition mania_gradual_items :: "'mods mania_gradual \<Rightarrow> (mania_difficulty_object \<times> bool) list" where
  "mania_gradual_items g = zip (mgd_diff_objects g) (drop 1 (mgd_objects_is_circle g))"

lemma mania_items_length: "mania_gradual_wf g \<Longrightarrow> length (mania_gradual_items g) = length (mgd_diff_objects g)"
  by (auto simp: mania_gradual_wf_def mania_gradual_items_def)

lemma mania_next_step:
  assumes "mania_gradual_wf g" "0 < mgd_idx g"
  shows "mania_gradual_next lm rate_of_mods g = (case get (mania_gradual_items g) (mgd_idx g - 1) of
      None \<Rightarrow> Some (None, g)
    | Some c \<Rightarrow> map_option (\<lambda>g. (Some (mania_gradual_current g), g)) (mania_gradual_step lm rate_of_mods c g))"
proof (cases "mgd_idx g - 1 < length (mgd_diff_objects g)")
  case True
  have l: "length (mgd_diff_objects g) < length (mgd_objects_is_circle g)"
    using assms True by (cases "mgd_objects_is_circle g") (auto simp: mania_gradual_wf_def)
  then have i: "mgd_idx g < length (mgd_objects_is_circle g)" using True by simp
  have "get (mania_gradual_items g) (mgd_idx g - 1) = Some (mgd_diff_objects g ! (mgd_idx g - 1), mgd_objects_is_circle g ! mgd_idx g)"
    "get (mgd_diff_objects g) (mgd_idx g - 1) = Some (mgd_diff_objects g ! (mgd_idx g - 1))"
    "get (mgd_objects_is_circle g) (mgd_idx g) = Some (mgd_objects_is_circle g ! mgd_idx g)"
    using True i l assms(2) mania_items_length [OF assms(1)] by (simp_all add: get_def mania_gradual_items_def)
  then show ?thesis using assms(2) by (simp add: mania_gradual_next_def mania_gradual_step_def Let_def split: option.split)
next
  case False
  then show ?thesis using assms(2) mania_items_length [OF assms(1)] by (simp add: mania_gradual_next_def get_def)
qed

lemma mania_len_wf: "mania_gradual_wf g \<Longrightarrow> mania_gradual_len g = Some (length (mgd_diff_objects g) + 1 - mgd_idx g)"
  by (simp add: mania_gradual_wf_def mania_gradual_len_def)

interpretation mania_iter: gradual mgd_idx mania_gradual_items "\<lambda>g. mgd_objects_is_circle g = []"
  "\<lambda>g. g\<lparr>mgd_idx := mgd_idx g + 1\<rparr>" "mania_gradual_step lm rate_of_mods" mania_gradual_current mania_gradual_wf
  "mania_gradual_next lm rate_of_mods" "mania_gradual_nth lm rate_of_mods"
  for lm rate_of_mods
proof (unfold_locales, goal_cases)
  case (1 g)
  then show ?case using mania_items_length [OF 1] by (simp add: mania_gradual_wf_def)
next
  case (4 g c g')
  then show ?case using mania_items_length [of g]
    by (auto simp: mania_gradual_step_def mania_gradual_wf_def mania_gradual_items_def split: prod.splits)
next
  case (6 g)
  then show ?case by (rule mania_next_step)
next
  case (7 g n)
  then show ?case using mania_items_length [of g] mania_len_wf [of g]
    unfolding mania_gradual_nth_def mania_gradual_items_def [symmetric] by (auto simp: bind_case Let_def)
qed (auto simp: mania_gradual_next_def mania_gradual_wf_def mania_gradual_items_def Let_def)

lemma mania_nth_is_after:
  assumes "mania_gradual_wf g"
  shows "mania_gradual_nth lm rate_of_mods n g
    = after_calls (mania_gradual_next lm rate_of_mods) (min n (length (mgd_diff_objects g) + 1 - mgd_idx g - 1)) g"
  using mania_iter.nth_is_after [OF assms, of lm rate_of_mods n] mania_items_length [OF assms] by simp

text \<open>Calls do not touch the flags of the objects.\<close>

lemma mania_next_flags:
  "mania_gradual_next lm rate_of_mods g = Some (r, g') \<Longrightarrow> mgd_objects_is_circle g' = mgd_objects_is_circle g"
  by (auto simp: mania_gradual_next_def Let_def split: if_splits option.splits)

lemma mania_after_flags:
  "after_calls (mania_gradual_next lm rate_of_mods) n g = Some (r, g') \<Longrightarrow> mgd_objects_is_circle g' = mgd_objects_is_circle g"
  by (induction n arbitrary: g) (auto dest: mania_next_flags split: option.splits)

lemma mania_reachable:
  assumes "gradual_reachable (mania_gradual_next lm rate_of_mods) (mania_gradual_nth lm rate_of_mods) g0 g" "mania_gradual_wf g0"
  shows "mania_gradual_wf g \<and> mgd_objects_is_circle g = mgd_objects_is_circle g0"
  using assms
proof (induction rule: gradual_reachable.induct)
  case (next_call g r g')
  then show ?case using mania_iter.next_keeps [of g lm rate_of_mods r g'] mania_next_flags [of lm rate_of_mods g r g'] by simp
next
  case (nth_call g n r g')
  then have g: "mania_gradual_wf g" "after_calls (mania_gradual_next lm rate_of_mods)
      (min n (length (mgd_diff_objects g) + 1 - mgd_idx g - 1)) g = Some (r, g')"
    using mania_nth_is_after [of g lm rate_of_mods n] by simp_all
  then show ?case using mania_iter.after_keeps [OF g] mania_after_flags [OF g(2)] nth_call by simp
qed simp

text \<open>
  C16. In every state that calls of \<open>next\<close> and \<open>nth\<close> can reach, the index is at most the number
  of objects of the map, so that \<open>len\<close> does not underflow, and \<open>nth n\<close> is \<open>n\<close> calls of
  \<open>next\<close> and one more, as long as objects remain; beyond that it yields the last attributes once
  more instead of \<open>None\<close>, on which the gradual performance calculator relies.
\<close>

theorem mania_gradual_nth_is_next:
  assumes "gradual_reachable (mania_gradual_next lm rate_of_mods) (mania_gradual_nth lm rate_of_mods) (mania_gradual_of_map rm rate_of_mods d bm) g"
  shows "\<exists>len. mania_gradual_len g = Some len \<and> mgd_idx g + len = length (mgd_diff_objects g) + 1
    \<and> mgd_idx g \<le> length (bm_hit_objects bm)
    \<and> mania_gradual_nth lm rate_of_mods n g = after_calls (mania_gradual_next lm rate_of_mods) (min n (len - 1)) g"
proof -
  from mania_reachable [OF assms mania_gradual_wf_new]
  have g: "mania_gradual_wf g" "mgd_objects_is_circle g = map is_circle (bm_hit_objects bm)"
    by (simp_all add: mania_gradual_of_map_parts)
  then have "mgd_idx g \<le> length (bm_hit_objects bm)" "mgd_idx g \<le> length (mgd_diff_objects g) + 1"
    by (cases "bm_hit_objects bm"; simp add: mania_gradual_wf_def)+
  then show ?thesis using mania_nth_is_after [OF g(1)] mania_len_wf [OF g(1)] by simp
qed

theorem mania_gradual_nth_is_next_witness:
  "\<forall>lm rm. mania_gradual_nth lm (\<lambda>_. lit 1 1) 5 (mania_gradual_of_map rm (\<lambda>_. lit 1 1) (difficulty_new ()) mania_example)
    = after_calls (mania_gradual_next lm (\<lambda>_. lit 1 1)) 1 (mania_gradual_of_map rm (\<lambda>_. lit 1 1) (difficulty_new ()) mania_example)"
proof (intro allI, goal_cases)
  case (1 lm rm)
  let ?g = "mania_gradual_of_map rm (\<lambda>_. lit 1 1) (difficulty_new ()) mania_example"
  have "mania_gradual_len ?g = Some 2"
    by (simp add: mania_gradual_len_def mania_gradual_of_map_parts mania_diff_objects_nth all_passed
        mania_example_def)
  then show ?case using mania_gradual_nth_is_next [where lm = lm and rm = rm and rate_of_mods = "\<lambda>_. lit 1 1" and d = "difficulty_new ()"
      and bm = mania_example and n = 5, OF gradual_reachable.start] by simp
qed

section \<open>The gradual calculator is the regular one\<close>

lemma mania_steps_process:
  "length cs = length flags \<Longrightarrow> process_all (mania_gradual_step lm rate_of_mods) (zip cs flags) g =
    map_option (\<lambda>s. g\<lparr>mgd_strain := s, mgd_note_state := fold (\<lambda>(c, circle) st. increment_combo circle c
        (get_clock_rate rate_of_mods (mgd_difficulty g)) st) (zip cs flags) (mgd_note_state g), mgd_idx := mgd_idx g + length cs\<rparr>)
      (process_all (mania_process lm (mgd_diff_objects g)) cs (mgd_strain g))"
proof (induction cs flags arbitrary: g rule: list_induct2)
  case (Cons c cs flag flags)
  show ?case
  proof (cases "mania_process lm (mgd_diff_objects g) c (mgd_strain g)")
    case (Some strain)
    define g' where "g' = g\<lparr>mgd_strain := strain,
         mgd_note_state := increment_combo flag c (get_clock_rate rate_of_mods (mgd_difficulty g)) (mgd_note_state g),
         mgd_idx := mgd_idx g + 1\<rparr>"
    show ?thesis using Some Cons.IH [of g'] by (simp add: g'_def mania_gradual_step_def)
  qed (simp add: mania_gradual_step_def)
qed simp

text \<open>After \<open>i + 1\<close> calls the first \<open>i\<close> difficulty objects are processed.\<close>

lemma mania_gradual_after_process:
  assumes "mania_gradual_wf g" "mgd_idx g = 0" "i \<le> length (mgd_diff_objects g)" "mgd_objects_is_circle g \<noteq> []"
  shows "after_calls (mania_gradual_next lm rate_of_mods) i g = map_option (\<lambda>g. (Some (mania_gradual_current g), g))
    (process_all (mania_gradual_step lm rate_of_mods) (zip (take i (mgd_diff_objects g)) (take i (drop 1 (mgd_objects_is_circle g))))
      (g\<lparr>mgd_idx := 1\<rparr>))"
  using mania_iter.after_new [OF assms(1,2), of i lm rate_of_mods] assms(2-4) mania_items_length [OF assms(1)]
  by (simp add: mania_gradual_items_def take_zip)

lemma hold_notes_after:
  "length cs = length flags \<Longrightarrow> nt_n_hold_notes (fold (\<lambda>(c, circle). increment_combo circle c rate) (zip cs flags) st)
    = nt_n_hold_notes st + word_of_nat (length (filter Not flags))"
  by (induction cs flags arbitrary: st rule: list_induct2) (auto simp: increment_combo_def increment_combo_raw_def)

lemma combo_of_circles:
  "length cs = length flags \<Longrightarrow> \<forall>b\<in>set flags. b \<Longrightarrow> nt_curr_combo (fold (\<lambda>(c, circle). increment_combo circle c rate) (zip cs flags) st)
    = nt_curr_combo st + word_of_nat (length flags)"
  by (induction cs flags arbitrary: st rule: list_induct2) (auto simp: increment_combo_def increment_combo_raw_def)

lemma mania_process_prefix:
  assumes "\<forall>j<length ds. mdo_idx (ds ! j) = j" "c \<in> set (take i ds)"
  shows "mania_process lm (take i ds) c s = mania_process lm ds c s"
proof -
  obtain j where j: "j < length ds" "j < i" "c = ds ! j" using assms(2) by (auto simp: in_set_conv_nth)
  then have "previous_object (mdo_idx c) 0 (take i ds) = previous_object (mdo_idx c) 0 ds"
    using assms(1) by (auto simp: previous_object_def get_def)
  then show ?thesis by (simp add: mania_process_def mania_prev_start_time_def)
qed

text \<open>The notes after the first \<open>i + 1\<close> objects, as the gradual calculator counts them.\<close>

definition mania_notes_after :: "('p, 's) rosu_map \<Rightarrow> f64 \<Rightarrow> ('p, 's) beatmap \<Rightarrow> nat \<Rightarrow> note_state" where
  "mania_notes_after rm rate bm i =
    (let bs = map (mania_object_of rm bm (mania_total_columns bm)) (take (i + 1) (bm_hit_objects bm));
         flags = map is_circle (bm_hit_objects bm)
     in fold (\<lambda>(c, circle) st. increment_combo circle c rate st) (zip (mania_diff_objects rate bs) (take i (drop 1 flags)))
       (increment_combo_raw (hd flags) (mo_start_time (hd bs)) (mo_end_time (hd bs)) \<lparr>nt_curr_combo = 0, nt_n_hold_notes = 0\<rparr>))"

lemma mania_gradual_matches:
  assumes "i < min (unat (get_passed_objects d)) (length (bm_hit_objects bm))" "length (bm_hit_objects bm) < 2 ^ 32"
    "combo = nt_curr_combo (mania_notes_after rm (get_clock_rate rate_of_mods d) bm i)"
  shows "map_option fst (after_calls (mania_gradual_next lm rate_of_mods) i (mania_gradual_of_map rm rate_of_mods d bm))
      = map_option (\<lambda>a. Some (a\<lparr>md_max_combo := combo\<rparr>))
          (mania_attributes lm rm rate_of_mods (set_passed_objects (word_of_nat (i + 1)) d) bm)
    \<and> ((\<forall>h\<in>set (bm_hit_objects bm). is_circle h) \<longrightarrow> combo = word_of_nat (i + 1)
      \<and> (\<forall>a. mania_attributes lm rm rate_of_mods (set_passed_objects (word_of_nat (i + 1)) d) bm = Some a
          \<longrightarrow> md_max_combo a = combo))"
proof -
  let ?p = "unat (get_passed_objects d)" and ?cols = "mania_total_columns bm"
    and ?rate = "get_clock_rate rate_of_mods d" and ?hs = "bm_hit_objects bm"
  define d' where "d' = set_passed_objects (word_of_nat (i + 1)) d"
  define g where "g = mania_gradual_of_map rm rate_of_mods d bm"
  define ds where "ds = mania_diff_objects ?rate (map (mania_object_of rm bm ?cols) (take ?p ?hs))"
  define flags where "flags = take i (drop 1 (map is_circle ?hs))"
  have i: "i < ?p" "i < length ?hs" using assms(1) by simp_all
  note parts = mania_gradual_of_map_parts [of rm rate_of_mods d bm, folded g_def ds_def]
  have l: "length ds = min ?p (length ?hs) - 1" by (simp add: ds_def mania_diff_objects_nth)
  have p: "unat (get_passed_objects d') = i + 1" unfolding d'_def using passed_after_set [of "i + 1" d] i assms(2) by simp
  have rate: "get_clock_rate rate_of_mods d' = ?rate" by (simp add: d'_def get_clock_rate_def set_passed_objects_def)
  have "take (i + 1) (take ?p ?hs) = take (i + 1) ?hs" using i(1) by simp
  then have ds': "mania_diff_objects ?rate (map (mania_object_of rm bm ?cols) (take (i + 1) ?hs)) = take i ds"
    using mania_diff_objects_take [of ?rate "i + 1" "map (mania_object_of rm bm ?cols) (take ?p ?hs)"] by (simp add: take_map ds_def)
  have idx: "\<forall>j<length ds. mdo_idx (ds ! j) = j" by (simp add: ds_def mania_diff_objects_nth mania_difficulty_object_new_def)
  have pr: "process_all (mania_process lm (take i ds)) (take i ds) s = process_all (mania_process lm ds) (take i ds) s" for s
    by (rule process_all_cong) (rule mania_process_prefix [OF idx])
  have fl: "length (take i ds) = length flags" using i l by (simp add: flags_def)
  define nts where "nts = fold (\<lambda>(c, circle). increment_combo circle c ?rate) (zip (take i ds) flags) (mgd_note_state g)"
  have after: "after_calls (mania_gradual_next lm rate_of_mods) i g = map_option (\<lambda>s. let g' = g\<lparr>mgd_strain := s, mgd_note_state := nts, mgd_idx := 1 + i\<rparr>
      in (Some (mania_gradual_current g'), g')) (process_all (mania_process lm ds) (take i ds) (mgd_strain g))"
  proof -
    have "mania_gradual_wf g" unfolding g_def by (rule mania_gradual_wf_new)
    moreover have "?hs \<noteq> []" using i(2) by auto
    ultimately have "after_calls (mania_gradual_next lm rate_of_mods) i g = map_option (\<lambda>g. (Some (mania_gradual_current g), g))
        (process_all (mania_gradual_step lm rate_of_mods) (zip (take i ds) flags) (g\<lparr>mgd_idx := 1\<rparr>))"
      unfolding flags_def using mania_gradual_after_process [of g i lm rate_of_mods] i l by (simp add: parts)
    then show ?thesis using mania_steps_process [OF fl, of lm rate_of_mods "g\<lparr>mgd_idx := 1\<rparr>"] i l
      by (simp add: parts nts_def option.map_comp comp_def Let_def)
  qed
  obtain params where params: "mania_objects rm bm ?cols (take (i + 1) ?hs) object_params_new
      = (map (mania_object_of rm bm ?cols) (take (i + 1) ?hs), params)"
    "op_max_combo params = sum_list (map (object_combo rm bm) (take (i + 1) ?hs))"
    "op_n_hold_notes params = word_of_nat (length (filter (\<lambda>h. \<not> is_circle h) (take (i + 1) ?hs)))"
    using mania_objects_are [of rm bm ?cols "take (i + 1) ?hs" object_params_new] by (auto simp: object_params_new_def)
  have regular: "mania_attributes lm rm rate_of_mods d' bm = map_option (\<lambda>s.
      \<lparr>md_stars = mania_strain_difficulty_value s * mania_difficulty_multiplier, md_n_objects = word_of_nat (i + 1),
        md_n_hold_notes = op_n_hold_notes params, md_max_combo = op_max_combo params, md_is_convert = bm_is_convert bm\<rparr>)
      (process_all (mania_process lm ds) (take i ds) (mgd_strain g))"
    using i by (simp add: mania_attributes_def mania_values_def Let_def p rate params(1) [simplified] ds' [simplified] pr parts option.map_comp comp_def)
  obtain h hs where hs: "?hs = h # hs" using i(2) by (cases ?hs) auto
  have first: "nt_n_hold_notes (mgd_note_state g) = (if is_circle h then 0 else 1)"
    "is_circle h \<Longrightarrow> nt_curr_combo (mgd_note_state g) = 1"
    by (simp_all add: g_def mania_gradual_of_map_def Let_def hs increment_combo_raw_def split: prod.split)
  have f: "flags = map is_circle (take i hs)" by (simp add: flags_def hs take_map)
  have "mgd_note_state g = increment_combo_raw (is_circle h) (mo_start_time (mania_object_of rm bm ?cols h))
      (mo_end_time (mania_object_of rm bm ?cols h)) \<lparr>nt_curr_combo = 0, nt_n_hold_notes = 0\<rparr>"
    using mania_object_new_parts(1) [of rm bm h ?cols]
    by (auto simp: g_def mania_gradual_of_map_def Let_def hs split: prod.split) (metis fst_conv)
  then have nts: "mania_notes_after rm ?rate bm i = nts"
    unfolding mania_notes_after_def Let_def ds' nts_def flags_def by (simp add: hs)
  have holds: "nt_n_hold_notes nts = op_n_hold_notes params"
    using hold_notes_after [OF fl, of ?rate "mgd_note_state g"] first(1) unfolding nts_def params(3) f hs by (simp add: filter_map comp_def)
  have combo: "nt_curr_combo nts = word_of_nat (i + 1) \<and> op_max_combo params = word_of_nat (i + 1)" if "\<forall>h\<in>set ?hs. is_circle h"
  proof -
    have c: "is_circle h" "\<forall>h\<in>set (take i hs). is_circle h" using that hs by (auto dest: in_set_takeD)
    have li: "length (take i hs) = i" using i(2) hs by simp
    have "\<forall>b\<in>set flags. b" using c(2) f by simp
    then have nc: "nt_curr_combo nts = word_of_nat (i + 1)"
      using combo_of_circles [OF fl, of ?rate "mgd_note_state g"] first(2) [OF c(1)] unfolding nts_def by (simp add: f li [simplified length_take])
    have o: "object_combo rm bm x = 1" if "is_circle x" for x
      using that by (simp add: object_combo_def is_circle_def split: hit_object_kind.splits)
    have "map (object_combo rm bm) (take i hs) = map (\<lambda>_. 1) (take i hs)" by (rule map_cong) (use o c(2) in auto)
    then have "map (object_combo rm bm) (take (i + 1) ?hs) = replicate (i + 1) 1"
      using o [OF c(1)] li by (simp add: hs map_replicate_const del: length_take)
    then have "op_max_combo params = word_of_nat (i + 1)" unfolding params(2) by (simp add: sum_list_replicate)
    then show ?thesis using nc by blast
  qed
  show ?thesis unfolding g_def [symmetric] d'_def [symmetric] after regular using combo holds
    by (auto simp: assms(3) nts option.map_comp comp_def Let_def mania_gradual_current_def parts intro!: map_option_cong)
qed

text \<open>
  C7. The gradual calculator agrees with the regular one: its result for the next object after \<open>i\<close>
  others is that of a calculation with \<open>i + 1\<close> passed objects, in stars, objects, hold notes
  and conversion; and in the combo as well where all notes are circles. One returns exactly if
  the other does.
\<close>

theorem mania_gradual_is_regular:
  assumes "i < min (unat (get_passed_objects d)) (length (bm_hit_objects bm))" "length (bm_hit_objects bm) < 2 ^ 32"
  shows "\<exists>combo. map_option fst (after_calls (mania_gradual_next lm rate_of_mods) i (mania_gradual_of_map rm rate_of_mods d bm))
      = map_option (\<lambda>a. Some (a\<lparr>md_max_combo := combo\<rparr>))
          (mania_attributes lm rm rate_of_mods (set_passed_objects (word_of_nat (i + 1)) d) bm)
    \<and> ((\<forall>h\<in>set (bm_hit_objects bm). is_circle h) \<longrightarrow> combo = word_of_nat (i + 1)
      \<and> (\<forall>a. mania_attributes lm rm rate_of_mods (set_passed_objects (word_of_nat (i + 1)) d) bm = Some a
          \<longrightarrow> md_max_combo a = combo))"
  using mania_gradual_matches [OF assms refl] by blast

theorem mania_gradual_is_regular_witness:
  "\<forall>lm rm. \<exists>combo. map_option fst (after_calls (mania_gradual_next lm (\<lambda>_. lit 1 1)) 1 (mania_gradual_of_map rm (\<lambda>_. lit 1 1) (difficulty_new ()) mania_example))
      = map_option (\<lambda>a. Some (a\<lparr>md_max_combo := combo\<rparr>))
          (mania_attributes lm rm (\<lambda>_. lit 1 1) (set_passed_objects 2 (difficulty_new ())) mania_example)"
proof (intro allI, goal_cases)
  case (1 lm rm)
  have "1 < min (unat (get_passed_objects (difficulty_new ()))) (length (bm_hit_objects mania_example))"
    "length (bm_hit_objects mania_example) < 2 ^ 32" by (simp_all add: all_passed mania_example_def)
  from mania_gradual_is_regular [OF this, of lm "\<lambda>_. lit 1 1" rm] show ?case by (auto simp: numeral_2_eq_2)
qed

text \<open>
  The combo is not: the gradual calculator takes the length of a hold note from its times
  divided and multiplied again by the clock rate. At a rate of 1.1 a hold note of 100 ms at
  98 ms counts 99.99\<dots> ms, so that the map of one note and this hold note has a combo of 2
  where the regular calculation says 3.
\<close>

lemma mania_gradual_combo_differs:
  "\<exists>a g'. mania_attributes lm rm (\<lambda>_. lit 11 10) (set_passed_objects 2 (difficulty_new ())) mania_example = Some a
    \<and> md_max_combo a = 3
    \<and> after_calls (mania_gradual_next lm (\<lambda>_. lit 11 10)) 1 (mania_gradual_of_map rm (\<lambda>_. lit 11 10) (difficulty_new ()) mania_example)
        = Some (Some (a\<lparr>md_max_combo := 2\<rparr>), g')"
proof -
  let ?r = "lit 11 10" and ?d = "difficulty_new ()"
  have r: "get_clock_rate (\<lambda>_. ?r) (set_passed_objects 2 ?d) = ?r" "get_clock_rate (\<lambda>_. ?r) ?d = ?r"
    by (simp_all add: get_clock_rate_def difficulty_new_def set_passed_objects_def)
  have l: "lit 98 1 = F64 4636596553866280960" "lit 100 1 = F64 4636737291354636288" "?r = F64 4607632778762754458"
    by (simp_all add: f64_eval)
  have q: "lit 98 1 + lit 100 1 = F64 4641170522237829120" unfolding l by (simp add: f64_eval)
  have s: "lit 98 1 / ?r = F64 4635969632327243589" unfolding l by (simp add: f64_eval)
  have e: "F64 4641170522237829120 / ?r = F64 4640537203540230143" unfolding l by (simp add: f64_eval)
  have s2: "F64 4635969632327243589 * ?r = F64 4636596553866280960" unfolding l by (simp add: f64_eval)
  have e2: "F64 4640537203540230143 * ?r = F64 4641170522237829119" unfolding l by (simp add: f64_eval)
  have m: "F64 4641170522237829119 - F64 4636596553866280960 = F64 4636737291354636286" by (simp add: f64_eval)
  have n: "F64 4636737291354636286 / lit 100 1 = F64 4607182418800017405" unfolding l by (simp add: f64_eval)
  have z: "as_u32 (F64 4607182418800017405) = 0" by (simp add: f64_eval)
  have "F64 4636737291354636288 / F64 4636737291354636288 = F64 4607182418800017408" by (simp add: f64_eval)
  moreover have "as_u32 (F64 4607182418800017408) = 1" by (simp add: f64_eval)
  ultimately have one: "as_u32 (lit 100 1 / lit 100 1) = 1" unfolding l by simp
  have v: "as_u32 (((lit 98 1 + lit 100 1) / ?r * ?r - lit 98 1 / ?r * ?r) / lit 100 1) = 0"
    by (simp only: q s e s2 e2 m n z)
  define c where "c = nt_curr_combo (mania_notes_after rm ?r mania_example 1)"
  have c: "c = 2"
    unfolding c_def mania_notes_after_def using v
    by (simp add: Let_def mania_example_def mania_object_of_def mania_object_new_def mania_diff_objects_def
        mania_difficulty_object_new_def increment_combo_def increment_combo_raw_def is_circle_def)
  have "1 / 128 \<le> fval ?r" "is_fin ?r"
    by (simp_all add: l fval_def gval_def man_def ex_def sgn_bit_def magn_def is_fin_def inf_mag_def)
  then have ok: "clock_rate_ok (get_clock_rate (\<lambda>_. ?r) (set_passed_objects 2 ?d))" unfolding r by (simp add: clock_rate_ok_def)
  have p: "unat (get_passed_objects (set_passed_objects 2 ?d)) = 2" using passed_after_set [of 2 ?d] by simp
  obtain vs where vs: "mania_values lm rm (\<lambda>_. ?r) (set_passed_objects 2 ?d) mania_example = Some vs"
    "mdv_max_combo vs = sum_list (map (object_combo rm mania_example) (bm_hit_objects mania_example))"
    using mania_values_return [OF mania_example_ok(2) ok, of lm rm] unfolding p by (auto simp: mania_example_def)
  then have combo: "mdv_max_combo vs = 3" using one by (simp add: mania_example_def object_combo_def)
  define a where "a = \<lparr>md_stars = mania_strain_difficulty_value (mdv_strain vs) * mania_difficulty_multiplier,
        md_n_objects = word_of_nat (min (unat (get_passed_objects (set_passed_objects 2 ?d))) (length (bm_hit_objects mania_example))),
        md_n_hold_notes = mdv_n_hold_notes vs, md_max_combo = mdv_max_combo vs, md_is_convert = bm_is_convert mania_example\<rparr>"
  have a: "mania_attributes lm rm (\<lambda>_. ?r) (set_passed_objects 2 ?d) mania_example = Some a" "md_max_combo a = 3"
    using vs(1) combo by (simp_all add: mania_attributes_def a_def)
  have i: "1 < min (unat (get_passed_objects ?d)) (length (bm_hit_objects mania_example))"
    "length (bm_hit_objects mania_example) < 2 ^ 32" by (simp_all add: all_passed mania_example_def)
  have w: "word_of_nat (1 + 1) = (2 :: u32)" by simp
  have "map_option fst (after_calls (mania_gradual_next lm (\<lambda>_. ?r)) 1 (mania_gradual_of_map rm (\<lambda>_. ?r) ?d mania_example))
      = Some (Some (a\<lparr>md_max_combo := 2\<rparr>))"
    using mania_gradual_matches [OF i, of 2 rm "\<lambda>_. ?r" lm] c unfolding c_def r w a(1) by simp
  then show ?thesis using a by (auto simp: map_option_case split: option.splits)
qed

text \<open>
  On a map without objects the exact size of the iterator is 1, but it yields nothing.
\<close>

lemma mania_gradual_empty:
  assumes "bm_hit_objects bm = []"
  shows "mania_gradual_len (mania_gradual_of_map rm rate_of_mods d bm) = Some 1
    \<and> map_option fst (mania_gradual_next lm rate_of_mods (mania_gradual_of_map rm rate_of_mods d bm)) = Some None"
  using assms by (simp add: mania_gradual_len_def mania_gradual_next_def mania_gradual_of_map_parts mania_diff_objects_nth)

section \<open>The gradual performance calculator is the regular one\<close>

text \<open>The points depend on everything but the combo.\<close>

lemma mania_calculate_combo:
  "mania_calculate api lm \<lparr>mc_attrs = a\<lparr>md_max_combo := combo\<rparr>, mc_mods = m, mc_state = s\<rparr>
    = (mania_calculate api lm \<lparr>mc_attrs = a, mc_mods = m, mc_state = s\<rparr>)\<lparr>ma_difficulty := a\<lparr>md_max_combo := combo\<rparr>\<rparr>"
  by (simp add: mania_calculate_def mania_difficulty_value_def Let_def)

lemma mania_generate_state_attrs:
  assumes "calc (mp_difficulty x) bm = Inr a"
  shows "map_sum id fst (mania_generate_state calc (x\<lparr>mp_map_or_attrs := FromMap bm\<rparr>))
    = map_sum id fst (mania_generate_state calc (x\<lparr>mp_map_or_attrs := FromAttrs (a\<lparr>md_max_combo := combo\<rparr>)\<rparr>))"
proof -
  have r: "resolve_attrs (calc (mp_difficulty x)) (FromMap bm) = Inr (a, FromAttrs a)"
    "resolve_attrs (calc (mp_difficulty x)) (FromAttrs b) = Inr (b, FromAttrs b)" for b
    using assms by (simp_all add: resolve_attrs_def insert_attrs_def)
  have f: "map_sum id fst (case t of (n320, n300, n200, n100, n50) \<Rightarrow> Inr (s n320 n300 n200 n100 n50, y n320 n300 n200 n100 n50))
    = (case t of (n320, n300, n200, n100, n50) \<Rightarrow> Inr (s n320 n300 n200 n100 n50))" for t s y
    by (simp split: prod.split)
  show ?thesis
    by (cases "mp_acc x"; cases "get_lazer (mp_difficulty x)") (simp_all add: mania_generate_state_def r Let_def f)
qed

lemma mania_performance_of_attrs:
  assumes "calc d bm = Inr a"
  shows "\<exists>s. mania_performance_calculate api lm calc
      (mania_set_state st (mania_set_difficulty d (mania_from_map_or_attrs default_mods (FromMap bm))))
      = Inr (mania_calculate api lm \<lparr>mc_attrs = a, mc_mods = d_mods d, mc_state = s\<rparr>)
    \<and> mania_performance_calculate api lm calc
      (mania_set_difficulty d (mania_set_state st (mania_from_map_or_attrs default_mods (FromAttrs (a\<lparr>md_max_combo := combo\<rparr>)))))
      = Inr (mania_calculate api lm \<lparr>mc_attrs = a\<lparr>md_max_combo := combo\<rparr>, mc_mods = d_mods d, mc_state = s\<rparr>)"
proof -
  define x where "x = mania_set_state st (mania_set_difficulty d (mania_from_map_or_attrs default_mods (FromMap bm)))"
  have x: "mp_difficulty x = d" "x\<lparr>mp_map_or_attrs := FromMap bm\<rparr> = x"
    "mania_set_difficulty d (mania_set_state st (mania_from_map_or_attrs default_mods (FromAttrs a'))) = x\<lparr>mp_map_or_attrs := FromAttrs a'\<rparr>" for a'
    by (simp_all add: x_def mania_set_state_def mania_set_difficulty_def mania_from_map_or_attrs_def)
  let ?x = "x\<lparr>mp_map_or_attrs := FromAttrs (a\<lparr>md_max_combo := combo\<rparr>)\<rparr>"
  let ?calc = "\<lambda>self attrs s. mania_calculate api lm \<lparr>mc_attrs = attrs, mc_mods = d_mods (mp_difficulty self), mc_state = s\<rparr>"
  have m: "mp_map_or_attrs x = FromMap bm" by (simp add: x_def mania_set_state_def mania_set_difficulty_def mania_from_map_or_attrs_def)
  have r: "resolve_attrs (calc (mp_difficulty x)) (mp_map_or_attrs x) = Inr (a, FromAttrs a)"
    "resolve_attrs (calc (mp_difficulty ?x)) (mp_map_or_attrs ?x) = Inr (a\<lparr>md_max_combo := combo\<rparr>, FromAttrs (a\<lparr>md_max_combo := combo\<rparr>))"
    using assms by (simp_all add: resolve_attrs_def insert_attrs_def m x(1))
  obtain s y where y: "mania_generate_state calc x = Inr (s, y)" "mp_difficulty y = d"
    "calculate_with (mania_generate_state calc) mp_map_or_attrs mp_difficulty calc ?calc x = Inr (?calc y a s)"
    using mania_generator.runs_calculator [of calc x, OF r(1), of ?calc] unfolding x(1) by blast
  obtain s' y' where y': "mania_generate_state calc ?x = Inr (s', y')" "mp_difficulty y' = mp_difficulty ?x"
    "calculate_with (mania_generate_state calc) mp_map_or_attrs mp_difficulty calc ?calc ?x = Inr (?calc y' (a\<lparr>md_max_combo := combo\<rparr>) s')"
    using mania_generator.runs_calculator [of calc ?x, OF r(2), of ?calc] by blast
  have "calc (mp_difficulty x) bm = Inr a" using assms x(1) by simp
  from mania_generate_state_attrs [of calc x bm a combo, OF this] have "s' = s" unfolding x(2) y(1) y'(1) by simp
  then show ?thesis using y(2,3) y'(2,3) unfolding x(3) x_def [symmetric]
    by (intro exI [of _ s]) (simp add: mania_performance_calculate_def x(1))
qed

text \<open>The calculator is on its map, and counts the objects it has passed.\<close>

lemma mania_steps_difficulty:
  "process_all (mania_gradual_step lm rate_of_mods) cs g = Some g' \<Longrightarrow> mgd_difficulty g' = mgd_difficulty g"
proof (induction cs arbitrary: g)
  case (Cons c cs)
  then obtain g1 where g1: "mania_gradual_step lm rate_of_mods c g = Some g1" "process_all (mania_gradual_step lm rate_of_mods) cs g1 = Some g'"
    by (auto split: option.splits)
  then show ?case using Cons.IH [of g1] by (auto simp: mania_gradual_step_def split: prod.splits)
qed simp

lemma mania_gradual_after_idx:
  assumes "i < min (unat (get_passed_objects d)) (length (bm_hit_objects bm))"
    "after_calls (mania_gradual_next lm rate_of_mods) i (mania_gradual_of_map rm rate_of_mods d bm) = Some (r, g')"
  shows "mgd_difficulty g' = d \<and> mgd_idx g' = i + 1"
proof -
  let ?g = "mania_gradual_of_map rm rate_of_mods d bm"
  note wf = mania_gradual_wf_new [of rm rate_of_mods d bm]
  have "i \<le> min (length (bm_hit_objects bm)) (unat (get_passed_objects d)) - 1" using assms(1) by linarith
  then have i: "mgd_idx ?g = 0" "i \<le> length (mgd_diff_objects ?g)" "mgd_objects_is_circle ?g \<noteq> []"
    using assms(1) by (auto simp: mania_gradual_of_map_parts mania_diff_objects_nth)
  have "mgd_idx g' = i + 1"
    using mania_iter.after_new_keeps [OF wf i(1) i(3) _ assms(2)] i(2) mania_items_length [OF wf] by simp
  moreover obtain g2 where "process_all (mania_gradual_step lm rate_of_mods) (zip (take i (mgd_diff_objects ?g))
      (take i (drop 1 (mgd_objects_is_circle ?g)))) (?g\<lparr>mgd_idx := 1\<rparr>) = Some g2" "g' = g2"
    using assms(2) mania_gradual_after_process [OF wf i, of lm rate_of_mods] by (auto simp: map_option_case split: option.splits)
  ultimately show ?thesis using mania_steps_difficulty by (fastforce simp: mania_gradual_of_map_parts)
qed

text \<open>
  C8. The gradual performance calculator returns the points of the regular one: after \<open>i\<close>
  skipped objects its result for a score state is that of a calculator for the map with
  \<open>i + 1\<close> passed objects and the same state, but for the combo in the attributes it shows.
\<close>

theorem mania_gradual_performance_is_regular:
  assumes "i < min (unat (get_passed_objects d)) (length (bm_hit_objects bm))" "length (bm_hit_objects bm) < 2 ^ 32"
    "mania_attributes lm rm (mods_clock_rate api) (set_passed_objects (word_of_nat (i + 1)) d) bm = Some a"
    "calc (set_passed_objects (word_of_nat (i + 1)) d) bm = Inr a"
  shows "\<exists>p combo g'. mania_performance_calculate api lm calc (mania_set_state st (mania_set_passed_objects (word_of_nat (i + 1))
        (mania_set_difficulty d (mania_from_map_or_attrs default_mods (FromMap bm))))) = Inr p
    \<and> mania_gradual_performance_nth api lm default_mods calc st i (mania_gradual_of_map rm (mods_clock_rate api) d bm)
      = Some (Some (Inr (p\<lparr>ma_difficulty := (ma_difficulty p)\<lparr>md_max_combo := combo\<rparr>\<rparr>)), g')"
proof -
  let ?g = "mania_gradual_of_map rm (mods_clock_rate api) d bm"
  define d' where "d' = set_passed_objects (word_of_nat (i + 1)) d"
  define combo where "combo = nt_curr_combo (mania_notes_after rm (get_clock_rate (mods_clock_rate api) d) bm i)"
  have "i \<le> min (length (bm_hit_objects bm)) (unat (get_passed_objects d)) - 1" using assms(1) by linarith
  then have "i \<le> length (mgd_diff_objects ?g) + 1 - mgd_idx ?g - 1"
    by (simp add: mania_gradual_of_map_parts mania_diff_objects_nth)
  then have "mania_gradual_nth lm (mods_clock_rate api) i ?g = after_calls (mania_gradual_next lm (mods_clock_rate api)) i ?g"
    using mania_nth_is_after [OF mania_gradual_wf_new, of lm "mods_clock_rate api" i rm "mods_clock_rate api" d bm] by (simp add: min_absorb1)
  moreover have "map_option fst (after_calls (mania_gradual_next lm (mods_clock_rate api)) i ?g) = Some (Some (a\<lparr>md_max_combo := combo\<rparr>))"
    using mania_gradual_matches [OF assms(1,2) combo_def, of lm] assms(3) by simp
  ultimately obtain g' where g': "mania_gradual_nth lm (mods_clock_rate api) i ?g = Some (Some (a\<lparr>md_max_combo := combo\<rparr>), g')"
    by (auto simp: map_option_case split: option.splits)
  have idx: "mgd_difficulty g' = d" "mgd_idx g' = i + 1" using mania_gradual_after_idx [OF assms(1)] g'
    \<open>mania_gradual_nth lm (mods_clock_rate api) i ?g = after_calls (mania_gradual_next lm (mods_clock_rate api)) i ?g\<close> by metis+
  obtain s where s: "mania_performance_calculate api lm calc
      (mania_set_state st (mania_set_difficulty d' (mania_from_map_or_attrs default_mods (FromMap bm))))
      = Inr (mania_calculate api lm \<lparr>mc_attrs = a, mc_mods = d_mods d', mc_state = s\<rparr>)"
    "mania_performance_calculate api lm calc
      (mania_set_difficulty d' (mania_set_state st (mania_from_map_or_attrs default_mods (FromAttrs (a\<lparr>md_max_combo := combo\<rparr>)))))
      = Inr (mania_calculate api lm \<lparr>mc_attrs = a\<lparr>md_max_combo := combo\<rparr>, mc_mods = d_mods d', mc_state = s\<rparr>)"
    using mania_performance_of_attrs [of calc d' bm a api lm st default_mods combo] assms(4) unfolding d'_def by blast
  let ?p = "mania_calculate api lm \<lparr>mc_attrs = a, mc_mods = d_mods d', mc_state = s\<rparr>"
  have o: "mania_set_passed_objects w (mania_set_difficulty d x) = mania_set_difficulty (set_passed_objects w d) x" for w x
    by (simp add: mania_set_passed_objects_def mania_set_difficulty_def)
  have "ma_difficulty ?p = a" by (simp add: mania_calculate_def Let_def)
  then have "mania_gradual_performance_nth api lm default_mods calc st i ?g
      = Some (Some (Inr (?p\<lparr>ma_difficulty := (ma_difficulty ?p)\<lparr>md_max_combo := combo\<rparr>\<rparr>)), g')"
    unfolding mania_gradual_performance_nth_def g' option.map prod.case idx o d'_def [symmetric] s(2) mania_calculate_combo by simp
  moreover have "mania_performance_calculate api lm calc (mania_set_state st (mania_set_passed_objects (word_of_nat (i + 1))
        (mania_set_difficulty d (mania_from_map_or_attrs default_mods (FromMap bm))))) = Inr ?p"
    using s(1) by (simp only: o d'_def [symmetric])
  ultimately show ?thesis by blast
qed

theorem mania_gradual_performance_is_regular_witness:
  "\<forall>lm rm st. \<exists>a p combo g'. mania_gradual_performance_nth listed_mods lm (Lazer []) (\<lambda>_ (_ :: (unit, unit) beatmap). Inr a) st 1
      (mania_gradual_of_map rm (mods_clock_rate listed_mods) (difficulty_new (Lazer [])) mania_example)
      = Some (Some (Inr (p\<lparr>ma_difficulty := (ma_difficulty p)\<lparr>md_max_combo := combo\<rparr>\<rparr>)), g')"
proof (intro allI, goal_cases)
  case (1 lm rm st)
  let ?d = "difficulty_new (Lazer [])"
  have i: "1 < min (unat (get_passed_objects ?d)) (length (bm_hit_objects mania_example))"
    "length (bm_hit_objects mania_example) < 2 ^ 32" by (simp_all add: all_passed mania_example_def)
  have "mods_clock_rate listed_mods (Lazer []) = lit 1 1" by (simp add: mods_clock_rate_def listed_mods_def listed_rate_def)
  then have "clock_rate_ok (get_clock_rate (mods_clock_rate listed_mods) (set_passed_objects (word_of_nat (1 + 1)) ?d))"
    using mania_example_ok(3) by (simp add: get_clock_rate_def set_passed_objects_def difficulty_new_def)
  from mania_values_return [OF mania_example_ok(2) this, of lm rm]
  obtain a where a: "mania_attributes lm rm (mods_clock_rate listed_mods) (set_passed_objects (word_of_nat (1 + 1)) ?d) mania_example = Some a"
    by (auto simp: mania_attributes_def)
  from mania_gradual_performance_is_regular [OF i a, of "\<lambda>_ _. Inr a" st "Lazer []"]
  obtain p combo g' where "mania_gradual_performance_nth listed_mods lm (Lazer []) (\<lambda>_ (_ :: (unit, unit) beatmap). Inr a) st 1
      (mania_gradual_of_map rm (mods_clock_rate listed_mods) ?d mania_example)
      = Some (Some (Inr (p\<lparr>ma_difficulty := (ma_difficulty p)\<lparr>md_max_combo := combo\<rparr>\<rparr>)), g')" by blast
  then show ?case by (intro exI)
qed

end
