(* ===== verification/Spec2Isabelle.thy ===== *)
theory Spec2Isabelle
  imports Osu_PP Mode_PP Map_Attributes Limited_Queue Strains_Vec Sorting_Legacy Any_Performance Catch_Gradual Mania_Gradual
begin

text \<open>
  A model of the difficulty and performance calculation of osu! beatmaps, translated from the
  Rust crate in this repository (\<open>src/\<close>), and the theorems that make it correct.

  \<^bold>\<open>The program.\<close> A \<open>Beatmap\<close> (\<open>src/model/beatmap\<close>) is converted to the mode it is calculated for
  (\<open>convert_ref\<close>, \<open>convert_mut\<close>). \<open>Difficulty\<close> (\<open>src/any/difficulty/mod.rs\<close>) holds the settings and mods;
  the difficulty calculation of a mode makes objects of the map, runs its strain skills over them
  and returns difficulty attributes. \<open>Performance\<close> (\<open>src/any/performance/mod.rs\<close>) is one of four
  calculators; \<open>generate_state\<close> fills up the hit results of a score from what is known of it, and
  \<open>calculate\<close> computes the points from attributes and state. The gradual calculators do both for one
  object more at every call.

  \<^bold>\<open>Theories and sources.\<close> In the order of imports:
  \<^item> \<open>Prelude\<close>: types and abbreviations of Rust's integers, \<open>map_or\<close>, \<open>saturating_sub\<close>, facts on words.
  \<^item> \<open>Rounding\<close>, \<open>F64\<close>, \<open>F32\<close>, \<open>F64_Values\<close>, \<open>F32_Values\<close>: IEEE floats by their bits, with all operations
    the code uses. \<open>rounds_to\<close> says that a value is the rounding of a real number; the bounds of all
    numeric properties are proved with it, so that they hold of the floats and not of real numbers.
    \<open>Libm\<close> is the record of the platform's functions (\<open>exp\<close>, \<open>powf\<close>, \<dots>), which are arguments.
  \<^item> \<open>Random_Numbers\<close> (\<open>src/util/random.rs\<close>), \<open>Sorting\<close>, \<open>Sorting_Legacy\<close> (\<open>src/util/sort\<close>), \<open>Limited_Queue\<close>,
    \<open>Strains_Vec\<close> (\<open>src/util/limited_queue.rs\<close>, \<open>strains_vec.rs\<close>), \<open>Difficulty_Math\<close> (\<open>src/util/difficulty.rs\<close>,
    \<open>special_functions.rs\<close>).
  \<^item> \<open>Mods\<close>, \<open>Settings\<close>, \<open>Score_State\<close>, \<open>Accuracy\<close> (\<open>src/model/mods.rs\<close>, \<open>src/any/difficulty\<close>, the score states of
    all modes), \<open>Control_Points\<close>, \<open>Beatmap\<close>, \<open>Rosu_Map\<close>, \<open>Map_Attributes\<close> (\<open>src/model\<close>).
  \<^item> \<open>Hit_Results\<close> and \<open>Osu_\<close>, \<open>Taiko_\<close>, \<open>Catch_\<close>, \<open>Mania_Performance\<close>: the calculators of the modes with
    all settings and \<open>generate_state\<close> (\<open>src/*/performance/mod.rs\<close>). \<open>Legacy_Score\<close>, \<open>Osu_PP\<close>, \<open>Mode_PP\<close>:
    the points (\<open>src/*/performance/calculator.rs\<close>) and \<open>calculate\<close>.
  \<^item> \<open>Skills\<close> (\<open>src/any/difficulty/skills.rs\<close> and the macro \<open>define_skill!\<close>), \<open>Catch_Objects\<close>,
    \<open>Catch_Difficulty\<close>, \<open>Mania_Difficulty\<close> (\<open>src/catch\<close>, \<open>src/mania\<close>), and with \<open>Gradual\<close> the gradual
    calculators \<open>Catch_Gradual\<close>, \<open>Mania_Gradual\<close>.
  \<^item> \<open>Any_Performance\<close> (\<open>src/any/performance\<close>): the calculator for any mode, its steps and what they keep.

  \<^bold>\<open>How the code is modelled.\<close> Structs are records, enums datatypes, methods with \<open>mut self\<close> functions
  that return the updated record. Integers are words of their width; indices are natural numbers, and
  where the code subtracts from one, a result below zero is a panic. A panic is \<open>None\<close>, and so is a loop
  that does not end: such loops are partial functions, and that they return is proved. Errors are the
  left side of a sum. Code of other crates is an argument: the mods (\<open>rosu_mods\<close>), the curves and slider
  events of \<open>rosu-map\<close> (\<open>rosu_map\<close>), the functions of the platform (\<open>libm\<close>), and for the calculator of
  any mode the map converters and the difficulty calculations (\<open>environment\<close>), the latter as partial
  functions.

  \<^bold>\<open>Interfaces.\<close> Locales state what clients rely on, and each is interpreted on the model: the generator of
  hit results (\<open>mode_generator\<close>), the score states (\<open>score_conversion\<close>), a strain skill (\<open>skill\<close>), a gradual
  calculator (\<open>gradual\<close>), lists of control points, queues and comparisons for sorting.

  \<^bold>\<open>What is proved.\<close>
  \<^item> Hit results: for every mode the generated state adds up to the hits of the map, keeps what was
    given and caps misses and combo; with an accuracy given no other split of the remaining hits is
    closer, in floats; and \<open>generate_state\<close> is a fixed point, so that \<open>calculate\<close> sees the state shown.
  \<^item> Accuracies, offsets, effective misses and difficulty values stay in their bounds, subtractions
    of \<open>u32\<close> do not wrap where stated, and settings keep their clamps.
  \<^item> Sorting, queue, compressed strains and look-ups agree with lists, sorts and linear scans.
  \<^item> Termination: the conversion to palpable objects, the section loops of the skills, the sorts and the
    difficulty calculations of osu!mania and osu!catch return; where the code panics the condition
    is part of the statement.
  \<^item> The gradual calculators are the regular ones with as many passed objects.
  \<^item> The calculator for any mode: what every value of the type does (\<open>Any_Performance\<close>), that those made by
    \<open>Performance::new\<close> need no conversion that can fail, and, below, from an osu!mania map to its points.

  \<^bold>\<open>Bounds.\<close> Times are up to \<open>2 ^ 43\<close> ms and clock rates at least 1/128, so that the section ends, integers
  below \<open>2 ^ 52\<close>, are exact and every addition of the section length makes progress; spinners end in the
  first two hours, as the sums of 32-bit floats in a banana shower no longer grow late in a map;
  mania maps have at most \<open>2 ^ 24\<close> columns, where the column index is exact. No fuel is used: loops
  are partial functions with a proof that they end, or structural.

  \<^bold>\<open>Not modelled.\<close> The difficulty skills and objects of osu!standard and osu!taiko with their gradual
  calculators, the conversions to osu!taiko and osu!mania (only that they set the mode is used), the decoding of
  files (\<open>src/model/beatmap/decode.rs\<close>, hooks of the parser in \<open>rosu-map\<close>), \<open>GradualDifficulty\<close> and
  \<open>GradualPerformance\<close> of any mode, which only dispatch, and the wrappers for threads of \<open>src/util/sync.rs\<close>.
\<close>

section \<open>From a map to the points\<close>

lemma mania_attributes_return:
  assumes "mania_map_ok bm" "clock_rate_ok (get_clock_rate rate_of_mods d)"
    "hs = take (unat (get_passed_objects d)) (bm_hit_objects bm)"
  shows "\<exists>a. mania_attributes lm rm rate_of_mods d bm = Some a
    \<and> md_n_objects a = word_of_nat (length hs)
    \<and> md_n_hold_notes a = word_of_nat (length (filter (\<lambda>h. \<not> is_circle h) hs))
    \<and> md_max_combo a = sum_list (map (object_combo rm bm) hs)"
proof -
  have "min (unat (get_passed_objects d)) (length (bm_hit_objects bm)) = length hs" by (simp add: assms(3))
  then show ?thesis using mania_values_return [OF assms(1,2), of lm rm] unfolding assms(3) [symmetric]
    by (auto simp: mania_attributes_def)
qed

text \<open>
  C40. From a map to the points, for osu!mania: a calculator that \<open>Performance::new\<close> made of an
  osu!mania map whose objects come in order, within three centuries, on at most \<open>2 ^ 24\<close> columns
  does not panic and ends, whatever was set in between, at a clock rate of at least 1/128. This
  joins the outer calculator with the difficulty calculation of the mode: the points are
  those of osu!mania, for the objects and hold notes that were passed, and the state that
  \<open>generate_state\<close> shows belongs to the same attributes.
\<close>

theorem mania_performance_returns:
  assumes "perf_made env p" "modes_set (env_converters env)" "perf_mode p = Mania" "perf_map p = Some bm"
    "env_mania env = mania_attributes (env_libm env) rm (mods_clock_rate (env_api env))"
    "mania_map_ok (cow_get bm)" "clock_rate_ok (get_clock_rate (mods_clock_rate (env_api env)) (perf_difficulty p))"
    "hs = take (unat (get_passed_objects (perf_difficulty p))) (bm_hit_objects (cow_get bm))"
  shows "\<exists>r s q. perf_calculate env p = Some (PAMania r)
    \<and> md_n_objects (ma_difficulty r) = word_of_nat (length hs)
    \<and> md_n_hold_notes (ma_difficulty r) = word_of_nat (length (filter (\<lambda>h. \<not> is_circle h) hs))
    \<and> md_max_combo (ma_difficulty r) = sum_list (map (object_combo rm (cow_get bm)) hs)
    \<and> perf_generate_state env p = Some (s, q) \<and> perf_attrs q = Some (DAMania (ma_difficulty r))"
proof -
  obtain a where a: "env_mania env (perf_difficulty p) (cow_get bm) = Some a" "md_n_objects a = word_of_nat (length hs)"
    "md_n_hold_notes a = word_of_nat (length (filter (\<lambda>h. \<not> is_circle h) hs))"
    "md_max_combo a = sum_list (map (object_combo rm (cow_get bm)) hs)"
    using mania_attributes_return [OF assms(6,7,8)] unfolding assms(5) by blast
  have "bm_mode (cow_get bm) = Mania" using made_typed [OF assms(1,2)] assms(3,4) by (simp add: perf_typed_def)
  then have "perf_attributes env p = Some (DAMania a)"
    using assms(3,4) a(1) by (simp add: perf_attributes_def convert_ref_def env_values_def)
  then obtain r s q where r: "perf_calculate env p = Some r" "performance_difficulty r = DAMania a"
    "perf_generate_state env p = Some (s, q)" "perf_attrs q = Some (DAMania a)"
    using perf_runs [of env p] by (auto simp: runs_def)
  then obtain x where "r = PAMania x" "ma_difficulty x = a"
    by (cases r) (auto simp: performance_difficulty_def)
  then show ?thesis using r a by auto
qed

theorem mania_performance_returns_witness:
  "\<forall>lm rm. \<exists>r. perf_calculate ((example_env lm)\<lparr>env_mania := mania_attributes lm rm (mods_clock_rate listed_mods)\<rparr>)
      (map_into_performance (Lazer []) (Borrowed mania_example)) = Some (PAMania r)
    \<and> md_n_objects (ma_difficulty r) = 2 \<and> md_n_hold_notes (ma_difficulty r) = 1"
proof (intro allI, goal_cases)
  case (1 lm rm)
  let ?env = "(example_env lm)\<lparr>env_mania := mania_attributes lm rm (mods_clock_rate listed_mods)\<rparr>"
  let ?p = "map_into_performance (Lazer []) (Borrowed mania_example) :: ((mod_name list, mod_name list, mod_name list) game_mods, (unit, unit) beatmap cow) performance"
  have p: "?p = ManiaPerf (mania_from_map_or_attrs (Lazer []) (FromMap (Borrowed mania_example)))"
    by (simp add: map_into_performance_def mania_example_ok(1))
  have v: "perf_mode ?p = Mania" "perf_map ?p = Some (Borrowed mania_example)" "perf_difficulty ?p = difficulty_new (Lazer [])"
    unfolding p by (simp_all add: perf_views held_map_def perf_difficulty_def mania_from_map_or_attrs_def)
  have e: "env_mania ?env = mania_attributes (env_libm ?env) rm (mods_clock_rate (env_api ?env))"
    "modes_set (env_converters ?env)" by (simp_all add: example_env_def modes_set_def set_mode_converters_def)
  have "mods_clock_rate listed_mods (Lazer []) = lit 1 1" by (simp add: mods_clock_rate_def listed_mods_def listed_rate_def)
  then have r: "clock_rate_ok (get_clock_rate (mods_clock_rate (env_api ?env)) (perf_difficulty ?p))"
    unfolding v using mania_example_ok(3) by (simp add: example_env_def get_clock_rate_def difficulty_new_def)
  have n: "take (unat (get_passed_objects (perf_difficulty ?p))) (bm_hit_objects mania_example) = bm_hit_objects mania_example"
    unfolding v by (simp add: all_passed mania_example_def)
  have m: "mania_map_ok (cow_get (Borrowed mania_example))" using mania_example_ok(2) by simp
  show ?case
    using mania_performance_returns [OF perf_made.of_map e(2) v(1,2) e(1) m r refl]
    unfolding cow_get_simps n by (auto simp: mania_example_def is_circle_def)
qed

end
